(* ===== verification/Prelude.thy ===== *)
theory Prelude
  imports Main "HOL-Library.Monad_Syntax"
begin

section \<open>Shared vocabulary: errors, contexts and channels\<close>

text \<open>
  What the components of the voice gateway share with the Go language and its
  standard library: error values with their unwrap chain, the state of a
  \<^verbatim>\<open>context.Context\<close>, buffered channels as bounded first-in first-out lists, and the
  lemma collections the component theories extend.

  A Go \<^verbatim>\<open>string\<close> is a byte sequence; it is modelled by the HOL type \<^typ>\<open>string\<close>, whose
  characters are bytes.  A \<^verbatim>\<open>time.Duration\<close> and an instant of the monotonic clock are
  integers (nanoseconds).  A blocking operation whose schedule of the environment is
  exhausted is the value \<^term>\<open>None\<close>; with the option monad of
  \<^theory_text>\<open>HOL-Library.Monad_Syntax\<close> a sequence of such operations reads as the code does.
\<close>

named_theorems chan_simps \<open>equations of the channel operations\<close>
named_theorems trim_simps \<open>equations of white-space trimming\<close>

type_synonym duration = int
type_synonym instant = int
type_synonym turn_id = nat

subsection \<open>Errors\<close>

text \<open>
  The error values the sources compare with \<^verbatim>\<open>errors.Is\<close> are constructors of their own;
  every other error is a message, and \<^verbatim>\<open>fmt.Errorf("...%w", err)\<close> or a struct with an
  \<^verbatim>\<open>Unwrap\<close> method is \<open>Wrapped\<close>.
\<close>

datatype go_error =
    Canceled
  | DeadlineExceeded
  | EOF
  | UnexpectedEOF
  | ShortWrite
  | TurnInterrupted
  | Message string
  | Wrapped string go_error

text \<open>\<^verbatim>\<open>errors.Is\<close>: the error itself or any error of its unwrap chain.\<close>

fun errors_is :: "go_error \<Rightarrow> go_error \<Rightarrow> bool" where
  "errors_is (Wrapped m e) target = (Wrapped m e = target \<or> errors_is e target)"
| "errors_is e target = (e = target)"

lemma errors_is_refl [simp]: "errors_is e e"
  by (cases e) auto

text \<open>
  The state of a turn context: live; cancelled by \<^verbatim>\<open>cancel(cause)\<close> with the
  interruption cause, which carries the measured latency; or ended by its parent, with
  the parent's \<^verbatim>\<open>Err()\<close>.
\<close>

datatype ctx = Live | Interrupted duration | ParentDone go_error

text \<open>\<^verbatim>\<open>ctx.Err()\<close>: a context cancelled with a cause still reports \<^verbatim>\<open>context.Canceled\<close>.\<close>

fun ctx_err :: "ctx \<Rightarrow> go_error option" where
  "ctx_err Live = None"
| "ctx_err (Interrupted _) = Some Canceled"
| "ctx_err (ParentDone e) = Some e"

text \<open>A context keeps its first cause: later cancellations have no effect.\<close>

fun ctx_cancel :: "ctx \<Rightarrow> ctx \<Rightarrow> ctx" where
  "ctx_cancel Live c = c"
| "ctx_cancel d _ = d"

lemma ctx_err_None [simp]: "ctx_err c = None \<longleftrightarrow> c = Live"
  by (cases c) auto

lemma ctx_cancel_done: "c \<noteq> Live \<Longrightarrow> ctx_cancel c d = c"
  by (cases c) auto

subsection \<open>Integer division\<close>

text \<open>Go's integer quotient truncates towards zero.\<close>

definition go_quot :: "int \<Rightarrow> int \<Rightarrow> int" where
  "go_quot a b = sgn a * sgn b * (\<bar>a\<bar> div \<bar>b\<bar>)"

lemma go_quot_nonneg: "0 \<le> a \<Longrightarrow> 0 < b \<Longrightarrow> go_quot a b = a div b"
  by (cases "a = 0") (simp_all add: go_quot_def)

subsection \<open>Searching a list\<close>

lemma find_append: "find P (xs @ ys) = (case find P xs of None \<Rightarrow> find P ys | Some x \<Rightarrow> Some x)"
  by (induction xs) auto

lemma find_map: "find P (map f xs) = map_option f (find (\<lambda>x. P (f x)) xs)"
  by (induction xs) auto

lemma set_mp_tl: "x \<in> set (tl xs) \<Longrightarrow> x \<in> set xs"
  by (cases xs) auto

subsection \<open>Channels\<close>

text \<open>
  A buffered channel is the list of its buffered elements, oldest first.  A send is
  possible while fewer than \<open>cap\<close> elements are buffered, a receive while there is one.
\<close>

definition chan_can_send :: "nat \<Rightarrow> 'a list \<Rightarrow> bool" where
  "chan_can_send cap q \<longleftrightarrow> length q < cap"

text \<open>A \<^verbatim>\<open>select\<close> with one send case and a \<^verbatim>\<open>default\<close>: was the element accepted, and the channel after.\<close>

definition chan_offer :: "nat \<Rightarrow> 'a \<Rightarrow> 'a list \<Rightarrow> bool \<times> 'a list" where
  "chan_offer cap x q = (if chan_can_send cap q then (True, q @ [x]) else (False, q))"

text \<open>A \<^verbatim>\<open>select\<close> with one receive case and a \<^verbatim>\<open>default\<close>: was an element removed, and the channel after.\<close>

definition chan_discard :: "'a list \<Rightarrow> bool \<times> 'a list" where
  "chan_discard q = (case q of [] \<Rightarrow> (False, []) | _ # q' \<Rightarrow> (True, q'))"

text \<open>
  The three-step publication idiom of the recorder: offer; if full, discard the oldest;
  offer again.  Between the steps a concurrent consumer may receive \<open>k1\<close> and \<open>k2\<close>
  elements.  The result tells whether the discard and the final offer succeeded
  (\<open>discarded\<close>, \<open>sent\<close>).
\<close>

definition chan_replace :: "nat \<Rightarrow> 'a \<Rightarrow> nat \<Rightarrow> nat \<Rightarrow> 'a list \<Rightarrow> bool \<times> bool \<times> 'a list" where
  "chan_replace cap x k1 k2 q =
     (case chan_offer cap x q of
        (True, q') \<Rightarrow> (False, True, q')
      | (False, q') \<Rightarrow>
          (let (discarded, q1) = chan_discard (drop k1 q');
               (sent, q2) = chan_offer cap x (drop k2 q1)
           in (discarded, sent, q2)))"

lemma chan_offer_True [chan_simps]: "length q < cap \<Longrightarrow> chan_offer cap x q = (True, q @ [x])"
  by (simp add: chan_offer_def chan_can_send_def)

lemma chan_offer_False [chan_simps]: "cap \<le> length q \<Longrightarrow> chan_offer cap x q = (False, q)"
  by (simp add: chan_offer_def chan_can_send_def)

lemma snd_chan_discard [simp]: "snd (chan_discard q) = tl q"
  by (cases q) (simp_all add: chan_discard_def)

lemma fst_chan_discard [simp]: "fst (chan_discard q) = (q \<noteq> [])"
  by (cases q) (simp_all add: chan_discard_def)

text \<open>The final offer cannot fail on a channel with room for at least one element.\<close>

lemma chan_replace_eq:
  assumes "0 < cap" "length q \<le> cap"
  shows "chan_replace cap x k1 k2 q =
    (if length q < cap then (False, True, q @ [x])
     else (k1 < cap, True, drop k2 (tl (drop k1 q)) @ [x]))"
proof (cases "length q < cap")
  case True
  then show ?thesis by (simp add: chan_replace_def chan_simps)
next
  case False
  with assms have full: "length q = cap" by simp
  have room: "length (drop k2 (tl (drop k1 q))) < cap"
    using full assms(1) by simp
  have "chan_discard (drop k1 q) = (drop k1 q \<noteq> [], tl (drop k1 q))"
    by (rule prod_eqI) simp_all
  then show ?thesis
    using False full room by (auto simp: chan_replace_def chan_simps)
qed

text \<open>The elements a racing consumer receives during the publication, in order.\<close>

definition chan_taken :: "nat \<Rightarrow> nat \<Rightarrow> nat \<Rightarrow> 'a list \<Rightarrow> 'a list" where
  "chan_taken cap k1 k2 q = (if chan_can_send cap q then [] else take k1 q @ take k2 (tl (drop k1 q)))"

text \<open>
  Nothing is lost unaccounted for: what was buffered and the new element are afterwards
  buffered, received by the consumer, or discarded.
\<close>

lemma chan_replace_account:
  assumes "0 < cap" "length q \<le> cap"
  shows "Suc (length q) = length (snd (snd (chan_replace cap x k1 k2 q))) + length (chan_taken cap k1 k2 q)
    + (if fst (chan_replace cap x k1 k2 q) then 1 else 0)"
proof (cases "length q < cap")
  case True
  then show ?thesis using assms by (simp add: chan_replace_eq chan_taken_def chan_can_send_def)
next
  case False
  with assms show ?thesis
    by (auto simp add: chan_replace_eq chan_taken_def chan_can_send_def)
qed

lemma chan_replace_subset:
  assumes "0 < cap" "length q \<le> cap"
  shows "set (snd (snd (chan_replace cap x k1 k2 q))) \<subseteq> insert x (set q)"
proof -
  have "set (drop k2 (tl (drop k1 q))) \<subseteq> set q"
    by (auto dest!: in_set_dropD set_mp_tl)
  then show ?thesis using assms by (auto simp: chan_replace_eq)
qed

lemma chan_taken_subset: "set (chan_taken cap k1 k2 q) \<subseteq> set q"
  by (auto simp: chan_taken_def dest: in_set_takeD in_set_dropD set_mp_tl)

lemma chan_replace_sent: "0 < cap \<Longrightarrow> length q \<le> cap \<Longrightarrow> fst (snd (chan_replace cap x k1 k2 q))"
  by (simp add: chan_replace_eq)

lemma chan_replace_bound:
  "0 < cap \<Longrightarrow> length q \<le> cap \<Longrightarrow> length (snd (snd (chan_replace cap x k1 k2 q))) \<le> cap"
  by (cases "length q < cap") (simp_all add: chan_replace_eq)

lemma chan_replace_last:
  "0 < cap \<Longrightarrow> length q \<le> cap \<Longrightarrow>
   \<exists>q'. snd (snd (chan_replace cap x k1 k2 q)) = q' @ [x]"
  by (auto simp: chan_replace_eq)

end
