(* ===== verification/Go_Text.thy ===== *)
theory Go_Text
  imports Prelude "HOL-Library.Sublist"
begin

section \<open>Go strings: UTF-8 decoding and white-space trimming\<close>

text \<open>
  The parts of the Go language and of the packages \<^verbatim>\<open>unicode/utf8\<close> and \<^verbatim>\<open>strings\<close> that
  the text-handling components use, on byte strings: decoding one rune, the
  \<^verbatim>\<open>for index, r := range s\<close> loop, \<^verbatim>\<open>utf8.RuneCountInString\<close>, \<^verbatim>\<open>utf8.ValidString\<close> and
  \<^verbatim>\<open>strings.TrimSpace\<close>.
\<close>

type_synonym rune = nat

definition rune_error :: rune where
  "rune_error = 65533"

definition byte_val :: "char \<Rightarrow> nat" where
  "byte_val c = of_char c"

definition byte_chr :: "nat \<Rightarrow> char" where
  "byte_chr n = char_of n"

subsection \<open>Decoding one rune\<close>

definition rune_width :: "nat \<Rightarrow> nat" where
  "rune_width b0 =
     (if b0 < 128 then 1 else if 194 \<le> b0 \<and> b0 \<le> 223 then 2
      else if 224 \<le> b0 \<and> b0 \<le> 239 then 3 else if 240 \<le> b0 \<and> b0 \<le> 244 then 4 else 0)"

definition cont_byte :: "nat \<Rightarrow> bool" where
  "cont_byte b \<longleftrightarrow> 128 \<le> b \<and> b \<le> 191"

text \<open>The second byte's range excludes over-long forms, surrogates and values past U+10FFFF.\<close>

definition second_byte :: "nat \<Rightarrow> nat \<Rightarrow> bool" where
  "second_byte b0 b1 \<longleftrightarrow>
     (if b0 = 224 then 160 \<le> b1 \<and> b1 \<le> 191
      else if b0 = 237 then 128 \<le> b1 \<and> b1 \<le> 159
      else if b0 = 240 then 144 \<le> b1 \<and> b1 \<le> 191
      else if b0 = 244 then 128 \<le> b1 \<and> b1 \<le> 143
      else cont_byte b1)"

text \<open>\<^verbatim>\<open>utf8.DecodeRuneInString\<close>: the rune and its width; a malformed byte is U+FFFD of width 1.\<close>

fun decode_bytes :: "nat list \<Rightarrow> rune \<times> nat" where
  "decode_bytes [] = (rune_error, 0)"
| "decode_bytes (b0 # bs) =
     (if b0 < 128 then (b0, 1)
      else if rune_width b0 = 2 then
        (case bs of b1 # _ \<Rightarrow>
           if second_byte b0 b1 then ((b0 - 192) * 64 + (b1 - 128), 2) else (rune_error, 1)
         | [] \<Rightarrow> (rune_error, 1))
      else if rune_width b0 = 3 then
        (case bs of b1 # b2 # _ \<Rightarrow>
           if second_byte b0 b1 \<and> cont_byte b2
           then ((b0 - 224) * 4096 + (b1 - 128) * 64 + (b2 - 128), 3) else (rune_error, 1)
         | _ \<Rightarrow> (rune_error, 1))
      else if rune_width b0 = 4 then
        (case bs of b1 # b2 # b3 # _ \<Rightarrow>
           if second_byte b0 b1 \<and> cont_byte b2 \<and> cont_byte b3
           then ((b0 - 240) * 262144 + (b1 - 128) * 4096 + (b2 - 128) * 64 + (b3 - 128), 4)
           else (rune_error, 1)
         | _ \<Rightarrow> (rune_error, 1))
      else (rune_error, 1))"

definition decode_rune :: "string \<Rightarrow> rune \<times> nat" where
  "decode_rune s = decode_bytes (map byte_val (take 4 s))"

lemma decode_bytes_width:
  "bs \<noteq> [] \<Longrightarrow> 1 \<le> snd (decode_bytes bs) \<and> snd (decode_bytes bs) \<le> length bs"
  by (cases bs) (auto split: list.splits)

lemma decode_rune_pos: "s \<noteq> [] \<Longrightarrow> 1 \<le> snd (decode_rune s)"
  using decode_bytes_width [of "map byte_val (take 4 s)"] by (auto simp: decode_rune_def)

lemma decode_rune_shrinks: "s \<noteq> [] \<Longrightarrow> length (drop (snd (decode_rune s)) s) < length s"
  using decode_rune_pos [of s] by (cases s) auto

lemma decode_rune_le: "snd (decode_rune s) \<le> length s"
proof (cases "s = []")
  case False
  then show ?thesis
    using decode_bytes_width [of "map byte_val (take 4 s)"] by (auto simp: decode_rune_def)
qed (simp add: decode_rune_def)

text \<open>An ASCII byte decodes to itself, and nothing else decodes to an ASCII rune.\<close>

lemma decode_rune_ascii: "byte_val c < 128 \<Longrightarrow> decode_rune (c # s) = (byte_val c, 1)"
  by (simp add: decode_rune_def)

lemma rune2_ge: "rune_width b0 = 2 \<Longrightarrow> 128 \<le> (b0 - 192) * 64 + (b1 - 128)"
  by (auto simp: rune_width_def split: if_splits)

lemma rune3_ge:
  assumes "rune_width b0 = 3" "second_byte b0 b1"
  shows "128 \<le> (b0 - 224) * 4096 + (b1 - 128) * 64 + (b2 - 128)"
proof (cases "b0 = 224")
  case True
  with assms(2) have "160 \<le> b1" by (simp add: second_byte_def)
  then show ?thesis by (simp add: True)
next
  case False
  with assms(1) have "1 \<le> b0 - 224" by (auto simp: rune_width_def split: if_splits)
  then show ?thesis by simp
qed

lemma rune4_ge:
  assumes "rune_width b0 = 4" "second_byte b0 b1"
  shows "128 \<le> (b0 - 240) * 262144 + (b1 - 128) * 4096 + (b2 - 128) * 64 + (b3 - 128)"
proof (cases "b0 = 240")
  case True
  with assms(2) have "144 \<le> b1" by (simp add: second_byte_def)
  then show ?thesis by (simp add: True)
next
  case False
  with assms(1) have "1 \<le> b0 - 240" by (auto simp: rune_width_def split: if_splits)
  then show ?thesis by simp
qed

lemma decode_bytes_nonascii: "\<not> b0 < 128 \<Longrightarrow> 128 \<le> fst (decode_bytes (b0 # bs))"
  using rune2_ge [of b0] rune3_ge [of b0] rune4_ge [of b0]
  by (simp add: rune_error_def split: list.split)

lemma decode_rune_nonascii: "\<not> byte_val c < 128 \<Longrightarrow> 128 \<le> fst (decode_rune (c # s))"
  using decode_bytes_nonascii [of "byte_val c" "map byte_val (take 3 s)"]
  by (simp add: decode_rune_def del: decode_bytes.simps)

text \<open>The bytes a decoded rune consumes after its first are not ASCII.\<close>

lemma second_byte_ge: "second_byte b0 b1 \<Longrightarrow> 128 \<le> b1"
  by (simp add: second_byte_def cont_byte_def split: if_splits)

lemma cont_byte_ge: "cont_byte b \<Longrightarrow> 128 \<le> b"
  by (simp add: cont_byte_def)

lemma less_2_3_4: "(0::nat) < i \<Longrightarrow> i < n \<Longrightarrow> n \<le> 4 \<Longrightarrow> i = 1 \<or> (i = 2 \<and> 3 \<le> n) \<or> (i = 3 \<and> n = 4)"
  by arith

text \<open>A rune of width \<open>n\<close> has \<open>n - 1\<close> bytes after the first, all of them above ASCII.\<close>

lemma decode_bytes_shape:
  assumes "decode_bytes (b0 # bs) = (r, n)" "1 < n"
  shows "n \<le> 4 \<and> (\<exists>b1 bs1. bs = b1 # bs1 \<and> 128 \<le> b1 \<and>
    (3 \<le> n \<longrightarrow> (\<exists>b2 bs2. bs1 = b2 # bs2 \<and> 128 \<le> b2 \<and>
       (n = 4 \<longrightarrow> (\<exists>b3 bs3. bs2 = b3 # bs3 \<and> 128 \<le> b3)))))"
  using assms
  by (auto split: list.splits if_splits dest: second_byte_ge cont_byte_ge)

lemma decode_bytes_tail:
  assumes "i < snd (decode_bytes bs)" "0 < i"
  shows "128 \<le> bs ! i"
proof (cases bs)
  case Nil
  with assms show ?thesis by simp
next
  case (Cons b0 bs')
  obtain r n where rn: "decode_bytes (b0 # bs') = (r, n)" by fastforce
  with assms Cons have "i < n" "1 < n" by (simp_all del: decode_bytes.simps)
  note shape = decode_bytes_shape [OF rn \<open>1 < n\<close>]
  from less_2_3_4 [OF assms(2) \<open>i < n\<close>] shape show ?thesis
    by (auto simp: Cons numeral_2_eq_2 numeral_3_eq_3)
qed

lemma decode_rune_tail:
  assumes "i < snd (decode_rune s)" "0 < i"
  shows "128 \<le> byte_val (s ! i)"
proof -
  have "i < snd (decode_bytes (map byte_val (take 4 s)))"
    using assms(1) by (simp add: decode_rune_def)
  moreover from this have "i < length (map byte_val (take 4 s))"
    using decode_bytes_width [of "map byte_val (take 4 s)"] by (cases s) auto
  ultimately show ?thesis
    using decode_bytes_tail [of i "map byte_val (take 4 s)"] assms(2) by simp
qed

subsection \<open>The range loop over a string\<close>

text \<open>\<^verbatim>\<open>for index, r := range s\<close>: the byte offset and the rune of every iteration.\<close>

function go_range_from :: "nat \<Rightarrow> string \<Rightarrow> (nat \<times> rune) list" where
  "go_range_from i s =
     (if s = [] then []
      else (i, fst (decode_rune s)) #
           go_range_from (i + snd (decode_rune s)) (drop (snd (decode_rune s)) s))"
  by pat_completeness auto
termination
  by (relation "measure (\<lambda>(i, s). length s)") (use decode_rune_shrinks in auto)

declare go_range_from.simps [simp del]

definition go_range :: "string \<Rightarrow> (nat \<times> rune) list" where
  "go_range s = go_range_from 0 s"

definition rune_count :: "string \<Rightarrow> nat" where
  "rune_count s = length (go_range s)"

text \<open>\<^verbatim>\<open>utf8.ValidString\<close>: no iteration is a malformed byte.\<close>

function valid_utf8 :: "string \<Rightarrow> bool" where
  "valid_utf8 s =
     (if s = [] then True
      else decode_rune s \<noteq> (rune_error, 1) \<and> valid_utf8 (drop (snd (decode_rune s)) s))"
  by pat_completeness auto
termination
  by (relation "measure length") (use decode_rune_shrinks in auto)

declare valid_utf8.simps [simp del]

lemma go_range_from_Nil [simp]: "go_range_from i [] = []"
  by (simp add: go_range_from.simps)

lemma go_range_from_Cons:
  "s \<noteq> [] \<Longrightarrow> go_range_from i s =
     (i, fst (decode_rune s)) # go_range_from (i + snd (decode_rune s)) (drop (snd (decode_rune s)) s)"
  by (simp add: go_range_from.simps)

lemma length_go_range_from: "length (go_range_from i s) \<le> length s"
proof (induction i s rule: go_range_from.induct)
  case (1 i s)
  show ?case
  proof (cases "s = []")
    case False
    with 1 decode_rune_pos [OF False] decode_rune_le [of s] show ?thesis
      by (simp add: go_range_from_Cons)
  qed simp
qed

lemma rune_count_le: "rune_count s \<le> length s"
  by (simp add: rune_count_def go_range_def length_go_range_from)

text \<open>Every offset of the loop lies inside the string.\<close>

lemma go_range_from_offset:
  "(j, r) \<in> set (go_range_from i s) \<Longrightarrow> i \<le> j \<and> j < i + length s"
proof (induction i s rule: go_range_from.induct)
  case (1 i s)
  show ?case
  proof (cases "s = []")
    case True
    with "1.prems" show ?thesis by simp
  next
    case False
    note pos = decode_rune_pos [OF False] and le = decode_rune_le [of s]
    from "1.prems" False consider "(j, r) = (i, fst (decode_rune s))"
      | "(j, r) \<in> set (go_range_from (i + snd (decode_rune s)) (drop (snd (decode_rune s)) s))"
      by (auto simp: go_range_from_Cons)
    then show ?thesis
    proof cases
      case 1
      with False show ?thesis by simp
    next
      case 2
      with "1.IH" False pos le show ?thesis by fastforce
    qed
  qed
qed

text \<open>
  An ASCII character is an iteration of the loop exactly at the offsets that hold its
  byte: the offset of the first such iteration is the position of the first such byte.
\<close>

lemma find_ascii_go_range_from:
  assumes "\<And>r. P r \<Longrightarrow> r < 128"
  shows "find (\<lambda>(j, r). P r) (go_range_from i s) =
    (case find (\<lambda>k. P (byte_val (s ! k))) [0..<length s] of
       None \<Rightarrow> None | Some k \<Rightarrow> Some (i + k, byte_val (s ! k)))"
proof (induction i s rule: go_range_from.induct)
  case (1 i s)
  show ?case
  proof (cases s)
    case Nil
    then show ?thesis by simp
  next
    case (Cons c t)
    define w where "w = snd (decode_rune s)"
    have ne: "s \<noteq> []" using Cons by simp
    have w: "1 \<le> w" "w \<le> length s"
      using decode_rune_pos [OF ne] decode_rune_le [of s] by (auto simp: w_def)
    have upt: "[0..<length s] = 0 # [1..<w] @ map (\<lambda>k. w + k) [0..<length s - w]"
    proof -
      have "[0..<length s] = [0..<w] @ [w..<length s]"
        using w upt_add_eq_append [of 0 w "length s - w"] by simp
      moreover have "[0..<w] = 0 # [1..<w]"
        using w upt_conv_Cons [of 0 w] by simp
      moreover have "[w..<length s] = map (\<lambda>k. w + k) [0..<length s - w]"
        using map_add_upt [of w "length s - w"] w by (simp add: add.commute)
      ultimately show ?thesis by simp
    qed
    show ?thesis
    proof (cases "P (byte_val c)")
      case True
      then have "byte_val c < 128" by (rule assms)
      with True Cons show ?thesis
        by (simp add: go_range_from_Cons decode_rune_ascii upt_conv_Cons del: upt_Suc)
    next
      case False
      have head: "\<not> P (fst (decode_rune s))"
      proof (cases "byte_val c < 128")
        case True
        with False Cons show ?thesis by (simp add: decode_rune_ascii)
      next
        case nonascii: False
        then have "128 \<le> fst (decode_rune s)"
          using Cons by (simp add: decode_rune_nonascii)
        with assms show ?thesis by fastforce
      qed
      have skip: "find (\<lambda>k. P (byte_val (s ! k))) [1..<w] = None"
      proof -
        have "\<not> P (byte_val (s ! k))" if "k \<in> set [1..<w]" for k
        proof -
          have "128 \<le> byte_val (s ! k)"
            using that decode_rune_tail [of k s] by (simp add: w_def)
          with assms show ?thesis by fastforce
        qed
        then show ?thesis by (auto simp: find_None_iff)
      qed
      have "find (\<lambda>k. P (byte_val (s ! k))) [0..<length s] =
        find (\<lambda>k. P (byte_val (s ! k))) (map (\<lambda>k. w + k) [0..<length s - w])"
        using False Cons skip unfolding upt by (simp add: find_append)
      also have "\<dots> = map_option (\<lambda>k. w + k)
          (find (\<lambda>k. P (byte_val (drop w s ! k))) [0..<length s - w])"
        using w by (simp add: find_map)
      finally show ?thesis
        using "1.IH" [OF ne] head w
        by (simp add: go_range_from_Cons [OF ne] w_def [symmetric] split: option.splits)
    qed
  qed
qed

subsection \<open>Trimming white space\<close>

text \<open>
  The UTF-8 encodings of the runes for which \<^verbatim>\<open>unicode.IsSpace\<close> holds.  No encoding is a
  prefix or a suffix of another, so decoding a rune at either end of a string and
  stripping one of these encodings there are the same.
\<close>

definition space_encodings :: "string list" where
  "space_encodings = map (map byte_chr)
     ([[9], [10], [11], [12], [13], [32], [194, 133], [194, 160], [225, 154, 128]] @
      map (\<lambda>b. [226, 128, b]) [128, 129, 130, 131, 132, 133, 134, 135, 136, 137, 138, 168, 169, 175] @
      [[226, 129, 159], [227, 128, 128]])"

fun strip_one :: "string list \<Rightarrow> string \<Rightarrow> string option" where
  "strip_one [] s = None"
| "strip_one (w # ws) s =
     (if w \<noteq> [] \<and> take (length w) s = w then Some (drop (length w) s) else strip_one ws s)"

lemma strip_one_Some: "strip_one ws s = Some s' \<Longrightarrow> \<exists>w \<in> set ws. w \<noteq> [] \<and> s = w @ s'"
proof (induction ws s rule: strip_one.induct)
  case (2 w ws s)
  then show ?case
    by (cases "w \<noteq> [] \<and> take (length w) s = w") (auto, metis append_take_drop_id)
qed simp

lemma strip_one_shrinks: "strip_one ws s = Some s' \<Longrightarrow> length s' < length s"
  by (auto dest!: strip_one_Some)

lemma strip_one_None_prefix: "strip_one ws (s @ t) = None \<Longrightarrow> strip_one ws s = None"
  by (induction ws s rule: strip_one.induct) (auto split: if_splits)

function trim_left :: "string list \<Rightarrow> string \<Rightarrow> string" where
  "trim_left ws s = (case strip_one ws s of None \<Rightarrow> s | Some s' \<Rightarrow> trim_left ws s')"
  by pat_completeness auto
termination
  by (relation "measure (\<lambda>(ws, s). length s)") (auto dest: strip_one_shrinks)

declare trim_left.simps [simp del]

definition trim_space :: "string \<Rightarrow> string" where
  "trim_space s = rev (trim_left (map rev space_encodings) (rev (trim_left space_encodings s)))"

text \<open>A string without white space at its ends.\<close>

definition trimmed :: "string \<Rightarrow> bool" where
  "trimmed s \<longleftrightarrow> strip_one space_encodings s = None \<and>
     strip_one (map rev space_encodings) (rev s) = None"

lemma trim_left_None [trim_simps]: "strip_one ws s = None \<Longrightarrow> trim_left ws s = s"
  by (simp add: trim_left.simps)

lemma strip_one_trim_left: "strip_one ws (trim_left ws s) = None"
proof (induction ws s rule: trim_left.induct)
  case (1 ws s)
  then show ?case
    by (cases "strip_one ws s") (simp_all add: trim_left.simps [of ws s])
qed

lemma trim_left_suffix: "suffix (trim_left ws s) s"
proof (induction ws s rule: trim_left.induct)
  case (1 ws s)
  show ?case
  proof (cases "strip_one ws s")
    case None
    then show ?thesis by (simp add: trim_simps)
  next
    case (Some s')
    with 1 have "suffix (trim_left ws s') s'" by simp
    moreover have "trim_left ws s = trim_left ws s'"
      using Some by (simp add: trim_left.simps [of ws s])
    moreover have "suffix s' s"
      using strip_one_Some [OF Some] by (auto simp: suffix_def)
    ultimately show ?thesis by (metis suffix_order.trans)
  qed
qed

text \<open>Trimming cuts a prefix and a suffix, leaves no white space at the ends and is idempotent.\<close>

lemma trim_space_infix: "\<exists>a b. s = a @ trim_space s @ b"
proof -
  obtain a where a: "s = a @ trim_left space_encodings s"
    using trim_left_suffix [of space_encodings s] by (auto simp: suffix_def)
  obtain b where b: "rev (trim_left space_encodings s) = b @ rev (trim_space s)"
    using trim_left_suffix [of "map rev space_encodings" "rev (trim_left space_encodings s)"]
    by (auto simp: suffix_def trim_space_def)
  have "trim_left space_encodings s = trim_space s @ rev b"
    using arg_cong [OF b, of rev] by simp
  with a show ?thesis by metis
qed

lemma trimmed_trim_space: "trimmed (trim_space s)"
proof -
  let ?l = "trim_left space_encodings s"
  obtain b where b: "rev ?l = b @ rev (trim_space s)"
    using trim_left_suffix [of "map rev space_encodings" "rev ?l"]
    by (auto simp: suffix_def trim_space_def)
  have "?l = trim_space s @ rev b"
    using arg_cong [OF b, of rev] by simp
  then have "strip_one space_encodings (trim_space s @ rev b) = None"
    using strip_one_trim_left [of space_encodings s] by simp
  then have "strip_one space_encodings (trim_space s) = None"
    by (rule strip_one_None_prefix)
  moreover have "strip_one (map rev space_encodings) (rev (trim_space s)) = None"
    by (simp add: trim_space_def strip_one_trim_left)
  ultimately show ?thesis by (simp add: trimmed_def)
qed

lemma trim_space_trimmed [trim_simps]: "trimmed s \<Longrightarrow> trim_space s = s"
  by (simp add: trimmed_def trim_space_def trim_simps)

lemma trim_space_idem [simp]: "trim_space (trim_space s) = trim_space s"
  by (rule trim_space_trimmed [OF trimmed_trim_space])

lemma strip_one_Nil [simp]: "strip_one ws [] = None"
  by (induction ws "[] :: string" rule: strip_one.induct) auto

lemma trim_space_Nil [simp]: "trim_space [] = []"
  by (simp add: trim_space_trimmed trimmed_def)

lemma length_trim_space: "length (trim_space s) \<le> length s"
  using trim_space_infix [of s] by (metis length_append le_add1 le_add2 order_trans)

text \<open>A string whose first and last bytes are visible ASCII is not trimmed.\<close>

lemma trim_space_plain:
  assumes "s \<noteq> []" "32 < byte_val (hd s)" "byte_val (hd s) < 128" "32 < byte_val (last s)" "byte_val (last s) < 128"
  shows "trim_space s = s"
proof -
  have ends: "\<forall>w \<in> set space_encodings. w \<noteq> [] \<and> (byte_val (hd w) \<le> 32 \<or> 128 \<le> byte_val (hd w)) \<and>
      (byte_val (last w) \<le> 32 \<or> 128 \<le> byte_val (last w))"
    by code_simp
  have l: "strip_one space_encodings s = None"
  proof (rule ccontr)
    assume "strip_one space_encodings s \<noteq> None"
    then obtain w s' where "w \<in> set space_encodings" "s = w @ s'"
      using strip_one_Some by blast
    then show False using ends assms(2,3) by (auto simp: hd_append)
  qed
  have r: "strip_one (map rev space_encodings) (rev s) = None"
  proof (rule ccontr)
    assume "strip_one (map rev space_encodings) (rev s) \<noteq> None"
    then obtain w s' where "w \<in> set space_encodings" "rev s = rev w @ s'"
      using strip_one_Some by fastforce
    then have "s = rev s' @ w" by (metis rev_append rev_rev_ident)
    then show False using ends assms(4,5) \<open>w \<in> _\<close> by (auto simp: last_append)
  qed
  from l r show ?thesis by (intro trim_space_trimmed) (simp add: trimmed_def)
qed

lemma valid_utf8_ascii: "\<forall>c \<in> set s. byte_val c < 128 \<Longrightarrow> valid_utf8 s"
proof (induction s)
  case (Cons c s)
  then have "byte_val c \<noteq> rune_error" by (auto simp: rune_error_def)
  with Cons show ?case by (subst valid_utf8.simps) (simp add: decode_rune_ascii)
qed (simp add: valid_utf8.simps)

subsection \<open>URLs\<close>

text \<open>What \<^verbatim>\<open>url.Parse\<close> finds, as far as the program looks at it.\<close>

record url =
  urlScheme :: string
  urlOpaque :: string
  urlHost :: string
  urlHostname :: string
  urlPort :: string
  urlPath :: string
  urlQuery :: string
  urlFragment :: string
  urlUser :: bool

end
