(* ===== verification/Sentence_Buffer.thy ===== *)
theory Sentence_Buffer
  imports Go_Text
begin

section \<open>Cutting a streamed reply into phrases (\<^verbatim>\<open>internal/application/sentence_buffer.go\<close>)\<close>

text \<open>
  The buffer collects response deltas and releases phrases for synthesis: text up to the
  first sentence punctuation, or, when the pending text has reached the rune cap without
  one, up to the last blank before the cap (else up to the cap).  The lemmas show that the
  byte offsets computed by the two boundary searches are always in range (the slices
  cannot panic) and cut off at least one byte, that what stays pending is short and free
  of sentence punctuation, and that the released phrases together with the pending text
  are exactly the text that was pushed, cut into pieces and trimmed.
\<close>

definition defaultMaxStreamingPhraseRunes :: int where
  "defaultMaxStreamingPhraseRunes = 180"

record sentenceBuffer =
  pending :: string
  maxRunes :: int

definition newSentenceBuffer :: sentenceBuffer where
  "newSentenceBuffer = \<lparr>pending = [], maxRunes = defaultMaxStreamingPhraseRunes\<rparr>"

text \<open>\<^verbatim>\<open>utf8.RuneLen\<close> of the runes the code asks for; all of them are ASCII.\<close>

definition rune_len :: "rune \<Rightarrow> nat" where
  "rune_len r = (if r < 128 then 1 else if r < 2048 then 2 else if r < 65536 then 3 else 4)"

definition is_strong :: "rune \<Rightarrow> bool" where
  "is_strong r \<longleftrightarrow> r = 46 \<or> r = 33 \<or> r = 63 \<or> r = 10"

definition strongSentenceBoundary :: "string \<Rightarrow> nat" where
  "strongSentenceBoundary s =
     (case find (\<lambda>(index, r). is_strong r) (go_range s) of
        Some (index, r) \<Rightarrow> index + rune_len r
      | None \<Rightarrow> 0)"

fun boundedPhraseLoop :: "int \<Rightarrow> nat \<Rightarrow> (nat \<times> rune) list \<Rightarrow> int \<Rightarrow> nat \<Rightarrow> nat" where
  "boundedPhraseLoop cap len [] runes lastSpaceByte = len"
| "boundedPhraseLoop cap len ((index, r) # rest) runes lastSpaceByte =
     (if cap \<le> runes then (if 0 < lastSpaceByte then lastSpaceByte else index)
      else boundedPhraseLoop cap len rest (runes + 1)
             (if r = 32 \<or> r = 9 then index + rune_len r else lastSpaceByte))"

definition boundedPhraseBoundary :: "string \<Rightarrow> int \<Rightarrow> nat" where
  "boundedPhraseBoundary s cap =
     (if cap \<le> 0 then length s
      else boundedPhraseLoop cap (length s) (go_range s) 0 0)"

text \<open>The boundary chosen by one iteration of the loop of \<^verbatim>\<open>takeReady\<close>.\<close>

definition readyBoundary :: "int \<Rightarrow> string \<Rightarrow> nat" where
  "readyBoundary cap s =
     (let boundary = strongSentenceBoundary s
      in if boundary = 0 \<and> cap \<le> int (rune_count s)
         then boundedPhraseBoundary s cap else boundary)"

lemma readyBoundary_Nil [simp]: "readyBoundary cap [] = 0"
  by (simp add: readyBoundary_def strongSentenceBoundary_def boundedPhraseBoundary_def go_range_def Let_def)

function takeReadyLoop :: "int \<Rightarrow> string \<Rightarrow> string list \<Rightarrow> string \<times> string list" where
  "takeReadyLoop cap s phrases =
     (let boundary = readyBoundary cap s in
      if boundary = 0 then (s, phrases)
      else let phrase = trim_space (take boundary s)
           in takeReadyLoop cap (drop boundary s)
                (if phrase \<noteq> [] then phrases @ [phrase] else phrases))"
  by pat_completeness auto
termination
proof (relation "measure (\<lambda>(cap, s, phrases). length s)")
  fix cap s phrases boundary phrase
  assume "boundary = readyBoundary cap s" "boundary \<noteq> 0"
  then have "s \<noteq> []" "0 < boundary" by (auto intro: ccontr)
  then show "((cap, drop boundary s, if phrase \<noteq> [] then phrases @ [phrase] else phrases),
    cap, s, phrases) \<in> measure (\<lambda>(cap, s, phrases). length s)"
    by (cases s) auto
qed simp

declare takeReadyLoop.simps [simp del]

definition takeReady :: "bool \<Rightarrow> sentenceBuffer \<Rightarrow> string list \<times> sentenceBuffer" where
  "takeReady flush b =
     (let (rest, phrases) = takeReadyLoop (maxRunes b) (pending b) [] in
      if flush then
        (let phrase = trim_space rest
         in ((if phrase \<noteq> [] then phrases @ [phrase] else phrases), b\<lparr>pending := []\<rparr>))
      else (phrases, b\<lparr>pending := rest\<rparr>))"

definition Push :: "string \<Rightarrow> sentenceBuffer \<Rightarrow> string list \<times> sentenceBuffer" where
  "Push delta b =
     (if delta = [] then ([], b) else takeReady False (b\<lparr>pending := pending b @ delta\<rparr>))"

definition Flush :: "sentenceBuffer \<Rightarrow> string list \<times> sentenceBuffer" where
  "Flush b = takeReady True b"

subsection \<open>The boundaries are in range and make progress\<close>

lemma is_strong_ascii: "is_strong r \<Longrightarrow> r < 128"
  by (auto simp: is_strong_def)

text \<open>
  The rune loop finds sentence punctuation exactly where the byte occurs: scanning bytes
  is equivalent.
\<close>

lemma strongSentenceBoundary_bytes:
  "strongSentenceBoundary s =
     (case find (\<lambda>k. is_strong (byte_val (s ! k))) [0..<length s] of
        Some k \<Rightarrow> Suc k | None \<Rightarrow> 0)"
proof -
  have "find (\<lambda>(index, r). is_strong r) (go_range s) =
    (case find (\<lambda>k. is_strong (byte_val (s ! k))) [0..<length s] of
       None \<Rightarrow> None | Some k \<Rightarrow> Some (k, byte_val (s ! k)))"
    using find_ascii_go_range_from [of is_strong 0 s, OF is_strong_ascii]
    by (simp add: go_range_def split: option.splits)
  moreover have "is_strong (byte_val (s ! k))"
    if "find (\<lambda>k. is_strong (byte_val (s ! k))) [0..<length s] = Some k" for k
    using that by (auto simp: find_Some_iff)
  ultimately show ?thesis
    by (auto simp: strongSentenceBoundary_def rune_len_def dest: is_strong_ascii split: option.splits)
qed

lemma strongSentenceBoundary_le: "strongSentenceBoundary s \<le> length s"
  by (auto simp: strongSentenceBoundary_bytes find_Some_iff split: option.splits)

lemma strongSentenceBoundary_0_iff:
  "strongSentenceBoundary s = 0 \<longleftrightarrow> (\<forall>c \<in> set s. \<not> is_strong (byte_val c))"
  by (fastforce simp: strongSentenceBoundary_bytes find_None_iff find_Some_iff in_set_conv_nth
        split: option.splits)

lemma boundedPhraseLoop_le:
  assumes "\<forall>(i, r) \<in> set ps. i < len" "lst \<le> len"
    and "\<forall>(i, r) \<in> set ps. r = 32 \<or> r = 9 \<longrightarrow> i + rune_len r \<le> len"
  shows "boundedPhraseLoop cap len ps runes lst \<le> len"
  using assms by (induction cap len ps runes lst rule: boundedPhraseLoop.induct) auto

lemma boundedPhraseBoundary_le: "boundedPhraseBoundary s cap \<le> length s"
proof -
  have "\<forall>(i, r) \<in> set (go_range s). i < length s"
    using go_range_from_offset [of _ _ 0 s] by (auto simp: go_range_def)
  then show ?thesis
    unfolding boundedPhraseBoundary_def
    by (auto intro!: boundedPhraseLoop_le simp: rune_len_def)
qed

lemma readyBoundary_le: "readyBoundary cap s \<le> length s"
  by (simp add: readyBoundary_def Let_def strongSentenceBoundary_le boundedPhraseBoundary_le)

text \<open>At or above a positive cap the bounded search cuts off something.\<close>

lemma boundedPhraseLoop_pos:
  assumes "\<forall>(i, r) \<in> set ps. 0 < i" "0 < len"
  shows "0 < boundedPhraseLoop cap len ps runes lst"
  using assms by (induction cap len ps runes lst rule: boundedPhraseLoop.induct) auto

lemma go_range_tl_pos: "(i, r) \<in> set (tl (go_range s)) \<Longrightarrow> 0 < i"
proof (cases "s = []")
  case False
  assume "(i, r) \<in> set (tl (go_range s))"
  then have "(i, r) \<in> set (go_range_from (snd (decode_rune s)) (drop (snd (decode_rune s)) s))"
    using False by (simp add: go_range_def go_range_from_Cons)
  with go_range_from_offset decode_rune_pos [OF False] show ?thesis by fastforce
qed (simp add: go_range_def)

lemma boundedPhraseBoundary_pos:
  assumes "s \<noteq> []"
  shows "0 < boundedPhraseBoundary s cap"
proof (cases "go_range s")
  case Nil
  with assms show ?thesis by (simp add: boundedPhraseBoundary_def)
next
  case (Cons p ps)
  then have "\<forall>(i, r) \<in> set ps. 0 < i"
    using go_range_tl_pos [of _ _ s] by auto
  then have "0 < boundedPhraseLoop cap (length s) ps 1 lst" for lst
    using assms by (intro boundedPhraseLoop_pos) auto
  with assms Cons show ?thesis
    by (cases p) (simp add: boundedPhraseBoundary_def)
qed

lemma readyBoundary_0_iff:
  "readyBoundary cap s = 0 \<longleftrightarrow>
     s = [] \<or> (strongSentenceBoundary s = 0 \<and> int (rune_count s) < cap)"
proof (cases "s = []")
  case False
  with boundedPhraseBoundary_pos [OF False, of cap] show ?thesis
    by (auto simp: readyBoundary_def Let_def)
qed simp

subsection \<open>What is released and what stays pending\<close>

text \<open>The loop cuts its text into consecutive segments and appends the trimmed non-blank ones.\<close>

lemma takeReadyLoop_segments:
  "\<exists>segs. concat segs @ fst (takeReadyLoop cap s phrases) = s \<and>
     snd (takeReadyLoop cap s phrases) =
       phrases @ filter (\<lambda>p. p \<noteq> []) (map trim_space segs)"
proof (induction cap s phrases rule: takeReadyLoop.induct)
  case (1 cap s phrases)
  let ?b = "readyBoundary cap s"
  show ?case
  proof (cases "?b = 0")
    case True
    then show ?thesis
      by (intro exI [of _ "[]"]) (simp add: takeReadyLoop.simps [of cap s])
  next
    case False
    let ?p = "trim_space (take ?b s)"
    let ?phrases = "if ?p \<noteq> [] then phrases @ [?p] else phrases"
    have eq: "takeReadyLoop cap s phrases = takeReadyLoop cap (drop ?b s) ?phrases"
      using False by (simp add: takeReadyLoop.simps [of cap s] Let_def)
    obtain segs where
      "concat segs @ fst (takeReadyLoop cap (drop ?b s) ?phrases) = drop ?b s"
      "snd (takeReadyLoop cap (drop ?b s) ?phrases) =
         ?phrases @ filter (\<lambda>p. p \<noteq> []) (map trim_space segs)"
      using "1.IH" [OF refl False refl] by blast
    then show ?thesis
      unfolding eq by (intro exI [of _ "take ?b s # segs"]) (simp add: append_take_drop_id)
  qed
qed

text \<open>It stops with a text that holds no sentence punctuation and is shorter than the cap.\<close>

lemma takeReadyLoop_rest: "readyBoundary cap (fst (takeReadyLoop cap s phrases)) = 0"
proof (induction cap s phrases rule: takeReadyLoop.induct)
  case (1 cap s phrases)
  show ?case
  proof (cases "readyBoundary cap s = 0")
    case True
    then show ?thesis by (simp add: takeReadyLoop.simps [of cap s])
  next
    case False
    with "1.IH" [OF refl False refl] show ?thesis
      by (simp add: takeReadyLoop.simps [of cap s phrases] Let_def)
  qed
qed

lemma maxRunes_Push [simp]: "maxRunes (snd (Push delta b)) = maxRunes b"
  by (simp add: Push_def takeReady_def split: prod.split)

lemma Push_segments:
  "\<exists>segs. concat segs @ pending (snd (Push delta b)) = pending b @ delta \<and>
     fst (Push delta b) = filter (\<lambda>p. p \<noteq> []) (map trim_space segs)"
proof (cases "delta = []")
  case True
  then show ?thesis by (intro exI [of _ "[]"]) (simp add: Push_def)
next
  case False
  then show ?thesis
    using takeReadyLoop_segments [of "maxRunes b" "pending b @ delta" "[]"]
    by (auto simp: Push_def takeReady_def split: prod.splits)
qed

lemma Flush_segments:
  "\<exists>segs. concat segs = pending b \<and> pending (snd (Flush b)) = [] \<and>
     fst (Flush b) = filter (\<lambda>p. p \<noteq> []) (map trim_space segs)"
proof -
  obtain segs where
    "concat segs @ fst (takeReadyLoop (maxRunes b) (pending b) []) = pending b"
    "snd (takeReadyLoop (maxRunes b) (pending b) []) = filter (\<lambda>p. p \<noteq> []) (map trim_space segs)"
    using takeReadyLoop_segments [of "maxRunes b" "pending b" "[]"] by auto
  then show ?thesis
    by (intro exI [of _ "segs @ [fst (takeReadyLoop (maxRunes b) (pending b) [])]"])
       (auto simp: Flush_def takeReady_def case_prod_unfold Let_def)
qed

text \<open>A whole streamed reply: the deltas are pushed in order, then the buffer is flushed.\<close>

fun pushAll :: "string list \<Rightarrow> sentenceBuffer \<Rightarrow> string list \<times> sentenceBuffer" where
  "pushAll [] b = ([], b)"
| "pushAll (d # ds) b =
     (let (ps, b1) = Push d b; (qs, b2) = pushAll ds b1 in (ps @ qs, b2))"

definition phrasesOf :: "string list \<Rightarrow> sentenceBuffer \<Rightarrow> string list" where
  "phrasesOf ds b = (let (ps, b1) = pushAll ds b in ps @ fst (Flush b1))"

lemma pushAll_segments:
  "\<exists>segs. concat segs @ pending (snd (pushAll ds b)) = pending b @ concat ds \<and>
     fst (pushAll ds b) = filter (\<lambda>p. p \<noteq> []) (map trim_space segs)"
proof (induction ds arbitrary: b)
  case Nil
  show ?case by (intro exI [of _ "[]"]) simp
next
  case (Cons d ds)
  obtain segs where s: "concat segs @ pending (snd (Push d b)) = pending b @ d"
    "fst (Push d b) = filter (\<lambda>p. p \<noteq> []) (map trim_space segs)"
    using Push_segments by blast
  obtain segs' where t: "concat segs' @ pending (snd (pushAll ds (snd (Push d b)))) =
      pending (snd (Push d b)) @ concat ds"
    "fst (pushAll ds (snd (Push d b))) = filter (\<lambda>p. p \<noteq> []) (map trim_space segs')"
    using Cons.IH by blast
  have "concat segs @ concat segs' @ pending (snd (pushAll ds (snd (Push d b)))) =
      (concat segs @ pending (snd (Push d b))) @ concat ds"
    by (simp add: t(1))
  with s t(2) show ?case
    by (intro exI [of _ "segs @ segs'"]) (simp add: case_prod_unfold Let_def)
qed

subsection \<open>Properties\<close>

text \<open>
  C31. Streaming a reply through the sentence buffer loses, duplicates and reorders
  nothing: for any deltas pushed in order and then flushed, the phrases handed to speech
  synthesis are the non-blank pieces, trimmed, of a cut of exactly the concatenated deltas.
\<close>

theorem streamed_phrases_partition_reply:
  "\<exists>segs. concat segs = concat deltas \<and>
     phrasesOf deltas newSentenceBuffer = filter (\<lambda>p. p \<noteq> []) (map trim_space segs)"
proof -
  let ?b = "snd (pushAll deltas newSentenceBuffer)"
  obtain segs where s: "concat segs @ pending ?b = concat deltas"
    "fst (pushAll deltas newSentenceBuffer) = filter (\<lambda>p. p \<noteq> []) (map trim_space segs)"
    using pushAll_segments [of deltas newSentenceBuffer] by (auto simp: newSentenceBuffer_def)
  obtain segs' where "concat segs' = pending ?b"
    "fst (Flush ?b) = filter (\<lambda>p. p \<noteq> []) (map trim_space segs')"
    using Flush_segments by blast
  with s show ?thesis
    by (intro exI [of _ "segs @ segs'"]) (simp add: phrasesOf_def case_prod_unfold Let_def)
qed

text \<open>
  Text never waits long: after every push of a non-empty delta the pending text holds
  no sentence punctuation and fewer runes than the cap, so an unpunctuated reply is
  released at the latest when it reaches the cap.
\<close>

theorem push_leaves_short_tail:
  assumes "0 < maxRunes b" "delta \<noteq> []"
  shows "(\<forall>c \<in> set (pending (snd (Push delta b))). \<not> is_strong (byte_val c)) \<and>
    int (rune_count (pending (snd (Push delta b)))) < maxRunes b"
proof -
  have "readyBoundary (maxRunes b) (pending (snd (Push delta b))) = 0"
    using takeReadyLoop_rest [of "maxRunes b" "pending b @ delta" "[]"] assms(2)
    by (simp add: Push_def takeReady_def case_prod_unfold Let_def)
  with assms(1) show ?thesis
    by (auto simp: readyBoundary_0_iff strongSentenceBoundary_0_iff rune_count_def go_range_def)
qed

theorem push_leaves_short_tail_witness:
  "(0::int) < maxRunes newSentenceBuffer \<and>
   pending (snd (Push ''A. b'' newSentenceBuffer)) = '' b'' \<and>
   int (rune_count (pending (snd (Push ''A. b'' newSentenceBuffer)))) < maxRunes newSentenceBuffer"
proof -
  have cap: "0 < maxRunes newSentenceBuffer"
    by (simp add: newSentenceBuffer_def defaultMaxStreamingPhraseRunes_def)
  have "pending (snd (Push ''A. b'' newSentenceBuffer)) = '' b''"
    by code_simp
  with push_leaves_short_tail [OF cap, of "''A. b''"] cap show ?thesis by simp
qed

end
