(* ===== verification/Wake.thy ===== *)
theory Wake
  imports Go_Text
begin

section \<open>Wake phrase and explicit stop (\<^verbatim>\<open>internal/wake/detector.go\<close>, \<^verbatim>\<open>internal/barge/policy.go\<close>)\<close>

text \<open>
  Both packages classify runes with the tables of Go's package \<^verbatim>\<open>unicode\<close>.  The tables are
  data of the Go distribution and a parameter of the model, \<open>unicode_db\<close>; nothing but the
  named hypotheses below is used of them.
\<close>

record unicode_db =
  isLetter :: "rune \<Rightarrow> bool"
  isDigit :: "rune \<Rightarrow> bool"
  toLower :: "rune \<Rightarrow> rune"

definition word_rune :: "unicode_db \<Rightarrow> rune \<Rightarrow> bool" where
  "word_rune u r \<longleftrightarrow> isLetter u r \<or> isDigit u r"

text \<open>\<^verbatim>\<open>strings.Builder.WriteRune\<close>: the UTF-8 encoding of a rune.\<close>

definition encode_rune :: "rune \<Rightarrow> string" where
  "encode_rune r = map byte_chr
     (if r < 128 then [r]
      else if r < 2048 then [192 + r div 64, 128 + r mod 64]
      else if (55296 \<le> r \<and> r \<le> 57343) \<or> 1114111 < r then [239, 191, 189]
      else if r < 65536 then [224 + r div 4096, 128 + r div 64 mod 64, 128 + r mod 64]
      else [240 + r div 262144, 128 + r div 4096 mod 64, 128 + r div 64 mod 64, 128 + r mod 64])"

text \<open>The accent-folding \<^verbatim>\<open>switch\<close> that both packages repeat.\<close>

definition fold_accent :: "rune \<Rightarrow> rune" where
  "fold_accent r =
     (if r \<in> {225, 224, 228, 226} then 97
      else if r \<in> {233, 232, 235, 234} then 101
      else if r \<in> {237, 236, 239, 238} then 105
      else if r \<in> {243, 242, 246, 244} then 111
      else if r \<in> {250, 249, 252, 251} then 117
      else r)"

text \<open>\<^verbatim>\<open>strings.Join\<close>.\<close>

fun join :: "string \<Rightarrow> string list \<Rightarrow> string" where
  "join sep [] = []"
| "join sep [x] = x"
| "join sep (x # xs) = x @ sep @ join sep xs"

subsection \<open>Tokens\<close>

record token =
  raw :: string
  normalized :: string

definition normalizeWord :: "unicode_db \<Rightarrow> string \<Rightarrow> string" where
  "normalizeWord u word =
     concat (map (\<lambda>(_, r). let r' = fold_accent (toLower u r) in
                    if word_rune u r' then encode_rune r' else []) (go_range word))"

definition mk_token :: "unicode_db \<Rightarrow> string \<Rightarrow> token" where
  "mk_token u s = \<lparr>raw = s, normalized = normalizeWord u s\<rparr>"

text \<open>The loop of \<^verbatim>\<open>tokenize\<close>; \<open>start\<close> is \<^term>\<open>None\<close> where the code has \<^verbatim>\<open>-1\<close>.\<close>

fun tokenizeLoop :: "unicode_db \<Rightarrow> string \<Rightarrow> (nat \<times> rune) list \<Rightarrow> nat option \<Rightarrow> token list" where
  "tokenizeLoop u s [] None = []"
| "tokenizeLoop u s [] (Some start) = [mk_token u (drop start s)]"
| "tokenizeLoop u s ((offset, r) # rest) None =
     (if word_rune u r then tokenizeLoop u s rest (Some offset) else tokenizeLoop u s rest None)"
| "tokenizeLoop u s ((offset, r) # rest) (Some start) =
     (if word_rune u r then tokenizeLoop u s rest (Some start)
      else mk_token u (take (offset - start) (drop start s)) # tokenizeLoop u s rest None)"

definition tokenize :: "unicode_db \<Rightarrow> string \<Rightarrow> token list" where
  "tokenize u s = tokenizeLoop u s (go_range s) None"

definition normalizedWords :: "unicode_db \<Rightarrow> string \<Rightarrow> string list" where
  "normalizedWords u s = filter (\<lambda>w. w \<noteq> []) (map normalized (tokenize u s))"

subsection \<open>The detector\<close>

record phraseDetector =
  phrases :: "string list list"

fun compilePhrases ::
  "unicode_db \<Rightarrow> string list \<Rightarrow> string list \<Rightarrow> string list list \<Rightarrow> go_error + string list list"
where
  "compilePhrases u [] seen acc = Inr acc"
| "compilePhrases u (input # inputs) seen acc =
     (let words = normalizedWords u input in
      if words = [] then Inl (Message ''wake phrase must contain at least one word'')
      else let key = join '' '' words in
        if key \<in> set seen then compilePhrases u inputs seen acc
        else compilePhrases u inputs (key # seen) (acc @ [words]))"

definition NewPhraseDetector :: "unicode_db \<Rightarrow> string \<Rightarrow> string list \<Rightarrow> go_error + phraseDetector" where
  "NewPhraseDetector u primary aliases =
     (case compilePhrases u (primary # aliases) [] [] of
        Inl e \<Rightarrow> Inl e
      | Inr ps \<Rightarrow> Inr \<lparr>phrases = ps\<rparr>)"

definition tokenSequenceMatches :: "token list \<Rightarrow> nat \<Rightarrow> string list \<Rightarrow> bool" where
  "tokenSequenceMatches tokens start phrase \<longleftrightarrow>
     map normalized (take (length phrase) (drop start tokens)) = phrase"

text \<open>Where a wake phrase counts: among the first three words, or with at most one word after it.\<close>

definition wakePosition :: "token list \<Rightarrow> string list \<Rightarrow> nat \<Rightarrow> bool" where
  "wakePosition tokens phrase start \<longleftrightarrow>
     tokenSequenceMatches tokens start phrase \<and>
     \<not> (2 < start \<and> 1 < length tokens - (start + length phrase))"

definition wakeCommand :: "string \<Rightarrow> token list \<Rightarrow> string list \<Rightarrow> nat \<Rightarrow> string" where
  "wakeCommand transcript tokens phrase start =
     (let command = join '' '' (map raw (take start tokens @ drop (start + length phrase) tokens))
      in if command = [] then trim_space transcript else command)"

text \<open>The two nested loops: the first phrase, in order, that has an acceptable position.\<close>

fun detectPhrases :: "string \<Rightarrow> token list \<Rightarrow> string list list \<Rightarrow> string \<times> bool" where
  "detectPhrases transcript tokens [] = ([], False)"
| "detectPhrases transcript tokens (phrase # rest) =
     (if length tokens < length phrase then detectPhrases transcript tokens rest
      else case find (wakePosition tokens phrase) [0..<Suc (length tokens - length phrase)] of
             Some start \<Rightarrow> (wakeCommand transcript tokens phrase start, True)
           | None \<Rightarrow> detectPhrases transcript tokens rest)"

definition Detect :: "unicode_db \<Rightarrow> phraseDetector \<Rightarrow> string \<Rightarrow> string \<times> bool" where
  "Detect u d transcript =
     (if phrases d = [] then ([], False)
      else detectPhrases transcript (tokenize u transcript) (phrases d))"

subsection \<open>The explicit-stop policy\<close>

definition explicitStops :: "string list" where
  "explicitStops = [''para'', ''parate'', ''detente'', ''deten'', ''cancela'', ''cancelar'',
     ''basta'', ''silencio'', ''callate'']"

text \<open>
  \<^verbatim>\<open>barge.normalizedWords\<close>: the runes of the lower-cased text, split at every rune that is
  neither letter nor digit, accents folded.  \<open>current\<close> is the word under construction.
\<close>

fun stopWordsLoop :: "unicode_db \<Rightarrow> rune list \<Rightarrow> string \<Rightarrow> string list" where
  "stopWordsLoop u [] current = (if current = [] then [] else [current])"
| "stopWordsLoop u (r # rs) current =
     (if \<not> word_rune u r
      then (if current = [] then [] else [current]) @ stopWordsLoop u rs []
      else stopWordsLoop u rs (current @ encode_rune (fold_accent r)))"

definition stopWords :: "unicode_db \<Rightarrow> string \<Rightarrow> string list" where
  "stopWords u s = stopWordsLoop u (map (\<lambda>(_, r). toLower u r) (go_range s)) []"

text \<open>
  \<^verbatim>\<open>ExplicitStopPolicy.Confirm\<close>; the wake matcher is the policy's parameter
  (\<^term>\<open>None\<close>: a nil matcher).
\<close>

definition Confirm :: "unicode_db \<Rightarrow> (string \<Rightarrow> string \<times> bool) option \<Rightarrow> string \<Rightarrow> bool" where
  "Confirm u wake transcript =
     (case wake of
        None \<Rightarrow> False
      | Some detect \<Rightarrow>
          (case detect transcript of
             (command, matched) \<Rightarrow>
               matched \<and> (case stopWords u command of [] \<Rightarrow> False | w # _ \<Rightarrow> w \<in> set explicitStops)))"

subsection \<open>Lemmas\<close>

lemma detectPhrases_matched:
  "snd (detectPhrases t tokens ps) \<longleftrightarrow>
     (\<exists>phrase \<in> set ps. \<exists>start. start + length phrase \<le> length tokens \<and> wakePosition tokens phrase start)"
proof (induction ps)
  case (Cons p ps)
  have "(\<exists>start. start + length p \<le> length tokens \<and> wakePosition tokens p start) \<longleftrightarrow>
    length p \<le> length tokens \<and> find (wakePosition tokens p) [0..<Suc (length tokens - length p)] \<noteq> None"
    by (auto simp add: find_None_iff less_Suc_eq_le le_diff_conv2 simp del: upt_Suc)
  with Cons show ?case
    by (auto split: option.split simp del: upt_Suc)
qed simp

lemma blank_code [simp]: "byte_chr n = CHR '' '' \<longleftrightarrow> n mod 256 = 32"
proof -
  have "byte_chr n = CHR '' '' \<longleftrightarrow> of_char (byte_chr n) = (of_char (CHR '' '') :: nat)"
    by (metis of_char_eq_iff)
  then show ?thesis by (simp add: byte_chr_def)
qed

lemma encode_rune_no_blank: "r \<noteq> 32 \<Longrightarrow> CHR '' '' \<notin> set (encode_rune r)"
proof -
  assume "r \<noteq> 32"
  have *: "a mod 256 \<noteq> 32" if "128 \<le> a" "a < 256" for a :: nat using that by simp
  have cont: "(128 + x mod 64) mod 256 \<noteq> 32" for x :: nat
  proof (rule *)
    show "128 + x mod 64 < 256" using mod_less_divisor [of 64 x] by linarith
  qed simp
  consider "r < 128" | "128 \<le> r" "r < 2048" | "2048 \<le> r" "r < 65536" | "65536 \<le> r" "r \<le> 1114111" | "1114111 < r"
    by linarith
  then show ?thesis
  proof cases
    case 1 then show ?thesis using \<open>r \<noteq> 32\<close>
      by (simp add: encode_rune_def eq_commute [of "CHR '' ''"])
  next
    case 2
    then have "(192 + r div 64) mod 256 \<noteq> 32" by (intro *) auto
    with 2 cont show ?thesis by (simp add: encode_rune_def eq_commute [of "CHR '' ''"])
  next
    case 3
    then have "(224 + r div 4096) mod 256 \<noteq> 32" by (intro *) auto
    with 3 cont show ?thesis by (simp add: encode_rune_def eq_commute [of "CHR '' ''"])
  next
    case 4
    then have "(240 + r div 262144) mod 256 \<noteq> 32" by (intro *) auto
    with 4 cont show ?thesis by (simp add: encode_rune_def eq_commute [of "CHR '' ''"])
  next
    case 5
    then show ?thesis by (simp add: encode_rune_def eq_commute [of "CHR '' ''"])
  qed
qed

lemma normalizedWords_word:
  assumes "\<not> word_rune u 32" "w \<in> set (normalizedWords u s)"
  shows "w \<noteq> [] \<and> CHR '' '' \<notin> set w"
proof -
  have "CHR '' '' \<notin> set (normalizeWord u x)" for x
    using assms(1) encode_rune_no_blank
    by (auto simp: normalizeWord_def Let_def split: if_splits) metis
  moreover have "\<exists>x. normalized tok = normalizeWord u x" if "tok \<in> set (tokenizeLoop u t ps st)" for tok t ps st
    using that by (induction u t ps st rule: tokenizeLoop.induct) (auto simp: mk_token_def split: if_splits)
  ultimately show ?thesis
    using assms(2) by (fastforce simp: normalizedWords_def tokenize_def)
qed

lemma append_blank_inject:
  assumes "b \<notin> set v" "b \<notin> set w" "v @ b # xs = w @ b # ys"
  shows "v = w \<and> xs = ys"
  using assms by (induction v arbitrary: w) (case_tac [!] w, auto)

lemma join_Cons: "xs \<noteq> [] \<Longrightarrow> join sep (x # xs) = x @ sep @ join sep xs"
  by (cases xs) auto

lemma join_single: "b \<notin> set v \<Longrightarrow> v = join [b] (w # ws) \<Longrightarrow> ws = [] \<and> w = v"
  by (cases ws) auto

lemma join_eq_Nil: "[] \<notin> set ws \<Longrightarrow> join sep ws = [] \<longleftrightarrow> ws = []"
  by (cases ws rule: list.exhaust) (auto simp: join_Cons, metis append_is_Nil_conv join.simps(2) join_Cons)

lemma join_inject:
  assumes "[] \<notin> set vs" "[] \<notin> set ws" "\<forall>w \<in> set vs. b \<notin> set w" "\<forall>w \<in> set ws. b \<notin> set w"
    "join [b] vs = join [b] ws"
  shows "vs = ws"
  using assms
proof (induction vs arbitrary: ws)
  case Nil
  from Nil(5) have "join [b] ws = []" by simp
  with Nil(2) show ?case by (simp add: join_eq_Nil)
next
  case (Cons v vs)
  have "join [b] (v # vs) \<noteq> []" using Cons.prems(1) by (subst join_eq_Nil) auto
  then obtain w ws' where ws: "ws = w # ws'"
    using Cons.prems(5) by (cases ws) auto
  have v: "b \<notin> set v" and w: "b \<notin> set w" using Cons.prems ws by auto
  consider "vs = []" | "ws' = []" | "vs \<noteq> []" "ws' \<noteq> []" by blast
  then show ?case
  proof cases
    case 1
    with Cons.prems(5) ws have "v = join [b] (w # ws')" by simp
    from join_single [OF v this] 1 ws show ?thesis by simp
  next
    case 2
    with Cons.prems(5) ws have "w = join [b] (v # vs)" by simp
    from join_single [OF w this] 2 ws show ?thesis by simp
  next
    case 3
    with Cons.prems(5) ws have "v @ b # join [b] vs = w @ b # join [b] ws'"
      by (simp add: join_Cons)
    from append_blank_inject [OF v w this] have "v = w" "join [b] vs = join [b] ws'" by simp_all
    with Cons.IH [of ws'] Cons.prems ws show ?thesis by simp
  qed
qed

lemma join_normalizedWords:
  assumes "\<not> word_rune u 32" "join '' '' (normalizedWords u s) = join '' '' (normalizedWords u t)"
  shows "normalizedWords u s = normalizedWords u t"
  using assms(2) normalizedWords_word [OF assms(1)] by (intro join_inject) blast+

text \<open>The detector holds exactly the normalized words of its inputs; none of them is empty.\<close>

lemma compilePhrases_phrases:
  assumes "\<not> word_rune u 32" "compilePhrases u inputs seen acc = Inr ps"
    "set acc \<subseteq> range (normalizedWords u)" "set seen = join '' '' ` set acc"
  shows "set ps = set acc \<union> normalizedWords u ` set inputs \<and> [] \<notin> normalizedWords u ` set inputs"
  using assms(2-)
proof (induction inputs arbitrary: seen acc)
  case (Cons input inputs)
  let ?w = "normalizedWords u input"
  have ne: "?w \<noteq> []" using Cons.prems(1) by (auto simp: Let_def)
  show ?case
  proof (cases "join '' '' ?w \<in> set seen")
    case True
    then obtain p where p: "p \<in> set acc" "join '' '' p = join '' '' ?w" using Cons.prems(3) by auto
    with Cons.prems(2) obtain i where "p = normalizedWords u i" by auto
    with p have "?w \<in> set acc" using join_normalizedWords [OF assms(1), of i input] by simp
    moreover have "compilePhrases u inputs seen acc = Inr ps"
      using Cons.prems(1) ne True by (simp add: Let_def)
    ultimately show ?thesis using Cons.IH [OF _ Cons.prems(2,3)] ne by auto
  next
    case False
    then have "compilePhrases u inputs (join '' '' ?w # seen) (acc @ [?w]) = Inr ps"
      using Cons.prems(1) ne by (simp add: Let_def)
    from Cons.IH [OF this] Cons.prems(2,3) ne show ?thesis by auto
  qed
qed simp

lemma NewPhraseDetector_phrases:
  assumes "\<not> word_rune u 32" "NewPhraseDetector u primary aliases = Inr d"
  shows "set (phrases d) = normalizedWords u ` set (primary # aliases) \<and> [] \<notin> set (phrases d)"
proof -
  have "compilePhrases u (primary # aliases) [] [] = Inr (phrases d)"
    using assms(2) by (auto simp: NewPhraseDetector_def split: sum.splits)
  from compilePhrases_phrases [OF assms(1) this] show ?thesis by auto
qed

text \<open>A match returns the words around some acceptable occurrence of a phrase.\<close>

lemma detectPhrases_command:
  "snd (detectPhrases t tokens ps) \<Longrightarrow>
     \<exists>phrase \<in> set ps. \<exists>start. start + length phrase \<le> length tokens \<and>
       wakePosition tokens phrase start \<and>
       fst (detectPhrases t tokens ps) = wakeCommand t tokens phrase start"
proof (induction ps)
  case (Cons p ps)
  let ?f = "find (wakePosition tokens p) [0..<Suc (length tokens - length p)]"
  show ?case
  proof (cases "length tokens < length p \<or> ?f = None")
    case True
    with Cons show ?thesis by (auto simp del: upt_Suc split: if_splits)
  next
    case False
    then obtain start where "?f = Some start" "length p \<le> length tokens" by auto
    moreover from this have "start \<le> length tokens - length p" "wakePosition tokens p start"
      by (auto simp: find_Some_iff simp del: upt_Suc)
    ultimately show ?thesis by (auto simp del: upt_Suc intro!: exI [of _ start])
  qed
qed simp

subsection \<open>Properties\<close>

text \<open>
  C13. The wake decision is what the configuration means: for a detector built from a primary phrase and
  aliases, a transcript is accepted exactly when the words of one of them (case and accents
  folded) occur as consecutive words of the transcript, either starting among the first
  three words or with at most one word after them.
\<close>

theorem detect_accepts_iff:
  assumes "\<not> word_rune u 32" "NewPhraseDetector u primary aliases = Inr d"
  shows "snd (Detect u d transcript) \<longleftrightarrow>
    (\<exists>input \<in> set (primary # aliases). \<exists>before mid after.
       tokenize u transcript = before @ mid @ after \<and>
       map normalized mid = normalizedWords u input \<and>
       (length before \<le> 2 \<or> length after \<le> 1))"
proof -
  let ?ts = "tokenize u transcript"
  have occ: "(\<exists>start. start + length p \<le> length ?ts \<and> wakePosition ?ts p start) \<longleftrightarrow>
    (\<exists>before mid after. ?ts = before @ mid @ after \<and> map normalized mid = p \<and>
       (length before \<le> 2 \<or> length after \<le> 1))" (is "?L \<longleftrightarrow> ?R") for p
  proof
    assume ?L
    then obtain start where s: "start + length p \<le> length ?ts" "wakePosition ?ts p start" by blast
    have "?ts = take start ?ts @ take (length p) (drop start ?ts) @ drop (start + length p) ?ts"
      by (metis append_take_drop_id drop_drop add.commute)
    with s show ?R
      by (intro exI [of _ "take start ?ts"] exI [of _ "take (length p) (drop start ?ts)"]
            exI [of _ "drop (start + length p) ?ts"])
         (auto simp: wakePosition_def tokenSequenceMatches_def)
  next
    assume ?R
    then obtain before mid after where r: "?ts = before @ mid @ after" "map normalized mid = p"
      "length before \<le> 2 \<or> length after \<le> 1" by blast
    then show ?L
      by (intro exI [of _ "length before"])
         (auto simp: wakePosition_def tokenSequenceMatches_def)
  qed
  have "phrases d \<noteq> []" using NewPhraseDetector_phrases [OF assms] by auto
  then show ?thesis
    using NewPhraseDetector_phrases [OF assms]
    by (simp add: Detect_def detectPhrases_matched occ)
qed

text \<open>ASCII letters and digits: an instance of the tables on which the witnesses compute.\<close>

definition ascii_db :: unicode_db where
  "ascii_db = \<lparr>isLetter = (\<lambda>r. (65 \<le> r \<and> r \<le> 90) \<or> (97 \<le> r \<and> r \<le> 122)),
     isDigit = (\<lambda>r. 48 \<le> r \<and> r \<le> 57),
     toLower = (\<lambda>r. if 65 \<le> r \<and> r \<le> 90 then r + 32 else r)\<rparr>"

theorem detect_accepts_iff_witness:
  "\<exists>d. NewPhraseDetector ascii_db ''X'' [] = Inr d \<and> snd (Detect ascii_db d ''a x'')"
proof -
  have blank: "\<not> word_rune ascii_db 32" by (simp add: word_rune_def ascii_db_def)
  have d: "NewPhraseDetector ascii_db ''X'' [] = Inr \<lparr>phrases = [[''x'']]\<rparr>" by code_simp
  have tok: "tokenize ascii_db ''a x'' =
    [\<lparr>raw = ''a'', normalized = ''a''\<rparr>] @ [\<lparr>raw = ''x'', normalized = ''x''\<rparr>] @ []"
    by code_simp
  have "normalizedWords ascii_db ''X'' = [''x'']" by code_simp
  then have "snd (Detect ascii_db \<lparr>phrases = [[''x'']]\<rparr> ''a x'')"
    unfolding detect_accepts_iff [OF blank d] tok
    by (intro bexI [of _ "''X''"] exI [of _ "[\<lparr>raw = ''a'', normalized = ''a''\<rparr>]"]
          exI [of _ "[\<lparr>raw = ''x'', normalized = ''x''\<rparr>]"] exI [of _ "[]"]) simp_all
  with d show ?thesis by blast
qed

lemma confirm_addressed:
  assumes "Confirm u (Some (Detect u d)) transcript"
  shows "\<exists>phrase \<in> set (phrases d). \<exists>start w rest.
    wakePosition (tokenize u transcript) phrase start \<and>
    stopWords u (wakeCommand transcript (tokenize u transcript) phrase start) = w # rest \<and>
    w \<in> set explicitStops"
proof -
  have "snd (Detect u d transcript)" and
    stop: "case stopWords u (fst (Detect u d transcript)) of [] \<Rightarrow> False | w # _ \<Rightarrow> w \<in> set explicitStops"
    using assms by (auto simp: Confirm_def case_prod_unfold split: list.splits)
  then have m: "snd (detectPhrases transcript (tokenize u transcript) (phrases d))"
    "Detect u d transcript = detectPhrases transcript (tokenize u transcript) (phrases d)"
    by (auto simp: Detect_def split: if_splits)
  from detectPhrases_command [OF m(1)] m(2) stop show ?thesis
    by (fastforce split: list.splits)
qed

text \<open>
  Only an addressed stop command interrupts: when the explicit-stop policy over a phrase detector
  confirms a transcript, one of the detector's phrases occurs in it at an acceptable position, and
  the first word of what is said around that occurrence is one of the stop words.
\<close>

theorem explicit_stop_is_addressed:
  assumes "Confirm u (Some (Detect u d)) transcript"
  shows "\<exists>phrase \<in> set (phrases d). \<exists>start w rest.
    wakePosition (tokenize u transcript) phrase start \<and>
    stopWords u (wakeCommand transcript (tokenize u transcript) phrase start) = w # rest \<and>
    w \<in> set explicitStops"
  using confirm_addressed [OF assms] .

theorem explicit_stop_is_addressed_witness:
  "Confirm ascii_db (Some (Detect ascii_db \<lparr>phrases = [[''x'']]\<rparr>)) ''x para'' \<and>
   (\<exists>phrase \<in> set [[''x'']]. \<exists>start. wakePosition (tokenize ascii_db ''x para'') phrase start)"
proof -
  have c: "Confirm ascii_db (Some (Detect ascii_db \<lparr>phrases = [[''x'']]\<rparr>)) ''x para''" by code_simp
  from explicit_stop_is_addressed [OF c] c show ?thesis by auto
qed

end
