(* ===== verification/Audio_Format.thy ===== *)
theory Audio_Format
  imports Prelude Complex_Main "HOL-Library.Word"
begin

section \<open>Audio values, PCM coding and the pre-roll window\<close>

text \<open>
  \<^verbatim>\<open>internal/audio/buffer.go\<close>, \<^verbatim>\<open>preroll.go\<close>, and the PCM conversions of \<^verbatim>\<open>capture.go\<close> and
  \<^verbatim>\<open>playback.go\<close>.

  A \<^verbatim>\<open>float32\<close> sample is a \<^typ>\<open>real\<close>.  A captured sample is \<open>s / 32768\<close> for a 16-bit \<open>s\<close>,
  which a \<^verbatim>\<open>float32\<close> represents exactly, and the sums of squares of a chunk of such samples
  are exact in a \<^verbatim>\<open>float64\<close> as well, so the reals differ from the floats only in the rounding
  of quotients and square roots.  Bytes and 16-bit samples are machine words.
\<close>

unbundle bit_operations_syntax

record buffer =
  Samples :: "real list"
  SampleRate :: int
  Channels :: int

definition no_buffer :: buffer where
  "no_buffer = \<lparr>Samples = [], SampleRate = 0, Channels = 0\<rparr>"

text \<open>\<^verbatim>\<open>Buffer.Clone\<close> copies the slice; samples are values here, so nothing can alias.\<close>

definition Clone :: "buffer \<Rightarrow> buffer" where
  "Clone b = \<lparr>Samples = Samples b, SampleRate = SampleRate b, Channels = Channels b\<rparr>"

definition Empty :: "buffer \<Rightarrow> bool" where
  "Empty b \<longleftrightarrow> length (Samples b) = 0"

definition Validate :: "buffer \<Rightarrow> go_error option" where
  "Validate b =
     (if SampleRate b \<le> 0 then Some (Message ''audio sample rate must be greater than zero'')
      else if Channels b \<noteq> 1 then Some (Message ''audio channels must be mono'')
      else None)"

lemma Clone_eq [simp]: "Clone b = b"
  by (simp add: Clone_def)

lemma Validate_None: "Validate b = None \<longleftrightarrow> 0 < SampleRate b \<and> Channels b = 1"
  by (auto simp: Validate_def)

subsection \<open>The pre-roll window\<close>

record preRollBuffer =
  maxChunks :: nat
  chunks :: "real list list"

definition newPreRollBuffer :: "int \<Rightarrow> preRollBuffer" where
  "newPreRollBuffer n = \<lparr>maxChunks = nat (if n < 0 then 0 else n), chunks = []\<rparr>"

definition preRoll_add :: "real list \<Rightarrow> preRollBuffer \<Rightarrow> preRollBuffer" where
  "preRoll_add chunk b =
     (if chunk = [] then b
      else if maxChunks b = 0 then b
      else let cs = chunks b @ [chunk] in
        b\<lparr>chunks := (if maxChunks b < length cs then drop (length cs - maxChunks b) cs else cs)\<rparr>)"

definition startRecording :: "real list \<Rightarrow> preRollBuffer \<Rightarrow> real list" where
  "startRecording chunk b = concat (chunks b) @ chunk"

definition preRoll_reset :: "preRollBuffer \<Rightarrow> preRollBuffer" where
  "preRoll_reset b = b\<lparr>chunks := []\<rparr>"

definition preRoll_ok :: "preRollBuffer \<Rightarrow> bool" where
  "preRoll_ok b \<longleftrightarrow> length (chunks b) \<le> maxChunks b"

lemma preRoll_simps [simp]:
  "maxChunks (preRoll_add c b) = maxChunks b"
  "maxChunks (preRoll_reset b) = maxChunks b"
  "chunks (preRoll_reset b) = []"
  "chunks (newPreRollBuffer n) = []"
  by (simp_all add: preRoll_add_def preRoll_reset_def newPreRollBuffer_def Let_def)

lemma preRoll_ok_ops [simp]:
  "preRoll_ok (newPreRollBuffer n)" "preRoll_ok (preRoll_reset b)"
  "preRoll_ok b \<Longrightarrow> preRoll_ok (preRoll_add c b)"
  by (auto simp: preRoll_ok_def preRoll_add_def Let_def)

text \<open>The window is the last \<open>maxChunks\<close> of the non-empty chunks it was given.\<close>

lemma preRoll_add_chunks:
  "preRoll_ok b \<Longrightarrow> \<exists>k. chunks (preRoll_add c b) = drop k (chunks b @ (if c = [] then [] else [c])) "
proof -
  assume "preRoll_ok b"
  consider "c = []" | "c \<noteq> []" "maxChunks b = 0" | "c \<noteq> []" "0 < maxChunks b" by auto
  then show ?thesis
  proof cases
    case 1
    then show ?thesis by (auto simp: preRoll_add_def intro: exI [of _ 0])
  next
    case 2
    with \<open>preRoll_ok b\<close> have "chunks b = []" by (simp add: preRoll_ok_def)
    with 2 show ?thesis by (auto simp: preRoll_add_def intro: exI [of _ 1])
  next
    case 3
    then show ?thesis
      by (auto simp: preRoll_add_def Let_def intro: exI [of _ 0] exI [of _ "Suc (length (chunks b)) - maxChunks b"])
  qed
qed

subsection \<open>PCM conversion\<close>

definition chunkDurationMS :: int where "chunkDurationMS = 80"
definition preRollChunkCount :: int where "preRollChunkCount = 2"
definition pcmBytesPerSample :: int where "pcmBytesPerSample = 2"

definition pcmChunkBytes :: "int \<Rightarrow> int \<Rightarrow> go_error + int" where
  "pcmChunkBytes sampleRate channels =
     (if sampleRate \<le> 0 then Inl (Message ''audio sample rate must be greater than zero'')
      else if channels \<noteq> 1 then Inl (Message ''voice capture requires mono audio'')
      else let samplesPerChannel = (sampleRate * chunkDurationMS + 999) div 1000
           in Inr (samplesPerChannel * channels * pcmBytesPerSample))"

text \<open>\<^verbatim>\<open>binary.LittleEndian.Uint16\<close> and \<^verbatim>\<open>PutUint16\<close>.\<close>

definition le16 :: "8 word \<Rightarrow> 8 word \<Rightarrow> 16 word" where
  "le16 b0 b1 = ucast b0 OR push_bit 8 (ucast b1)"

definition put16 :: "16 word \<Rightarrow> 8 word list" where
  "put16 w = [ucast w, ucast (drop_bit 8 w)]"

fun pcm16 :: "8 word list \<Rightarrow> int list" where
  "pcm16 (b0 # b1 # raw) = sint (le16 b0 b1) # pcm16 raw"
| "pcm16 raw = []"

definition pcmToFloat32 :: "8 word list \<Rightarrow> real list" where
  "pcmToFloat32 raw = map (\<lambda>s. of_int s / 32768) (pcm16 raw)"

text \<open>The conversion \<^verbatim>\<open>int16(x)\<close> of a float in range truncates towards zero.\<close>

definition trunc :: "real \<Rightarrow> int" where
  "trunc x = (if 0 \<le> x then \<lfloor>x\<rfloor> else \<lceil>x\<rceil>)"

definition clampSample :: "real \<Rightarrow> real" where
  "clampSample x = (if 1 < x then 1 else if x < -1 then -1 else x)"

definition float32ToPCM16 :: "real list \<Rightarrow> 8 word list" where
  "float32ToPCM16 samples =
     concat (map (\<lambda>sample. put16 (word_of_int (trunc (clampSample sample * 32767)))) samples)"

text \<open>\<^verbatim>\<open>chunkRMS\<close>, \<^verbatim>\<open>rmsFloat32\<close> and \<^verbatim>\<open>vad.rms\<close> are the same function.\<close>

definition rms :: "real list \<Rightarrow> real" where
  "rms samples =
     (if samples = [] then 0
      else sqrt (sum_list (map (\<lambda>v. v * v) samples) / of_nat (length samples)))"

lemma le16_put16: "le16 (ucast w) (ucast (drop_bit 8 w)) = (w :: 16 word)"
  by (rule bit_word_eqI) (auto simp: le16_def bit_simps)

lemma pcm16_put16 [simp]: "pcm16 (put16 w @ raw) = sint w # pcm16 raw"
  by (simp add: put16_def le16_put16)

lemma length_pcm16 [simp]: "length (pcm16 raw) = length raw div 2"
  by (induction raw rule: pcm16.induct) auto

lemma length_pcmToFloat32: "length (pcmToFloat32 raw) = length raw div 2"
  by (simp add: pcmToFloat32_def)

lemma length_float32ToPCM16: "length (float32ToPCM16 samples) = 2 * length samples"
  by (induction samples) (auto simp: float32ToPCM16_def put16_def)

lemma trunc_bounds: "\<bar>x\<bar> \<le> of_int m \<Longrightarrow> \<bar>trunc x\<bar> \<le> m"
  by (auto simp: trunc_def abs_le_iff floor_le_iff ceiling_le_iff le_floor_iff) linarith+

lemma clampSample_bounds: "\<bar>clampSample x\<bar> \<le> 1"
  by (auto simp: clampSample_def)

text \<open>The clamped, scaled sample is in the range of a signed 16-bit integer: nothing wraps.\<close>

lemma sint_sample: "sint (word_of_int (trunc (clampSample x * 32767)) :: 16 word) = trunc (clampSample x * 32767)"
proof -
  have "\<bar>clampSample x * 32767\<bar> \<le> of_int 32767"
    using clampSample_bounds [of x] by (simp add: abs_mult)
  from trunc_bounds [OF this] show ?thesis
    by (simp add: int_word_sint)
qed

lemma pcm16_float32ToPCM16: "pcm16 (float32ToPCM16 samples) = map (\<lambda>x. trunc (clampSample x * 32767)) samples"
  by (induction samples) (simp_all add: float32ToPCM16_def sint_sample)

lemma rms_nonneg: "0 \<le> rms xs"
  by (auto simp: rms_def intro!: divide_nonneg_nonneg sum_list_nonneg)

lemma pcm16_range: "s \<in> set (pcm16 raw) \<Longrightarrow> - 32768 \<le> s \<and> s \<le> 32767"
proof (induction raw rule: pcm16.induct)
  case (1 b0 b1 raw)
  then show ?case
    using sint_ge [of "le16 b0 b1"] sint_lt [of "le16 b0 b1"] by auto
qed auto

text \<open>Scaling a captured sample by 32767 instead of 32768 moves it one step towards zero.\<close>

lemma trunc_sample:
  assumes "- 32768 \<le> s" "s \<le> 32767"
  shows "trunc (clampSample (of_int s / 32768) * 32767) = s - sgn s"
proof -
  have clamp: "clampSample (of_int s / 32768) = of_int s / 32768"
    using assms by (auto simp: clampSample_def field_simps)
  have eq: "of_int s / 32768 * 32767 = of_int s - (of_int s :: real) / 32768"
    by (simp add: field_simps)
  consider "s = 0" | "0 < s" | "s < 0" by linarith
  then show ?thesis
  proof cases
    case 1
    then show ?thesis by (simp add: trunc_def clampSample_def)
  next
    case 2
    have "\<lfloor>of_int s - (of_int s :: real) / 32768\<rfloor> = s - 1"
      using 2 assms by (intro floor_unique) (auto simp: field_simps)
    moreover have "0 \<le> of_int s - (of_int s :: real) / 32768" using 2 by (simp add: field_simps)
    ultimately show ?thesis using 2 unfolding clamp eq by (simp add: trunc_def)
  next
    case 3
    have "\<lceil>of_int s - (of_int s :: real) / 32768\<rceil> = s + 1"
      using 3 assms by (intro ceiling_unique) (auto simp: field_simps)
    moreover have "\<not> 0 \<le> of_int s - (of_int s :: real) / 32768" using 3 by (simp add: field_simps)
    ultimately show ?thesis using 3 unfolding clamp eq by (simp add: trunc_def)
  qed
qed

subsection \<open>Properties\<close>

text \<open>
  Audio survives the trip through the pipeline: PCM bytes read from the microphone,
  converted to samples and back to bytes for playback decode to the same samples, each moved by exactly
  one 16-bit step towards zero (and 0 kept): nothing wraps, clips or is lost.
\<close>

theorem pcm_round_trip:
  "pcm16 (float32ToPCM16 (pcmToFloat32 raw)) = map (\<lambda>s. s - sgn s) (pcm16 raw)"
  using pcm16_range [of _ raw] by (simp add: pcm16_float32ToPCM16 pcmToFloat32_def trunc_sample)

text \<open>
  Encoding samples for playback is total and accurate: decoding the bytes gives back every sample,
  clamped to [-1, 1], with an error below two 16-bit steps; in particular a sample out
  of range saturates instead of wrapping around.
\<close>

theorem playback_encoding_accuracy:
  "list_all2 (\<lambda>x y. \<bar>y - clampSample x\<bar> < 2 / 32768) samples (pcmToFloat32 (float32ToPCM16 samples))"
proof -
  have "\<bar>of_int (trunc (clampSample x * 32767)) / 32768 - clampSample x\<bar> < 2 / 32768" for x
  proof -
    have "\<bar>of_int (trunc (clampSample x * 32767)) - clampSample x * 32767\<bar> < 1"
      unfolding trunc_def by (split if_split) linarith
    with clampSample_bounds [of x] show ?thesis by linarith
  qed
  then show ?thesis
    by (simp add: pcmToFloat32_def pcm16_float32ToPCM16 list_all2_conv_all_nth)
qed

end
