(* ===== verification/Vad.thy ===== *)
theory Vad
  imports Audio_Format
begin

section \<open>Voice activity detection (\<^verbatim>\<open>internal/vad\<close>)\<close>

text \<open>
  The detector interface of \<^verbatim>\<open>vad/detector.go\<close>, the energy detector of \<^verbatim>\<open>vad/vad.go\<close> with its
  noise calibration, and the Silero adapter of \<^verbatim>\<open>vad/sherpa/silero.go\<close> over a native
  backend, which is a parameter.  The interface is the locale \<open>vad_detector\<close>; both detectors
  interpret it.  Event callbacks only log, so an operation returns the events it emits.

  The sample rate of a detector in use is positive: the recorders call \<^verbatim>\<open>pcmChunkBytes\<close>,
  which rejects any other, before they feed a chunk, so the division below is defined.
\<close>

subsection \<open>The interface\<close>

text \<open>
  The operations of \<^verbatim>\<open>vad.Detector\<close> on a detector state \<open>'d\<close>: \<open>processChunk\<close> returns
  \<open>isSpeaking\<close>, \<open>shouldFinish\<close> and the state after; \<open>closeDetector\<close> the error and the state after.
\<close>

record 'd detector_ops =
  processChunk :: "real list \<Rightarrow> 'd \<Rightarrow> bool \<times> bool \<times> 'd"
  resetDetector :: "'d \<Rightarrow> 'd"
  isSpeaking :: "'d \<Rightarrow> bool"
  closeDetector :: "'d \<Rightarrow> go_error option \<times> 'd"

text \<open>
  What the recorders rely on: a chunk that ends an utterance belongs to it, the detector
  is in an utterance exactly after a chunk that belongs to one and does not end it, and
  while it is in an utterance every chunk belongs to it.
\<close>

locale vad_detector =
  fixes ops :: "'d detector_ops" and ok :: "'d \<Rightarrow> bool"
  assumes process_ok: "ok d \<Longrightarrow> c \<noteq> [] \<Longrightarrow> ok (snd (snd (processChunk ops c d)))"
    and process_finish: "ok d \<Longrightarrow> c \<noteq> [] \<Longrightarrow> fst (snd (processChunk ops c d)) \<Longrightarrow> fst (processChunk ops c d)"
    and process_speaking: "ok d \<Longrightarrow> c \<noteq> [] \<Longrightarrow>
      isSpeaking ops (snd (snd (processChunk ops c d))) \<longleftrightarrow>
        fst (processChunk ops c d) \<and> \<not> fst (snd (processChunk ops c d))"
    and process_sticky: "ok d \<Longrightarrow> c \<noteq> [] \<Longrightarrow> isSpeaking ops d \<Longrightarrow> fst (processChunk ops c d)"
    and reset_ok: "ok d \<Longrightarrow> ok (resetDetector ops d)"
    and reset_silent: "ok d \<Longrightarrow> \<not> isSpeaking ops (resetDetector ops d)"

subsection \<open>The energy detector\<close>

datatype vad_state = StateSilence | StateSpeaking | StateTrailingSilence

datatype eventType = EventVoiceDetected | EventSilenceStart | EventSilenceProgress | EventCutBySilence

text \<open>The semantic aliases of \<^verbatim>\<open>energy_compat.go\<close>.\<close>

definition EventSpeechStarted :: eventType where "EventSpeechStarted = EventVoiceDetected"
definition EventSpeechEnded :: eventType where "EventSpeechEnded = EventCutBySilence"

record event =
  eventType :: eventType
  silenceMS :: int

record vad =
  threshold :: real
  releaseThreshold :: real
  silenceDuration :: duration
  vadSampleRate :: int
  emaAlpha :: real
  smoothedEnergy :: real
  vadState :: vad_state
  silenceSamples :: int
  maxSilence :: int

definition New :: "real \<Rightarrow> real \<Rightarrow> duration \<Rightarrow> int \<Rightarrow> vad" where
  "New thr rel silence sampleRate =
     (let maxSil = trunc (of_int silence / 1000000000 * of_int sampleRate);
          rel1 = (if rel < 0 then 0 else rel);
          rel2 = (if thr < rel1 then thr else rel1)
      in \<lparr>threshold = thr, releaseThreshold = rel2, silenceDuration = silence,
          vadSampleRate = sampleRate, emaAlpha = 1 / 4, smoothedEnergy = 0,
          vadState = StateSilence, silenceSamples = 0, maxSilence = maxSil\<rparr>)"

definition Reset :: "vad \<Rightarrow> vad" where
  "Reset v = v\<lparr>vadState := StateSilence, silenceSamples := 0, smoothedEnergy := 0\<rparr>"

definition IsSpeaking :: "vad \<Rightarrow> bool" where
  "IsSpeaking v \<longleftrightarrow> vadState v \<noteq> StateSilence"

definition plain_event :: "eventType \<Rightarrow> event" where
  "plain_event t = \<lparr>eventType = t, silenceMS = 0\<rparr>"

text \<open>\<open>ProcessChunk\<close>: whether the chunk belongs to an utterance, whether it ends it, events, state.\<close>

definition ProcessChunk :: "real list \<Rightarrow> vad \<Rightarrow> bool \<times> bool \<times> event list \<times> vad" where
  "ProcessChunk samples v0 =
     (let raw = rms samples;
          v = v0\<lparr>smoothedEnergy := emaAlpha v0 * raw + (1 - emaAlpha v0) * smoothedEnergy v0\<rparr>
      in case vadState v of
        StateSilence \<Rightarrow>
          if threshold v < raw
          then (True, False, [plain_event EventVoiceDetected],
                v\<lparr>vadState := StateSpeaking, silenceSamples := 0\<rparr>)
          else (False, False, [], v)
      | StateSpeaking \<Rightarrow>
          if smoothedEnergy v \<le> releaseThreshold v
          then (True, False, [plain_event EventSilenceStart],
                v\<lparr>vadState := StateTrailingSilence, silenceSamples := int (length samples)\<rparr>)
          else (True, False, [], v)
      | StateTrailingSilence \<Rightarrow>
          if releaseThreshold v < smoothedEnergy v
          then (True, False, [], v\<lparr>vadState := StateSpeaking, silenceSamples := 0\<rparr>)
          else
            let silence = silenceSamples v + int (length samples);
                ms = silence * 1000 div vadSampleRate v
            in if maxSilence v \<le> silence
               then (True, True, [\<lparr>eventType = EventCutBySilence, silenceMS = ms\<rparr>],
                     Reset (v\<lparr>silenceSamples := silence\<rparr>))
               else (True, False, [\<lparr>eventType = EventSilenceProgress, silenceMS = ms\<rparr>],
                     v\<lparr>silenceSamples := silence\<rparr>))"

definition Close :: "vad \<Rightarrow> go_error option \<times> vad" where
  "Close v = (None, v)"

definition energy_ops :: "vad detector_ops" where
  "energy_ops = \<lparr>processChunk = (\<lambda>c v. let (a, f, _, v') = ProcessChunk c v in (a, f, v')),
     resetDetector = Reset, isSpeaking = IsSpeaking, closeDetector = Close\<rparr>"

subsection \<open>Calibration\<close>

record noiseStats =
  Mean :: real
  StdDev :: real
  MaxRMS :: real

definition SuggestedThreshold :: "noiseStats \<Rightarrow> real" where
  "SuggestedThreshold n = (let t = Mean n + 4 * StdDev n in if t < 5 / 1000 then 5 / 1000 else t)"

function chunkEnergies :: "nat \<Rightarrow> real list \<Rightarrow> real list" where
  "chunkEnergies chunkSize samples =
     (if 0 < chunkSize \<and> chunkSize \<le> length samples
      then rms (take chunkSize samples) # chunkEnergies chunkSize (drop chunkSize samples)
      else [])"
  by pat_completeness auto
termination by (relation "measure (\<lambda>(n, xs). length xs)") auto

declare chunkEnergies.simps [simp del]

definition MeasureNoise :: "real list \<Rightarrow> int \<Rightarrow> noiseStats" where
  "MeasureNoise samples chunkSize =
     (if chunkSize \<le> 0 \<or> int (length samples) < chunkSize
      then \<lparr>Mean = 0, StdDev = 0, MaxRMS = 0\<rparr>
      else let energies = chunkEnergies (nat chunkSize) samples in
        if energies = [] then \<lparr>Mean = 0, StdDev = 0, MaxRMS = 0\<rparr>
        else let sum = foldl (+) 0 energies;
                 maxVal = foldl (\<lambda>m e. if m < e then e else m) 0 energies;
                 mean = sum / of_nat (length energies);
                 variance = foldl (\<lambda>v e. v + (e - mean) * (e - mean)) 0 energies / of_nat (length energies)
             in \<lparr>Mean = mean, StdDev = sqrt variance, MaxRMS = maxVal\<rparr>)"

subsection \<open>The Silero adapter\<close>

record silero_config =
  Model :: string
  Threshold :: real
  MinSilenceDuration :: duration
  MinSpeechDuration :: duration
  MaxSpeechDuration :: duration
  SileroSampleRate :: int
  NumThreads :: int
  Provider :: string
  WindowSize :: int
  BufferSize :: duration

text \<open>
  \<^verbatim>\<open>Config.validate\<close>; \<open>stat\<close> is the result of \<^verbatim>\<open>os.Stat\<close> on the model path: an error, or whether
  the file is regular.  The messages leave out the quoted path and rate.
\<close>

definition validate :: "(string \<Rightarrow> go_error + bool) \<Rightarrow> silero_config \<Rightarrow> go_error option" where
  "validate stat c =
     (if Model c = [] then Some (Message ''silero model is required'')
      else case stat (Model c) of
        Inl e \<Rightarrow> Some (Wrapped ''silero model'' e)
      | Inr regular \<Rightarrow>
          if \<not> regular then Some (Message ''silero model is not a regular file'')
          else if SileroSampleRate c \<noteq> 16000 then Some (Message ''silero model requires 16000 Hz'')
          else if Threshold c \<le> 0 \<or> 1 \<le> Threshold c
            then Some (Message ''silero threshold must be greater than 0 and less than 1'')
          else if MinSilenceDuration c \<le> 0
            then Some (Message ''silero minimum silence duration must be greater than zero'')
          else if MinSpeechDuration c < 0
            then Some (Message ''silero minimum speech duration must not be negative'')
          else if MaxSpeechDuration c \<le> 0
            then Some (Message ''silero maximum speech duration must be greater than zero'')
          else if NumThreads c \<le> 0 then Some (Message ''silero num threads must be greater than zero'')
          else if Provider c = [] then Some (Message ''silero provider is required'')
          else if WindowSize c \<le> 0 then Some (Message ''silero window size must be greater than zero'')
          else if BufferSize c \<le> 0 then Some (Message ''silero buffer size must be greater than zero'')
          else None)"

text \<open>The native backend, a parameter of the adapter.\<close>

record 'b backend_ops =
  AcceptWaveform :: "real list \<Rightarrow> 'b \<Rightarrow> 'b"
  IsSpeech :: "'b \<Rightarrow> bool"
  IsEmpty :: "'b \<Rightarrow> bool"
  Pop :: "'b \<Rightarrow> 'b"
  Clear :: "'b \<Rightarrow> 'b"

text \<open>\<open>released\<close> counts the calls of the backend's \<^verbatim>\<open>Close\<close>.\<close>

record 'b silero =
  backend :: "'b option"
  speaking :: bool
  closed :: bool
  released :: nat

definition newWithBackend :: "'b \<Rightarrow> 'b silero" where
  "newWithBackend value = \<lparr>backend = Some value, speaking = False, closed = False, released = 0\<rparr>"

text \<open>\<^verbatim>\<open>sherpa.New\<close>; \<open>native\<close> is the constructor of the library, \<^term>\<open>None\<close> its nil result.\<close>

definition NewSilero ::
  "(string \<Rightarrow> go_error + bool) \<Rightarrow> (silero_config \<Rightarrow> 'b option) \<Rightarrow> silero_config \<Rightarrow> go_error + 'b silero"
where
  "NewSilero stat native config =
     (case validate stat config of
        Some e \<Rightarrow> Inl e
      | None \<Rightarrow>
          (case native config of
             None \<Rightarrow> Inl (Message ''creating sherpa-onnx Silero VAD'')
           | Some b \<Rightarrow> Inr (newWithBackend b)))"

definition silero_ProcessChunk ::
  "'b backend_ops \<Rightarrow> real list \<Rightarrow> 'b silero \<Rightarrow> bool \<times> bool \<times> event list \<times> 'b silero"
where
  "silero_ProcessChunk bo samples s =
     (if samples = [] then (False, False, [], s)
      else case backend s of
        None \<Rightarrow> (False, False, [], s)
      | Some b0 \<Rightarrow>
          if closed s then (False, False, [], s)
          else
            let b1 = AcceptWaveform bo samples b0;
                started = IsSpeech bo b1 \<and> \<not> speaking s;
                speaking1 = (speaking s \<or> started);
                events1 = (if started then [plain_event EventSpeechStarted] else []);
                finished = (\<not> IsEmpty bo b1)
            in if finished
               then (True, True,
                     events1 @ (if \<not> speaking1 then [plain_event EventSpeechStarted] else [])
                       @ [plain_event EventSpeechEnded],
                     s\<lparr>backend := Some (Pop bo b1), speaking := False\<rparr>)
               else (speaking1, False, events1, s\<lparr>backend := Some b1, speaking := speaking1\<rparr>))"

definition silero_Reset :: "'b backend_ops \<Rightarrow> 'b silero \<Rightarrow> 'b silero" where
  "silero_Reset bo s =
     (case backend s of
        None \<Rightarrow> s
      | Some b \<Rightarrow> if closed s then s else s\<lparr>backend := Some (Clear bo b), speaking := False\<rparr>)"

definition silero_IsSpeaking :: "'b silero \<Rightarrow> bool" where
  "silero_IsSpeaking s \<longleftrightarrow> \<not> closed s \<and> speaking s"

definition silero_Close :: "'b silero \<Rightarrow> go_error option \<times> 'b silero" where
  "silero_Close s =
     (if closed s then (None, s)
      else (None, s\<lparr>closed := True, backend := None, speaking := False,
                    released := released s + (case backend s of None \<Rightarrow> 0 | Some _ \<Rightarrow> 1)\<rparr>))"

definition silero_ops :: "'b backend_ops \<Rightarrow> 'b silero detector_ops" where
  "silero_ops bo = \<lparr>processChunk = (\<lambda>c s. let (a, f, _, s') = silero_ProcessChunk bo c s in (a, f, s')),
     resetDetector = silero_Reset bo, isSpeaking = silero_IsSpeaking, closeDetector = silero_Close\<rparr>"

subsection \<open>Both detectors keep the contract\<close>

definition vad_inv :: "vad \<Rightarrow> bool" where
  "vad_inv v \<longleftrightarrow> releaseThreshold v \<le> threshold v \<and> 0 \<le> smoothedEnergy v \<and>
     0 \<le> emaAlpha v \<and> emaAlpha v \<le> 1 \<and> 0 \<le> silenceSamples v"

lemma vad_inv_New: "0 \<le> thr \<Longrightarrow> vad_inv (New thr rel silence rate)"
  by (simp add: vad_inv_def New_def Let_def)

lemma vad_inv_Reset: "vad_inv v \<Longrightarrow> vad_inv (Reset v)"
  by (simp add: vad_inv_def Reset_def)

lemma smoothed_nonneg:
  "vad_inv v \<Longrightarrow> 0 \<le> emaAlpha v * rms c + (1 - emaAlpha v) * smoothedEnergy v"
  by (auto simp: vad_inv_def intro!: add_nonneg_nonneg mult_nonneg_nonneg rms_nonneg)

lemma vad_inv_ProcessChunk: "vad_inv v \<Longrightarrow> vad_inv (snd (snd (snd (ProcessChunk c v))))"
  using smoothed_nonneg [of v c]
  by (simp add: ProcessChunk_def Let_def Reset_def vad_inv_def split: vad_state.split)

lemma ProcessChunk_contract:
  fixes v :: vad and c :: "real list"
  defines "res \<equiv> ProcessChunk c v"
  shows "fst (snd res) \<Longrightarrow> fst res"
    and "IsSpeaking (snd (snd (snd res))) \<longleftrightarrow> fst res \<and> \<not> fst (snd res)"
    and "IsSpeaking v \<Longrightarrow> fst res"
  unfolding res_def
  by (auto simp: ProcessChunk_def Let_def Reset_def IsSpeaking_def split: vad_state.splits if_splits)

lemma Reset_silent: "\<not> IsSpeaking (Reset v)"
  by (simp add: IsSpeaking_def Reset_def)

interpretation energy: vad_detector energy_ops vad_inv
  by unfold_locales
     (simp_all add: energy_ops_def case_prod_unfold Let_def vad_inv_ProcessChunk vad_inv_Reset
        ProcessChunk_contract Reset_silent)

definition silero_inv :: "'b silero \<Rightarrow> bool" where
  "silero_inv s \<longleftrightarrow> (backend s = None \<longleftrightarrow> closed s) \<and> (closed s \<longrightarrow> \<not> speaking s) \<and>
     released s = (if closed s then 1 else 0)"

lemma silero_inv_new [simp]: "silero_inv (newWithBackend b)"
  by (simp add: silero_inv_def newWithBackend_def)

lemma silero_inv_process: "silero_inv s \<Longrightarrow> silero_inv (snd (snd (snd (silero_ProcessChunk bo c s))))"
  by (auto simp: silero_inv_def silero_ProcessChunk_def Let_def split: option.splits)

lemma silero_inv_reset: "silero_inv s \<Longrightarrow> silero_inv (silero_Reset bo s)"
  by (auto simp: silero_inv_def silero_Reset_def split: option.splits)

lemma silero_inv_close: "silero_inv s \<Longrightarrow> silero_inv (snd (silero_Close s))"
  by (auto simp: silero_inv_def silero_Close_def split: option.splits)

lemma silero_contract:
  fixes s :: "'b silero" and c :: "real list" and bo :: "'b backend_ops"
  assumes "silero_inv s" "c \<noteq> []"
  defines "res \<equiv> silero_ProcessChunk bo c s"
  shows "fst (snd res) \<Longrightarrow> fst res"
    and "silero_IsSpeaking (snd (snd (snd res))) \<longleftrightarrow> fst res \<and> \<not> fst (snd res)"
    and "silero_IsSpeaking s \<Longrightarrow> fst res"
  using assms(1,2) unfolding res_def
  by (auto simp: silero_ProcessChunk_def Let_def silero_IsSpeaking_def silero_inv_def
        split: option.splits)

lemma silero_reset_silent: "silero_inv s \<Longrightarrow> \<not> silero_IsSpeaking (silero_Reset bo s)"
  by (auto simp: silero_inv_def silero_IsSpeaking_def silero_Reset_def split: option.splits)

interpretation silero: vad_detector "silero_ops bo" silero_inv
  by unfold_locales
     (simp_all add: silero_ops_def case_prod_unfold Let_def silero_inv_process silero_inv_reset
        silero_contract silero_reset_silent)

subsection \<open>When the energy detector ends an utterance\<close>

text \<open>Feeding chunks one after the other until one ends the utterance; \<^term>\<open>None\<close> if none does.\<close>

fun vad_until_finish :: "vad \<Rightarrow> real list list \<Rightarrow> vad option" where
  "vad_until_finish v [] = Some v"
| "vad_until_finish v (c # cs) =
     (let (_, finish, _, v') = ProcessChunk c v in if finish then None else vad_until_finish v' cs)"

definition ema :: "real \<Rightarrow> real \<Rightarrow> real list list \<Rightarrow> real" where
  "ema alpha e cs = foldl (\<lambda>e c. alpha * rms c + (1 - alpha) * e) e cs"

definition total_len :: "real list list \<Rightarrow> int" where
  "total_len cs = int (sum_list (map length cs))"

lemma ema_snoc: "ema alpha e (cs @ [c]) = alpha * rms c + (1 - alpha) * ema alpha e cs"
  by (simp add: ema_def)

lemma total_len_snoc: "total_len (cs @ [c]) = total_len cs + int (length c)"
  by (simp add: total_len_def)

text \<open>\<open>tail\<close> ends \<open>cs\<close>, and after each of its chunks the smoothed energy is at most \<open>rel\<close>.\<close>

definition quiet_tail :: "real \<Rightarrow> real \<Rightarrow> real \<Rightarrow> real list list \<Rightarrow> real list list \<Rightarrow> bool" where
  "quiet_tail alpha e rel cs tail \<longleftrightarrow>
     (\<exists>pre. cs = pre @ tail \<and> (\<forall>k < length tail. ema alpha e (pre @ take (Suc k) tail) \<le> rel))"

lemma quiet_tail_snoc:
  "quiet_tail alpha e rel cs tail \<Longrightarrow> ema alpha e (cs @ [c]) \<le> rel \<Longrightarrow>
     quiet_tail alpha e rel (cs @ [c]) (tail @ [c])"
  unfolding quiet_tail_def by (fastforce simp: less_Suc_eq)

lemma vad_until_finish_snoc:
  "vad_until_finish v (cs @ [c]) =
     (case vad_until_finish v cs of None \<Rightarrow> None
      | Some w \<Rightarrow> let (_, finish, _, v') = ProcessChunk c w in if finish then None else Some v')"
  by (induction cs arbitrary: v) (auto simp: case_prod_unfold Let_def)

text \<open>
  The state of the machine after a run: its parameters are unchanged, its smoothed energy is the
  exponential average of the run, and in trailing silence its counter is the length of
  a quiet tail of the run.
\<close>

definition run_inv :: "vad \<Rightarrow> real list list \<Rightarrow> vad \<Rightarrow> bool" where
  "run_inv v0 cs v \<longleftrightarrow>
     threshold v = threshold v0 \<and> releaseThreshold v = releaseThreshold v0 \<and> emaAlpha v = emaAlpha v0 \<and>
     maxSilence v = maxSilence v0 \<and> smoothedEnergy v = ema (emaAlpha v0) (smoothedEnergy v0) cs \<and>
     (vadState v = StateTrailingSilence \<longrightarrow>
        (\<exists>tail. quiet_tail (emaAlpha v0) (smoothedEnergy v0) (releaseThreshold v0) cs tail \<and>
           silenceSamples v = total_len tail))"

lemma run_inv_step:
  assumes "run_inv v0 cs v" "\<not> fst (snd (ProcessChunk c v))"
  shows "run_inv v0 (cs @ [c]) (snd (snd (snd (ProcessChunk c v))))"
proof -
  let ?e = "emaAlpha v * rms c + (1 - emaAlpha v) * smoothedEnergy v"
  have e: "?e = ema (emaAlpha v0) (smoothedEnergy v0) (cs @ [c])"
    using assms(1) by (simp add: run_inv_def ema_snoc)
  show ?thesis
  proof (cases "vadState v")
    case StateSilence
    with assms e show ?thesis by (auto simp: ProcessChunk_def run_inv_def Let_def)
  next
    case StateSpeaking
    show ?thesis
    proof (cases "?e \<le> releaseThreshold v")
      case True
      have "quiet_tail (emaAlpha v0) (smoothedEnergy v0) (releaseThreshold v0) (cs @ [c]) [c]"
        using True e assms(1) by (auto simp: quiet_tail_def run_inv_def)
      then show ?thesis using StateSpeaking True assms e
        by (auto simp: ProcessChunk_def run_inv_def Let_def total_len_def intro!: exI [of _ "[c]"])
    next
      case False
      with StateSpeaking assms e show ?thesis by (auto simp: ProcessChunk_def run_inv_def Let_def)
    qed
  next
    case StateTrailingSilence
    show ?thesis
    proof (cases "releaseThreshold v < ?e")
      case True
      with StateTrailingSilence assms e show ?thesis by (auto simp: ProcessChunk_def run_inv_def Let_def)
    next
      case False
      obtain tail where t: "quiet_tail (emaAlpha v0) (smoothedEnergy v0) (releaseThreshold v0) cs tail"
        "silenceSamples v = total_len tail"
        using assms(1) StateTrailingSilence by (auto simp: run_inv_def)
      have "quiet_tail (emaAlpha v0) (smoothedEnergy v0) (releaseThreshold v0) (cs @ [c]) (tail @ [c])"
        using False e assms(1) by (intro quiet_tail_snoc t(1)) (auto simp: run_inv_def)
      then show ?thesis using StateTrailingSilence False assms e t(2)
        by (auto simp: ProcessChunk_def run_inv_def Let_def total_len_snoc split: if_splits
              intro!: exI [of _ "tail @ [c]"])
    qed
  qed
qed

lemma run_inv_run:
  "vadState v0 = StateSilence \<Longrightarrow> vad_until_finish v0 cs = Some v \<Longrightarrow> run_inv v0 cs v"
proof (induction cs arbitrary: v rule: rev_induct)
  case Nil
  then show ?case by (simp add: run_inv_def ema_def)
next
  case (snoc c cs)
  then obtain w where w: "vad_until_finish v0 cs = Some w" "\<not> fst (snd (ProcessChunk c w))"
    "v = snd (snd (snd (ProcessChunk c w)))"
    by (auto simp: vad_until_finish_snoc case_prod_unfold Let_def split: option.splits if_splits)
  with snoc run_inv_step show ?case by blast
qed

subsection \<open>Properties\<close>

text \<open>
  The energy detector never cuts an utterance early: if, fed from silence, it reports the end at
  some chunk, then a run of chunks ending with this one holds at least the configured
  amount of samples and the smoothed energy stayed at or below the release threshold
  throughout that run.
\<close>

theorem energy_endpoint_after_silence:
  assumes "vadState v0 = StateSilence" "vad_until_finish v0 cs = Some v"
    and "fst (snd (ProcessChunk c v))"
  shows "\<exists>tail. quiet_tail (emaAlpha v0) (smoothedEnergy v0) (releaseThreshold v0) (cs @ [c]) tail \<and>
    maxSilence v0 \<le> total_len tail"
proof -
  let ?e = "emaAlpha v * rms c + (1 - emaAlpha v) * smoothedEnergy v"
  have inv: "run_inv v0 cs v" using run_inv_run assms(1,2) by blast
  have st: "vadState v = StateTrailingSilence" and le: "?e \<le> releaseThreshold v"
    and enough: "maxSilence v \<le> silenceSamples v + int (length c)"
    using assms(3) by (auto simp: ProcessChunk_def Let_def split: vad_state.splits if_splits)
  obtain tail where t: "quiet_tail (emaAlpha v0) (smoothedEnergy v0) (releaseThreshold v0) cs tail"
    "silenceSamples v = total_len tail"
    using inv st by (auto simp: run_inv_def)
  have "quiet_tail (emaAlpha v0) (smoothedEnergy v0) (releaseThreshold v0) (cs @ [c]) (tail @ [c])"
    using inv le by (intro quiet_tail_snoc t(1)) (simp add: run_inv_def ema_snoc)
  with t(2) inv enough show ?thesis
    by (auto simp: total_len_snoc run_inv_def intro!: exI [of _ "tail @ [c]"])
qed

theorem energy_endpoint_after_silence_witness:
  "\<exists>(v0 :: vad) tail. vadState v0 = StateSilence \<and>
     quiet_tail (emaAlpha v0) (smoothedEnergy v0) (releaseThreshold v0) [[1], [0], [0]] tail \<and>
     2 \<le> total_len tail"
proof -
  define v0 where "v0 = New (1/2) (2/5) 2000000000 1"
  have r1: "rms [1] = 1" "rms [0] = 0" by (simp_all add: rms_def)
  have v0: "vadState v0 = StateSilence" "maxSilence v0 = 2"
    by (simp_all add: v0_def New_def Let_def trunc_def)
  obtain v where "vad_until_finish v0 [[1], [0]] = Some v" "fst (snd (ProcessChunk [0] v))"
    by (simp add: v0_def New_def Let_def trunc_def ProcessChunk_def r1)
  from energy_endpoint_after_silence [OF v0(1) this] v0 show ?thesis
    by (intro exI [of _ v0]) auto
qed

end
