(* ===== verification/Capture.thy ===== *)
theory Capture
  imports Vad
begin

section \<open>Continuous capture (\<^verbatim>\<open>internal/audio/continuous_capture.go\<close>)\<close>

text \<open>
  The recorder that owns one long-lived microphone process and cuts its PCM stream into
  utterances.  Its operations are functions on the record \<open>recorder\<close>; the goroutine that reads
  the microphone, the caller of \<^verbatim>\<open>Next\<close>, the capture gate, the barge-in consumer and
  \<^verbatim>\<open>Close\<close> are interleaved by the step relation \<open>cap_step\<close>.  The detector is any
  implementation of the interface of theory \<open>Vad\<close>; the microphone delivers whatever the
  environment chooses.

  Durations of whole seconds times a sample count are exact, so
  \<^verbatim>\<open>int(float64(rate*channels) * d.Seconds())\<close> is the integer product.
\<close>

definition defaultContinuousPreRollChunks :: int where "defaultContinuousPreRollChunks = 4"
definition defaultUtteranceQueueDepth :: int where "defaultUtteranceQueueDepth = 4"
definition defaultBargeCandidateDepth :: nat where "defaultBargeCandidateDepth = 2"
definition defaultPartialSnapshotDepth :: nat where "defaultPartialSnapshotDepth = 1"
definition partialPreviewSeconds :: int where "partialPreviewSeconds = 1"
definition bargePreRollChunks :: int where "bargePreRollChunks = 2"
definition bargeWarmupChunks :: nat where "bargeWarmupChunks = 3"
definition bargeTriggerChunks :: nat where "bargeTriggerChunks = 2"
definition bargeRelativeGain :: real where "bargeRelativeGain = 165 / 100"
definition bargeAbsoluteRMS :: real where "bargeAbsoluteRMS = 25 / 1000"
definition bargeBaselineAlpha :: real where "bargeBaselineAlpha = 8 / 100"
definition bargeMaxSeconds :: int where "bargeMaxSeconds = 2"

record continuousOptions =
  PreRollChunks :: int
  QueueDepth :: int

definition defaultContinuousOptions :: continuousOptions where
  "defaultContinuousOptions =
     \<lparr>PreRollChunks = defaultContinuousPreRollChunks, QueueDepth = defaultUtteranceQueueDepth\<rparr>"

text \<open>The zero \<^verbatim>\<open>time.Time\<close> is \<^term>\<open>None\<close>.\<close>

record bargeCandidate =
  candBuffer :: buffer
  candStartedAt :: "instant option"
  candPeakRMS :: real

record partialAudio =
  partBuffer :: buffer
  partCapturedAt :: instant

record bargeCaptureState =
  baseline :: real
  warmup :: nat
  loudChunks :: nat
  startedAt :: "instant option"
  peakRMS :: real
  bargeRecording :: "real list"
  bargePreRoll :: preRollBuffer

text \<open>
  Processes are numbered in the order they are started.  The last two fields are no part of
  the code: they record the utterances handed to a caller of \<^verbatim>\<open>Next\<close> and how many were published.
\<close>

record 'd recorder =
  cfgRate :: int
  cfgChannels :: int
  detector :: 'd
  preRoll :: preRollBuffer
  queueDepth :: nat
  utterances :: "buffer list"
  partials :: "partialAudio list"
  bargeCandidates :: "bargeCandidate list"
  sourceErr :: "go_error list"
  process :: "nat option"
  running :: bool
  recClosed :: bool
  dropped :: nat
  suppressed :: bool
  waiting :: bool
  received :: "buffer list"
  published :: nat

subsection \<open>Construction\<close>

definition newContinuousRecorder ::
  "int \<Rightarrow> int \<Rightarrow> 'd option \<Rightarrow> continuousOptions \<Rightarrow> go_error + 'd recorder"
where
  "newContinuousRecorder rate channels det options =
     (case det of
        None \<Rightarrow> Inl (Message ''voice activity detector is nil'')
      | Some d \<Rightarrow>
          (case pcmChunkBytes rate channels of
             Inl e \<Rightarrow> Inl e
           | Inr _ \<Rightarrow>
               if PreRollChunks options \<le> 0
               then Inl (Message ''continuous pre-roll chunks must be greater than zero'')
               else if QueueDepth options \<le> 0
               then Inl (Message ''continuous utterance queue depth must be greater than zero'')
               else Inr \<lparr>cfgRate = rate, cfgChannels = channels, detector = d,
                    preRoll = newPreRollBuffer (PreRollChunks options),
                    queueDepth = nat (QueueDepth options), utterances = [], partials = [],
                    bargeCandidates = [], sourceErr = [], process = None, running = False,
                    recClosed = False, dropped = 0, suppressed = False, waiting = False,
                    received = [], published = 0\<rparr>))"

definition NewContinuousRecorderWithDetector :: "int \<Rightarrow> int \<Rightarrow> 'd option \<Rightarrow> go_error + 'd recorder" where
  "NewContinuousRecorderWithDetector rate channels det =
     newContinuousRecorder rate channels det defaultContinuousOptions"

subsection \<open>Publication\<close>

definition resetPartials :: "'d recorder \<Rightarrow> 'd recorder" where
  "resetPartials r = r\<lparr>partials := []\<rparr>"

definition flushBargeCandidates :: "'d recorder \<Rightarrow> 'd recorder" where
  "flushBargeCandidates r = r\<lparr>bargeCandidates := []\<rparr>"

definition SetSuppressed :: "bool \<Rightarrow> 'd recorder \<Rightarrow> 'd recorder" where
  "SetSuppressed b r =
     (let r1 = r\<lparr>suppressed := b\<rparr> in if \<not> b then flushBargeCandidates r1 else r1)"

text \<open>
  The three publications replace the oldest element of a full channel; \<open>k1\<close> and \<open>k2\<close> are the
  elements a concurrent consumer takes between their steps.
\<close>

definition publishPartial :: "nat \<Rightarrow> nat \<Rightarrow> partialAudio \<Rightarrow> 'd recorder \<Rightarrow> 'd recorder" where
  "publishPartial k1 k2 preview r =
     (if Empty (partBuffer preview) then r
      else let (_, _, q) = chan_replace defaultPartialSnapshotDepth preview k1 k2 (partials r)
           in r\<lparr>partials := q\<rparr>)"

definition publishBargeCandidate :: "nat \<Rightarrow> nat \<Rightarrow> bargeCandidate \<Rightarrow> 'd recorder \<Rightarrow> 'd recorder" where
  "publishBargeCandidate k1 k2 candidate r =
     (if Empty (candBuffer candidate) \<or> candStartedAt candidate = None then r
      else let (_, _, q) = chan_replace defaultBargeCandidateDepth candidate k1 k2 (bargeCandidates r)
           in r\<lparr>bargeCandidates := q\<rparr>)"

definition publishUtterance :: "nat \<Rightarrow> nat \<Rightarrow> real list \<Rightarrow> 'd recorder \<Rightarrow> 'd recorder" where
  "publishUtterance k1 k2 samples r =
     (let minimumSamples = cfgRate r * cfgChannels r div 4 in
      if int (length samples) < minimumSamples then r
      else let buffer = \<lparr>Samples = samples, SampleRate = cfgRate r, Channels = cfgChannels r\<rparr>;
               (discarded, sent, q) = chan_replace (queueDepth r) buffer k1 k2 (utterances r)
           in r\<lparr>utterances := q, published := Suc (published r),
                received := received r @ chan_taken (queueDepth r) k1 k2 (utterances r),
                dropped := dropped r + (if discarded then 1 else 0) + (if sent then 0 else 1)\<rparr>)"

subsection \<open>Chunks\<close>

text \<open>\<^verbatim>\<open>processChunk\<close>: the recording so far, whether the utterance ends, detector and pre-roll after.\<close>

definition recordChunk ::
  "'d detector_ops \<Rightarrow> real list \<Rightarrow> real list \<Rightarrow> 'd \<Rightarrow> preRollBuffer \<Rightarrow>
     real list \<times> bool \<times> 'd \<times> preRollBuffer"
where
  "recordChunk ops recording chunk d pre =
     (let (speaks, shouldFinish, d') = processChunk ops chunk d in
      if speaks
      then (if recording = [] then (startRecording chunk pre, shouldFinish, d', preRoll_reset pre)
            else (recording @ chunk, shouldFinish, d', pre))
      else if recording = [] then (recording, shouldFinish, d', preRoll_add chunk pre)
      else (recording, shouldFinish, d', pre))"

definition contProcessChunk ::
  "'d detector_ops \<Rightarrow> real list \<Rightarrow> real list \<Rightarrow> 'd recorder \<Rightarrow> real list \<times> bool \<times> 'd recorder"
where
  "contProcessChunk ops recording chunk r =
     (let (recording', finish, d', pre') = recordChunk ops recording chunk (detector r) (preRoll r)
      in (recording', finish, r\<lparr>detector := d', preRoll := pre'\<rparr>))"

definition maybePublishPartial ::
  "nat \<Rightarrow> nat \<Rightarrow> instant \<Rightarrow> real list \<Rightarrow> bool \<Rightarrow> 'd recorder \<Rightarrow> bool \<times> 'd recorder"
where
  "maybePublishPartial k1 k2 now recording alreadySent r =
     (if alreadySent \<or> \<not> waiting r \<or> recording = [] then (alreadySent, r)
      else if int (length recording) < cfgRate r * cfgChannels r * partialPreviewSeconds then (False, r)
      else (True, publishPartial k1 k2
              \<lparr>partBuffer = \<lparr>Samples = recording, SampleRate = cfgRate r, Channels = cfgChannels r\<rparr>,
               partCapturedAt = now\<rparr> r))"

subsection \<open>Barge-in candidates\<close>

definition bargeReset :: "bargeCaptureState \<Rightarrow> bargeCaptureState" where
  "bargeReset s = \<lparr>baseline = 0, warmup = 0, loudChunks = 0, startedAt = None, peakRMS = 0,
     bargeRecording = [], bargePreRoll = preRoll_reset (bargePreRoll s)\<rparr>"

definition newBargeCaptureState :: bargeCaptureState where
  "newBargeCaptureState = bargeReset \<lparr>baseline = 0, warmup = 0, loudChunks = 0, startedAt = None,
     peakRMS = 0, bargeRecording = [], bargePreRoll = newPreRollBuffer bargePreRollChunks\<rparr>"

definition updateBargeBaseline :: "real \<Rightarrow> real \<Rightarrow> real" where
  "updateBargeBaseline current sample =
     (if current \<le> 0 then sample
      else current * (1 - bargeBaselineAlpha) + sample * bargeBaselineAlpha)"

text \<open>The candidate is \<^term>\<open>None\<close> where the code returns \<^verbatim>\<open>BargeCandidate{}, false\<close>.\<close>

definition processBargeChunk ::
  "'d detector_ops \<Rightarrow> instant \<Rightarrow> bargeCaptureState \<Rightarrow> real list \<Rightarrow> 'd recorder \<Rightarrow>
     bargeCandidate option \<times> bargeCaptureState \<times> 'd recorder"
where
  "processBargeChunk ops now st chunk r0 =
     (if chunk = [] then (None, st, r0)
      else
        let level = rms chunk;
            (speaks, shouldFinish, d') = processChunk ops chunk (detector r0);
            r = r0\<lparr>detector := d'\<rparr>
        in if bargeRecording st = [] then
             (if warmup st < bargeWarmupChunks
              then (None, st\<lparr>baseline := updateBargeBaseline (baseline st) level,
                           warmup := Suc (warmup st), bargePreRoll := preRoll_add chunk (bargePreRoll st)\<rparr>, r)
              else
                let limit = max bargeAbsoluteRMS (baseline st * bargeRelativeGain)
                in if speaks \<and> limit \<le> level then
                     let st1 = st\<lparr>loudChunks := Suc (loudChunks st),
                                  peakRMS := (if peakRMS st < level then level else peakRMS st)\<rparr>
                     in if bargeTriggerChunks \<le> loudChunks st1
                        then (None, st1\<lparr>
                               startedAt := Some (now - bargePreRollChunks * chunkDurationMS * 1000000),
                               bargeRecording := startRecording chunk (bargePreRoll st1),
                               bargePreRoll := preRoll_reset (bargePreRoll st1)\<rparr>, r)
                        else (None, st1\<lparr>bargePreRoll := preRoll_add chunk (bargePreRoll st1)\<rparr>, r)
                   else (None, st\<lparr>loudChunks := 0, baseline := updateBargeBaseline (baseline st) level,
                                bargePreRoll := preRoll_add chunk (bargePreRoll st)\<rparr>, r))
           else
             let st1 = st\<lparr>bargeRecording := bargeRecording st @ chunk,
                          peakRMS := (if peakRMS st < level then level else peakRMS st)\<rparr>;
                 maxSamples = cfgRate r * cfgChannels r * bargeMaxSeconds
             in if \<not> shouldFinish \<and> int (length (bargeRecording st1)) < maxSamples
                then (None, st1, r)
                else (Some \<lparr>candBuffer = \<lparr>Samples = bargeRecording st1, SampleRate = cfgRate r,
                                          Channels = cfgChannels r\<rparr>,
                            candStartedAt = startedAt st1, candPeakRMS = peakRMS st1\<rparr>, st1, r))"

subsection \<open>The read loop\<close>

record loopState =
  recording :: "real list"
  partialSent :: bool
  wasSuppressed :: bool
  barge :: bargeCaptureState

definition newLoopState :: "bool \<Rightarrow> loopState" where
  "newLoopState supp =
     \<lparr>recording = [], partialSent = False, wasSuppressed = supp, barge = newBargeCaptureState\<rparr>"

definition resetVadAndPreRoll :: "'d detector_ops \<Rightarrow> 'd recorder \<Rightarrow> 'd recorder" where
  "resetVadAndPreRoll ops r =
     r\<lparr>detector := resetDetector ops (detector r), preRoll := preRoll_reset (preRoll r)\<rparr>"

text \<open>What the environment fixes in one iteration besides the bytes: the clock and the races.\<close>

record iteration_env =
  envNow :: instant
  raceUtterance :: "nat \<times> nat"
  racePartial :: "nat \<times> nat"
  raceBarge :: "nat \<times> nat"

text \<open>The branch of a chunk read while the assistant speaks.\<close>

definition suppressedChunk ::
  "'d detector_ops \<Rightarrow> iteration_env \<Rightarrow> real list \<Rightarrow> loopState \<Rightarrow> 'd recorder \<Rightarrow> loopState \<times> 'd recorder"
where
  "suppressedChunk ops env chunk l r =
     (let (l1, r1) = (if \<not> wasSuppressed l
                      then (l\<lparr>barge := bargeReset (barge l), wasSuppressed := True\<rparr>, resetVadAndPreRoll ops r)
                      else (l, r));
          l2 = l1\<lparr>recording := [], partialSent := False\<rparr>;
          r2 = resetPartials r1;
          (candidate, st, r3) = processBargeChunk ops (envNow env) (barge l2) chunk r2
      in case candidate of
           Some c \<Rightarrow>
             (let r4 = publishBargeCandidate (fst (raceBarge env)) (snd (raceBarge env)) c r3
              in (l2\<lparr>barge := bargeReset st\<rparr>, r4\<lparr>detector := resetDetector ops (detector r4)\<rparr>))
         | None \<Rightarrow> (l2\<lparr>barge := st\<rparr>, r3))"

text \<open>The branch of a chunk read while the assistant is silent.\<close>

definition listeningChunk ::
  "'d detector_ops \<Rightarrow> iteration_env \<Rightarrow> real list \<Rightarrow> loopState \<Rightarrow> 'd recorder \<Rightarrow> loopState \<times> 'd recorder"
where
  "listeningChunk ops env chunk l r =
     (let (l1, r1) = (if wasSuppressed l
                      then (l\<lparr>barge := bargeReset (barge l), wasSuppressed := False\<rparr>, resetVadAndPreRoll ops r)
                      else (l, r));
          (rec', finish, r2) = contProcessChunk ops (recording l1) chunk r1;
          (sent, r3) = maybePublishPartial (fst (racePartial env)) (snd (racePartial env)) (envNow env)
                         rec' (partialSent l1) r2
      in if finish
         then (l1\<lparr>recording := [], partialSent := False\<rparr>,
               resetVadAndPreRoll ops
                 (publishUtterance (fst (raceUtterance env)) (snd (raceUtterance env)) rec' r3))
         else (l1\<lparr>recording := rec', partialSent := sent\<rparr>, r3))"

definition completeBytes :: "int \<Rightarrow> 8 word list \<Rightarrow> int" where
  "completeBytes channels bytes =
     int (length bytes) - int (length bytes) mod (pcmBytesPerSample * channels)"

text \<open>The body of the loop for the bytes read and the value of \<^verbatim>\<open>suppressed\<close> loaded after the read.\<close>

definition readIteration ::
  "'d detector_ops \<Rightarrow> iteration_env \<Rightarrow> bool \<Rightarrow> 8 word list \<Rightarrow> loopState \<Rightarrow> 'd recorder \<Rightarrow>
     loopState \<times> 'd recorder"
where
  "readIteration ops env supp bytes l r =
     (let complete = completeBytes (cfgChannels r) bytes in
      if 0 < complete then
        (let chunk = pcmToFloat32 (take (nat complete) bytes)
         in if supp then suppressedChunk ops env chunk l r else listeningChunk ops env chunk l r)
      else (l, r))"

subsection \<open>Starting, failing and closing the source\<close>

text \<open>\<^verbatim>\<open>ensureRunning\<close>; \<open>started\<close> is the result of the process factory.  The flag tells whether a reader starts.\<close>

definition ensureRunning ::
  "'d detector_ops \<Rightarrow> go_error + nat \<Rightarrow> 'd recorder \<Rightarrow> go_error option \<times> bool \<times> 'd recorder"
where
  "ensureRunning ops started r =
     (if recClosed r then (Some (Message ''continuous recorder is closed''), False, r)
      else if running r then (None, False, r)
      else case started of
        Inl e \<Rightarrow> (Some e, False, r)
      | Inr p \<Rightarrow> (None, True, resetVadAndPreRoll ops (r\<lparr>process := Some p, running := True\<rparr>)))"

text \<open>The locked section of \<^verbatim>\<open>sourceFailed\<close>; the result tells whether the error is to be sent.\<close>

definition sourceFailed :: "nat \<Rightarrow> 'd recorder \<Rightarrow> bool \<times> 'd recorder" where
  "sourceFailed p r =
     (let r1 = (if process r = Some p then r\<lparr>process := None, running := False\<rparr> else r)
      in (\<not> recClosed r1, r1))"

definition sendSourceErr :: "go_error \<Rightarrow> 'd recorder \<Rightarrow> 'd recorder" where
  "sendSourceErr e r = r\<lparr>sourceErr := snd (chan_offer 1 e (sourceErr r))\<rparr>"

definition readFailure :: "go_error \<Rightarrow> go_error" where
  "readFailure e = (if e = EOF \<or> e = UnexpectedEOF then Wrapped ''continuous arecord ended'' e
     else Wrapped ''continuous audio read'' e)"

text \<open>The locked section of \<^verbatim>\<open>Close\<close>.\<close>

definition closeSource :: "'d recorder \<Rightarrow> 'd recorder" where
  "closeSource r = r\<lparr>recClosed := True, process := None, running := False\<rparr>"

end
