(* ===== verification/Capture_System.thy ===== *)
theory Capture_System
  imports Capture
begin

section \<open>The goroutines around the continuous recorder\<close>

text \<open>
  The microphone reader, the caller of \<^verbatim>\<open>Next\<close>, the capture gate that calls
  \<^verbatim>\<open>SetSuppressed\<close>, the consumers of previews and barge-in candidates, and \<^verbatim>\<open>Close\<close>, as
  an interleaving of atomic steps.  One goroutine calls \<^verbatim>\<open>Next\<close> (the capture worker
  of the application).  The reader loads \<^verbatim>\<open>suppressed\<close> in a step of its own, so
  the gate may change it before the chunk is processed.  The invariants are
  proved once, for every detector that keeps the contract of theory \<open>Vad\<close>, and hold for
  both detectors of the program by interpretation.
\<close>

datatype reader_pc =
    NoReader
  | Starting nat
  | Reading nat loopState
  | Loaded nat loopState "8 word list" "go_error option" bool
  | Ended nat go_error
  | Failing nat go_error

datatype next_pc = NIdle | NTry | NEnsure | NWait

text \<open>
  \<open>senders\<close> are readers that have left the locked section of \<^verbatim>\<open>sourceFailed\<close> and still have to
  send their error; \<open>heard\<close> is the history of processed chunks, each with the value of
  \<^verbatim>\<open>suppressed\<close> it was processed under; the start of a reader is marked by a suppressed empty
  chunk, which no stretch of listening spans.
\<close>

record 'd cap_sys =
  recd :: "'d recorder"
  reader :: reader_pc
  senders :: "go_error list"
  nextpc :: next_pc
  closing :: bool
  detectorClosed :: bool
  startedProcesses :: nat
  heard :: "(bool \<times> real list) list"

definition cap_init :: "'d recorder \<Rightarrow> 'd cap_sys" where
  "cap_init r = \<lparr>recd = r, reader = NoReader, senders = [], nextpc = NIdle, closing = False,
     detectorClosed = False, startedProcesses = 0, heard = []\<rparr>"

text \<open>The chunk an iteration adds to the history.\<close>

definition heardChunk :: "int \<Rightarrow> bool \<Rightarrow> 8 word list \<Rightarrow> (bool \<times> real list) list" where
  "heardChunk channels supp bytes =
     (if 0 < completeBytes channels bytes
      then [(supp, pcmToFloat32 (take (nat (completeBytes channels bytes)) bytes))] else [])"

inductive cap_step :: "'d detector_ops \<Rightarrow> 'd cap_sys \<Rightarrow> 'd cap_sys \<Rightarrow> bool" for ops where
  ReaderStart: "reader s = Starting p \<Longrightarrow>
     cap_step ops s (s\<lparr>reader := Reading p (newLoopState (suppressed (recd s))),
                       heard := heard s @ [(True, [])]\<rparr>)"
| Load: "reader s = Reading p l \<Longrightarrow>
     cap_step ops s (s\<lparr>reader := Loaded p l bytes err (suppressed (recd s))\<rparr>)"
| Iterate: "reader s = Loaded p l bytes err supp \<Longrightarrow>
     fst (raceUtterance env) + snd (raceUtterance env) \<le> (if nextpc s \<in> {NTry, NWait} then 1 else 0) \<Longrightarrow>
     readIteration ops env supp bytes l (recd s) = (l', r') \<Longrightarrow>
     taken = (received r' \<noteq> received (recd s)) \<Longrightarrow>
     cap_step ops s (s\<lparr>recd := (if taken then r'\<lparr>waiting := False\<rparr> else r'),
       nextpc := (if taken then NIdle else nextpc s),
       reader := (case err of None \<Rightarrow> Reading p l' | Some e \<Rightarrow> Ended p e),
       heard := heard s @ heardChunk (cfgChannels (recd s)) supp bytes\<rparr>)"
| ReaderReturns: "reader s = Ended p e \<Longrightarrow> recClosed (recd s) \<Longrightarrow> cap_step ops s (s\<lparr>reader := NoReader\<rparr>)"
| ReaderFails: "reader s = Ended p e \<Longrightarrow> \<not> recClosed (recd s) \<Longrightarrow>
     cap_step ops s (s\<lparr>reader := Failing p (readFailure e)\<rparr>)"
| SourceFailed: "reader s = Failing p e \<Longrightarrow> sourceFailed p (recd s) = (send, r') \<Longrightarrow>
     cap_step ops s (s\<lparr>recd := r', reader := NoReader, senders := senders s @ (if send then [e] else [])\<rparr>)"
| SendErr: "senders s = es1 @ e # es2 \<Longrightarrow>
     cap_step ops s (s\<lparr>recd := sendSourceErr e (recd s), senders := es1 @ es2\<rparr>)"
| Gate: "cap_step ops s (s\<lparr>recd := SetSuppressed b (recd s)\<rparr>)"
| TakeBarge: "bargeCandidates (recd s) = c # q \<Longrightarrow>
     cap_step ops s (s\<lparr>recd := (recd s)\<lparr>bargeCandidates := q\<rparr>\<rparr>)"
| TakePartial: "partials (recd s) = c # q \<Longrightarrow>
     cap_step ops s (s\<lparr>recd := (recd s)\<lparr>partials := q\<rparr>\<rparr>)"
| NextBegin: "nextpc s = NIdle \<Longrightarrow>
     cap_step ops s (s\<lparr>recd := (resetPartials (recd s))\<lparr>waiting := True\<rparr>, nextpc := NTry\<rparr>)"
| NextTake: "nextpc s \<in> {NTry, NWait} \<Longrightarrow> utterances (recd s) = u # q \<Longrightarrow>
     cap_step ops s (s\<lparr>recd := (recd s)\<lparr>utterances := q, received := received (recd s) @ [Clone u],
                                  waiting := False\<rparr>, nextpc := NIdle\<rparr>)"
| NextNone: "nextpc s = NTry \<Longrightarrow> utterances (recd s) = [] \<Longrightarrow> cap_step ops s (s\<lparr>nextpc := NEnsure\<rparr>)"
| NextEnsure: "nextpc s = NEnsure \<Longrightarrow> started \<in> {Inl e, Inr (startedProcesses s)} \<Longrightarrow>
     ensureRunning ops started (recd s) = (err, start, r') \<Longrightarrow>
     cap_step ops s (s\<lparr>recd := (if err = None then r' else r'\<lparr>waiting := False\<rparr>),
       nextpc := (if err = None then NWait else NIdle),
       startedProcesses := startedProcesses s + (if start then 1 else 0),
       reader := (if start then Starting (startedProcesses s) else reader s)\<rparr>)"
| NextErr: "nextpc s = NWait \<Longrightarrow> sourceErr (recd s) = e # q \<Longrightarrow>
     cap_step ops s (s\<lparr>recd := (recd s)\<lparr>sourceErr := q, waiting := False\<rparr>, nextpc := NIdle\<rparr>)"
| NextCancelled: "nextpc s = NWait \<Longrightarrow>
     cap_step ops s (s\<lparr>recd := (recd s)\<lparr>waiting := False\<rparr>, nextpc := NIdle\<rparr>)"
| CloseBegin: "\<not> closing s \<Longrightarrow> cap_step ops s (s\<lparr>recd := closeSource (recd s), closing := True\<rparr>)"
| CloseFinish: "closing s \<Longrightarrow> \<not> detectorClosed s \<Longrightarrow> reader s = NoReader \<Longrightarrow> senders s = [] \<Longrightarrow>
     cap_step ops s (s\<lparr>recd := (recd s)\<lparr>detector := snd (closeDetector ops (detector (recd s)))\<rparr>,
                       detectorClosed := True\<rparr>)"

abbreviation cap_steps :: "'d detector_ops \<Rightarrow> 'd cap_sys \<Rightarrow> 'd cap_sys \<Rightarrow> bool" where
  "cap_steps ops \<equiv> (cap_step ops)\<^sup>*\<^sup>*"

subsection \<open>Queues and counters\<close>


definition rec_ok :: "'d recorder \<Rightarrow> bool" where
  "rec_ok r \<longleftrightarrow> 0 < cfgRate r \<and> cfgChannels r = 1 \<and> 0 < queueDepth r \<and>
     length (utterances r) \<le> queueDepth r \<and> length (partials r) \<le> defaultPartialSnapshotDepth \<and>
     length (bargeCandidates r) \<le> defaultBargeCandidateDepth \<and> length (sourceErr r) \<le> 1 \<and>
     preRoll_ok (preRoll r) \<and>
     published r = length (received r) + length (utterances r) + dropped r"

lemma rec_ok_simps [simp]:
  "rec_ok (r\<lparr>detector := d\<rparr>) = rec_ok r"
  "rec_ok (r\<lparr>waiting := b\<rparr>) = rec_ok r"
  "rec_ok (r\<lparr>suppressed := b\<rparr>) = rec_ok r"
  "rec_ok (r\<lparr>process := p\<rparr>) = rec_ok r"
  "rec_ok (r\<lparr>running := b\<rparr>) = rec_ok r"
  "rec_ok (r\<lparr>recClosed := b\<rparr>) = rec_ok r"
  "rec_ok r \<Longrightarrow> rec_ok (resetPartials r)"
  "rec_ok r \<Longrightarrow> rec_ok (flushBargeCandidates r)"
  "rec_ok r \<Longrightarrow> rec_ok (resetVadAndPreRoll ops r)"
  "rec_ok r \<Longrightarrow> rec_ok (closeSource r)"
  by (simp_all add: rec_ok_def resetPartials_def flushBargeCandidates_def resetVadAndPreRoll_def closeSource_def)

lemma rec_ok_SetSuppressed [simp]: "rec_ok r \<Longrightarrow> rec_ok (SetSuppressed b r)"
  by (simp add: SetSuppressed_def Let_def)

lemma rec_ok_publishPartial [simp]: "rec_ok r \<Longrightarrow> rec_ok (publishPartial k1 k2 x r)"
  by (auto simp: publishPartial_def rec_ok_def case_prod_unfold Let_def defaultPartialSnapshotDepth_def
        intro: chan_replace_bound [of 1, simplified])

lemma rec_ok_publishBargeCandidate [simp]: "rec_ok r \<Longrightarrow> rec_ok (publishBargeCandidate k1 k2 x r)"
  by (auto simp: publishBargeCandidate_def rec_ok_def case_prod_unfold Let_def defaultBargeCandidateDepth_def
        intro: chan_replace_bound [of 2, simplified])

lemma rec_ok_publishUtterance [simp]:
  assumes "rec_ok r"
  shows "rec_ok (publishUtterance k1 k2 x r)"
proof -
  let ?b = "\<lparr>Samples = x, SampleRate = cfgRate r, Channels = cfgChannels r\<rparr>"
  have q: "0 < queueDepth r" "length (utterances r) \<le> queueDepth r" using assms by (auto simp: rec_ok_def)
  show ?thesis
    using assms chan_replace_bound [OF q, of ?b k1 k2] chan_replace_sent [OF q, of ?b k1 k2]
      chan_replace_account [OF q, of ?b k1 k2]
    by (simp add: publishUtterance_def rec_ok_def case_prod_unfold Let_def)
qed

lemma rec_ok_contProcessChunk [simp]: "rec_ok r \<Longrightarrow> rec_ok (snd (snd (contProcessChunk ops rc c r)))"
  by (simp add: contProcessChunk_def recordChunk_def rec_ok_def case_prod_unfold Let_def)

lemma rec_ok_maybePublishPartial [simp]: "rec_ok r \<Longrightarrow> rec_ok (snd (maybePublishPartial k1 k2 now rc sent r))"
  by (simp add: maybePublishPartial_def)

text \<open>A barge-in chunk changes nothing of the recorder but the detector.\<close>

lemma processBargeChunk_recorder:
  "\<exists>d. snd (snd (processBargeChunk ops now st c r)) = r\<lparr>detector := d\<rparr>"
proof (cases "c = []")
  case True
  then show ?thesis by (auto simp: processBargeChunk_def intro!: exI [of _ "detector r"])
next
  case False
  then have "snd (snd (processBargeChunk ops now st c r)) =
    r\<lparr>detector := snd (snd (processChunk ops c (detector r)))\<rparr>"
    by (simp add: processBargeChunk_def case_prod_unfold Let_def)
  then show ?thesis by blast
qed

lemma rec_ok_processBargeChunk [simp]: "rec_ok r \<Longrightarrow> rec_ok (snd (snd (processBargeChunk ops now st c r)))"
  using processBargeChunk_recorder [of ops now st c r] by auto

lemma rec_ok_suppressedChunk: "rec_ok r \<Longrightarrow> rec_ok (snd (suppressedChunk ops env c l r))"
  by (simp add: suppressedChunk_def case_prod_unfold Let_def split: option.split)

lemma rec_ok_listeningChunk: "rec_ok r \<Longrightarrow> rec_ok (snd (listeningChunk ops env c l r))"
  by (simp add: listeningChunk_def case_prod_unfold Let_def)

lemma rec_ok_readIteration: "rec_ok r \<Longrightarrow> rec_ok (snd (readIteration ops env supp bs l r))"
  by (simp add: readIteration_def Let_def rec_ok_suppressedChunk rec_ok_listeningChunk)

lemma rec_ok_step: "cap_step ops s s' \<Longrightarrow> rec_ok (recd s) \<Longrightarrow> rec_ok (recd s')"
proof (induction rule: cap_step.induct)
  case (Iterate s p l bytes err supp env l' r' taken)
  then show ?case using rec_ok_readIteration [of "recd s" ops env supp bytes l] by simp
next
  case (SendErr s es1 e es2)
  then show ?case by (simp add: sendSourceErr_def rec_ok_def chan_offer_def chan_can_send_def)
next
  case (SourceFailed s p e send r')
  then show ?case by (auto simp: sourceFailed_def Let_def split: if_splits)
next
  case (NextEnsure s started e err start r')
  then show ?case by (auto simp: ensureRunning_def split: sum.splits if_splits)
next
  case (Gate s b)
  then show ?case by simp
next
  case (CloseBegin s)
  then show ?case by simp
qed (auto simp: rec_ok_def resetPartials_def)

subsection \<open>Life cycle\<close>

fun reader_id :: "reader_pc \<Rightarrow> nat option" where
  "reader_id NoReader = None"
| "reader_id (Starting p) = Some p"
| "reader_id (Reading p _) = Some p"
| "reader_id (Loaded p _ _ _ _) = Some p"
| "reader_id (Ended p _) = Some p"
| "reader_id (Failing p _) = Some p"

definition life_ok :: "'d cap_sys \<Rightarrow> bool" where
  "life_ok s \<longleftrightarrow>
     (\<not> recClosed (recd s) \<longrightarrow> process (recd s) = reader_id (reader s) \<and>
        (running (recd s) \<longleftrightarrow> reader s \<noteq> NoReader)) \<and>
     (recClosed (recd s) \<longrightarrow> process (recd s) = None \<and> \<not> running (recd s)) \<and>
     (closing s \<longleftrightarrow> recClosed (recd s)) \<and>
     (detectorClosed s \<longrightarrow> closing s \<and> reader s = NoReader \<and> senders s = [])"

definition same_life :: "'d recorder \<Rightarrow> 'd recorder \<Rightarrow> bool" where
  "same_life r r' \<longleftrightarrow> process r' = process r \<and> running r' = running r \<and> recClosed r' = recClosed r \<and>
     cfgRate r' = cfgRate r \<and> cfgChannels r' = cfgChannels r"

lemma same_life_simps [simp]:
  "same_life r r"
  "same_life r0 (r\<lparr>detector := d\<rparr>) = same_life r0 r"
  "same_life r0 (r\<lparr>waiting := b\<rparr>) = same_life r0 r"
  "same_life r0 (resetPartials r) = same_life r0 r"
  "same_life r0 (resetVadAndPreRoll ops r) = same_life r0 r"
  "same_life r0 (SetSuppressed b r) = same_life r0 r"
  "same_life r0 (sendSourceErr e r) = same_life r0 r"
  "same_life r0 (publishPartial k1 k2 x r) = same_life r0 r"
  "same_life r0 (publishBargeCandidate k1 k2 y r) = same_life r0 r"
  "same_life r0 (publishUtterance k1 k2 u r) = same_life r0 r"
  "same_life r0 (snd (snd (contProcessChunk ops rc c r))) = same_life r0 r"
  "same_life r0 (snd (maybePublishPartial k1 k2 now rc sent r)) = same_life r0 r"
  by (simp_all add: same_life_def resetPartials_def resetVadAndPreRoll_def SetSuppressed_def
        flushBargeCandidates_def sendSourceErr_def publishPartial_def publishBargeCandidate_def
        publishUtterance_def contProcessChunk_def maybePublishPartial_def case_prod_unfold Let_def)

lemma same_life_processBargeChunk [simp]:
  "same_life r0 (snd (snd (processBargeChunk ops now st c r))) = same_life r0 r"
  using processBargeChunk_recorder [of ops now st c r] by auto

lemma same_life_suppressedChunk: "same_life r (snd (suppressedChunk ops env c l r))"
  by (simp add: suppressedChunk_def case_prod_unfold Let_def split: option.split)

lemma same_life_listeningChunk: "same_life r (snd (listeningChunk ops env c l r))"
  by (simp add: listeningChunk_def case_prod_unfold Let_def)

lemma same_life_readIteration: "same_life r (snd (readIteration ops env supp bs l r))"
  by (simp add: readIteration_def Let_def same_life_suppressedChunk same_life_listeningChunk)

lemma life_ok_init: "\<not> running r \<Longrightarrow> \<not> recClosed r \<Longrightarrow> process r = None \<Longrightarrow> life_ok (cap_init r)"
  by (simp add: life_ok_def cap_init_def)

lemma life_ok_same:
  "life_ok s \<Longrightarrow> same_life (recd s) r' \<Longrightarrow> life_ok (s\<lparr>recd := r'\<rparr>)"
  by (auto simp add: life_ok_def same_life_def)

lemma life_ok_step: "cap_step ops s s' \<Longrightarrow> life_ok s \<Longrightarrow> life_ok s'"
proof (induction rule: cap_step.induct)
  case (Iterate s p l bytes err supp env l' r' taken)
  then have "same_life (recd s) r'"
    using same_life_readIteration [of "recd s" ops env supp bytes l] by simp
  with Iterate show ?case by (auto simp: life_ok_def same_life_def split: option.split)
next
  case (Gate s b)
  then show ?case by (simp add: life_ok_same)
next
  case (SendErr s es1 e es2)
  then show ?case by (auto simp: life_ok_def sendSourceErr_def)
next
  case (SourceFailed s p e send r')
  then show ?case by (auto simp: life_ok_def sourceFailed_def Let_def split: if_splits)
next
  case (NextEnsure s started e err start r')
  then show ?case
    by (auto simp: life_ok_def ensureRunning_def resetVadAndPreRoll_def split: sum.splits if_splits)
next
  case (CloseBegin s)
  then show ?case by (auto simp: life_ok_def closeSource_def)
qed (auto simp: life_ok_def resetPartials_def)

subsection \<open>Where the samples of an utterance come from\<close>

text \<open>A stretch of listening: chunks all processed while the assistant was silent.\<close>

definition listening :: "(bool \<times> real list) list \<Rightarrow> bool" where
  "listening w \<longleftrightarrow> (\<forall>x \<in> set w. \<not> fst x)"

definition samples_of :: "(bool \<times> real list) list \<Rightarrow> real list" where
  "samples_of w = concat (map snd w)"

lemma listening_simps [simp]:
  "listening []" "listening (w @ v) = (listening w \<and> listening v)" "listening [x] = (\<not> fst x)"
  "listening w \<Longrightarrow> listening (drop k w)"
  by (auto simp: listening_def dest: in_set_dropD)

lemma samples_of_simps [simp]:
  "samples_of [] = []" "samples_of (w @ v) = samples_of w @ samples_of v" "samples_of [x] = snd x"
  by (simp_all add: samples_of_def)

text \<open>An utterance is a stretch of listening, long enough, in the recorder's format.\<close>

definition utterance_ok :: "int \<Rightarrow> int \<Rightarrow> (bool \<times> real list) list \<Rightarrow> buffer \<Rightarrow> bool" where
  "utterance_ok rate channels h u \<longleftrightarrow>
     (\<exists>before w after. h = before @ w @ after \<and> listening w \<and> Samples u = samples_of w) \<and>
     SampleRate u = rate \<and> Channels u = channels \<and> rate * channels div 4 \<le> int (length (Samples u))"

lemma utterance_ok_mono: "utterance_ok rate ch h u \<Longrightarrow> utterance_ok rate ch (h @ h') u"
  unfolding utterance_ok_def by (metis append.assoc)

definition all_utterances_ok :: "(bool \<times> real list) list \<Rightarrow> 'd recorder \<Rightarrow> bool" where
  "all_utterances_ok h r \<longleftrightarrow>
     (\<forall>u \<in> set (utterances r) \<union> set (received r). utterance_ok (cfgRate r) (cfgChannels r) h u)"

lemma all_utterances_ok_mono: "all_utterances_ok h r \<Longrightarrow> all_utterances_ok (h @ h') r"
  by (auto simp: all_utterances_ok_def utterance_ok_mono)

text \<open>
  While listening, the recording is a stretch of listening that ends with the latest chunk, or
  it is empty and the pre-roll window is the end of such a stretch.
\<close>

definition window_ok :: "(bool \<times> real list) list \<Rightarrow> real list \<Rightarrow> preRollBuffer \<Rightarrow> bool" where
  "window_ok h rc pre \<longleftrightarrow>
     (\<exists>before w. h = before @ w \<and> listening w \<and>
        (if rc = [] then chunks pre = map snd w else rc = samples_of w))"

lemma window_ok_reset: "window_ok h [] (preRoll_reset pre)"
  by (auto simp: window_ok_def intro!: exI [of _ h] exI [of _ "[]"])

lemma window_okI:
  "h = before @ w \<Longrightarrow> listening w \<Longrightarrow> (if rc = [] then chunks pre = map snd w else rc = samples_of w) \<Longrightarrow>
     window_ok h rc pre"
  unfolding window_ok_def by blast

lemma window_ok_start:
  assumes "window_ok h [] pre" "c \<noteq> []"
  shows "window_ok (h @ [(False, c)]) (startRecording c pre) pre'"
proof -
  obtain before w where w: "h = before @ w" "listening w" "chunks pre = map snd w"
    using assms(1) by (auto simp: window_ok_def)
  with assms(2) show ?thesis
    by (intro window_okI [of _ before "w @ [(False, c)]"]) (auto simp: startRecording_def samples_of_def)
qed

lemma window_ok_append:
  assumes "window_ok h rc pre" "rc \<noteq> []"
  shows "window_ok (h @ [(False, c)]) (rc @ c) pre'"
proof -
  obtain before w where w: "h = before @ w" "listening w" "rc = samples_of w"
    using assms by (auto simp: window_ok_def)
  with assms(2) show ?thesis
    by (intro window_okI [of _ before "w @ [(False, c)]"]) auto
qed

lemma window_ok_add:
  assumes "window_ok h [] pre" "preRoll_ok pre" "c \<noteq> []"
  shows "window_ok (h @ [(False, c)]) [] (preRoll_add c pre)"
proof -
  obtain before w where w: "h = before @ w" "listening w" "chunks pre = map snd w"
    using assms(1) by (auto simp: window_ok_def)
  obtain k where "chunks (preRoll_add c pre) = drop k (map snd (w @ [(False, c)]))"
    using preRoll_add_chunks [OF assms(2), of c] assms(3) w(3) by auto
  then have k: "chunks (preRoll_add c pre) = map snd (drop k (w @ [(False, c)]))"
    by (simp add: drop_map del: drop_append map_append)
  have "h @ [(False, c)] = (before @ take k (w @ [(False, c)])) @ drop k (w @ [(False, c)])"
    by (simp add: w(1) del: take_append drop_append)
  moreover have "listening (drop k (w @ [(False, c)]))"
    using w(2) by (simp del: drop_append)
  ultimately show ?thesis by (rule window_okI) (simp add: k del: drop_append map_append)
qed

text \<open>The read loop's own variables, with the recorder and the history.\<close>

definition loop_ok :: "'d detector_ops \<Rightarrow> (bool \<times> real list) list \<Rightarrow> loopState \<Rightarrow> 'd recorder \<Rightarrow> bool" where
  "loop_ok ops h l r \<longleftrightarrow>
     (if wasSuppressed l then recording l = []
      else (isSpeaking ops (detector r) \<longleftrightarrow> recording l \<noteq> []) \<and> window_ok h (recording l) (preRoll r))"

text \<open>A fresh or resumed stretch: nothing recorded, detector silent, pre-roll empty.\<close>

lemma loop_ok_fresh:
  "\<not> isSpeaking ops (detector r) \<Longrightarrow> chunks (preRoll r) = [] \<Longrightarrow> recording l = [] \<Longrightarrow> loop_ok ops h l r"
  by (auto simp: loop_ok_def window_ok_def intro!: exI [of _ h] exI [of _ "[]"])

lemma utterance_okI:
  assumes "window_ok h rc pre" "rc \<noteq> []" "rate * ch div 4 \<le> int (length rc)"
  shows "utterance_ok rate ch h \<lparr>Samples = rc, SampleRate = rate, Channels = ch\<rparr>"
proof -
  obtain before w where w: "h = before @ w" "listening w" "rc = samples_of w"
    using assms(1,2) by (auto simp: window_ok_def)
  then have "\<exists>before w after. h = before @ w @ after \<and> listening w \<and> rc = samples_of w"
    by (intro exI [of _ before] exI [of _ w] exI [of _ "[]"]) simp
  with assms(3) show ?thesis unfolding utterance_ok_def by simp
qed

lemma publishUtterance_ok:
  assumes "all_utterances_ok h r" "rec_ok r" "window_ok h rc pre" "rc \<noteq> []"
  shows "all_utterances_ok h (publishUtterance k1 k2 rc r)"
proof -
  let ?u = "\<lparr>Samples = rc, SampleRate = cfgRate r, Channels = cfgChannels r\<rparr>"
  have q: "0 < queueDepth r" "length (utterances r) \<le> queueDepth r" using assms(2) by (auto simp: rec_ok_def)
  show ?thesis
  proof (cases "int (length rc) < cfgRate r * cfgChannels r div 4")
    case True
    with assms(1) show ?thesis by (simp add: publishUtterance_def)
  next
    case False
    then have "utterance_ok (cfgRate r) (cfgChannels r) h ?u"
      using utterance_okI [OF assms(3,4)] by simp
    with False assms(1) chan_replace_subset [OF q, of ?u k1 k2]
      chan_taken_subset [of "queueDepth r" k1 k2 "utterances r"]
    show ?thesis
      by (auto simp: publishUtterance_def all_utterances_ok_def case_prod_unfold Let_def)
  qed
qed

lemma all_utterances_ok_frame:
  "utterances r' = utterances r \<Longrightarrow> received r' = received r \<Longrightarrow> cfgRate r' = cfgRate r \<Longrightarrow>
     cfgChannels r' = cfgChannels r \<Longrightarrow> all_utterances_ok h r' = all_utterances_ok h r"
  by (simp add: all_utterances_ok_def)

lemma maybePublishPartial_frame [simp]:
  "detector (snd (maybePublishPartial k1 k2 now rc sent r)) = detector r"
  "preRoll (snd (maybePublishPartial k1 k2 now rc sent r)) = preRoll r"
  "all_utterances_ok h (snd (maybePublishPartial k1 k2 now rc sent r)) = all_utterances_ok h r"
  by (simp_all add: maybePublishPartial_def publishPartial_def case_prod_unfold Let_def all_utterances_ok_def)

lemma publishUtterance_frame [simp]:
  "detector (publishUtterance k1 k2 rc r) = detector r"
  "preRoll (publishUtterance k1 k2 rc r) = preRoll r"
  by (simp_all add: publishUtterance_def case_prod_unfold Let_def)

lemma all_utterances_ok_simps [simp]:
  "all_utterances_ok h (resetVadAndPreRoll ops r) = all_utterances_ok h r"
  "all_utterances_ok h (resetPartials r) = all_utterances_ok h r"
  "all_utterances_ok h (r\<lparr>detector := d\<rparr>) = all_utterances_ok h r"
  "all_utterances_ok h (r\<lparr>preRoll := pre\<rparr>) = all_utterances_ok h r"
  "all_utterances_ok h (r\<lparr>waiting := b\<rparr>) = all_utterances_ok h r"
  "all_utterances_ok h (SetSuppressed b r) = all_utterances_ok h r"
  "all_utterances_ok h (publishBargeCandidate k1 k2 y r) = all_utterances_ok h r"
  by (simp_all add: all_utterances_ok_def resetVadAndPreRoll_def resetPartials_def SetSuppressed_def
        flushBargeCandidates_def publishBargeCandidate_def case_prod_unfold Let_def)

context vad_detector
begin

text \<open>One chunk of listening keeps the window and the link between recording and detector.\<close>

lemma recordChunk_window:
  assumes "ok d" "c \<noteq> []" "preRoll_ok pre" "window_ok h rc pre" "isSpeaking ops d \<longleftrightarrow> rc \<noteq> []"
    and res: "recordChunk ops rc c d pre = (rc', finish, d', pre')"
  shows "ok d' \<and> preRoll_ok pre' \<and> window_ok (h @ [(False, c)]) rc' pre' \<and>
    (isSpeaking ops d' \<longleftrightarrow> rc' \<noteq> [] \<and> \<not> finish) \<and> (finish \<longrightarrow> rc' \<noteq> [])"
proof -
  obtain a f e where p: "processChunk ops c d = (a, f, e)" by (metis prod_cases3)
  have laws: "ok e" "f \<longrightarrow> a" "isSpeaking ops e \<longleftrightarrow> a \<and> \<not> f" "isSpeaking ops d \<longrightarrow> a"
    using process_ok [OF assms(1,2)] process_finish [OF assms(1,2)] process_speaking [OF assms(1,2)]
      process_sticky [OF assms(1,2)] p by auto
  consider "a" "rc = []" | "a" "rc \<noteq> []" | "\<not> a" "rc = []" using laws(4) assms(5) by blast
  then show ?thesis
  proof cases
    case 1
    with res p laws assms window_ok_start [of h pre c pre'] show ?thesis
      by (auto simp: recordChunk_def startRecording_def)
  next
    case 2
    with res p laws assms window_ok_append [of h rc pre c pre'] show ?thesis
      by (auto simp: recordChunk_def)
  next
    case 3
    with res p laws assms window_ok_add [of h pre c] show ?thesis
      by (auto simp: recordChunk_def)
  qed
qed


lemma reset_fresh:
  assumes "ok (detector r)"
  shows "ok (detector (resetVadAndPreRoll ops r))" "\<not> isSpeaking ops (detector (resetVadAndPreRoll ops r))"
    "chunks (preRoll (resetVadAndPreRoll ops r)) = []" "preRoll_ok (preRoll (resetVadAndPreRoll ops r))"
  using reset_ok [OF assms] reset_silent [OF assms] by (simp_all add: resetVadAndPreRoll_def)


lemma listeningChunk_ok:
  assumes ok: "ok (detector r)" "rec_ok r" "loop_ok ops h l r" "all_utterances_ok h r" and c: "c \<noteq> []"
    and res_def: "res = listeningChunk ops env c l r"
  shows "ok (detector (snd res)) \<and> loop_ok ops (h @ [(False, c)]) (fst res) (snd res) \<and>
    all_utterances_ok (h @ [(False, c)]) (snd res)"
proof -
  define l1 where "l1 = (if wasSuppressed l then l\<lparr>barge := bargeReset (barge l), wasSuppressed := False\<rparr> else l)"
  define r1 where "r1 = (if wasSuppressed l then resetVadAndPreRoll ops r else r)"
  have rec: "recording l1 = recording l" "\<not> wasSuppressed l1" by (simp_all add: l1_def)
  have ok1: "ok (detector r1)" "preRoll_ok (preRoll r1)" "rec_ok r1" "all_utterances_ok h r1" "loop_ok ops h l1 r1"
    using ok reset_fresh [of r] loop_ok_fresh [of ops "resetVadAndPreRoll ops r" l1 h]
    by (auto simp: l1_def r1_def rec_ok_def loop_ok_def resetVadAndPreRoll_def)
  obtain rc' finish d' pre' where rc:
    "recordChunk ops (recording l1) c (detector r1) (preRoll r1) = (rc', finish, d', pre')"
    by (metis prod_cases4)
  have win: "window_ok h (recording l1) (preRoll r1)" "isSpeaking ops (detector r1) \<longleftrightarrow> recording l1 \<noteq> []"
    using ok1(5) rec(2) by (auto simp: loop_ok_def)
  note out = recordChunk_window [OF ok1(1) c ok1(2) win rc]
  define r2 where "r2 = r1\<lparr>detector := d', preRoll := pre'\<rparr>"
  define m where "m = maybePublishPartial (fst (racePartial env)) (snd (racePartial env)) (envNow env)
    rc' (partialSent l1) r2"
  define r4 where "r4 = publishUtterance (fst (raceUtterance env)) (snd (raceUtterance env)) rc' (snd m)"
  have res: "res = (if finish then (l1\<lparr>recording := [], partialSent := False\<rparr>, resetVadAndPreRoll ops r4)
      else (l1\<lparr>recording := rc', partialSent := fst m\<rparr>, snd m))"
  proof -
    have "(if wasSuppressed l
           then (l\<lparr>barge := bargeReset (barge l), wasSuppressed := False\<rparr>, resetVadAndPreRoll ops r)
           else (l, r)) = (l1, r1)" by (simp add: l1_def r1_def)
    moreover have "contProcessChunk ops (recording l1) c r1 = (rc', finish, r2)"
      by (simp add: contProcessChunk_def rc r2_def)
    ultimately show ?thesis
      by (simp add: res_def listeningChunk_def m_def r4_def case_prod_unfold Let_def)
  qed
  have r2: "rec_ok r2" "all_utterances_ok (h @ [(False, c)]) r2"
    using ok1(3) out all_utterances_ok_mono [OF ok1(4), of "[(False, c)]"]
    by (auto simp: r2_def rec_ok_def all_utterances_ok_def)
  then have m: "rec_ok (snd m)" "all_utterances_ok (h @ [(False, c)]) (snd m)" "detector (snd m) = d'"
    "preRoll (snd m) = pre'" by (simp_all add: m_def r2_def)
  show ?thesis
  proof (cases finish)
    case True
    have "all_utterances_ok (h @ [(False, c)]) r4"
      unfolding r4_def using m out True by (intro publishUtterance_ok) auto
    moreover have "ok (detector r4)" using m(3) out by (simp add: r4_def)
    ultimately show ?thesis
      using True res reset_fresh [of r4] by (auto intro!: loop_ok_fresh)
  next
    case False
    with res m out rec(2) show ?thesis by (auto simp: loop_ok_def)
  qed
qed

lemma suppressedChunk_ok:
  assumes "ok (detector r)" "all_utterances_ok h r" and c: "c \<noteq> []"
    and res_def: "res = suppressedChunk ops env c l r"
  shows "ok (detector (snd res)) \<and> loop_ok ops h' (fst res) (snd res) \<and> all_utterances_ok h (snd res)"
proof -
  define r1 where "r1 = resetPartials (if \<not> wasSuppressed l then resetVadAndPreRoll ops r else r)"
  define st where "st = (if \<not> wasSuppressed l then bargeReset (barge l) else barge l)"
  define b where "b = processBargeChunk ops (envNow env) st c r1"
  have r1: "ok (detector r1)" "all_utterances_ok h r1"
    using assms reset_fresh(1) [of r] by (simp_all add: r1_def) (simp_all add: resetPartials_def)
  have b: "snd (snd b) = r1\<lparr>detector := snd (snd (processChunk ops c (detector r1)))\<rparr>"
    using c by (simp add: b_def processBargeChunk_def case_prod_unfold Let_def)
  have okb: "ok (detector (snd (snd b)))" "all_utterances_ok h (snd (snd b))"
    using r1 process_ok [OF r1(1) c] by (simp_all add: b)
  have pub: "detector (publishBargeCandidate k1 k2 x (snd (snd b))) = detector (snd (snd b))" for k1 k2 x
    by (simp add: publishBargeCandidate_def case_prod_unfold Let_def)
  show ?thesis
    using okb reset_ok [OF okb(1)] pub
    by (auto simp: res_def suppressedChunk_def case_prod_unfold Let_def loop_ok_def
          r1_def st_def b_def split: option.split)
qed

lemma completeChunk_nonempty:
  "0 < completeBytes 1 bytes \<Longrightarrow> pcmToFloat32 (take (nat (completeBytes 1 bytes)) bytes) \<noteq> []"
proof -
  assume *: "0 < completeBytes 1 bytes"
  have "even (completeBytes 1 bytes)" "completeBytes 1 bytes \<le> int (length bytes)"
    by (simp_all add: completeBytes_def pcmBytesPerSample_def)
  with * have "2 \<le> length (take (nat (completeBytes 1 bytes)) bytes)" by (auto elim!: evenE)
  then have "0 < length (pcmToFloat32 (take (nat (completeBytes 1 bytes)) bytes))"
    unfolding length_pcmToFloat32 by (meson div_greater_zero_iff zero_less_numeral)
  then show ?thesis by simp
qed

lemma readIteration_ok:
  assumes "ok (detector r)" "rec_ok r" "loop_ok ops h l r" "all_utterances_ok h r"
    and res_def: "readIteration ops env supp bytes l r = (l', r')"
  shows "ok (detector r') \<and> loop_ok ops (h @ heardChunk (cfgChannels r) supp bytes) l' r' \<and>
    all_utterances_ok (h @ heardChunk (cfgChannels r) supp bytes) r'"
proof (cases "0 < completeBytes (cfgChannels r) bytes")
  case False
  with assms show ?thesis by (simp add: readIteration_def heardChunk_def)
next
  case True
  let ?c = "pcmToFloat32 (take (nat (completeBytes (cfgChannels r) bytes)) bytes)"
  have c: "?c \<noteq> []" using completeChunk_nonempty [of bytes] True assms(2) by (simp add: rec_ok_def)
  have h: "heardChunk (cfgChannels r) supp bytes = [(supp, ?c)]" using True by (simp add: heardChunk_def)
  show ?thesis
  proof (cases supp)
    case supp: True
    with True res_def have e: "(l', r') = suppressedChunk ops env ?c l r" by (simp add: readIteration_def)
    show ?thesis
      using suppressedChunk_ok [OF assms(1) all_utterances_ok_mono [OF assms(4)] c e, where h' = "h @ [(True, ?c)]"]
        supp h by simp
  next
    case False
    with True res_def have e: "(l', r') = listeningChunk ops env ?c l r" by (simp add: readIteration_def)
    show ?thesis using listeningChunk_ok [OF assms(1-4) c e] False h by simp
  qed
qed

definition reader_ok :: "'d cap_sys \<Rightarrow> bool" where
  "reader_ok s \<longleftrightarrow> (case reader s of
       Starting p \<Rightarrow> \<not> isSpeaking ops (detector (recd s)) \<and> chunks (preRoll (recd s)) = []
     | Reading p l \<Rightarrow> loop_ok ops (heard s) l (recd s)
     | Loaded p l bytes err supp \<Rightarrow> loop_ok ops (heard s) l (recd s)
     | _ \<Rightarrow> True)"

definition cap_inv :: "'d cap_sys \<Rightarrow> bool" where
  "cap_inv s \<longleftrightarrow> rec_ok (recd s) \<and> life_ok s \<and> all_utterances_ok (heard s) (recd s) \<and>
     (\<not> detectorClosed s \<longrightarrow> ok (detector (recd s))) \<and> reader_ok s"

lemma reader_ok_frame:
  "reader s' = reader s \<Longrightarrow> heard s' = heard s \<Longrightarrow> detector (recd s') = detector (recd s) \<Longrightarrow>
     preRoll (recd s') = preRoll (recd s) \<Longrightarrow> reader_ok s' = reader_ok s"
  by (cases "reader s") (simp_all add: reader_ok_def loop_ok_def)

text \<open>Steps that touch neither the reader nor what it uses.\<close>

lemma audio_frame:
  assumes "cap_inv s" "reader s' = reader s" "heard s' = heard s" "detector (recd s') = detector (recd s)"
    "preRoll (recd s') = preRoll (recd s)" "detectorClosed s' = detectorClosed s"
    "set (utterances (recd s')) \<union> set (received (recd s')) \<subseteq> set (utterances (recd s)) \<union> set (received (recd s))"
    "cfgRate (recd s') = cfgRate (recd s)" "cfgChannels (recd s') = cfgChannels (recd s)"
  shows "all_utterances_ok (heard s') (recd s') \<and> (\<not> detectorClosed s' \<longrightarrow> ok (detector (recd s'))) \<and> reader_ok s'"
  using assms reader_ok_frame [of s' s] by (auto simp: cap_inv_def all_utterances_ok_def)

lemma cap_inv_audio_step:
  assumes "cap_step ops s s'" "cap_inv s"
  shows "all_utterances_ok (heard s') (recd s') \<and> (\<not> detectorClosed s' \<longrightarrow> ok (detector (recd s'))) \<and> reader_ok s'"
  using assms
proof (induction rule: cap_step.induct)
  case (ReaderStart s p)
  then show ?case
    by (auto simp: cap_inv_def reader_ok_def newLoopState_def all_utterances_ok_mono intro!: loop_ok_fresh)
next
  case (Load s p l bytes err)
  then show ?case by (simp add: cap_inv_def reader_ok_def)
next
  case (Iterate s p l bytes err supp env l' r' taken)
  have "\<not> detectorClosed s" using Iterate by (auto simp: cap_inv_def life_ok_def)
  with Iterate have *: "ok (detector r')" "loop_ok ops (heard s @ heardChunk (cfgChannels (recd s)) supp bytes) l' r'"
    "all_utterances_ok (heard s @ heardChunk (cfgChannels (recd s)) supp bytes) r'"
    using readIteration_ok [of "recd s" "heard s" l env supp bytes l' r']
    by (auto simp: cap_inv_def reader_ok_def)
  then show ?case by (simp add: reader_ok_def loop_ok_def split: option.split)
next
  case (Gate s b)
  then show ?case
    by (intro audio_frame [of s]) (simp_all add: SetSuppressed_def flushBargeCandidates_def Let_def)
next
  case (SourceFailed s p e send r')
  then show ?case
    by (auto simp: cap_inv_def reader_ok_def sourceFailed_def all_utterances_ok_def Let_def split: if_splits)
next
  case (SendErr s es1 e es2)
  then show ?case by (intro audio_frame [of s]) (simp_all add: sendSourceErr_def)
next
  case (NextEnsure s started e err start r')
  have closed: "detectorClosed s \<longrightarrow> recClosed (recd s)" using NextEnsure by (auto simp: cap_inv_def life_ok_def)
  show ?case
  proof (cases start)
    case True
    with NextEnsure have "\<not> recClosed (recd s)" "r' = resetVadAndPreRoll ops ((recd s)\<lparr>process := Some (startedProcesses s), running := True\<rparr>)" "err = None"
      by (auto simp: ensureRunning_def split: sum.splits if_splits)
    with True closed NextEnsure reset_fresh [of "(recd s)\<lparr>process := Some (startedProcesses s), running := True\<rparr>"]
    show ?thesis by (auto simp: cap_inv_def reader_ok_def all_utterances_ok_def resetVadAndPreRoll_def)
  next
    case False
    with NextEnsure have "r' = recd s" by (auto simp: ensureRunning_def split: sum.splits if_splits)
    with False NextEnsure show ?thesis by (intro audio_frame [of s]) simp_all
  qed
next
  case (CloseFinish s)
  then show ?case by (simp add: cap_inv_def reader_ok_def)
next
  case (ReaderReturns s p e)
  then show ?case by (simp add: cap_inv_def reader_ok_def)
next
  case (ReaderFails s p e)
  then show ?case by (simp add: cap_inv_def reader_ok_def)
next
  case (TakeBarge s c q)
  then show ?case by (intro audio_frame [of s]) (auto simp: resetPartials_def closeSource_def)
next
  case (TakePartial s c q)
  then show ?case by (intro audio_frame [of s]) (auto simp: resetPartials_def closeSource_def)
next
  case (NextBegin s)
  then show ?case by (intro audio_frame [of s]) (auto simp: resetPartials_def closeSource_def)
next
  case (NextTake s u q)
  then show ?case by (intro audio_frame [of s]) (auto simp: resetPartials_def closeSource_def)
next
  case (NextNone s)
  then show ?case by (intro audio_frame [of s]) (auto simp: resetPartials_def closeSource_def)
next
  case (NextErr s e q)
  then show ?case by (intro audio_frame [of s]) (auto simp: resetPartials_def closeSource_def)
next
  case (NextCancelled s)
  then show ?case by (intro audio_frame [of s]) (auto simp: resetPartials_def closeSource_def)
next
  case (CloseBegin s)
  then show ?case by (intro audio_frame [of s]) (auto simp: resetPartials_def closeSource_def)
qed

lemma cap_inv_step: "cap_step ops s s' \<Longrightarrow> cap_inv s \<Longrightarrow> cap_inv s'"
  using cap_inv_audio_step rec_ok_step life_ok_step unfolding cap_inv_def by blast

lemma cap_inv_steps: "cap_steps ops s s' \<Longrightarrow> cap_inv s \<Longrightarrow> cap_inv s'"
  by (induction rule: rtranclp_induct) (auto intro: cap_inv_step)

lemma cap_inv_init:
  assumes "newContinuousRecorder rate channels (Some d) options = Inr r" "ok d"
  shows "cap_inv (cap_init r) \<and> cfgRate r = rate \<and> cfgChannels r = channels \<and>
    queueDepth r = nat (QueueDepth options)"
  using assms
  by (auto simp: newContinuousRecorder_def pcmChunkBytes_def cap_inv_def cap_init_def rec_ok_def
        life_ok_def all_utterances_ok_def reader_ok_def Let_def split: if_splits)

lemma cap_reachable:
  assumes "newContinuousRecorder rate channels (Some d) options = Inr r" "ok d"
    and "cap_steps ops (cap_init r) s"
  shows "cap_inv s"
  using cap_inv_init [OF assms(1,2)] cap_inv_steps [OF assms(3)] by blast

end

lemma same_cfg_step: "cap_step ops s s' \<Longrightarrow>
  cfgRate (recd s') = cfgRate (recd s) \<and> cfgChannels (recd s') = cfgChannels (recd s)"
proof (induction rule: cap_step.induct)
  case (Iterate s p l bytes err supp env l' r' taken)
  then show ?case using same_life_readIteration [of "recd s" ops env supp bytes l]
    by (simp add: same_life_def)
qed (auto simp: resetPartials_def closeSource_def SetSuppressed_def flushBargeCandidates_def sendSourceErr_def
      sourceFailed_def ensureRunning_def resetVadAndPreRoll_def Let_def split: if_splits sum.splits)

lemma same_cfg_steps: "cap_steps ops s s' \<Longrightarrow>
  cfgRate (recd s') = cfgRate (recd s) \<and> cfgChannels (recd s') = cfgChannels (recd s)"
  by (induction rule: rtranclp_induct) (auto dest: same_cfg_step)

subsection \<open>Properties\<close>

text \<open>The production recorder: Silero detector over any native backend.\<close>

abbreviation silero_capture_reaches ::
  "'b backend_ops \<Rightarrow> 'b \<Rightarrow> int \<Rightarrow> int \<Rightarrow> continuousOptions \<Rightarrow> 'b silero cap_sys \<Rightarrow> bool"
where
  "silero_capture_reaches bo b rate channels options s \<equiv>
     \<exists>r. newContinuousRecorder rate channels (Some (newWithBackend b)) options = Inr r \<and>
         cap_steps (silero_ops bo) (cap_init r) s"

lemma silero_reachable:
  assumes "silero_capture_reaches bo b rate channels options s"
  shows "rec_ok (recd s)" "life_ok s" "all_utterances_ok (heard s) (recd s)"
    "cfgRate (recd s) = rate" "cfgChannels (recd s) = channels"
proof -
  obtain r where r: "newContinuousRecorder rate channels (Some (newWithBackend b)) options = Inr r"
    "cap_steps (silero_ops bo) (cap_init r) s" using assms by blast
  show "rec_ok (recd s)" "life_ok s" "all_utterances_ok (heard s) (recd s)"
    using silero.cap_reachable [OF r(1) silero_inv_new r(2)] by (simp_all add: silero.cap_inv_def)
  show "cfgRate (recd s) = rate" "cfgChannels (recd s) = channels"
    using same_cfg_steps [OF r(2)] silero.cap_inv_init [OF r(1) silero_inv_new, of bo]
    by (simp_all add: cap_init_def)
qed

text \<open>A sample of the microphone: a 16-bit number over 32768.\<close>

definition pcmSample :: "real \<Rightarrow> bool" where
  "pcmSample x \<longleftrightarrow> (\<exists>k::int. - 32768 \<le> k \<and> k < 32768 \<and> x = of_int k / 32768)"

lemma pcmToFloat32_samples: "x \<in> set (pcmToFloat32 raw) \<Longrightarrow> pcmSample x"
  using pcm16_range [of _ raw] by (fastforce simp: pcmToFloat32_def pcmSample_def)

lemma pcmSample_range: "pcmSample x \<Longrightarrow> - 1 \<le> x \<and> x < 1"
proof -
  assume "pcmSample x"
  then obtain k :: int where k: "- 32768 \<le> k" "k < 32768" "x = of_int k / 32768" by (auto simp: pcmSample_def)
  from k(1,2) have "(-32768 :: real) \<le> of_int k" "(of_int k :: real) < 32768" by linarith+
  with k(3) show ?thesis by (simp add: field_simps)
qed

definition heard_samples :: "'d cap_sys \<Rightarrow> bool" where
  "heard_samples s \<longleftrightarrow> (\<forall>c\<in>set (heard s). \<forall>x\<in>set (snd c). pcmSample x)"

lemma heard_samples_step: "cap_step ops s s' \<Longrightarrow> heard_samples s \<Longrightarrow> heard_samples s'"
  by (induction rule: cap_step.induct)
    (auto simp: heard_samples_def heardChunk_def dest: pcmToFloat32_samples split: if_splits)

lemma heard_samples_reachable:
  assumes "silero_capture_reaches bo b rate channels options s"
  shows "heard_samples s"
proof -
  from assms obtain r where "cap_steps (silero_ops bo) (cap_init r) s" by blast
  then show ?thesis
  proof (induction rule: rtranclp_induct)
    case base
    show ?case by (simp add: heard_samples_def cap_init_def)
  next
    case (step y z)
    from step(2,3) show ?case by (rule heard_samples_step)
  qed
qed

text \<open>An utterance is a buffer the rest of the program accepts.\<close>

lemma utterance_typed:
  assumes "silero_capture_reaches bo b rate channels options s"
    and "u \<in> set (received (recd s)) \<union> set (utterances (recd s))"
  shows "Audio_Format.Validate u = None \<and> (\<forall>x\<in>set (Samples u). pcmSample x)"
proof -
  have ok: "all_utterances_ok (heard s) (recd s)" "rec_ok (recd s)"
    using silero_reachable [OF assms(1)] by simp_all
  have "utterance_ok (cfgRate (recd s)) (cfgChannels (recd s)) (heard s) u" if "u \<in> set (received (recd s)) \<union> set (utterances (recd s))"
    using ok(1) that by (auto simp: all_utterances_ok_def)
  with assms(2) have u: "utterance_ok (cfgRate (recd s)) (cfgChannels (recd s)) (heard s) u" by blast
  then obtain before w after where w: "heard s = before @ w @ after" "Samples u = concat (map snd w)"
    unfolding utterance_ok_def listening_def samples_of_def by blast
  from heard_samples_reachable [OF assms(1)] w have "\<forall>x\<in>set (Samples u). pcmSample x"
    by (auto simp: heard_samples_def)
  moreover from u ok(2) have "SampleRate u = cfgRate (recd s)" "Channels u = cfgChannels (recd s)" "0 < cfgRate (recd s)" "cfgChannels (recd s) = 1"
    by (simp_all add: utterance_ok_def rec_ok_def)
  ultimately show ?thesis
    by (simp add: Validate_None)
qed

text \<open>
  C7. The assistant never hears itself: in every interleaving of the microphone reader, the caller of
  \<^verbatim>\<open>Next\<close>, the capture gate and \<^verbatim>\<open>Close\<close>, every utterance handed out or still queued
  is the gapless concatenation of consecutive microphone chunks all of which were
  processed while capture was not suppressed; it is at least a quarter of a second long
  and carries the configured format.
\<close>

theorem utterances_are_listening_stretches:
  assumes "silero_capture_reaches bo b rate channels options s"
    and "u \<in> set (received (recd s)) \<union> set (utterances (recd s))"
  shows "(\<exists>before w after. heard s = before @ w @ after \<and> (\<forall>x \<in> set w. \<not> fst x) \<and>
      Samples u = concat (map snd w)) \<and>
    SampleRate u = rate \<and> Channels u = channels \<and> rate * channels div 4 \<le> int (length (Samples u))"
  using silero_reachable [OF assms(1)] assms(2)
  by (auto simp: all_utterances_ok_def utterance_ok_def listening_def samples_of_def)

text \<open>
  C32. Memory and loss are bounded and accounted for: in every reachable state the queues of utterances,
  previews, barge-in candidates and source errors are within their capacities, the
  pre-roll window within its size, and every utterance ever published was handed to a
  caller, is still queued, or is counted by the drop counter.
\<close>

theorem capture_queues_bounded_and_accounted:
  assumes "silero_capture_reaches bo b rate channels options s"
  shows "length (utterances (recd s)) \<le> queueDepth (recd s) \<and>
    length (partials (recd s)) \<le> 1 \<and> length (bargeCandidates (recd s)) \<le> 2 \<and>
    length (sourceErr (recd s)) \<le> 1 \<and> length (chunks (preRoll (recd s))) \<le> maxChunks (preRoll (recd s)) \<and>
    published (recd s) = length (received (recd s)) + length (utterances (recd s)) + dropped (recd s)"
  using silero_reachable(1) [OF assms]
  by (simp add: rec_ok_def preRoll_ok_def defaultPartialSnapshotDepth_def defaultBargeCandidateDepth_def)

text \<open>
  The microphone and the native detector are released in order: once the recorder has closed its
  detector, no step of any goroutine touches the detector again and no reader is or becomes
  active; and a new microphone process is only ever started when no reader is active.
\<close>

theorem no_use_after_close:
  assumes "silero_capture_reaches bo b rate channels options s" "cap_step (silero_ops bo) s s'"
  shows "(detectorClosed s \<longrightarrow> detector (recd s') = detector (recd s) \<and> reader s' = NoReader \<and> detectorClosed s') \<and>
    (startedProcesses s' \<noteq> startedProcesses s \<longrightarrow> reader s = NoReader \<and> \<not> closing s)"
  using assms(2) silero_reachable(2) [OF assms(1)]
  by (induction rule: cap_step.induct)
     (auto simp: life_ok_def resetPartials_def closeSource_def SetSuppressed_def flushBargeCandidates_def
        sendSourceErr_def ensureRunning_def Let_def split: if_splits sum.splits)

text \<open>
  A concrete run: a backend that reports every chunk as a finished segment, one call of \<^verbatim>\<open>Next\<close>
  that starts the microphone, one chunk of one sample.
\<close>

definition demo_backend :: "unit backend_ops" where
  "demo_backend = \<lparr>AcceptWaveform = (\<lambda>_ _. ()), IsSpeech = (\<lambda>_. True), IsEmpty = (\<lambda>_. False),
     Pop = (\<lambda>_. ()), Clear = (\<lambda>_. ())\<rparr>"

definition demo_recorder :: "unit silero recorder" where
  "demo_recorder = \<lparr>cfgRate = 4, cfgChannels = 1, detector = newWithBackend (),
     preRoll = newPreRollBuffer 4, queueDepth = 4, utterances = [], partials = [],
     bargeCandidates = [], sourceErr = [], process = None, running = False,
     recClosed = False, dropped = 0, suppressed = False, waiting = False, received = [], published = 0\<rparr>"

definition demo_env :: iteration_env where
  "demo_env = \<lparr>envNow = 0, raceUtterance = (0, 0), racePartial = (0, 0), raceBarge = (0, 0)\<rparr>"

lemmas demo_simps = demo_backend_def demo_recorder_def demo_env_def cap_init_def resetPartials_def
  ensureRunning_def resetVadAndPreRoll_def silero_ops_def silero_Reset_def newWithBackend_def
  newLoopState_def readIteration_def completeBytes_def pcmBytesPerSample_def pcmToFloat32_def le16_def
  listeningChunk_def contProcessChunk_def recordChunk_def silero_ProcessChunk_def startRecording_def
  maybePublishPartial_def partialPreviewSeconds_def publishUtterance_def chan_replace_def chan_offer_def
  chan_can_send_def chan_taken_def preRoll_reset_def newPreRollBuffer_def heardChunk_def

definition demo_s3 :: "unit silero cap_sys" where
  "demo_s3 = (cap_init (demo_recorder\<lparr>waiting := True, process := Some 0, running := True\<rparr>))
     \<lparr>nextpc := NWait, startedProcesses := 1, reader := Starting 0\<rparr>"

lemma demo_prefix: "cap_steps (silero_ops demo_backend) (cap_init demo_recorder) demo_s3"
proof -
  let ?s1 = "(cap_init demo_recorder)\<lparr>recd := demo_recorder\<lparr>waiting := True\<rparr>, nextpc := NTry\<rparr>"
  let ?s2 = "?s1\<lparr>nextpc := NEnsure\<rparr>"
  have "cap_step (silero_ops demo_backend) (cap_init demo_recorder) ?s1"
    using cap_step.NextBegin [of "cap_init demo_recorder" "silero_ops demo_backend"]
    by (simp add: demo_simps)
  moreover have "cap_step (silero_ops demo_backend) ?s1 ?s2"
    using cap_step.NextNone [of ?s1 "silero_ops demo_backend"] by (simp add: demo_simps)
  moreover have "cap_step (silero_ops demo_backend) ?s2 demo_s3"
    using cap_step.NextEnsure [of ?s2 "Inr 0" undefined "silero_ops demo_backend"]
    by (simp add: demo_s3_def demo_simps)
  ultimately show ?thesis by (meson converse_rtranclp_into_rtranclp rtranclp.rtrancl_refl)
qed

definition demo_utterance :: buffer where
  "demo_utterance = \<lparr>Samples = [0], SampleRate = 4, Channels = 1\<rparr>"

definition demo_s6 :: "unit silero cap_sys" where
  "demo_s6 = demo_s3\<lparr>recd := (recd demo_s3)\<lparr>utterances := [demo_utterance], published := 1\<rparr>,
     reader := Reading 0 (newLoopState False), heard := [(True, []), (False, [0])]\<rparr>"

lemma demo_run: "cap_steps (silero_ops demo_backend) (cap_init demo_recorder) demo_s6"
proof -
  let ?s4 = "demo_s3\<lparr>reader := Reading 0 (newLoopState False), heard := [(True, [])]\<rparr>"
  let ?s5 = "?s4\<lparr>reader := Loaded 0 (newLoopState False) [0, 0] None False\<rparr>"
  have "cap_step (silero_ops demo_backend) demo_s3 ?s4"
    using cap_step.ReaderStart [of demo_s3 0 "silero_ops demo_backend"]
    by (simp add: demo_s3_def demo_simps)
  moreover have "cap_step (silero_ops demo_backend) ?s4 ?s5"
    using cap_step.Load [of ?s4 0 "newLoopState False" "silero_ops demo_backend" "[0, 0]" None]
    by (simp add: demo_s3_def demo_simps)
  moreover have "cap_step (silero_ops demo_backend) ?s5 demo_s6"
    using cap_step.Iterate [of ?s5 0 "newLoopState False" "[0, 0]" None False demo_env "silero_ops demo_backend"
        "newLoopState False" "recd demo_s6" False]
    by (simp add: demo_s6_def demo_s3_def demo_utterance_def demo_simps)
  ultimately show ?thesis using demo_prefix by (meson rtranclp.rtrancl_into_rtrancl)
qed

lemma demo_reaches:
  "silero_capture_reaches demo_backend () 4 1 defaultContinuousOptions demo_s6"
  using demo_run
  by (auto simp: newContinuousRecorder_def pcmChunkBytes_def defaultContinuousOptions_def
        defaultContinuousPreRollChunks_def defaultUtteranceQueueDepth_def demo_recorder_def)

theorem utterances_are_listening_stretches_witness:
  "\<exists>before w after. heard demo_s6 = before @ w @ after \<and> (\<forall>x \<in> set w. \<not> fst x) \<and>
     Samples demo_utterance = concat (map snd w) \<and> Samples demo_utterance = [0]"
proof -
  have "demo_utterance \<in> set (received (recd demo_s6)) \<union> set (utterances (recd demo_s6))"
    by (simp add: demo_s6_def)
  from utterances_are_listening_stretches [OF demo_reaches this] show ?thesis
    by (auto simp: demo_utterance_def)
qed

theorem capture_queues_bounded_and_accounted_witness:
  "length (utterances (recd demo_s6)) = 1 \<and> length (utterances (recd demo_s6)) \<le> queueDepth (recd demo_s6) \<and>
   published (recd demo_s6) = 1 + dropped (recd demo_s6)"
  using capture_queues_bounded_and_accounted [OF demo_reaches]
  by (simp add: demo_s6_def demo_s3_def cap_init_def demo_recorder_def)

theorem no_use_after_close_witness:
  "\<exists>s'. cap_step (silero_ops demo_backend) demo_s6 s' \<and> closing s' \<and>
     startedProcesses s' = startedProcesses demo_s6"
proof -
  let ?s' = "demo_s6\<lparr>recd := closeSource (recd demo_s6), closing := True\<rparr>"
  have step: "cap_step (silero_ops demo_backend) demo_s6 ?s'"
    by (rule cap_step.CloseBegin) (simp add: demo_s6_def demo_s3_def cap_init_def)
  from no_use_after_close [OF demo_reaches step] have "startedProcesses ?s' = startedProcesses demo_s6"
    by (auto simp: demo_s6_def)
  with step show ?thesis by (intro exI [of _ ?s']) simp
qed

end
