(* ===== verification/Capture_Once.thy ===== *)
theory Capture_Once
  imports Capture_System
begin

section \<open>One-shot capture and the microphone rearm guard\<close>

text \<open>
  \<^verbatim>\<open>internal/audio/capture.go\<close>: the recorder that runs one \<^verbatim>\<open>arecord\<close> process per
  utterance; and \<^verbatim>\<open>internal/audio/rearm.go\<close>: the guard that, after playback, waits until the
  microphone has been quiet for a while.  Both loops read chunks from a process; what the
  process, the clock and the context do is a list of \<open>read_event\<close>s, and a loop that
  has used them all up without returning is \<^term>\<open>None\<close> (still blocked).
\<close>

text \<open>
  One turn of a read loop: the clock and \<^verbatim>\<open>ctx.Err()\<close> before the read, the bytes and error of
  \<^verbatim>\<open>io.ReadFull\<close>, and \<^verbatim>\<open>ctx.Err()\<close> after a failed read.
\<close>

record read_event =
  reNow :: instant
  reCtxBefore :: "go_error option"
  reBytes :: "8 word list"
  reErr :: "go_error option"
  reCtxAfter :: "go_error option"

record 'd onceRecorder =
  onceRate :: int
  onceChannels :: int
  onceVad :: 'd
  oncePreRoll :: preRollBuffer

definition NewRecorderWithDetector :: "int \<Rightarrow> int \<Rightarrow> 'd option \<Rightarrow> go_error + 'd onceRecorder" where
  "NewRecorderWithDetector rate channels det =
     (case det of
        None \<Rightarrow> Inl (Message ''voice activity detector is nil'')
      | Some d \<Rightarrow> Inr \<lparr>onceRate = rate, onceChannels = channels, onceVad = d,
                       oncePreRoll = newPreRollBuffer preRollChunkCount\<rparr>)"

text \<open>The energy detector of \<^verbatim>\<open>NewRecorder\<close>; the release threshold is four fifths of the threshold.\<close>

definition NewRecorder :: "int \<Rightarrow> int \<Rightarrow> real \<Rightarrow> duration \<Rightarrow> go_error + vad onceRecorder" where
  "NewRecorder rate channels silenceThreshold silenceDur =
     NewRecorderWithDetector rate channels
       (Some (New silenceThreshold (silenceThreshold * (8 / 10)) silenceDur rate))"

definition onceProcessChunk ::
  "'d detector_ops \<Rightarrow> real list \<Rightarrow> real list \<Rightarrow> 'd onceRecorder \<Rightarrow> real list \<times> bool \<times> 'd onceRecorder"
where
  "onceProcessChunk ops rc chunk r =
     (let (rc', finish, d', pre') = recordChunk ops rc chunk (onceVad r) (oncePreRoll r)
      in (rc', finish, r\<lparr>onceVad := d', oncePreRoll := pre'\<rparr>))"

text \<open>How the loop of \<^verbatim>\<open>recordFromReader\<close> is left: an error to return, or a \<^verbatim>\<open>break\<close> with the recording.\<close>

fun recordLoop ::
  "'d detector_ops \<Rightarrow> instant \<Rightarrow> read_event list \<Rightarrow> real list \<Rightarrow> 'd onceRecorder \<Rightarrow>
     ((go_error + real list) \<times> 'd onceRecorder) option"
where
  "recordLoop ops deadline [] rc r = None"
| "recordLoop ops deadline (ev # evs) rc r =
     (if deadline < reNow ev then Some (Inr rc, r)
      else case reCtxBefore ev of
        Some e \<Rightarrow> Some (Inl e, r)
      | None \<Rightarrow>
          (let complete = completeBytes (onceChannels r) (reBytes ev);
               (rc', finish, r') =
                 (if 0 < complete
                  then onceProcessChunk ops rc (pcmToFloat32 (take (nat complete) (reBytes ev))) r
                  else (rc, False, r))
           in if finish then Some (Inr rc', r')
              else case reErr ev of
                None \<Rightarrow> recordLoop ops deadline evs rc' r'
              | Some readErr \<Rightarrow>
                  (case reCtxAfter ev of
                     Some ctxErr \<Rightarrow> Some (Inl ctxErr, r')
                   | None \<Rightarrow>
                       if readErr = EOF \<or> readErr = UnexpectedEOF then Some (Inr rc', r')
                       else Some (Inl (Wrapped ''reading audio'' readErr), r'))))"

definition recordFromReader ::
  "'d detector_ops \<Rightarrow> instant \<Rightarrow> read_event list \<Rightarrow> 'd onceRecorder \<Rightarrow>
     ((go_error + real list) \<times> 'd onceRecorder) option"
where
  "recordFromReader ops deadline evs r =
     (case pcmChunkBytes (onceRate r) (onceChannels r) of
        Inl e \<Rightarrow> Some (Inl e, r)
      | Inr _ \<Rightarrow>
          (let r1 = r\<lparr>onceVad := resetDetector ops (onceVad r), oncePreRoll := preRoll_reset (oncePreRoll r)\<rparr>
           in case recordLoop ops deadline evs [] r1 of
                None \<Rightarrow> None
              | Some (Inl e, r2) \<Rightarrow> Some (Inl e, r2)
              | Some (Inr rc, r2) \<Rightarrow>
                  Some (Inr (if int (length rc) < onceRate r2 * onceChannels r2 div 4 then [] else rc), r2)))"

text \<open>
  \<^verbatim>\<open>RecordUntilSilence\<close>: \<open>ctxErr\<close> is \<^verbatim>\<open>ctx.Err()\<close> on entry, \<open>started\<close> the error of opening or
  starting \<^verbatim>\<open>arecord\<close>, \<open>ctxEnd\<close> the \<^verbatim>\<open>ctx.Err()\<close> seen after a failed recording.
\<close>

definition RecordUntilSilence ::
  "'d detector_ops \<Rightarrow> instant \<Rightarrow> duration \<Rightarrow> go_error option \<Rightarrow> go_error option \<Rightarrow> read_event list \<Rightarrow>
     go_error option \<Rightarrow> 'd onceRecorder \<Rightarrow> ((go_error + real list) \<times> 'd onceRecorder) option"
where
  "RecordUntilSilence ops now maxDuration ctxErr started evs ctxEnd r =
     (case pcmChunkBytes (onceRate r) (onceChannels r) of
        Inl e \<Rightarrow> Some (Inl e, r)
      | Inr _ \<Rightarrow>
          (case ctxErr of
             Some e \<Rightarrow> Some (Inl e, r)
           | None \<Rightarrow>
               (case started of
                  Some e \<Rightarrow> Some (Inl (Wrapped ''arecord'' e), r)
                | None \<Rightarrow>
                    (case recordFromReader ops (now + maxDuration) evs r of
                       None \<Rightarrow> None
                     | Some (Inl e, r') \<Rightarrow>
                         Some (Inl (case ctxEnd of Some c \<Rightarrow> c | None \<Rightarrow> e), r')
                     | Some (Inr samples, r') \<Rightarrow> Some (Inr samples, r')))))"

definition onceNext ::
  "'d detector_ops \<Rightarrow> instant \<Rightarrow> duration \<Rightarrow> go_error option \<Rightarrow> go_error option \<Rightarrow> read_event list \<Rightarrow>
     go_error option \<Rightarrow> 'd onceRecorder \<Rightarrow> ((go_error + buffer) \<times> 'd onceRecorder) option"
where
  "onceNext ops now maxDuration ctxErr started evs ctxEnd r =
     (case RecordUntilSilence ops now maxDuration ctxErr started evs ctxEnd r of
        None \<Rightarrow> None
      | Some (Inl e, r') \<Rightarrow> Some (Inl e, r')
      | Some (Inr samples, r') \<Rightarrow>
          Some (Inr \<lparr>Samples = samples, SampleRate = onceRate r', Channels = onceChannels r'\<rparr>, r'))"

definition onceClose :: "'d detector_ops \<Rightarrow> 'd onceRecorder \<Rightarrow> go_error option \<times> 'd onceRecorder" where
  "onceClose ops r = (let (err, d) = closeDetector ops (onceVad r) in (err, r\<lparr>onceVad := d\<rparr>))"

subsection \<open>The rearm guard\<close>

definition defaultRearmCooldown :: duration where "defaultRearmCooldown = 700000000"
definition defaultStableSilence :: duration where "defaultStableSilence = 560000000"
definition defaultRearmThreshold :: real where "defaultRearmThreshold = 12 / 1000"

record microphoneRearmGuard =
  guardRate :: int
  guardChannels :: int
  guardThreshold :: real
  cooldown :: duration
  stableSilence :: duration

definition newMicrophoneRearmGuard :: "int \<Rightarrow> int \<Rightarrow> microphoneRearmGuard" where
  "newMicrophoneRearmGuard rate channels =
     \<lparr>guardRate = rate, guardChannels = channels, guardThreshold = defaultRearmThreshold,
      cooldown = defaultRearmCooldown, stableSilence = defaultStableSilence\<rparr>"

definition stableChunks :: "microphoneRearmGuard \<Rightarrow> nat" where
  "stableChunks g =
     (let chunkDuration = chunkDurationMS * 1000000;
          n = go_quot (stableSilence g + chunkDuration - 1) chunkDuration
      in nat (if n < 1 then 1 else n))"

fun silenceLoop ::
  "int \<Rightarrow> real \<Rightarrow> nat \<Rightarrow> read_event list \<Rightarrow> nat \<Rightarrow> go_error option option"
where
  "silenceLoop channels limit need [] consecutive = None"
| "silenceLoop channels limit need (ev # evs) consecutive =
     (case reCtxBefore ev of
        Some e \<Rightarrow> Some (Some e)
      | None \<Rightarrow>
          (let complete = completeBytes channels (reBytes ev);
               quiet = (rms (pcmToFloat32 (take (nat complete) (reBytes ev))) \<le> limit);
               consecutive' = (if 0 < complete then (if quiet then Suc consecutive else 0) else consecutive)
           in if 0 < complete \<and> quiet \<and> need \<le> consecutive' then Some None
              else case reErr ev of
                None \<Rightarrow> silenceLoop channels limit need evs consecutive'
              | Some readErr \<Rightarrow>
                  Some (Some (case reCtxAfter ev of
                     Some ctxErr \<Rightarrow> ctxErr
                   | None \<Rightarrow> if readErr = EOF \<or> readErr = UnexpectedEOF
                             then Message ''audio ended before stable silence'' else readErr))))"

definition waitForStableSilence :: "read_event list \<Rightarrow> microphoneRearmGuard \<Rightarrow> go_error option option" where
  "waitForStableSilence evs g =
     (case pcmChunkBytes (guardRate g) (guardChannels g) of
        Inl e \<Rightarrow> Some (Some e)
      | Inr _ \<Rightarrow>
          silenceLoop (guardChannels g) (if guardThreshold g < 0 then 0 else guardThreshold g)
            (stableChunks g) evs 0)"

text \<open>\<^verbatim>\<open>sleepContext\<close>: \<open>ended\<close> is the context's error if the context ends before the timer fires.\<close>

definition sleepContext :: "duration \<Rightarrow> go_error option \<Rightarrow> go_error option" where
  "sleepContext d ended = (if d \<le> 0 then None else ended)"

definition Wait ::
  "go_error option \<Rightarrow> go_error option \<Rightarrow> read_event list \<Rightarrow> go_error option \<Rightarrow> microphoneRearmGuard \<Rightarrow>
     go_error option option"
where
  "Wait ended started evs ctxEnd g =
     (case sleepContext (cooldown g) ended of
        Some e \<Rightarrow> Some (Some e)
      | None \<Rightarrow>
          (case pcmChunkBytes (guardRate g) (guardChannels g) of
             Inl e \<Rightarrow> Some (Some e)
           | Inr _ \<Rightarrow>
               (case started of
                  Some e \<Rightarrow> Some (Some (Wrapped ''rearm arecord'' e))
                | None \<Rightarrow>
                    (case waitForStableSilence evs g of
                       None \<Rightarrow> None
                     | Some None \<Rightarrow> Some None
                     | Some (Some e) \<Rightarrow>
                         Some (Some (case ctxEnd of
                           Some c \<Rightarrow> c
                         | None \<Rightarrow> Wrapped ''waiting for stable microphone silence'' e))))))"

subsection \<open>Lemmas\<close>

text \<open>The chunks of a list of reads, and the history they make: all of them listened to.\<close>

definition read_chunks :: "int \<Rightarrow> read_event list \<Rightarrow> real list list" where
  "read_chunks channels evs =
     concat (map (\<lambda>ev. if 0 < completeBytes channels (reBytes ev)
       then [pcmToFloat32 (take (nat (completeBytes channels (reBytes ev))) (reBytes ev))] else []) evs)"

definition stretch_of :: "real list list \<Rightarrow> real list \<Rightarrow> bool" where
  "stretch_of cs samples \<longleftrightarrow> (\<exists>before w after. cs = before @ w @ after \<and> samples = concat w)"

lemma stretch_of_extend: "stretch_of cs samples \<Longrightarrow> stretch_of (cs @ ds) samples"
  unfolding stretch_of_def by (metis append.assoc)

lemma stretch_of_window:
  assumes "window_ok (map (Pair False) cs) rc pre"
  shows "stretch_of cs rc"
proof (cases "rc = []")
  case True
  then show ?thesis unfolding stretch_of_def by (intro exI [of _ cs] exI [of _ "[]"]) simp
next
  case False
  then obtain before w where w: "map (Pair False) cs = before @ w" "rc = samples_of w"
    using assms by (auto simp: window_ok_def)
  have "map snd (map (Pair False) cs) = map snd (before @ w)" by (simp only: w(1))
  then have "cs = map snd before @ map snd w @ []" by (simp add: comp_def)
  with w(2) show ?thesis unfolding stretch_of_def samples_of_def by metis
qed

context vad_detector
begin

lemma recordLoop_stretch:
  assumes "recordLoop ops deadline evs rc r = Some (Inr out, r')"
    and "onceChannels r = 1" "ok (onceVad r)" "preRoll_ok (oncePreRoll r)"
    and "window_ok (map (Pair False) cs) rc (oncePreRoll r)" "isSpeaking ops (onceVad r) \<longleftrightarrow> rc \<noteq> []"
  shows "stretch_of (cs @ read_chunks 1 evs) out \<and> onceRate r' = onceRate r \<and> onceChannels r' = 1"
  using assms
proof (induction evs arbitrary: rc r cs)
  case (Cons ev evs)
  let ?n = "completeBytes 1 (reBytes ev)" and ?c = "pcmToFloat32 (take (nat (completeBytes 1 (reBytes ev))) (reBytes ev))"
  show ?case
  proof (cases "deadline < reNow ev \<or> reCtxBefore ev \<noteq> None")
    case True
    with Cons.prems show ?thesis
      using stretch_of_extend [OF stretch_of_window [OF Cons.prems(5)]] by (auto split: if_splits option.splits)
  next
    case False
    note loop = Cons.prems(1) [unfolded recordLoop.simps]
    show ?thesis
    proof (cases "0 < ?n")
      case n: False
      then have chunks: "read_chunks 1 (ev # evs) = read_chunks 1 evs" by (simp add: read_chunks_def)
      show ?thesis
      proof (cases "reErr ev")
        case None
        with n False Cons.prems show ?thesis unfolding chunks by (intro Cons.IH) auto
      next
        case (Some e)
        with n False Cons.prems show ?thesis
          using stretch_of_extend [OF stretch_of_window [OF Cons.prems(5)]]
          by (auto split: if_splits option.splits)
      qed
    next
      case n: True
      obtain rc' finish d' pre' where step:
        "recordChunk ops rc ?c (onceVad r) (oncePreRoll r) = (rc', finish, d', pre')"
        by (metis prod_cases4)
      let ?r = "r\<lparr>onceVad := d', oncePreRoll := pre'\<rparr>"
      have once: "onceProcessChunk ops rc ?c r = (rc', finish, ?r)" by (simp add: onceProcessChunk_def step)
      have c: "?c \<noteq> []" using n completeChunk_nonempty by simp
      note inv = recordChunk_window [OF Cons.prems(3) c Cons.prems(4-6) step]
      have chunks: "cs @ read_chunks 1 (ev # evs) = (cs @ [?c]) @ read_chunks 1 evs"
        using n by (simp add: read_chunks_def)
      have here: "stretch_of ((cs @ [?c]) @ read_chunks 1 evs) rc'"
        using inv by (intro stretch_of_extend stretch_of_window) auto
      show ?thesis
      proof (cases "finish \<or> reErr ev \<noteq> None")
        case True
        with False n once Cons.prems(1,2) here show ?thesis
          unfolding chunks by (auto split: if_splits option.splits)
      next
        case cont: False
        with False n once Cons.prems(1,2) have "recordLoop ops deadline evs rc' ?r = Some (Inr out, r')"
          by (auto split: if_splits option.splits)
        with cont inv Cons.prems(2) show ?thesis
          unfolding chunks using Cons.IH [of rc' ?r "cs @ [?c]"] by auto
      qed
    qed
  qed
qed simp

lemma recordFromReader_stretch:
  assumes "recordFromReader ops deadline evs r = Some (Inr out, r')" "ok (onceVad r)"
  shows "stretch_of (read_chunks 1 evs) out \<and>
    (out = [] \<or> onceRate r * onceChannels r div 4 \<le> int (length out))"
proof -
  let ?r = "r\<lparr>onceVad := resetDetector ops (onceVad r), oncePreRoll := preRoll_reset (oncePreRoll r)\<rparr>"
  obtain rc where rc: "recordLoop ops deadline evs [] ?r = Some (Inr rc, r')" and ch: "onceChannels r = 1"
    and out: "out = (if int (length rc) < onceRate r' * onceChannels r' div 4 then [] else rc)"
    using assms(1) by (auto simp: recordFromReader_def pcmChunkBytes_def Let_def
      split: sum.splits option.splits if_splits prod.splits)
  have "stretch_of ([] @ read_chunks 1 evs) rc \<and> onceRate r' = onceRate ?r \<and> onceChannels r' = 1"
    using ch reset_ok [OF assms(2)] reset_silent [OF assms(2)]
    by (intro recordLoop_stretch [OF rc]) (simp_all add: window_ok_def)
  moreover have "stretch_of cs []" for cs
    unfolding stretch_of_def by (intro exI [of _ cs] exI [of _ "[]"]) simp
  ultimately show ?thesis using out ch by auto
qed

end

text \<open>The guard returns only at the end of a run of consecutive quiet chunks.\<close>

lemma silenceLoop_quiet:
  assumes "silenceLoop ch limit need evs k = Some None"
    and "\<exists>before w. cs = before @ w \<and> length w = k \<and> (\<forall>c \<in> set w. rms c \<le> limit)" "k < need"
  shows "\<exists>before w after. cs @ read_chunks ch evs = before @ w @ after \<and> length w = need \<and>
    (\<forall>c \<in> set w. rms c \<le> limit)"
  using assms
proof (induction evs arbitrary: k cs)
  case (Cons ev evs)
  let ?n = "completeBytes ch (reBytes ev)" and ?c = "pcmToFloat32 (take (nat (completeBytes ch (reBytes ev))) (reBytes ev))"
  have ctx: "reCtxBefore ev = None" using Cons.prems(1) by (auto split: option.splits)
  obtain before w where w: "cs = before @ w" "length w = k" "\<forall>c \<in> set w. rms c \<le> limit"
    using Cons.prems(2) by blast
  consider "\<not> 0 < ?n" | "0 < ?n" "rms ?c \<le> limit" "need \<le> Suc k" | "0 < ?n" "rms ?c \<le> limit" "Suc k < need"
    | "0 < ?n" "\<not> rms ?c \<le> limit" by linarith
  then show ?case
  proof cases
    case 1
    then have "read_chunks ch (ev # evs) = read_chunks ch evs" by (simp add: read_chunks_def)
    moreover have "silenceLoop ch limit need evs k = Some None"
      using 1 Cons.prems(1) ctx by (auto split: option.splits)
    ultimately show ?thesis using Cons.IH [of k cs] Cons.prems(2,3) by simp
  next
    case 2
    then have "cs @ read_chunks ch (ev # evs) = before @ (w @ [?c]) @ read_chunks ch evs"
      by (simp add: read_chunks_def w(1))
    moreover have "length (w @ [?c]) = need" using 2(3) Cons.prems(3) w(2) by simp
    ultimately show ?thesis using w(3) 2(2)
      by (intro exI [of _ before] exI [of _ "w @ [?c]"] exI [of _ "read_chunks ch evs"]) auto
  next
    case 3
    then have "cs @ read_chunks ch (ev # evs) = (cs @ [?c]) @ read_chunks ch evs" by (simp add: read_chunks_def)
    moreover have "silenceLoop ch limit need evs (Suc k) = Some None"
      using 3 Cons.prems(1) ctx by (auto simp: Let_def split: option.splits if_splits)
    moreover have "\<exists>before' w'. cs @ [?c] = before' @ w' \<and> length w' = Suc k \<and> (\<forall>c \<in> set w'. rms c \<le> limit)"
      using w 3(2) by (intro exI [of _ before] exI [of _ "w @ [?c]"]) auto
    ultimately show ?thesis using Cons.IH [of "Suc k" "cs @ [?c]"] 3(3) by simp
  next
    case 4
    then have "cs @ read_chunks ch (ev # evs) = (cs @ [?c]) @ read_chunks ch evs" by (simp add: read_chunks_def)
    moreover have "silenceLoop ch limit need evs 0 = Some None"
      using 4 Cons.prems(1) ctx by (auto simp: Let_def split: option.splits if_splits)
    moreover have "\<exists>before' w'. cs @ [?c] = before' @ w' \<and> length w' = 0 \<and> (\<forall>c \<in> set w'. rms c \<le> limit)"
      by (intro exI [of _ "cs @ [?c]"] exI [of _ "[]"]) simp
    ultimately show ?thesis using Cons.IH [of 0 "cs @ [?c]"] Cons.prems(3) by simp
  qed
qed simp

subsection \<open>Properties\<close>

text \<open>
  A one-shot recording is a gapless stretch of what the microphone delivered: whatever
  the reads, the deadline and the context do, if \<^verbatim>\<open>recordFromReader\<close> with the energy detector
  returns samples, they are the concatenation of consecutive chunks read, and they are
  at least a quarter of a second long unless the result is empty.
\<close>

theorem one_shot_recording_is_gapless:
  assumes "NewRecorder rate channels silenceThreshold silenceDur = Inr r" "0 \<le> silenceThreshold"
    and "recordFromReader energy_ops deadline evs r = Some (Inr samples, r')"
  shows "(\<exists>before w after. read_chunks 1 evs = before @ w @ after \<and> samples = concat w) \<and>
    (samples = [] \<or> rate * channels div 4 \<le> int (length samples))"
proof -
  have "vad_inv (onceVad r)" "onceRate r = rate" "onceChannels r = channels"
    using assms(1,2) by (auto simp: NewRecorder_def NewRecorderWithDetector_def vad_inv_New)
  with energy.recordFromReader_stretch [OF assms(3)] show ?thesis
    by (simp add: stretch_of_def)
qed

definition demo_reads :: "read_event list" where
  "demo_reads = [\<lparr>reNow = 0, reCtxBefore = None, reBytes = [0, 0], reErr = None, reCtxAfter = None\<rparr>,
     \<lparr>reNow = 1, reCtxBefore = None, reBytes = [0, 0], reErr = Some EOF, reCtxAfter = None\<rparr>]"

theorem one_shot_recording_is_gapless_witness:
  "\<exists>r r'. NewRecorder 8 1 0 1 = Inr r \<and> recordFromReader energy_ops 10 demo_reads r = Some (Inr [], r') \<and>
     (\<exists>before w after. read_chunks 1 demo_reads = before @ w @ after \<and> [] = concat w)"
proof -
  obtain r where r: "NewRecorder 8 1 0 1 = Inr r" by (simp add: NewRecorder_def NewRecorderWithDetector_def)
  have zero: "rms [0] = 0" by (simp add: rms_def)
  obtain r' where r': "recordFromReader energy_ops 10 demo_reads r = Some (Inr [], r')"
    using r by (auto simp: NewRecorder_def NewRecorderWithDetector_def New_def recordFromReader_def pcmChunkBytes_def
      demo_reads_def energy_ops_def onceProcessChunk_def recordChunk_def ProcessChunk_def completeBytes_def
      pcmBytesPerSample_def pcmToFloat32_def le16_def Reset_def trunc_def zero Let_def)
  from one_shot_recording_is_gapless [OF r _ r'] r r' show ?thesis by auto
qed

text \<open>
  The microphone is only rearmed after real quiet: if the guard's wait succeeds, the microphone
  has delivered a run of consecutive chunks, as many as the stable window asks for (at
  least one), each with energy at or below the threshold.
\<close>

theorem rearm_after_stable_silence:
  assumes "Wait ended started evs ctxEnd g = Some None"
  shows "\<exists>before w after. read_chunks (guardChannels g) evs = before @ w @ after \<and>
    length w = stableChunks g \<and> 1 \<le> length w \<and> (\<forall>c \<in> set w. rms c \<le> max 0 (guardThreshold g))"
proof -
  have need: "1 \<le> stableChunks g" unfolding stableChunks_def Let_def by (auto simp: Suc_le_eq)
  have "silenceLoop (guardChannels g) (max 0 (guardThreshold g)) (stableChunks g) evs 0 = Some None"
    using assms by (auto simp: Wait_def waitForStableSilence_def max_def
      split: option.splits sum.splits if_splits)
  from silenceLoop_quiet [OF this, of "[]"] need
  have "\<exists>before w after. read_chunks (guardChannels g) evs = before @ w @ after \<and>
    length w = stableChunks g \<and> (\<forall>c \<in> set w. rms c \<le> max 0 (guardThreshold g))" by simp
  with need show ?thesis by metis
qed

theorem rearm_after_stable_silence_witness:
  "Wait None None demo_reads None (newMicrophoneRearmGuard 8 1\<lparr>stableSilence := 0\<rparr>) = Some None \<and>
   (\<exists>before w after. read_chunks 1 demo_reads = before @ w @ after \<and> 1 \<le> length w)"
proof -
  have w: "Wait None None demo_reads None (newMicrophoneRearmGuard 8 1\<lparr>stableSilence := 0\<rparr>) = Some None"
    by (simp add: Wait_def sleepContext_def newMicrophoneRearmGuard_def pcmChunkBytes_def waitForStableSilence_def
      demo_reads_def stableChunks_def go_quot_def completeBytes_def pcmBytesPerSample_def pcmToFloat32_def le16_def
      rms_def defaultRearmThreshold_def chunkDurationMS_def Let_def)
  from rearm_after_stable_silence [OF w] w show ?thesis
    by (auto simp: newMicrophoneRearmGuard_def)
qed
end
