(* ===== verification/Playback.thy ===== *)
theory Playback
  imports Capture_Once
begin

section \<open>Playback (\<^verbatim>\<open>internal/audio/playback.go\<close>, \<^verbatim>\<open>response_playback.go\<close>, \<^verbatim>\<open>continuous_playback_guard.go\<close>)\<close>

text \<open>
  One reusable \<^verbatim>\<open>aplay\<close> session per response.  \<^verbatim>\<open>Write\<close>, and the parts of \<^verbatim>\<open>Finish\<close>, \<^verbatim>\<open>Stop\<close>
  and \<^verbatim>\<open>Close\<close> that change the session, hold \<^verbatim>\<open>writeMu\<close>, so they are atomic
  here.  Processes are numbered in the order they are started; what is done to them is
  recorded in the field \<open>calls\<close>, oldest first.  The outcomes of the calls on a process and of
  the context are parameters of each operation (\<open>play_env\<close>).
\<close>

subsection \<open>The process\<close>

definition playbackArgs :: "string \<Rightarrow> string \<Rightarrow> string \<Rightarrow> string list" where
  "playbackArgs device rate channels =
     [''-D'', device, ''-f'', ''S16_LE'', ''-r'', rate, ''-c'', channels, ''-t'', ''raw'', ''-q'', ''-'']"

text \<open>
  \<^verbatim>\<open>execPlaybackProcess\<close>: three \<^verbatim>\<open>sync.Once\<close>; \<^term>\<open>None\<close> means not yet run, and the stored value is what
  the guarded call left.
\<close>

record execPlaybackProcess =
  inputClosed :: bool
  waitErr :: "go_error option option"
  killErr :: "go_error option option"

definition newExecPlaybackProcess :: execPlaybackProcess where
  "newExecPlaybackProcess = \<lparr>inputClosed = False, waitErr = None, killErr = None\<rparr>"

definition closeInput :: "execPlaybackProcess \<Rightarrow> execPlaybackProcess" where
  "closeInput p = p\<lparr>inputClosed := True\<rparr>"

text \<open>\<^verbatim>\<open>wait\<close>; \<open>status\<close> is what the process's exit delivers if this call is the first.\<close>

definition procWait :: "go_error option \<Rightarrow> execPlaybackProcess \<Rightarrow> go_error option \<times> execPlaybackProcess" where
  "procWait status p =
     (case waitErr p of Some e \<Rightarrow> (e, p) | None \<Rightarrow> (status, p\<lparr>waitErr := Some status\<rparr>))"

definition procDrain :: "go_error option \<Rightarrow> execPlaybackProcess \<Rightarrow> go_error option \<times> execPlaybackProcess" where
  "procDrain status p =
     (let (e, p') = procWait status (closeInput p)
      in (case e of None \<Rightarrow> None | Some e \<Rightarrow> Some (Wrapped ''aplay drain'' e), p'))"

text \<open>\<open>kill\<close> is the error of killing the process, \<^term>\<open>None\<close> also when it had already exited.\<close>

definition procStop ::
  "go_error option \<Rightarrow> go_error option \<Rightarrow> execPlaybackProcess \<Rightarrow> go_error option \<times> execPlaybackProcess"
where
  "procStop kill status p =
     (let p1 = closeInput p;
          p2 = (case killErr p1 of Some _ \<Rightarrow> p1 | None \<Rightarrow> p1\<lparr>killErr := Some kill\<rparr>);
          (_, p3) = procWait status p2
      in (case killErr p3 of Some e \<Rightarrow> e | None \<Rightarrow> None, p3))"

subsection \<open>Guards\<close>

definition continuousCaptureSettleDelay :: duration where
  "continuousCaptureSettleDelay = 350000000"

datatype playbackGuard = RearmGuard microphoneRearmGuard | SettlingGuard duration

text \<open>What the environment does during a guard's wait.\<close>

record guard_env =
  geCtx :: "go_error option"
  geEnded :: "go_error option"
  geStarted :: "go_error option"
  geReads :: "read_event list"
  geCtxEnd :: "go_error option"

text \<open>\<^verbatim>\<open>settlingPlaybackGuard.Wait\<close>: \<open>ctxErr\<close> on entry, \<open>ended\<close> if the context ends before the timer.\<close>

definition settlingWait :: "go_error option \<Rightarrow> go_error option \<Rightarrow> duration \<Rightarrow> go_error option" where
  "settlingWait ctxErr ended delay = (if delay \<le> 0 then ctxErr else ended)"

fun guardWait :: "guard_env \<Rightarrow> playbackGuard \<Rightarrow> go_error option option" where
  "guardWait env (RearmGuard g) = Wait (geEnded env) (geStarted env) (geReads env) (geCtxEnd env) g"
| "guardWait env (SettlingGuard delay) = Some (settlingWait (geCtx env) (geEnded env) delay)"

subsection \<open>State\<close>

datatype call = Started nat int int | Wrote nat "8 word list" | Drained nat | Stopped nat

record playback =
  guard :: playbackGuard
  session :: "nat option"
  rate :: int
  ch :: int
  pbClosed :: bool
  nextId :: nat
  calls :: "call list"

definition NewPlayback :: "int \<Rightarrow> int \<Rightarrow> playback" where
  "NewPlayback sampleRate channels =
     \<lparr>guard = RearmGuard (newMicrophoneRearmGuard sampleRate channels), session = None, rate = 0, ch = 0,
      pbClosed = False, nextId = 0, calls = []\<rparr>"

definition UseContinuousCaptureGuard :: "playback \<Rightarrow> playback" where
  "UseContinuousCaptureGuard p = p\<lparr>guard := SettlingGuard continuousCaptureSettleDelay\<rparr>"

text \<open>
  The write reports a byte count and an error, or the context ends first; likewise for the
  drain.  \<open>peStop\<close> is the error of stopping a process.
\<close>

datatype write_outcome = WriteDone nat "go_error option" | WriteCancelled go_error
datatype drain_outcome = DrainDone "go_error option" | DrainCancelled go_error

record play_env =
  peCtx :: "go_error option"
  peStart :: "go_error option"
  peStop :: "go_error option"
  peWrite :: write_outcome
  peDrain :: drain_outcome
  peCtxAfter :: "go_error option"
  peGuard :: guard_env

definition callOn :: "call \<Rightarrow> playback \<Rightarrow> playback" where
  "callOn c p = p\<lparr>calls := calls p @ [c]\<rparr>"

definition clearSession :: "playback \<Rightarrow> playback" where
  "clearSession p = p\<lparr>session := None, rate := 0, ch := 0\<rparr>"

subsection \<open>Operations\<close>

definition startSession ::
  "play_env \<Rightarrow> int \<Rightarrow> int \<Rightarrow> playback \<Rightarrow> (go_error + nat) \<times> playback"
where
  "startSession env sampleRate channels p =
     (case peStart env of
        Some e \<Rightarrow> (Inl e, p)
      | None \<Rightarrow>
          (Inr (nextId p),
           (callOn (Started (nextId p) sampleRate channels) p)
             \<lparr>nextId := Suc (nextId p), session := Some (nextId p), rate := sampleRate, ch := channels\<rparr>))"

definition ensureSession ::
  "play_env \<Rightarrow> int \<Rightarrow> int \<Rightarrow> playback \<Rightarrow> (go_error + nat) \<times> playback"
where
  "ensureSession env sampleRate channels p =
     (if pbClosed p then (Inl (Message ''playback is closed''), p)
      else case session p of
        None \<Rightarrow> startSession env sampleRate channels p
      | Some s \<Rightarrow>
          if rate p = sampleRate \<and> ch p = channels then (Inr s, p)
          else let p1 = clearSession (callOn (Stopped s) p) in
            (case peStop env of
               Some e \<Rightarrow> (Inl (Wrapped ''stopping incompatible playback session'' e), p1)
             | None \<Rightarrow> startSession env sampleRate channels p1))"

definition resetSession :: "nat \<Rightarrow> playback \<Rightarrow> playback" where
  "resetSession target p =
     (if session p \<noteq> Some target then p else callOn (Stopped target) (clearSession p))"

text \<open>\<^verbatim>\<open>writePlaybackProcess\<close>: the error, and the playback after.\<close>

definition writePlaybackProcess ::
  "play_env \<Rightarrow> nat \<Rightarrow> 8 word list \<Rightarrow> playback \<Rightarrow> go_error option \<times> playback"
where
  "writePlaybackProcess env target data p =
     (let p1 = callOn (Wrote target data) p in
      case peWrite env of
        WriteDone n err \<Rightarrow> ((if err = None \<and> n \<noteq> length data then Some ShortWrite else err), p1)
      | WriteCancelled e \<Rightarrow> (Some e, callOn (Stopped target) p1))"

definition ctxAfterWrite :: "play_env \<Rightarrow> go_error option" where
  "ctxAfterWrite env = (case peWrite env of WriteCancelled e \<Rightarrow> Some e | _ \<Rightarrow> peCtxAfter env)"

definition Write :: "play_env \<Rightarrow> buffer \<Rightarrow> playback \<Rightarrow> go_error option \<times> playback" where
  "Write env buffer p =
     (if Empty buffer then (None, p)
      else case Validate buffer of
        Some e \<Rightarrow> (Some e, p)
      | None \<Rightarrow>
          (case peCtx env of
             Some e \<Rightarrow> (Some e, p)
           | None \<Rightarrow>
               (case ensureSession env (SampleRate buffer) (Channels buffer) p of
                  (Inl e, p1) \<Rightarrow> (Some e, p1)
                | (Inr target, p1) \<Rightarrow>
                    (case writePlaybackProcess env target (float32ToPCM16 (Samples buffer)) p1 of
                       (None, p2) \<Rightarrow> (None, p2)
                     | (Some e, p2) \<Rightarrow>
                         (Some (case ctxAfterWrite env of Some c \<Rightarrow> c | None \<Rightarrow> Wrapped ''aplay write'' e),
                          resetSession target p2)))))"

definition Stop :: "play_env \<Rightarrow> playback \<Rightarrow> go_error option \<times> playback" where
  "Stop env p =
     (case session p of
        None \<Rightarrow> (None, clearSession p)
      | Some s \<Rightarrow> (peStop env, callOn (Stopped s) (clearSession p)))"

definition drainPlaybackProcess :: "play_env \<Rightarrow> nat \<Rightarrow> playback \<Rightarrow> go_error option \<times> playback" where
  "drainPlaybackProcess env target p =
     (case peDrain env of
        DrainDone err \<Rightarrow> (err, callOn (Drained target) p)
      | DrainCancelled e \<Rightarrow> (Some e, callOn (Stopped target) (callOn (Drained target) p)))"

definition ctxAfterDrain :: "play_env \<Rightarrow> go_error option" where
  "ctxAfterDrain env = (case peDrain env of DrainCancelled e \<Rightarrow> Some e | _ \<Rightarrow> peCtxAfter env)"

definition Finish :: "play_env \<Rightarrow> playback \<Rightarrow> (go_error option \<times> playback) option" where
  "Finish env p =
     (case peCtx env of
        Some e \<Rightarrow> Some (Some e, snd (Stop env p))
      | None \<Rightarrow>
          (let p1 = clearSession p in
           case session p of
             None \<Rightarrow> Some (None, p1)
           | Some s \<Rightarrow>
               (case drainPlaybackProcess env s p1 of
                  (Some e, p2) \<Rightarrow>
                    Some (Some (case ctxAfterDrain env of Some c \<Rightarrow> c | None \<Rightarrow> e), p2)
                | (None, p2) \<Rightarrow>
                    (case guardWait (peGuard env) (guard p2) of
                       None \<Rightarrow> None
                     | Some None \<Rightarrow> Some (None, p2)
                     | Some (Some e) \<Rightarrow>
                         Some (Some (case geCtxEnd (peGuard env) of
                           Some c \<Rightarrow> c | None \<Rightarrow> Wrapped ''post-playback guard'' e), p2)))))"

definition Play :: "play_env \<Rightarrow> play_env \<Rightarrow> buffer \<Rightarrow> playback \<Rightarrow> (go_error option \<times> playback) option" where
  "Play env1 env2 buffer p =
     (if Empty buffer then Some (None, p)
      else case Write env1 buffer p of
        (Some e, p1) \<Rightarrow> Some (Some e, p1)
      | (None, p1) \<Rightarrow> Finish env2 p1)"

definition PbClose :: "play_env \<Rightarrow> playback \<Rightarrow> go_error option \<times> playback" where
  "PbClose env p =
     (if pbClosed p then (None, p)
      else let p1 = clearSession (p\<lparr>pbClosed := True\<rparr>) in
        case session p of
          None \<Rightarrow> (None, p1)
        | Some s \<Rightarrow> (peStop env, callOn (Stopped s) p1))"

text \<open>\<^verbatim>\<open>PlayRaw\<close>: \<open>run\<close> is the error of the one-shot \<^verbatim>\<open>aplay\<close>.\<close>

definition PlayRaw :: "go_error option \<Rightarrow> 8 word list \<Rightarrow> playback \<Rightarrow> go_error option" where
  "PlayRaw run pcm p =
     (if pcm = [] then None
      else if pbClosed p then Some (Message ''playback is closed'')
      else case run of None \<Rightarrow> None | Some e \<Rightarrow> Some (Wrapped ''aplay'' e))"

subsection \<open>Response playback\<close>

definition ResponsePlay :: "play_env \<Rightarrow> play_env \<Rightarrow> buffer \<Rightarrow> playback \<Rightarrow> (go_error option \<times> playback) option" where
  "ResponsePlay env1 env2 buffer p =
     (if Empty buffer then Some (None, p)
      else case Write env1 buffer p of
        (Some e, p1) \<Rightarrow> Some (Some e, p1)
      | (None, p1) \<Rightarrow> Finish env2 p1)"

definition ResponseWrite :: "play_env \<Rightarrow> buffer \<Rightarrow> playback \<Rightarrow> go_error option \<times> playback" where
  "ResponseWrite = Write"

definition ResponseFinish :: "play_env \<Rightarrow> playback \<Rightarrow> (go_error option \<times> playback) option" where
  "ResponseFinish = Finish"

definition ResponseStop :: "play_env \<Rightarrow> playback \<Rightarrow> go_error option \<times> playback" where
  "ResponseStop = Stop"

definition ResponseClose :: "play_env \<Rightarrow> playback \<Rightarrow> go_error option \<times> playback" where
  "ResponseClose = PbClose"

subsection \<open>Which processes are running\<close>

fun after_call :: "call \<Rightarrow> nat set \<Rightarrow> nat set" where
  "after_call (Started i _ _) L = insert i L"
| "after_call (Wrote _ _) L = L"
| "after_call (Drained i) L = L - {i}"
| "after_call (Stopped i) L = L - {i}"

definition live_after :: "call list \<Rightarrow> nat set" where
  "live_after cs = foldl (\<lambda>L c. after_call c L) {} cs"

text \<open>Bytes are only written to a running process, and only fresh processes are started.\<close>

fun call_ok :: "call \<Rightarrow> nat set \<Rightarrow> bool" where
  "call_ok (Started i _ _) L = (i \<notin> L)"
| "call_ok (Wrote i _) L = (i \<in> L)"
| "call_ok _ L = True"

definition calls_ok :: "call list \<Rightarrow> bool" where
  "calls_ok cs \<longleftrightarrow> (\<forall>k < length cs. call_ok (cs ! k) (live_after (take k cs)))"

lemma live_after_snoc [simp]: "live_after (cs @ [c]) = after_call c (live_after cs)"
  by (simp add: live_after_def)

lemma calls_ok_snoc [simp]: "calls_ok (cs @ [c]) \<longleftrightarrow> calls_ok cs \<and> call_ok c (live_after cs)"
  by (auto simp: calls_ok_def nth_append less_Suc_eq)

lemma calls_snoc2 [simp]:
  "live_after (cs @ [c, d]) = after_call d (after_call c (live_after cs))"
  "calls_ok (cs @ [c, d]) \<longleftrightarrow> calls_ok cs \<and> call_ok c (live_after cs) \<and> call_ok d (after_call c (live_after cs))"
  using live_after_snoc [of "cs @ [c]" d] calls_ok_snoc [of "cs @ [c]" d] by simp_all

lemma live_after_Nil [simp]: "live_after [] = {}" "calls_ok []"
  by (simp_all add: live_after_def calls_ok_def)

text \<open>
  The players that may run: the current session and the sessions detached by a \<^verbatim>\<open>Finish\<close> that
  is still draining.
\<close>

definition pb_ok :: "playback \<Rightarrow> nat list \<Rightarrow> bool" where
  "pb_ok p draining \<longleftrightarrow>
     live_after (calls p) = set_option (session p) \<union> set draining \<and> calls_ok (calls p) \<and>
     distinct draining \<and> (\<forall>i \<in> set draining. i < nextId p \<and> session p \<noteq> Some i) \<and>
     (\<forall>i. session p = Some i \<longrightarrow> i < nextId p) \<and> (pbClosed p \<longrightarrow> session p = None)"

lemma pb_ok_NewPlayback: "pb_ok (NewPlayback r c) []"
  by (simp add: pb_ok_def NewPlayback_def)

lemma pb_ok_guard: "pb_ok p dr \<Longrightarrow> pb_ok (UseContinuousCaptureGuard p) dr"
  by (simp add: pb_ok_def UseContinuousCaptureGuard_def)

lemma pb_ok_drop: "pb_ok p dr \<Longrightarrow> session p = Some s \<Longrightarrow> pb_ok (callOn (Stopped s) (clearSession p)) dr"
  by (auto simp: pb_ok_def callOn_def clearSession_def)

lemma callOn_clear: "callOn c (clearSession p) = clearSession (callOn c p)"
  by (simp add: callOn_def clearSession_def)

lemma pb_ok_startSession:
  "pb_ok p dr \<Longrightarrow> session p = None \<Longrightarrow> \<not> pbClosed p \<Longrightarrow>
     pb_ok (snd (startSession env r c p)) dr \<and>
     (\<forall>s. fst (startSession env r c p) = Inr s \<longrightarrow> session (snd (startSession env r c p)) = Some s)"
  by (auto simp: pb_ok_def startSession_def callOn_def split: option.split)

lemma clearSession_frame [simp]: "session (clearSession p) = None" "pbClosed (clearSession p) = pbClosed p"
  "calls (clearSession p) = calls p" "session (callOn c p) = session p" "pbClosed (callOn c p) = pbClosed p"
  by (simp_all add: clearSession_def callOn_def)

lemma pb_ok_ensureSession:
  assumes "pb_ok p dr"
  shows "pb_ok (snd (ensureSession env r c p)) dr \<and>
    (\<forall>s. fst (ensureSession env r c p) = Inr s \<longrightarrow> session (snd (ensureSession env r c p)) = Some s)"
  using assms pb_ok_drop [OF assms] pb_ok_startSession [of p dr env r c]
    pb_ok_startSession [of "clearSession (callOn (Stopped (the (session p))) p)" dr env r c]
  by (auto simp: ensureSession_def callOn_clear Let_def split: option.splits)

lemma pb_ok_Write:
  assumes "pb_ok p dr"
  shows "pb_ok (snd (Write env b p)) dr"
proof -
  have w: "pb_ok (callOn (Wrote s d) q) dr" if "pb_ok q dr" "session q = Some s" for s d q
    using that by (auto simp: pb_ok_def callOn_def)
  have r: "pb_ok (resetSession s (callOn (Stopped s) q)) dr" if "pb_ok q dr" "session q = Some s" for s q
    using that by (auto simp: pb_ok_def callOn_def resetSession_def clearSession_def)
  have r': "pb_ok (resetSession s q) dr" if "pb_ok q dr" "session q = Some s" for s q
    using that pb_ok_drop [OF that] by (simp add: resetSession_def)
  show ?thesis
  proof (cases "Empty b \<or> Validate b \<noteq> None \<or> peCtx env \<noteq> None")
    case True
    with assms show ?thesis by (auto simp: Write_def split: option.split)
  next
    case False
    obtain res q where q: "ensureSession env (SampleRate b) (Channels b) p = (res, q)" by fastforce
    with pb_ok_ensureSession [OF assms, of env "SampleRate b" "Channels b"]
    have ok: "pb_ok q dr" "\<And>s. res = Inr s \<Longrightarrow> session q = Some s" by auto
    show ?thesis
    proof (cases res)
      case (Inl e)
      with False q ok show ?thesis by (simp add: Write_def)
    next
      case (Inr s)
      let ?q = "callOn (Wrote s (float32ToPCM16 (Samples b))) q"
      have "pb_ok ?q dr" "session ?q = Some s" using w ok Inr by auto
      with False q Inr r [of ?q s] r' [of ?q s] show ?thesis
        by (auto simp: Write_def writePlaybackProcess_def Let_def split: write_outcome.split option.split)
    qed
  qed
qed

lemma pb_ok_Stop: "pb_ok p dr \<Longrightarrow> pb_ok (snd (Stop env p)) dr"
  using pb_ok_drop [of p dr] by (auto simp: Stop_def pb_ok_def clearSession_def split: option.split)

lemma pb_ok_Close: "pb_ok p dr \<Longrightarrow> pb_ok (snd (PbClose env p)) dr"
  by (auto simp: PbClose_def pb_ok_def callOn_def clearSession_def Let_def split: option.split)

lemma pb_ok_detach:
  "pb_ok p dr \<Longrightarrow> session p = Some s \<Longrightarrow> pb_ok (clearSession p) (dr @ [s])"
  by (auto simp: pb_ok_def clearSession_def)

lemma pb_ok_drain:
  "pb_ok p (dr1 @ s # dr2) \<Longrightarrow> pb_ok (snd (drainPlaybackProcess env s p)) (dr1 @ dr2)"
  by (auto simp: pb_ok_def drainPlaybackProcess_def callOn_def split: drain_outcome.split)

text \<open>
  The operations in any order.  \<^verbatim>\<open>Finish\<close> detaches the session under the lock and drains
  it afterwards, so other operations may come in between.
\<close>

inductive pb_step :: "playback \<times> nat list \<Rightarrow> playback \<times> nat list \<Rightarrow> bool" where
  DoWrite: "pb_step (p, dr) (snd (Write env b p), dr)"
| DoStop: "pb_step (p, dr) (snd (Stop env p), dr)"
| DoClose: "pb_step (p, dr) (snd (PbClose env p), dr)"
| DoGuard: "pb_step (p, dr) (UseContinuousCaptureGuard p, dr)"
| FinishDetach: "session p = Some s \<Longrightarrow> pb_step (p, dr) (clearSession p, dr @ [s])"
| FinishDrain: "pb_step (p, dr1 @ s # dr2) (snd (drainPlaybackProcess env s p), dr1 @ dr2)"

text \<open>A whole \<^verbatim>\<open>Finish\<close> on a live context is the two steps one after the other.\<close>

lemma Finish_steps:
  assumes "Finish env p = Some (err, p')" "peCtx env = None" "session p = Some s"
  shows "pb_step\<^sup>*\<^sup>* (p, []) (p', [])"
proof -
  have "p' = snd (drainPlaybackProcess env s (clearSession p))"
    using assms by (auto simp: Finish_def Let_def split: prod.splits option.splits)
  then have "pb_step (clearSession p, [s]) (p', [])" using FinishDrain [of _ "[]" s "[]" env] by simp
  moreover have "pb_step (p, []) (clearSession p, [s])" using FinishDetach [OF assms(3), of "[]"] by simp
  ultimately show ?thesis by (meson converse_rtranclp_into_rtranclp rtranclp.rtrancl_refl)
qed

lemma pb_ok_step: "pb_step x y \<Longrightarrow> pb_ok (fst x) (snd x) \<Longrightarrow> pb_ok (fst y) (snd y)"
  by (induction rule: pb_step.induct)
     (auto intro: pb_ok_Write pb_ok_Stop pb_ok_Close pb_ok_guard pb_ok_detach pb_ok_drain)

lemma pb_ok_steps: "pb_step\<^sup>*\<^sup>* x y \<Longrightarrow> pb_ok (fst x) (snd x) \<Longrightarrow> pb_ok (fst y) (snd y)"
  by (induction rule: rtranclp_induct) (auto intro: pb_ok_step)

subsection \<open>A streamed response\<close>

fun writeAll :: "(play_env \<times> buffer) list \<Rightarrow> playback \<Rightarrow> go_error option \<times> playback" where
  "writeAll [] p = (None, p)"
| "writeAll ((env, b) # rest) p =
     (case Write env b p of
        (Some e, p') \<Rightarrow> (Some e, p')
      | (None, p') \<Rightarrow> writeAll rest p')"

lemma Write_ok:
  assumes "Write env b p = (None, p')" "\<not> Empty b"
  shows "\<exists>s q. ensureSession env (SampleRate b) (Channels b) p = (Inr s, q) \<and> \<not> pbClosed p \<and>
    p' = callOn (Wrote s (float32ToPCM16 (Samples b))) q"
  using assms
  by (auto simp: Write_def writePlaybackProcess_def ensureSession_def Let_def
      split: option.splits prod.splits sum.splits write_outcome.splits if_splits)

lemma writeAll_open:
  assumes "writeAll ebs p = (None, p')" "session p = Some s" "rate p = r" "ch p = c"
    and "\<forall>(env, b) \<in> set ebs. \<not> Empty b \<and> SampleRate b = r \<and> Channels b = c"
  shows "session p' = Some s \<and>
    calls p' = calls p @ map (\<lambda>(env, b). Wrote s (float32ToPCM16 (Samples b))) ebs"
  using assms
proof (induction ebs arbitrary: p)
  case (Cons eb ebs)
  obtain env b where eb: "eb = (env, b)" by fastforce
  obtain q where q: "Write env b p = (None, q)" "writeAll ebs q = (None, p')"
    using Cons.prems(1) by (auto simp: eb split: prod.splits option.splits)
  have b: "\<not> Empty b" "SampleRate b = r" "Channels b = c" using Cons.prems(5) by (auto simp: eb)
  obtain t u where "ensureSession env r c p = (Inr t, u)" "\<not> pbClosed p"
    "q = callOn (Wrote t (float32ToPCM16 (Samples b))) u"
    using Write_ok [OF q(1) b(1)] b by auto
  then have "q = callOn (Wrote s (float32ToPCM16 (Samples b))) p"
    using Cons.prems(2-4) by (auto simp: ensureSession_def)
  then show ?case using Cons.IH [OF q(2)] Cons.prems(2-5) by (simp add: callOn_def eb)
qed simp

subsection \<open>Properties\<close>

text \<open>
  C15. No player is ever leaked or written to after its end: after any sequence of writes, stops,
  finishes (also interleaved with other calls while they drain) and closes, the
  player processes still running are exactly the current session and those being drained,
  every byte went to a process that was running at that moment, and a closed playback
  holds no session.
\<close>

theorem playback_processes_accounted:
  assumes "pb_step\<^sup>*\<^sup>* (NewPlayback r c, []) (p, draining)"
  shows "live_after (calls p) = set_option (session p) \<union> set draining \<and> calls_ok (calls p) \<and>
    (pbClosed p \<longrightarrow> session p = None)"
  using pb_ok_steps [OF assms] pb_ok_NewPlayback by (simp add: pb_ok_def)

definition demo_play_env :: play_env where
  "demo_play_env = \<lparr>peCtx = None, peStart = None, peStop = None, peWrite = WriteDone 2 None,
     peDrain = DrainDone None, peCtxAfter = None,
     peGuard = \<lparr>geCtx = None, geEnded = None, geStarted = None, geReads = [], geCtxEnd = None\<rparr>\<rparr>"

definition demo_chunk :: buffer where
  "demo_chunk = \<lparr>Samples = [0], SampleRate = 8, Channels = 1\<rparr>"

definition demo_playback :: playback where
  "demo_playback = UseContinuousCaptureGuard (NewPlayback 8 1)"

lemmas demo_play_simps = demo_play_env_def demo_chunk_def demo_playback_def UseContinuousCaptureGuard_def
  NewPlayback_def Write_def Empty_def Validate_def ensureSession_def startSession_def writePlaybackProcess_def
  callOn_def clearSession_def float32ToPCM16_def put16_def trunc_def clampSample_def Finish_def
  drainPlaybackProcess_def settlingWait_def continuousCaptureSettleDelay_def

theorem playback_processes_accounted_witness:
  "\<exists>p. pb_step\<^sup>*\<^sup>* (NewPlayback 8 1, []) (p, []) \<and> session p = Some 0 \<and> live_after (calls p) = {0}"
proof -
  let ?p = "snd (Write demo_play_env demo_chunk (NewPlayback 8 1))"
  have "pb_step (NewPlayback 8 1, []) (?p, [])" by (rule DoWrite)
  then have run: "pb_step\<^sup>*\<^sup>* (NewPlayback 8 1, []) (?p, [])" by blast
  have "session ?p = Some 0" by (simp add: demo_play_simps)
  with playback_processes_accounted [OF run] run show ?thesis by auto
qed



end
