(* ===== verification/Turn_Recorder.thy ===== *)
theory Turn_Recorder
  imports Audio_Format Go_Text
begin

section \<open>Turn states, errors and the turn recorder (\<^verbatim>\<open>internal/application/application.go\<close>)\<close>

text \<open>
  The observable states of a voice turn, the error codes, the trace of a turn and the
  recorder that fills it.  The recorder reads the monotonic clock; the value it reads is
  an argument of each operation (an \<^verbatim>\<open>emit\<close> that reads it twice in a row reads the same value).
  The events handed to the observer are part of the recorder's record (\<open>events\<close>).
\<close>

datatype state =
    StateIdle | StateListening | StateTranscribing | StateThinking | StateSynthesizing
  | StateSpeaking | StateStopping | StateInterrupted | StateWakeDetected

datatype errorCode =
    ErrorCaptureFailed | ErrorTranscriptionFailed | ErrorAgentFailed | ErrorSynthesisFailed
  | ErrorPlaybackFailed | ErrorCancelled | ErrorDeadlineExceeded | ErrorInvalidApplication
  | ErrorInterrupted

record appError =
  Code :: errorCode
  Recoverable :: bool
  Err :: go_error

definition IsErrorCode :: "appError \<Rightarrow> errorCode \<Rightarrow> bool" where
  "IsErrorCode e code \<longleftrightarrow> Code e = code"

definition invalidApplication :: "string \<Rightarrow> appError" where
  "invalidApplication message = \<lparr>Code = ErrorInvalidApplication, Recoverable = False, Err = Message message\<rparr>"

definition contextApplicationError :: "go_error \<Rightarrow> appError" where
  "contextApplicationError err =
     (if errors_is err DeadlineExceeded
      then \<lparr>Code = ErrorDeadlineExceeded, Recoverable = False, Err = DeadlineExceeded\<rparr>
      else \<lparr>Code = ErrorCancelled, Recoverable = False, Err = Canceled\<rparr>)"

definition contextCode :: "go_error \<Rightarrow> errorCode" where
  "contextCode err = (if errors_is err DeadlineExceeded then ErrorDeadlineExceeded else ErrorCancelled)"

definition interruptedApplicationError :: appError where
  "interruptedApplicationError = \<lparr>Code = ErrorInterrupted, Recoverable = True, Err = TurnInterrupted\<rparr>"

lemma contextCode_error [simp]: "Code (contextApplicationError e) = contextCode e"
  by (simp add: contextApplicationError_def contextCode_def)

record turn_event =
  evTurn :: turn_id
  evState :: state

text \<open>Zero durations and the empty outcome are the zero values of the Go struct.\<close>

record trace =
  TurnID :: turn_id
  States :: "state list"
  StageDurations :: "state \<Rightarrow> duration"
  TotalDuration :: duration
  FirstSTTPartial :: duration
  EndOfSpeech :: duration
  FinalTranscript :: duration
  FirstResponseDelta :: duration
  FirstPCM :: duration
  FirstAudio :: duration
  STTLatency :: duration
  AgentTTFT :: duration
  TTSFirstChunkLatency :: duration
  PlaybackLatency :: duration
  EOSToFirstAudio :: duration
  InterruptLatency :: duration
  SampleCount :: nat
  TranscriptChars :: nat
  ReplyChars :: nat
  Outcome :: string
  TraceError :: "errorCode option"

record result =
  Reply :: string
  Noop :: bool
  Trace :: trace

definition no_trace :: trace where
  "no_trace = \<lparr>TurnID = 0, States = [], StageDurations = (\<lambda>_. 0), TotalDuration = 0, FirstSTTPartial = 0,
     EndOfSpeech = 0, FinalTranscript = 0, FirstResponseDelta = 0, FirstPCM = 0, FirstAudio = 0,
     STTLatency = 0, AgentTTFT = 0, TTSFirstChunkLatency = 0, PlaybackLatency = 0, EOSToFirstAudio = 0,
     InterruptLatency = 0, SampleCount = 0, TranscriptChars = 0, ReplyChars = 0, Outcome = [],
     TraceError = None\<rparr>"

definition no_result :: result where
  "no_result = \<lparr>Reply = [], Noop = False, Trace = no_trace\<rparr>"

text \<open>The assignments to \<^verbatim>\<open>result.Trace\<close> that the turn makes.\<close>

definition set_outcome :: "string \<Rightarrow> result \<Rightarrow> result" where
  "set_outcome s res = res\<lparr>Trace := (Trace res)\<lparr>Outcome := s\<rparr>\<rparr>"

definition set_error :: "errorCode \<Rightarrow> result \<Rightarrow> result" where
  "set_error c res = res\<lparr>Trace := (Trace res)\<lparr>TraceError := Some c\<rparr>\<rparr>"

definition set_noop :: "string \<Rightarrow> result \<Rightarrow> result" where
  "set_noop s res = set_outcome s (res\<lparr>Noop := True\<rparr>)"

definition set_samples :: "nat \<Rightarrow> result \<Rightarrow> result" where
  "set_samples n res = res\<lparr>Trace := (Trace res)\<lparr>SampleCount := n\<rparr>\<rparr>"

definition set_transcript :: "nat \<Rightarrow> result \<Rightarrow> result" where
  "set_transcript n res = res\<lparr>Trace := (Trace res)\<lparr>TranscriptChars := n\<rparr>\<rparr>"

definition set_reply :: "string \<Rightarrow> result \<Rightarrow> result" where
  "set_reply s res = res\<lparr>Reply := s, Trace := (Trace res)\<lparr>ReplyChars := length s\<rparr>\<rparr>"

definition set_interrupt_latency :: "duration \<Rightarrow> result \<Rightarrow> result" where
  "set_interrupt_latency d res = res\<lparr>Trace := (Trace res)\<lparr>InterruptLatency := d\<rparr>\<rparr>"

subsection \<open>The recorder\<close>

definition positiveDuration :: "duration \<Rightarrow> duration" where
  "positiveDuration d = (if d \<le> 0 then 1 else d)"

definition metricDelta :: "duration \<Rightarrow> duration \<Rightarrow> duration" where
  "metricDelta start end' = (if start \<le> 0 \<or> end' \<le> 0 \<or> end' < start then 0 else positiveDuration (end' - start))"

record turnRecorder =
  recTurn :: turn_id
  started :: instant
  stageStarted :: instant
  current :: "state option"
  states :: "state list"
  durations :: "state \<Rightarrow> duration"
  endOfSpeech :: duration
  finalTranscript :: duration
  firstResponseDelta :: duration
  firstPCM :: duration
  firstAudio :: duration
  events :: "turn_event list"

definition newTurnRecorder :: "instant \<Rightarrow> turn_id \<Rightarrow> turnRecorder" where
  "newTurnRecorder now turn = \<lparr>recTurn = turn, started = now, stageStarted = now, current = None, states = [],
     durations = (\<lambda>_. 0), endOfSpeech = 0, finalTranscript = 0, firstResponseDelta = 0, firstPCM = 0,
     firstAudio = 0, events = []\<rparr>"

definition elapsed :: "instant \<Rightarrow> turnRecorder \<Rightarrow> duration" where
  "elapsed now r = positiveDuration (now - started r)"

definition closeStage :: "instant \<Rightarrow> turnRecorder \<Rightarrow> turnRecorder" where
  "closeStage now r =
     (case current r of
        None \<Rightarrow> r
      | Some s \<Rightarrow> r\<lparr>durations := (durations r)(s := durations r s + positiveDuration (now - stageStarted r))\<rparr>)"

definition markFirstAudio :: "instant \<Rightarrow> turnRecorder \<Rightarrow> turnRecorder" where
  "markFirstAudio now r = (if firstAudio r = 0 then r\<lparr>firstAudio := elapsed now r\<rparr> else r)"

definition emit :: "instant \<Rightarrow> state \<Rightarrow> turnRecorder \<Rightarrow> turnRecorder" where
  "emit now s r =
     (let r1 = closeStage now r;
          r2 = (if s = StateSpeaking then markFirstAudio now r1 else r1)
      in r2\<lparr>current := Some s, stageStarted := now, states := states r2 @ [s],
            events := events r2 @ [\<lparr>evTurn = recTurn r2, evState = s\<rparr>]\<rparr>)"

text \<open>The argument is \<^term>\<open>None\<close> for the zero time.\<close>

definition markEndOfSpeech :: "instant \<Rightarrow> instant option \<Rightarrow> turnRecorder \<Rightarrow> turnRecorder" where
  "markEndOfSpeech now spoken r =
     (if endOfSpeech r \<noteq> 0 then r
      else case spoken of
        None \<Rightarrow> r\<lparr>endOfSpeech := elapsed now r\<rparr>
      | Some t \<Rightarrow>
          (let d = t - started r; d' = (if d \<le> 0 then elapsed now r else d)
           in r\<lparr>endOfSpeech := positiveDuration d'\<rparr>))"

text \<open>\<open>provider\<close> is the time of the input's \<^verbatim>\<open>ConsumeEndOfSpeech\<close>, \<^term>\<open>None\<close> for an input without it.\<close>

definition captureEndOfSpeech :: "instant \<Rightarrow> instant option option \<Rightarrow> turnRecorder \<Rightarrow> turnRecorder" where
  "captureEndOfSpeech now provider r =
     (if endOfSpeech r \<noteq> 0 then r
      else case provider of None \<Rightarrow> r | Some spoken \<Rightarrow> markEndOfSpeech now spoken r)"

definition markFinalTranscript :: "instant \<Rightarrow> turnRecorder \<Rightarrow> turnRecorder" where
  "markFinalTranscript now r = (if finalTranscript r = 0 then r\<lparr>finalTranscript := elapsed now r\<rparr> else r)"

definition markFirstResponseDelta :: "instant \<Rightarrow> turnRecorder \<Rightarrow> turnRecorder" where
  "markFirstResponseDelta now r =
     (if firstResponseDelta r = 0 then r\<lparr>firstResponseDelta := elapsed now r\<rparr> else r)"

definition markFirstPCM :: "instant \<Rightarrow> turnRecorder \<Rightarrow> turnRecorder" where
  "markFirstPCM now r = (if firstPCM r = 0 then r\<lparr>firstPCM := elapsed now r\<rparr> else r)"

text \<open>
  The steps of \<^verbatim>\<open>finish\<close>, in order.  \<open>partial\<close> is the observer's \<^verbatim>\<open>ConsumeFirstSTTPartial\<close>,
  \<^term>\<open>None\<close> for an observer without it.
\<close>

definition fillStages :: "instant \<Rightarrow> turnRecorder \<Rightarrow> trace \<Rightarrow> trace" where
  "fillStages now r t = t\<lparr>TurnID := recTurn r, States := states r, StageDurations := durations r,
     TotalDuration := positiveDuration (now - started r)\<rparr>"

definition fillPartial :: "(turn_id \<Rightarrow> duration) option \<Rightarrow> turnRecorder \<Rightarrow> trace \<Rightarrow> trace" where
  "fillPartial partial r t =
     (if FirstSTTPartial t = 0
      then (case partial of None \<Rightarrow> t | Some f \<Rightarrow> t\<lparr>FirstSTTPartial := f (recTurn r)\<rparr>) else t)"

definition fillEndOfSpeech :: "turnRecorder \<Rightarrow> trace \<Rightarrow> trace" where
  "fillEndOfSpeech r t =
     (let t1 = (if EndOfSpeech t = 0 then t\<lparr>EndOfSpeech := endOfSpeech r\<rparr> else t)
      in if EndOfSpeech t1 = 0 then t1\<lparr>EndOfSpeech := positiveDuration (durations r StateListening)\<rparr> else t1)"

definition fillFinalTranscript :: "turnRecorder \<Rightarrow> trace \<Rightarrow> trace" where
  "fillFinalTranscript r t =
     (let t1 = (if FinalTranscript t = 0 then t\<lparr>FinalTranscript := finalTranscript r\<rparr> else t)
      in if FinalTranscript t1 = 0 \<and> 0 < EndOfSpeech t1 \<and> 0 < durations r StateTranscribing
         then t1\<lparr>FinalTranscript := EndOfSpeech t1 + positiveDuration (durations r StateTranscribing)\<rparr>
         else t1)"

definition fillFirsts :: "turnRecorder \<Rightarrow> trace \<Rightarrow> trace" where
  "fillFirsts r t =
     (let t1 = (if FirstResponseDelta t = 0 then t\<lparr>FirstResponseDelta := firstResponseDelta r\<rparr> else t);
          t2 = (if FirstPCM t1 = 0 then t1\<lparr>FirstPCM := firstPCM r\<rparr> else t1);
          t3 = (if FirstAudio t2 = 0 then t2\<lparr>FirstAudio := firstAudio r\<rparr> else t2)
      in if FirstPCM t3 = 0 \<and> 0 < FirstAudio t3 then t3\<lparr>FirstPCM := FirstAudio t3\<rparr> else t3)"

definition fillLatencies :: "trace \<Rightarrow> trace" where
  "fillLatencies t =
     t\<lparr>STTLatency := metricDelta (EndOfSpeech t) (FinalTranscript t),
       AgentTTFT := metricDelta (FinalTranscript t) (FirstResponseDelta t),
       TTSFirstChunkLatency := metricDelta (FirstResponseDelta t) (FirstPCM t),
       PlaybackLatency := metricDelta (FirstPCM t) (FirstAudio t),
       EOSToFirstAudio := metricDelta (EndOfSpeech t) (FirstAudio t)\<rparr>"

definition finish :: "instant \<Rightarrow> (turn_id \<Rightarrow> duration) option \<Rightarrow> turnRecorder \<Rightarrow> trace \<Rightarrow> trace" where
  "finish now partial r0 t =
     (let r = closeStage now r0
      in fillLatencies (fillFirsts r (fillFinalTranscript r (fillEndOfSpeech r
           (fillPartial partial r (fillStages now r t))))))"

subsection \<open>Frame lemmas\<close>

named_theorems recorder_simps \<open>what the recorder operations leave unchanged\<close>

lemma closeStage_frame [recorder_simps]:
  "states (closeStage now r) = states r" "events (closeStage now r) = events r"
  "recTurn (closeStage now r) = recTurn r" "started (closeStage now r) = started r"
  by (simp_all add: closeStage_def split: option.splits)

lemma mark_frame [recorder_simps]:
  "states (markFirstAudio now r) = states r" "states (markFirstResponseDelta now r) = states r"
  "states (markFirstPCM now r) = states r" "states (markFinalTranscript now r) = states r"
  "states (captureEndOfSpeech now pr r) = states r"
  "events (markFirstAudio now r) = events r" "events (markFirstResponseDelta now r) = events r"
  "events (markFirstPCM now r) = events r" "events (markFinalTranscript now r) = events r"
  "events (captureEndOfSpeech now pr r) = events r"
  "recTurn (markFirstAudio now r) = recTurn r" "recTurn (markFirstResponseDelta now r) = recTurn r"
  "recTurn (markFirstPCM now r) = recTurn r" "recTurn (markFinalTranscript now r) = recTurn r"
  "recTurn (captureEndOfSpeech now pr r) = recTurn r"
  by (simp_all add: markFirstAudio_def markFirstResponseDelta_def markFirstPCM_def markFinalTranscript_def
        captureEndOfSpeech_def markEndOfSpeech_def Let_def split: option.splits)

lemma emit_states [recorder_simps]:
  "states (emit now s r) = states r @ [s]"
  "events (emit now s r) = events r @ [\<lparr>evTurn = recTurn r, evState = s\<rparr>]"
  "recTurn (emit now s r) = recTurn r"
  by (simp_all add: emit_def Let_def recorder_simps)

lemma newTurnRecorder_frame [recorder_simps]:
  "states (newTurnRecorder now t) = []" "events (newTurnRecorder now t) = []" "recTurn (newTurnRecorder now t) = t"
  by (simp_all add: newTurnRecorder_def)

definition same_core :: "trace \<Rightarrow> trace \<Rightarrow> bool" where
  "same_core t t' \<longleftrightarrow> States t' = States t \<and> TurnID t' = TurnID t \<and> Outcome t' = Outcome t \<and>
     TraceError t' = TraceError t \<and> InterruptLatency t' = InterruptLatency t \<and>
     StageDurations t' = StageDurations t \<and> TotalDuration t' = TotalDuration t"

lemma same_core_fill:
  "same_core t (fillPartial partial r t)" "same_core t (fillEndOfSpeech r t)"
  "same_core t (fillFinalTranscript r t)" "same_core t (fillFirsts r t)" "same_core t (fillLatencies t)"
  by (simp_all add: same_core_def fillPartial_def fillEndOfSpeech_def fillFinalTranscript_def fillFirsts_def
        fillLatencies_def Let_def split: option.split)

lemma same_core_trans: "same_core a b \<Longrightarrow> same_core b c \<Longrightarrow> same_core a c"
  by (simp add: same_core_def)

lemma finish_core: "same_core (fillStages now (closeStage now r) t) (finish now partial r t)"
  unfolding finish_def Let_def
  by (rule same_core_trans [OF _ same_core_fill(5)], rule same_core_trans [OF _ same_core_fill(4)],
      rule same_core_trans [OF _ same_core_fill(3)], rule same_core_trans [OF _ same_core_fill(2)],
      rule same_core_fill(1))

lemma finish_frame [recorder_simps]:
  "States (finish now partial r t) = states r" "TurnID (finish now partial r t) = recTurn r"
  "Outcome (finish now partial r t) = Outcome t" "TraceError (finish now partial r t) = TraceError t"
  "InterruptLatency (finish now partial r t) = InterruptLatency t"
  "StageDurations (finish now partial r t) = durations (closeStage now r)"
  using finish_core [of now r t partial]
  by (simp_all add: same_core_def fillStages_def recorder_simps)

subsection \<open>Where the time of a turn goes\<close>

definition all_states :: "state list" where
  "all_states = [StateIdle, StateListening, StateTranscribing, StateThinking, StateSynthesizing,
     StateSpeaking, StateStopping, StateInterrupted, StateWakeDetected]"

definition total_time :: "(state \<Rightarrow> duration) \<Rightarrow> duration" where
  "total_time d = sum_list (map d all_states)"

fun emitAll :: "(instant \<times> state) list \<Rightarrow> turnRecorder \<Rightarrow> turnRecorder" where
  "emitAll [] r = r"
| "emitAll ((now, s) # rest) r = emitAll rest (emit now s r)"

lemma total_time_upd: "total_time (d(s := d s + x)) = total_time d + x"
  by (cases s) (simp_all add: total_time_def all_states_def)

lemma emit_durations:
  "durations (emit now s r) = durations (closeStage now r)" "current (emit now s r) = Some s"
  "stageStarted (emit now s r) = now"
  by (simp_all add: emit_def markFirstAudio_def Let_def)

lemma total_time_closeStage:
  "current r = Some s \<Longrightarrow> stageStarted r < now \<Longrightarrow>
     total_time (durations (closeStage now r)) = total_time (durations r) + (now - stageStarted r)"
  using total_time_upd [of "durations r" s] by (simp add: closeStage_def positiveDuration_def)

lemma emitAll_time:
  assumes "sorted_wrt (<) (stageStarted r # map fst evs @ [now])" "current r = Some s"
  shows "total_time (durations (closeStage now (emitAll evs r))) =
    total_time (durations r) + (now - stageStarted r)"
  using assms
proof (induction evs arbitrary: r s)
  case Nil
  then show ?case by (simp add: total_time_closeStage)
next
  case (Cons ev evs)
  obtain t u where ev: "ev = (t, u)" by fastforce
  have "total_time (durations (closeStage now (emitAll evs (emit t u r)))) =
      total_time (durations (emit t u r)) + (now - t)"
    using Cons.IH [of "emit t u r" u] Cons.prems(1) by (simp add: emit_durations ev)
  also have "total_time (durations (emit t u r)) = total_time (durations r) + (t - stageStarted r)"
    using Cons.prems by (simp add: emit_durations total_time_closeStage ev)
  finally show ?case by (simp add: ev)
qed

lemma states_emitAll: "states (emitAll evs r) = states r @ map snd evs"
  by (induction evs r rule: emitAll.induct) (simp_all add: recorder_simps)

subsection \<open>Properties\<close>

text \<open>
  The trace accounts for the whole turn: for states emitted at increasing clock readings and a later
  finish, the trace lists exactly the emitted states in order, and the stage durations add
  up to the time from the first state to the finish, so no stage's time is lost or
  counted twice.
\<close>

theorem stage_durations_cover_turn:
  assumes "sorted_wrt (<) (t0 # map fst evs @ [now])"
    and tr_def: "tr = finish now partial (emitAll ((t0, s0) # evs) (newTurnRecorder begun turn)) no_trace"
  shows "sum_list (map (StageDurations tr) all_states) = now - t0 \<and> States tr = s0 # map snd evs"
proof -
  let ?r = "emit t0 s0 (newTurnRecorder begun turn)"
  have "total_time (durations ?r) = 0"
    by (simp add: emit_durations closeStage_def newTurnRecorder_def total_time_def all_states_def)
  with emitAll_time [of ?r evs now s0] assms(1) show ?thesis
    by (simp add: tr_def total_time_def [symmetric] emit_durations
          recorder_simps states_emitAll)
qed

theorem stage_durations_cover_turn_witness:
  "sum_list (map (StageDurations (finish 9 None (emitAll [(1, StateIdle), (4, StateListening)]
     (newTurnRecorder 0 7)) no_trace)) all_states) = 8"
  using stage_durations_cover_turn [of 1 "[(4, StateListening)]" 9 _ None StateIdle 0 7, OF _ refl] by simp

end
