(* ===== verification/Workers.thy ===== *)
theory Workers
  imports Turn_Recorder
begin

section \<open>The worker set (\<^verbatim>\<open>internal/application/coordinator.go\<close>, lines 476--749)\<close>

text \<open>
  Five long-lived workers (capture, transcribe, respond, synthesize, playback) serve the
  coordinator through unbuffered job channels and publish into buffered result channels.
  The goroutine of the coordinator is sequential code; everything it can interleave with
  is the environment: dependency calls that return, deltas, interruptions, the end of the
  parent context, the clock.  The environment's moves, and the choice a \<^verbatim>\<open>select\<close> makes among its
  ready cases, come from the field \<open>sched\<close> of the \<open>world\<close>, a list of \<open>action\<close>s.  A move
  that is not possible when its turn comes has no effect, so every list is a schedule.  A
  blocking operation consumes actions until it can return; it is \<^term>\<open>None\<close> when the
  schedule ends first.

  A dependency is represented by what the code sees of it: the calls made on it are
  recorded in \<open>dlog\<close>, and what a call returns is part of the action that ends it.
\<close>

subsection \<open>Requests, results and the world\<close>

datatype stage =
    StageCapture | StageTranscribe | StageRespond | StageSynthesize | StagePlayback
  | StagePlaybackWrite | StagePlaybackFinish | StagePlaybackStop

datatype worker = CaptureWorker | TranscribeWorker | RespondWorker | SynthesizeWorker | PlaybackWorker

text \<open>The context given to a request: the turn's, or \<^verbatim>\<open>context.Background()\<close>.\<close>

datatype ctx_ref = TurnContext | Background

record stageRequest =
  reqTurn :: turn_id
  reqCtx :: ctx_ref
  reqBuffer :: buffer
  reqText :: string
  reqTarget :: stage
  reqStreaming :: bool

text \<open>\<open>resFor\<close> is no field of the code: it is the request the result answers.\<close>

record stageResult =
  resTurn :: turn_id
  resStage :: stage
  resBuffer :: buffer
  resText :: string
  resReply :: string
  resErr :: "go_error option"
  resFor :: stageRequest

record responseDelta =
  deltaTurn :: turn_id
  deltaText :: string

datatype dep_call =
    CallNext turn_id
  | CallTranscribe turn_id buffer
  | CallRespond turn_id string
  | CallRespondStream turn_id string
  | CallSynthesize turn_id string
  | CallPlay turn_id buffer
  | CallWrite turn_id buffer
  | CallFinish turn_id
  | CallStop turn_id
  | NoCall
  | DirectStop
  | ShowUser string
  | ShowAssistant string

datatype action =
    Tick duration
  | InterruptArrives turn_id duration
  | ParentEnds go_error
  | CaptureDone buffer "go_error option"
  | TranscribeDone string "go_error option"
  | DeltaSent string
  | RespondDone string "go_error option"
  | SynthesizeDone buffer "go_error option"
  | PlaybackDone "go_error option"
  | ResultDropped worker
  | PickTurnDone
  | PickWorkersDone
  | PickSend
  | PickResult
  | PickDelta
  | Proceed

record world =
  parentCtx :: "go_error option"
  turnCtx :: ctx
  workersCtx :: "go_error option"
  wclock :: instant
  activeTurn :: turn_id
  busy :: "worker \<Rightarrow> stageRequest option"
  results :: "stageResult list"
  responses :: "stageResult list"
  deltas :: "responseDelta list"
  sched :: "action list"
  dlog :: "dep_call list"
  trec :: turnRecorder

text \<open>
  The dependencies' optional interfaces: streaming responder and player, the wake detector and
  the interruption source (\<^term>\<open>None\<close>, \<^term>\<open>False\<close>: not set), the observer's partial-transcript metric.
\<close>

record coordinator =
  streamingResponder :: bool
  streamingPlayer :: bool
  wakeDetector :: "(string \<Rightarrow> string \<times> bool) option"
  interruptSource :: bool
  partialMetric :: "(turn_id \<Rightarrow> duration) option"

definition ctx_of :: "ctx_ref \<Rightarrow> world \<Rightarrow> ctx" where
  "ctx_of c w = (case c of TurnContext \<Rightarrow> turnCtx w | Background \<Rightarrow> Live)"

fun worker_of :: "stage \<Rightarrow> worker" where
  "worker_of StageCapture = CaptureWorker"
| "worker_of StageTranscribe = TranscribeWorker"
| "worker_of StageRespond = RespondWorker"
| "worker_of StageSynthesize = SynthesizeWorker"
| "worker_of _ = PlaybackWorker"

definition resultsCap :: nat where "resultsCap = 8"
definition deltasCap :: nat where "deltasCap = 128"

definition newWorkerSet :: "world \<Rightarrow> world" where
  "newWorkerSet w = w\<lparr>workersCtx := parentCtx w, busy := (\<lambda>_. None), results := [], responses := [], deltas := []\<rparr>"

subsection \<open>The workers\<close>

text \<open>The call a worker makes on its dependency when it accepts a request.\<close>

definition call_of :: "coordinator \<Rightarrow> stageRequest \<Rightarrow> dep_call" where
  "call_of c req =
     (case reqTarget req of
        StageCapture \<Rightarrow> CallNext (reqTurn req)
      | StageTranscribe \<Rightarrow> CallTranscribe (reqTurn req) (reqBuffer req)
      | StageRespond \<Rightarrow>
          if reqStreaming req \<and> streamingResponder c then CallRespondStream (reqTurn req) (reqText req)
          else CallRespond (reqTurn req) (reqText req)
      | StageSynthesize \<Rightarrow> CallSynthesize (reqTurn req) (reqText req)
      | StagePlayback \<Rightarrow> CallPlay (reqTurn req) (reqBuffer req)
      | StagePlaybackWrite \<Rightarrow> if streamingPlayer c then CallWrite (reqTurn req) (reqBuffer req) else NoCall
      | StagePlaybackFinish \<Rightarrow> if streamingPlayer c then CallFinish (reqTurn req) else NoCall
      | StagePlaybackStop \<Rightarrow> if streamingPlayer c then CallStop (reqTurn req) else NoCall)"

definition blank_result :: "stageRequest \<Rightarrow> stageResult" where
  "blank_result req = \<lparr>resTurn = reqTurn req, resStage = reqTarget req, resBuffer = no_buffer, resText = [],
     resReply = [], resErr = None, resFor = req\<rparr>"

text \<open>The error of a playback request: the player's, or that the player cannot stream.\<close>

definition playbackErr :: "coordinator \<Rightarrow> stageRequest \<Rightarrow> go_error option \<Rightarrow> go_error option" where
  "playbackErr c req err =
     (case reqTarget req of
        StagePlayback \<Rightarrow> err
      | StagePlaybackWrite \<Rightarrow> if streamingPlayer c then err
          else Some (Message ''player does not support streaming writes'')
      | StagePlaybackFinish \<Rightarrow> if streamingPlayer c then err
          else Some (Message ''player does not support streaming finish'')
      | StagePlaybackStop \<Rightarrow> if streamingPlayer c then err
          else Some (Message ''player does not support streaming stop'')
      | _ \<Rightarrow> Some (Message ''unknown playback stage''))"

text \<open>
  \<^verbatim>\<open>publish\<close> at the end of a dependency call: the worker is free again once the result is in
  its channel.  A call that returns while the channel is full is one that returns later.
\<close>

definition publish :: "worker \<Rightarrow> stageResult \<Rightarrow> world \<Rightarrow> world" where
  "publish k res w =
     (if resStage res = StageRespond
      then (if chan_can_send resultsCap (responses w)
            then w\<lparr>responses := responses w @ [res], busy := (busy w)(k := None)\<rparr> else w)
      else (if chan_can_send resultsCap (results w)
            then w\<lparr>results := results w @ [res], busy := (busy w)(k := None)\<rparr> else w))"

definition complete :: "worker \<Rightarrow> (stageRequest \<Rightarrow> stageResult) \<Rightarrow> world \<Rightarrow> world" where
  "complete k f w = (case busy w k of None \<Rightarrow> w | Some req \<Rightarrow> publish k (f req) w)"

text \<open>\<^verbatim>\<open>publishDelta\<close> in the callback of a streaming response that is still running.\<close>

definition publishDelta :: "coordinator \<Rightarrow> string \<Rightarrow> world \<Rightarrow> world" where
  "publishDelta c s w =
     (case busy w RespondWorker of
        Some req \<Rightarrow>
          if reqStreaming req \<and> streamingResponder c \<and> chan_can_send deltasCap (deltas w)
          then w\<lparr>deltas := deltas w @ [\<lparr>deltaTurn = reqTurn req, deltaText = s\<rparr>]\<rparr> else w
      | None \<Rightarrow> w)"

text \<open>
  One move of the environment.  An interruption for another turn is ignored by the watcher
  (\<^verbatim>\<open>watchInterrupts\<close>); the end of the parent ends the turn and the workers; a worker whose set was
  stopped may drop its result.
\<close>

fun env_step :: "coordinator \<Rightarrow> action \<Rightarrow> world \<Rightarrow> world" where
  "env_step c (Tick d) w = (if 0 < d then w\<lparr>wclock := wclock w + d\<rparr> else w)"
| "env_step c (InterruptArrives t latency) w =
     (if interruptSource c \<and> t = activeTurn w
      then w\<lparr>turnCtx := ctx_cancel (turnCtx w) (Interrupted latency)\<rparr> else w)"
| "env_step c (ParentEnds e) w =
     (case parentCtx w of
        Some _ \<Rightarrow> w
      | None \<Rightarrow> if e \<in> {Canceled, DeadlineExceeded}
          then w\<lparr>parentCtx := Some e, turnCtx := ctx_cancel (turnCtx w) (ParentDone e),
                 workersCtx := (case workersCtx w of None \<Rightarrow> Some e | Some d \<Rightarrow> Some d)\<rparr>
          else w)"
| "env_step c (CaptureDone b err) w =
     complete CaptureWorker (\<lambda>req. (blank_result req)\<lparr>resBuffer := b, resErr := err\<rparr>) w"
| "env_step c (TranscribeDone s err) w =
     complete TranscribeWorker (\<lambda>req. (blank_result req)\<lparr>resText := s, resErr := err\<rparr>) w"
| "env_step c (DeltaSent s) w = publishDelta c s w"
| "env_step c (RespondDone s err) w =
     complete RespondWorker (\<lambda>req. (blank_result req)\<lparr>resReply := s, resErr := err\<rparr>) w"
| "env_step c (SynthesizeDone b err) w =
     complete SynthesizeWorker (\<lambda>req. (blank_result req)\<lparr>resBuffer := b, resErr := err\<rparr>) w"
| "env_step c (PlaybackDone err) w =
     complete PlaybackWorker (\<lambda>req. (blank_result req)\<lparr>resErr := playbackErr c req err\<rparr>) w"
| "env_step c (ResultDropped k) w =
     (if workersCtx w \<noteq> None then w\<lparr>busy := (busy w)(k := None)\<rparr> else w)"
| "env_step c _ w = w"

subsection \<open>Submitting and awaiting\<close>

definition accept :: "coordinator \<Rightarrow> stageRequest \<Rightarrow> world \<Rightarrow> world" where
  "accept c req w = w\<lparr>busy := (busy w)(worker_of (reqTarget req) := Some req), dlog := dlog w @ [call_of c req]\<rparr>"

fun submitLoop :: "coordinator \<Rightarrow> ctx_ref \<Rightarrow> stageRequest \<Rightarrow> action list \<Rightarrow> world \<Rightarrow> (go_error option \<times> world) option"
where
  "submitLoop c cr req [] w = None"
| "submitLoop c cr req (a # as) w =
     (case a of
        PickTurnDone \<Rightarrow>
          (case ctx_err (ctx_of cr w) of
             Some e \<Rightarrow> Some (Some e, w\<lparr>sched := as\<rparr>)
           | None \<Rightarrow> submitLoop c cr req as w)
      | PickWorkersDone \<Rightarrow>
          (case workersCtx w of
             Some e \<Rightarrow> Some (Some e, w\<lparr>sched := as\<rparr>)
           | None \<Rightarrow> submitLoop c cr req as w)
      | PickSend \<Rightarrow>
          (case busy w (worker_of (reqTarget req)) of
             None \<Rightarrow> Some (None, accept c req (w\<lparr>sched := as\<rparr>))
           | Some _ \<Rightarrow> submitLoop c cr req as w)
      | _ \<Rightarrow> submitLoop c cr req as (env_step c a w))"

definition submit :: "coordinator \<Rightarrow> ctx_ref \<Rightarrow> stage \<Rightarrow> stageRequest \<Rightarrow> world \<Rightarrow> (go_error option \<times> world) option" where
  "submit c cr target req w = submitLoop c cr (req\<lparr>reqTarget := target\<rparr>) (sched w) w"

text \<open>The channel a stage's results arrive on.\<close>

definition stage_results :: "stage \<Rightarrow> world \<Rightarrow> stageResult list" where
  "stage_results target w = (if target = StageRespond then responses w else results w)"

definition set_stage_results :: "stage \<Rightarrow> stageResult list \<Rightarrow> world \<Rightarrow> world" where
  "set_stage_results target q w = (if target = StageRespond then w\<lparr>responses := q\<rparr> else w\<lparr>results := q\<rparr>)"

fun awaitLoop ::
  "coordinator \<Rightarrow> ctx_ref \<Rightarrow> turn_id \<Rightarrow> stage \<Rightarrow> action list \<Rightarrow> world \<Rightarrow> ((go_error + stageResult) \<times> world) option"
where
  "awaitLoop c cr turn target [] w = None"
| "awaitLoop c cr turn target (a # as) w =
     (case a of
        PickTurnDone \<Rightarrow>
          (case ctx_err (ctx_of cr w) of
             Some e \<Rightarrow> Some (Inl e, w\<lparr>sched := as\<rparr>)
           | None \<Rightarrow> awaitLoop c cr turn target as w)
      | PickWorkersDone \<Rightarrow>
          (case workersCtx w of
             Some e \<Rightarrow>
               (case ctx_err (ctx_of cr w) of
                  Some e' \<Rightarrow> Some (Inl e', w\<lparr>sched := as\<rparr>)
                | None \<Rightarrow> Some (Inl e, w\<lparr>sched := as\<rparr>))
           | None \<Rightarrow> awaitLoop c cr turn target as w)
      | PickResult \<Rightarrow>
          (case stage_results target w of
             [] \<Rightarrow> awaitLoop c cr turn target as w
           | res # q \<Rightarrow>
               (let w1 = set_stage_results target q w in
                if resTurn res \<noteq> turn \<or> resStage res \<noteq> target
                then awaitLoop c cr turn target as w1
                else Some (Inr res, w1\<lparr>sched := as\<rparr>)))
      | _ \<Rightarrow> awaitLoop c cr turn target as (env_step c a w))"

definition await ::
  "coordinator \<Rightarrow> ctx_ref \<Rightarrow> turn_id \<Rightarrow> stage \<Rightarrow> world \<Rightarrow> ((go_error + stageResult) \<times> world) option"
where
  "await c cr turn target w = awaitLoop c cr turn target (sched w) w"

definition execute ::
  "coordinator \<Rightarrow> ctx_ref \<Rightarrow> stage \<Rightarrow> stageRequest \<Rightarrow> world \<Rightarrow> ((go_error + stageResult) \<times> world) option"
where
  "execute c cr target req w =
     do {
       (err, w1) \<leftarrow> submit c cr target req w;
       case err of
         Some e \<Rightarrow> Some (Inl e, w1)
       | None \<Rightarrow>
           do {
             (out, w2) \<leftarrow> await c cr (reqTurn req) target w1;
             case out of
               Inl e \<Rightarrow> Some (Inl e, w2)
             | Inr res \<Rightarrow>
                 (case resErr res of Some e \<Rightarrow> Some (Inl e, w2) | None \<Rightarrow> Some (Inr res, w2))
           }
     }"

text \<open>
  Where the coordinator looks at shared state without blocking, the environment may have
  moved since: its moves up to the next \<^term>\<open>Proceed\<close> happen first.
\<close>

fun settleLoop :: "coordinator \<Rightarrow> action list \<Rightarrow> world \<Rightarrow> world" where
  "settleLoop c [] w = w\<lparr>sched := []\<rparr>"
| "settleLoop c (a # as) w = (if a = Proceed then w\<lparr>sched := as\<rparr> else settleLoop c as (env_step c a w))"

definition settle :: "coordinator \<Rightarrow> world \<Rightarrow> world" where
  "settle c w = settleLoop c (sched w) w"

text \<open>\<^verbatim>\<open>workerSet.stop\<close>: the workers' context ends; whatever they were doing is abandoned.\<close>

definition stopWorkers :: "world \<Rightarrow> world" where
  "stopWorkers w = w\<lparr>workersCtx := (case workersCtx w of None \<Rightarrow> Some Canceled | Some e \<Rightarrow> Some e), busy := (\<lambda>_. None)\<rparr>"

subsection \<open>What the worker operations leave alone\<close>

text \<open>
  The environment and the waiting operations never touch the turn recorder or the identity of the
  turn, and calls on dependencies are only made by accepting a request.
\<close>

definition same_turn :: "world \<Rightarrow> world \<Rightarrow> bool" where
  "same_turn w w' \<longleftrightarrow> trec w' = trec w \<and> activeTurn w' = activeTurn w"

lemma same_turn_refl [simp]: "same_turn w w"
  by (simp add: same_turn_def)

lemma same_turn_trans: "same_turn a b \<Longrightarrow> same_turn b c \<Longrightarrow> same_turn a c"
  by (simp add: same_turn_def)

lemma publish_frame:
  "trec (publish k r w) = trec w" "activeTurn (publish k r w) = activeTurn w"
  "dlog (publish k r w) = dlog w" "sched (publish k r w) = sched w"
  by (simp_all add: publish_def)

lemma complete_frame:
  "trec (complete k f w) = trec w" "activeTurn (complete k f w) = activeTurn w"
  "dlog (complete k f w) = dlog w" "sched (complete k f w) = sched w"
  by (simp_all add: complete_def publish_frame split: option.split)

lemma publishDelta_frame:
  "trec (publishDelta c s w) = trec w" "activeTurn (publishDelta c s w) = activeTurn w"
  "dlog (publishDelta c s w) = dlog w" "sched (publishDelta c s w) = sched w"
  by (simp_all add: publishDelta_def split: option.split)

lemma env_step_sel:
  "trec (env_step c a w) = trec w" "activeTurn (env_step c a w) = activeTurn w"
  "dlog (env_step c a w) = dlog w" "sched (env_step c a w) = sched w"
  by (cases a; simp add: complete_frame publishDelta_frame split: option.split)+

lemma env_step_frame [simp]:
  "same_turn w (env_step c a w)" "dlog (env_step c a w) = dlog w" "sched (env_step c a w) = sched w"
  by (simp_all add: same_turn_def env_step_sel)

lemma same_turn_upd [simp]:
  "same_turn w (w\<lparr>turnCtx := x\<rparr>)" "same_turn w (w\<lparr>sched := as\<rparr>)"
  "same_turn w (w\<lparr>deltas := ds\<rparr>)" "same_turn w (w\<lparr>responses := rs\<rparr>)"
  by (simp_all add: same_turn_def)

lemma settleLoop_frame: "same_turn w (settleLoop c as w) \<and> dlog (settleLoop c as w) = dlog w"
proof (induction as arbitrary: w)
  case (Cons a as)
  show ?case
    using Cons.IH [of "env_step c a w"] by (simp add: same_turn_def env_step_sel)
qed (simp add: same_turn_def)

lemma settle_frame [simp]: "same_turn w (settle c w)" "dlog (settle c w) = dlog w"
  using settleLoop_frame by (simp_all add: settle_def)

lemma submitLoop_frame:
  "submitLoop c cr req as w = Some (e, w') \<Longrightarrow>
     same_turn w w' \<and> dlog w' = dlog w @ (if e = None then [call_of c req] else [])"
proof (induction as arbitrary: w)
  case (Cons a as)
  have env: "same_turn w w' \<and> dlog w' = dlog w @ (if e = None then [call_of c req] else [])"
    if "submitLoop c cr req as (env_step c a w) = Some (e, w')"
    using Cons.IH [OF that] by (simp add: same_turn_def env_step_sel)
  show ?case
  proof (cases "a \<in> {PickTurnDone, PickWorkersDone, PickSend}")
    case True
    with Cons show ?thesis
      by (auto simp: same_turn_def accept_def split: option.splits)
  next
    case False
    with Cons.prems env show ?thesis by (cases a) simp_all
  qed
qed simp

lemma submit_frame:
  "submit c cr g req w = Some (e, w') \<Longrightarrow>
     same_turn w w' \<and> dlog w' = dlog w @ (if e = None then [call_of c (req\<lparr>reqTarget := g\<rparr>)] else [])"
  by (simp add: submit_def submitLoop_frame)

lemma set_stage_results_frame [simp]:
  "same_turn w (set_stage_results g q w)" "dlog (set_stage_results g q w) = dlog w"
  by (simp_all add: set_stage_results_def same_turn_def)

text \<open>Only a result of the awaited turn and stage is accepted.\<close>

lemma awaitLoop_frame:
  "awaitLoop c cr turn g as w = Some (out, w') \<Longrightarrow>
     same_turn w w' \<and> dlog w' = dlog w \<and> (\<forall>res. out = Inr res \<longrightarrow> resTurn res = turn \<and> resStage res = g)"
proof (induction as arbitrary: w)
  case (Cons a as)
  let ?Q = "\<lambda>w. same_turn w w' \<and> dlog w' = dlog w \<and> (\<forall>res. out = Inr res \<longrightarrow> resTurn res = turn \<and> resStage res = g)"
  have step: "?Q w" if "same_turn w v" "dlog v = dlog w" "awaitLoop c cr turn g as v = Some (out, w')" for v
    using Cons.IH [OF that(3)] same_turn_trans [OF that(1)] that(2) by auto
  have sched: "same_turn w (v\<lparr>sched := as\<rparr>)" if "same_turn w v" for v
    using that by (simp add: same_turn_def)
  consider "a = PickTurnDone" | "a = PickWorkersDone" | "a = PickResult"
    | "a \<notin> {PickTurnDone, PickWorkersDone, PickResult}" by blast
  then show ?case
  proof cases
    case 1
    with Cons.prems step [of w] sched [of w] show ?thesis by (auto split: option.splits)
  next
    case 2
    with Cons.prems step [of w] sched [of w] show ?thesis by (auto split: option.splits)
  next
    case 3
    show ?thesis
    proof (cases "stage_results g w")
      case Nil
      with 3 Cons.prems step [of w] show ?thesis by simp
    next
      case (Cons r q)
      with 3 Cons.prems step [of "set_stage_results g q w"] sched [of "set_stage_results g q w"] show ?thesis
        by (auto simp: Let_def split: if_splits)
    qed
  next
    case 4
    with Cons.prems have "awaitLoop c cr turn g as (env_step c a w) = Some (out, w')" by (cases a) simp_all
    then show ?thesis by (intro step [of "env_step c a w"]) simp_all
  qed
qed simp

lemma execute_frame:
  assumes "execute c cr g req w = Some (out, w')"
  shows "same_turn w w' \<and> (\<exists>calls. dlog w' = dlog w @ calls \<and> set calls \<subseteq> {call_of c (req\<lparr>reqTarget := g\<rparr>)}) \<and>
    (\<forall>res. out = Inr res \<longrightarrow> dlog w' = dlog w @ [call_of c (req\<lparr>reqTarget := g\<rparr>)] \<and>
      resTurn res = reqTurn req \<and> resStage res = g \<and> resErr res = None)"
proof -
  obtain e w1 where s: "submit c cr g req w = Some (e, w1)"
    using assms by (auto simp: execute_def bind_eq_Some_conv)
  note f = submit_frame [OF s]
  show ?thesis
  proof (cases e)
    case (Some err)
    with assms s have "out = Inl err" "w' = w1" by (auto simp: execute_def)
    with f Some show ?thesis by simp
  next
    case None
    then obtain o2 w2 where a2: "await c cr (reqTurn req) g w1 = Some (o2, w2)"
      using assms s by (auto simp: execute_def bind_eq_Some_conv)
    have "w2 = w' \<and> (\<forall>res. out = Inr res \<longrightarrow> o2 = Inr res \<and> resErr res = None)"
      using assms s None a2 by (auto simp: execute_def split: sum.splits option.splits)
    with a2 have a: "await c cr (reqTurn req) g w1 = Some (o2, w')"
      and o: "\<And>res. out = Inr res \<Longrightarrow> o2 = Inr res \<and> resErr res = None" by auto
    note g = awaitLoop_frame [OF a [unfolded await_def]]
    have "same_turn w w'" using f g same_turn_trans by blast
    moreover have "dlog w' = dlog w @ [call_of c (req\<lparr>reqTarget := g\<rparr>)]" using f g None by simp
    moreover have "resTurn res = reqTurn req \<and> resStage res = g \<and> resErr res = None" if "out = Inr res" for res
      using g o [OF that] by simp
    ultimately show ?thesis by simp
  qed
qed

end
