(* ===== verification/Coordinator.thy ===== *)
theory Coordinator
  imports Workers Sentence_Buffer
begin

section \<open>The turn coordinator (\<^verbatim>\<open>internal/application/coordinator.go\<close>, \<^verbatim>\<open>interrupt.go\<close>, \<^verbatim>\<open>wake.go\<close>)\<close>

text \<open>
  One voice turn: capture, transcription, wake gate, response, synthesis and playback, buffered
  or streaming, with interruption and cancellation.  A function that may block returns
  \<^term>\<open>None\<close> when the schedule of the \<open>world\<close> ends before it can return; the loops that can run
  as long as the environment likes are \<^theory_text>\<open>partial_function (option)\<close>.
\<close>

subsection \<open>Bookkeeping\<close>

definition emitW :: "state \<Rightarrow> world \<Rightarrow> world" where
  "emitW s w = w\<lparr>trec := emit (wclock w) s (trec w)\<rparr>"

definition logW :: "dep_call \<Rightarrow> world \<Rightarrow> world" where
  "logW d w = w\<lparr>dlog := dlog w @ [d]\<rparr>"

definition mkRequest :: "turn_id \<Rightarrow> ctx_ref \<Rightarrow> buffer \<Rightarrow> string \<Rightarrow> bool \<Rightarrow> stageRequest" where
  "mkRequest turn cr b s streaming =
     \<lparr>reqTurn = turn, reqCtx = cr, reqBuffer = b, reqText = s, reqTarget = StageCapture, reqStreaming = streaming\<rparr>"

text \<open>\<^verbatim>\<open>fail\<close>: interruption first, then cancellation, then a recoverable error with the stage's code.\<close>

definition fail :: "coordinator \<Rightarrow> errorCode \<Rightarrow> go_error \<Rightarrow> result \<Rightarrow> world \<Rightarrow> (result \<times> appError option) \<times> world" where
  "fail c code err res w0 =
     (let w = settle c w0 in
      case turnCtx w of
        Interrupted latency \<Rightarrow>
          ((set_interrupt_latency latency (set_error ErrorInterrupted (set_outcome ''interrupted'' res)),
            Some interruptedApplicationError), emitW StateInterrupted w)
      | _ \<Rightarrow>
          (let contextErr = (case ctx_err (turnCtx w) of
                               Some e \<Rightarrow> Some e
                             | None \<Rightarrow> if errors_is err Canceled \<or> errors_is err DeadlineExceeded then Some err else None)
           in case contextErr of
                Some e \<Rightarrow>
                  ((set_error (contextCode e) (set_outcome ''cancelled'' res), Some (contextApplicationError e)),
                   emitW StateStopping w)
              | None \<Rightarrow>
                  ((set_error code (set_outcome ''error'' res),
                    Some \<lparr>Code = code, Recoverable = True, Err = err\<rparr>), emitW StateIdle w)))"

definition succeed :: "result \<Rightarrow> world \<Rightarrow> (result \<times> appError option) \<times> world" where
  "succeed res w = ((set_outcome ''success'' res, None), emitW StateIdle w)"

text \<open>The last look at the context before a turn counts as a success.\<close>

definition lastCheck :: "coordinator \<Rightarrow> result \<Rightarrow> world \<Rightarrow> (result \<times> appError option) \<times> world" where
  "lastCheck c res w0 =
     (let w = settle c w0 in
      case ctx_err (turnCtx w) of
        Some e \<Rightarrow> fail c ErrorAgentFailed e res w
      | None \<Rightarrow> succeed res w)"

definition noop :: "string \<Rightarrow> result \<Rightarrow> world \<Rightarrow> (result \<times> appError option) \<times> world" where
  "noop outcome res w = ((set_noop outcome res, None), emitW StateIdle w)"

text \<open>\<^verbatim>\<open>applyWakeGate\<close>: \<^term>\<open>None\<close> when the transcript is not accepted.\<close>

definition applyWakeGate :: "coordinator \<Rightarrow> string \<Rightarrow> world \<Rightarrow> string option \<times> world" where
  "applyWakeGate c transcript w =
     (case wakeDetector c of
        None \<Rightarrow> (Some transcript, w)
      | Some detect \<Rightarrow>
          (case detect transcript of
             (command, matched) \<Rightarrow>
               if \<not> matched then (None, w)
               else (Some (trim_space command), emitW StateWakeDetected w)))"

definition supportsStreaming :: "coordinator \<Rightarrow> bool" where
  "supportsStreaming c \<longleftrightarrow> streamingResponder c \<and> streamingPlayer c"

subsection \<open>Buffered responses\<close>

definition synthesizeBufferedReply ::
  "coordinator \<Rightarrow> turn_id \<Rightarrow> result \<Rightarrow> world \<Rightarrow> ((result \<times> appError option) \<times> world) option"
where
  "synthesizeBufferedReply c turn res w0 =
     do {
       (synthesis, w1) \<leftarrow> execute c TurnContext StageSynthesize
                            (mkRequest turn TurnContext no_buffer (Reply res) False) (emitW StateSynthesizing w0);
       case synthesis of
         Inl e \<Rightarrow> Some (fail c ErrorSynthesisFailed e res w1)
       | Inr syn \<Rightarrow>
           if Empty (resBuffer syn) then Some (succeed res w1)
           else (case Validate (resBuffer syn) of
             Some e \<Rightarrow> Some (fail c ErrorSynthesisFailed e res w1)
           | None \<Rightarrow>
               do {
                 (played, w2) \<leftarrow> execute c TurnContext StagePlayback
                                  (mkRequest turn TurnContext (Clone (resBuffer syn)) [] False) (emitW StateSpeaking w1);
                 case played of
                   Inl e \<Rightarrow> Some (fail c ErrorPlaybackFailed e res w2)
                 | Inr _ \<Rightarrow> Some (lastCheck c res w2)
               })
     }"

definition completeBufferedResponse ::
  "coordinator \<Rightarrow> turn_id \<Rightarrow> string \<Rightarrow> result \<Rightarrow> world \<Rightarrow> ((result \<times> appError option) \<times> world) option"
where
  "completeBufferedResponse c turn transcript res w0 =
     do {
       (response, w1) \<leftarrow> execute c TurnContext StageRespond
                           (mkRequest turn TurnContext no_buffer transcript False) w0;
       case response of
         Inl e \<Rightarrow> Some (fail c ErrorAgentFailed e res w1)
       | Inr r \<Rightarrow>
           (let res1 = set_reply (trim_space (resReply r)) res
            in synthesizeBufferedReply c turn res1 (logW (ShowAssistant (Reply res1)) w1))
     }"

subsection \<open>Streaming responses\<close>

record streamingTurnState =
  deltaSeen :: bool
  synthState :: bool
  speakingState :: bool
  wroteAudio :: bool
  firstDelta :: bool
  firstAudioSeen :: bool
  sentenceBuilder :: sentenceBuffer

definition newStreamingTurnState :: streamingTurnState where
  "newStreamingTurnState = \<lparr>deltaSeen = False, synthState = False, speakingState = False, wroteAudio = False,
     firstDelta = False, firstAudioSeen = False, sentenceBuilder = newSentenceBuffer\<rparr>"

definition enterSynthesizing :: "streamingTurnState \<Rightarrow> world \<Rightarrow> streamingTurnState \<times> world" where
  "enterSynthesizing st w =
     (if synthState st then (st, w) else (st\<lparr>synthState := True\<rparr>, emitW StateSynthesizing w))"

definition enterSpeaking :: "streamingTurnState \<Rightarrow> world \<Rightarrow> streamingTurnState \<times> world" where
  "enterSpeaking st w =
     (if speakingState st then (st, w) else (st\<lparr>speakingState := True\<rparr>, emitW StateSpeaking w))"

definition noteWritten :: "streamingTurnState \<Rightarrow> world \<Rightarrow> streamingTurnState \<times> world" where
  "noteWritten st w =
     (let st1 = st\<lparr>wroteAudio := True\<rparr> in
      if firstAudioSeen st1 then (st1, w)
      else (st1\<lparr>firstAudioSeen := True\<rparr>, w\<lparr>trec := markFirstAudio (wclock w) (trec w)\<rparr>))"

text \<open>The error is a \<^verbatim>\<open>streamingStageError\<close>: the code of the failed stage and its error.\<close>

fun playStreamingPhrases ::
  "coordinator \<Rightarrow> turn_id \<Rightarrow> string list \<Rightarrow> streamingTurnState \<Rightarrow> world \<Rightarrow>
     (((errorCode \<times> go_error) option \<times> streamingTurnState) \<times> world) option"
where
  "playStreamingPhrases c turn [] st w = Some ((None, st), w)"
| "playStreamingPhrases c turn (p # phrases) st w =
     (let phrase = trim_space p in
      if phrase = [] then playStreamingPhrases c turn phrases st w
      else
        let (st1, w1) = enterSynthesizing st w in
        do {
          (synthesis, w2) \<leftarrow> execute c TurnContext StageSynthesize
                              (mkRequest turn TurnContext no_buffer phrase False) w1;
          case synthesis of
            Inl e \<Rightarrow> Some ((Some (ErrorSynthesisFailed, e), st1), w2)
          | Inr syn \<Rightarrow>
              if Empty (resBuffer syn) then playStreamingPhrases c turn phrases st1 w2
              else (case Validate (resBuffer syn) of
                Some e \<Rightarrow> Some ((Some (ErrorSynthesisFailed, e), st1), w2)
              | None \<Rightarrow>
                  (let (st2, w3) = enterSpeaking st1 w2 in
                   do {
                     (written, w4) \<leftarrow> execute c TurnContext StagePlaybackWrite
                                       (mkRequest turn TurnContext (Clone (resBuffer syn)) [] False) w3;
                     case written of
                       Inl e \<Rightarrow> Some ((Some (ErrorPlaybackFailed, e), st2), w4)
                     | Inr _ \<Rightarrow>
                         (let (st3, w5) = noteWritten st2 w4
                          in playStreamingPhrases c turn phrases st3 w5)
                   }))
        })"

definition abortStreamingPlayback ::
  "coordinator \<Rightarrow> turn_id \<Rightarrow> streamingTurnState \<Rightarrow> world \<Rightarrow> world option"
where
  "abortStreamingPlayback c turn st w0 =
     (if \<not> speakingState st then Some w0
      else
        let w = settle c w0 in
        case workersCtx w of
          Some _ \<Rightarrow> Some (if streamingPlayer c then logW DirectStop w else w)
        | None \<Rightarrow>
            (let cr = (if turnCtx w = Live then TurnContext else Background) in
             do {
               (_, w1) \<leftarrow> execute c cr StagePlaybackStop (mkRequest turn cr no_buffer [] False) w;
               Some w1
             }))"

text \<open>One accepted delta.\<close>

definition handleDelta ::
  "coordinator \<Rightarrow> turn_id \<Rightarrow> string \<Rightarrow> streamingTurnState \<Rightarrow> world \<Rightarrow>
     (((errorCode \<times> go_error) option \<times> streamingTurnState) \<times> world) option"
where
  "handleDelta c turn delta st w =
     (let (st1, w1) = (if firstDelta st then (st\<lparr>deltaSeen := True\<rparr>, w)
                       else (st\<lparr>deltaSeen := True, firstDelta := True\<rparr>,
                             w\<lparr>trec := markFirstResponseDelta (wclock w) (trec w)\<rparr>));
          (phrases, sb) = Push delta (sentenceBuilder st1)
      in playStreamingPhrases c turn phrases (st1\<lparr>sentenceBuilder := sb\<rparr>) w1)"

datatype stream_exit = StreamEnded go_error | StreamFailed errorCode go_error | StreamResponse stageResult

text \<open>
  One turn of the four-way \<^verbatim>\<open>select\<close> loop that waits for the response; \<^term>\<open>None\<close> as the exit means
  that the loop goes on.
\<close>

definition streamStep ::
  "coordinator \<Rightarrow> turn_id \<Rightarrow> streamingTurnState \<Rightarrow> world \<Rightarrow> ((stream_exit option \<times> streamingTurnState) \<times> world) option"
where
  "streamStep c turn st w =
     (case sched w of
        [] \<Rightarrow> None
      | a # as \<Rightarrow>
          (let w0 = w\<lparr>sched := as\<rparr> in
           case a of
             PickTurnDone \<Rightarrow> Some ((map_option StreamEnded (ctx_err (turnCtx w0)), st), w0)
           | PickWorkersDone \<Rightarrow> Some ((map_option StreamEnded (workersCtx w0), st), w0)
           | PickDelta \<Rightarrow>
               (case deltas w0 of
                  [] \<Rightarrow> Some ((None, st), w0)
                | d # q \<Rightarrow>
                    (let w1 = w0\<lparr>deltas := q\<rparr> in
                     if deltaTurn d \<noteq> turn \<or> deltaText d = [] then Some ((None, st), w1)
                     else do {
                       ((err, st1), w2) \<leftarrow> handleDelta c turn (deltaText d) st w1;
                       Some ((map_option (\<lambda>(code, e). StreamFailed code e) err, st1), w2)
                     }))
           | PickResult \<Rightarrow>
               (case responses w0 of
                  [] \<Rightarrow> Some ((None, st), w0)
                | r # q \<Rightarrow>
                    (let w1 = w0\<lparr>responses := q\<rparr> in
                     if resTurn r \<noteq> turn \<or> resStage r \<noteq> StageRespond then Some ((None, st), w1)
                     else Some ((Some (StreamResponse r), st), w1)))
           | _ \<Rightarrow> Some ((None, st), env_step c a w0)))"

partial_function (option) streamLoop ::
  "coordinator \<Rightarrow> turn_id \<Rightarrow> streamingTurnState \<Rightarrow> world \<Rightarrow> ((stream_exit \<times> streamingTurnState) \<times> world) option"
where [code]:
  "streamLoop c turn st w =
     Option.bind (streamStep c turn st w) (\<lambda>out.
       case fst (fst out) of
         None \<Rightarrow> streamLoop c turn (snd (fst out)) (snd out)
       | Some ex \<Rightarrow> Some ((ex, snd (fst out)), snd out))"

text \<open>
  One turn of the second loop, over the deltas already buffered; the first component tells
  whether the loop ends, and with which error.
\<close>

definition drainStep ::
  "coordinator \<Rightarrow> turn_id \<Rightarrow> streamingTurnState \<Rightarrow> world \<Rightarrow>
     (((errorCode \<times> go_error) option option \<times> streamingTurnState) \<times> world) option"
where
  "drainStep c turn st w =
     (case deltas w of
        [] \<Rightarrow> Some ((Some None, st), w)
      | d # q \<Rightarrow>
          (let w1 = w\<lparr>deltas := q\<rparr> in
           if deltaTurn d \<noteq> turn \<or> deltaText d = [] then Some ((None, st), w1)
           else do {
             ((err, st1), w2) \<leftarrow> handleDelta c turn (deltaText d) st w1;
             Some ((map_option Some err, st1), w2)
           }))"

partial_function (option) drainDeltas ::
  "coordinator \<Rightarrow> turn_id \<Rightarrow> streamingTurnState \<Rightarrow> world \<Rightarrow>
     (((errorCode \<times> go_error) option \<times> streamingTurnState) \<times> world) option"
where [code]:
  "drainDeltas c turn st w =
     Option.bind (drainStep c turn st w) (\<lambda>out.
       case fst (fst out) of
         None \<Rightarrow> drainDeltas c turn (snd (fst out)) (snd out)
       | Some err \<Rightarrow> Some ((err, snd (fst out)), snd out))"

text \<open>Abort playback, then fail: the common tail of the streaming error paths.\<close>

definition abortAndFail ::
  "coordinator \<Rightarrow> turn_id \<Rightarrow> errorCode \<Rightarrow> go_error \<Rightarrow> streamingTurnState \<Rightarrow> result \<Rightarrow> world \<Rightarrow>
     ((result \<times> appError option) \<times> world) option"
where
  "abortAndFail c turn code e st res w =
     do { w1 \<leftarrow> abortStreamingPlayback c turn st w; Some (fail c code e res w1) }"

text \<open>Drain the player if anything was written to it; the error of the playback stage.\<close>

definition finishPlayback ::
  "coordinator \<Rightarrow> turn_id \<Rightarrow> streamingTurnState \<Rightarrow> world \<Rightarrow> (go_error option \<times> world) option"
where
  "finishPlayback c turn st w =
     (if \<not> wroteAudio st then Some (None, w)
      else do {
        (out, w1) \<leftarrow> execute c TurnContext StagePlaybackFinish (mkRequest turn TurnContext no_buffer [] False) w;
        Some (case out of Inl e \<Rightarrow> Some e | Inr _ \<Rightarrow> None, w1)
      })"

text \<open>After the deltas: flush the sentence buffer, finish playback, succeed.\<close>

definition finishStreaming ::
  "coordinator \<Rightarrow> turn_id \<Rightarrow> streamingTurnState \<Rightarrow> result \<Rightarrow> world \<Rightarrow> ((result \<times> appError option) \<times> world) option"
where
  "finishStreaming c turn st res w0 =
     (let (phrases, sb) = Flush (sentenceBuilder st) in
      do {
        ((err, st1), w1) \<leftarrow> playStreamingPhrases c turn phrases (st\<lparr>sentenceBuilder := sb\<rparr>) w0;
        case err of
          Some (code, e) \<Rightarrow> abortAndFail c turn code e st1 res w1
        | None \<Rightarrow>
            do {
              (finished, w2) \<leftarrow> finishPlayback c turn st1 w1;
              case finished of
                Some e \<Rightarrow> Some (fail c ErrorPlaybackFailed e res w2)
              | None \<Rightarrow> Some (lastCheck c res w2)
            }
      })"

definition completeStreamingResponse ::
  "coordinator \<Rightarrow> turn_id \<Rightarrow> string \<Rightarrow> result \<Rightarrow> world \<Rightarrow> ((result \<times> appError option) \<times> world) option"
where
  "completeStreamingResponse c turn transcript res w0 =
     do {
       (err, w1) \<leftarrow> submit c TurnContext StageRespond (mkRequest turn TurnContext no_buffer transcript True) w0;
       case err of
         Some e \<Rightarrow> Some (fail c ErrorAgentFailed e res w1)
       | None \<Rightarrow>
           do {
             ((ex, st), w2) \<leftarrow> streamLoop c turn newStreamingTurnState w1;
             case ex of
               StreamEnded e \<Rightarrow> abortAndFail c turn ErrorAgentFailed e st res w2
             | StreamFailed code e \<Rightarrow> abortAndFail c turn code e st res w2
             | StreamResponse r \<Rightarrow>
                 (case resErr r of
                    Some e \<Rightarrow> abortAndFail c turn ErrorAgentFailed e st res w2
                  | None \<Rightarrow>
                      do {
                        ((derr, st1), w3) \<leftarrow> drainDeltas c turn st w2;
                        case derr of
                          Some (code, e) \<Rightarrow> abortAndFail c turn code e st1 res w3
                        | None \<Rightarrow>
                            (let res1 = set_reply (trim_space (resReply r)) res;
                                 w4 = logW (ShowAssistant (Reply res1)) w3
                             in if \<not> deltaSeen st1 then synthesizeBufferedReply c turn res1 w4
                                else finishStreaming c turn st1 res1 w4)
                      })
           }
     }"

subsection \<open>The turn\<close>

definition respondTo ::
  "coordinator \<Rightarrow> turn_id \<Rightarrow> string \<Rightarrow> result \<Rightarrow> world \<Rightarrow> ((result \<times> appError option) \<times> world) option"
where
  "respondTo c turn transcript res w =
     (let w1 = emitW StateThinking (logW (ShowUser transcript) w) in
      if supportsStreaming c then completeStreamingResponse c turn transcript res w1
      else completeBufferedResponse c turn transcript res w1)"

definition afterCapture ::
  "coordinator \<Rightarrow> turn_id \<Rightarrow> buffer \<Rightarrow> result \<Rightarrow> world \<Rightarrow> ((result \<times> appError option) \<times> world) option"
where
  "afterCapture c turn b res0 w0 =
     (let res = set_samples (length (Samples b)) res0 in
      do {
        (transcription, w1) \<leftarrow> execute c TurnContext StageTranscribe
                                (mkRequest turn TurnContext (Clone b) [] False) (emitW StateTranscribing w0);
        case transcription of
          Inl e \<Rightarrow> Some (fail c ErrorTranscriptionFailed e res w1)
        | Inr tr \<Rightarrow>
            (let transcript = trim_space (resText tr) in
             if transcript = [] then Some (noop ''noop'' res w1)
             else
               let res1 = set_transcript (length transcript) res in
               case applyWakeGate c transcript w1 of
                 (None, w2) \<Rightarrow> Some (noop ''wake_ignored'' res1 w2)
               | (Some command, w2) \<Rightarrow> respondTo c turn command res1 w2)
      })"

definition turnBody ::
  "coordinator \<Rightarrow> turn_id \<Rightarrow> world \<Rightarrow> ((result \<times> appError option) \<times> world) option"
where
  "turnBody c turn w0 =
     (let w = settle c w0 in
      case ctx_err (turnCtx w) of
        Some e \<Rightarrow> Some ((no_result, Some (contextApplicationError e)), emitW StateStopping w)
      | None \<Rightarrow>
          do {
            (capture, w1) \<leftarrow> execute c TurnContext StageCapture
                              (mkRequest turn TurnContext no_buffer [] False) (emitW StateListening w);
            case capture of
              Inl e \<Rightarrow> Some (fail c ErrorCaptureFailed e no_result w1)
            | Inr cap \<Rightarrow>
                if Empty (resBuffer cap) then Some (noop ''noop'' no_result w1)
                else (case Validate (resBuffer cap) of
                  Some e \<Rightarrow> Some (fail c ErrorCaptureFailed e no_result w1)
                | None \<Rightarrow> afterCapture c turn (resBuffer cap) no_result w1)
          })"

definition beginTurn :: "turn_id \<Rightarrow> world \<Rightarrow> world" where
  "beginTurn turn w =
     (let w1 = w\<lparr>activeTurn := turn,
                 turnCtx := (case parentCtx w of None \<Rightarrow> Live | Some e \<Rightarrow> ParentDone e),
                 trec := newTurnRecorder (wclock w) turn\<rparr>
      in emitW StateIdle w1)"

text \<open>The deferred calls: the recorder fills the trace, the turn context is cancelled.\<close>

definition endTurn :: "coordinator \<Rightarrow> (result \<times> appError option) \<times> world \<Rightarrow> (result \<times> appError option) \<times> world" where
  "endTurn c out =
     (case out of ((res, err), w) \<Rightarrow>
        ((res\<lparr>Trace := finish (wclock w) (partialMetric c) (trec w) (Trace res)\<rparr>, err),
         w\<lparr>turnCtx := ctx_cancel (turnCtx w) (ParentDone Canceled)\<rparr>))"

definition runTurn ::
  "coordinator \<Rightarrow> turn_id \<Rightarrow> world \<Rightarrow> ((result \<times> appError option) \<times> world) option"
where
  "runTurn c turn w = do { out \<leftarrow> turnBody c turn (beginTurn turn w); Some (endTurn c out) }"

definition RunTurn ::
  "coordinator \<Rightarrow> turn_id \<Rightarrow> world \<Rightarrow> ((result \<times> appError option) \<times> world) option"
where
  "RunTurn c sequence w =
     do { (out, w1) \<leftarrow> runTurn c (Suc sequence) (newWorkerSet w); Some (out, stopWorkers w1) }"

text \<open>
  What \<^verbatim>\<open>Run\<close> does with the error of a turn: \<^term>\<open>None\<close> to go on, otherwise what it returns.
\<close>

definition afterTurn :: "appError option \<Rightarrow> appError option option" where
  "afterTurn err =
     (case err of
        None \<Rightarrow> None
      | Some e \<Rightarrow>
          if IsErrorCode e ErrorInterrupted then None
          else if IsErrorCode e ErrorCancelled \<or> IsErrorCode e ErrorDeadlineExceeded then Some None
          else if Recoverable e then None
          else Some (Some e))"

text \<open>The loop of \<^verbatim>\<open>Run\<close>; \<open>sequence\<close> is the number of turns begun so far.\<close>

partial_function (option) runLoop ::
  "coordinator \<Rightarrow> turn_id \<Rightarrow> world \<Rightarrow> (appError option \<times> turn_id \<times> world) option"
where [code]:
  "runLoop c sequence w =
     (if parentCtx (settle c w) \<noteq> None then Some (None, sequence, settle c w)
      else Option.bind (runTurn c (Suc sequence) (settle c w)) (\<lambda>out.
        case afterTurn (snd (fst out)) of
          None \<Rightarrow> runLoop c (Suc sequence) (snd out)
        | Some err \<Rightarrow> Some (err, Suc sequence, snd out)))"

definition Run :: "coordinator \<Rightarrow> turn_id \<Rightarrow> world \<Rightarrow> (appError option \<times> turn_id \<times> world) option" where
  "Run c sequence w =
     do { (err, n, w1) \<leftarrow> runLoop c sequence (newWorkerSet w); Some (err, n, stopWorkers w1) }"

subsection \<open>The path of a turn through its states\<close>

text \<open>
  The working states in pipeline order; \<open>0\<close> for the states in which a turn begins and ends.
\<close>

fun rank :: "state \<Rightarrow> nat" where
  "rank StateListening = 1"
| "rank StateTranscribing = 2"
| "rank StateWakeDetected = 3"
| "rank StateThinking = 4"
| "rank StateSynthesizing = 5"
| "rank StateSpeaking = 6"
| "rank _ = 0"

text \<open>The observer has been told exactly the recorded states, under the turn's identity.\<close>

definition rec_sync :: "turnRecorder \<Rightarrow> bool" where
  "rec_sync r \<longleftrightarrow> events r = map (\<lambda>s. \<lparr>evTurn = recTurn r, evState = s\<rparr>) (states r)"

lemma rec_sync_simps [simp]:
  "rec_sync r \<Longrightarrow> rec_sync (emit now s r)" "rec_sync r \<Longrightarrow> rec_sync (markFirstAudio now r)"
  "rec_sync r \<Longrightarrow> rec_sync (markFirstResponseDelta now r)" "rec_sync (newTurnRecorder now t)"
  by (simp_all add: rec_sync_def recorder_simps)

text \<open>Between two worlds the turn went through some working states, all later than \<open>n\<close> and at most \<open>m\<close>.\<close>

definition advances :: "nat \<Rightarrow> world \<Rightarrow> nat \<Rightarrow> world \<Rightarrow> bool" where
  "advances n w m w' \<longleftrightarrow> n \<le> m \<and> activeTurn w' = activeTurn w \<and> recTurn (trec w') = recTurn (trec w) \<and>
     (rec_sync (trec w) \<longrightarrow> rec_sync (trec w')) \<and>
     (\<exists>mid. states (trec w') = states (trec w) @ mid \<and> sorted_wrt (<) (n # map rank mid) \<and>
        (\<forall>s \<in> set mid. rank s \<le> m))"

text \<open>
  The final state that goes with a turn's error: an interruption, the end of the context, a
  failed stage, or success.
\<close>

definition stage_code :: "errorCode \<Rightarrow> bool" where
  "stage_code k \<longleftrightarrow> k \<in> {ErrorCaptureFailed, ErrorTranscriptionFailed, ErrorAgentFailed, ErrorSynthesisFailed, ErrorPlaybackFailed}"

definition exit_ok :: "state \<Rightarrow> appError option \<Rightarrow> bool" where
  "exit_ok f err \<longleftrightarrow>
     (case err of
        None \<Rightarrow> f = StateIdle
      | Some e \<Rightarrow>
          (Code e = ErrorInterrupted \<and> Recoverable e \<and> f = StateInterrupted) \<or>
          (Code e \<in> {ErrorCancelled, ErrorDeadlineExceeded} \<and> \<not> Recoverable e \<and> f = StateStopping) \<or>
          (stage_code (Code e) \<and> Recoverable e \<and> f = StateIdle))"

text \<open>From a world in which the states up to \<open>n\<close> may have been visited, the turn ends.\<close>

definition ends :: "nat \<Rightarrow> world \<Rightarrow> (result \<times> appError option) \<times> world \<Rightarrow> bool" where
  "ends n w out \<longleftrightarrow>
     activeTurn (snd out) = activeTurn w \<and> recTurn (trec (snd out)) = recTurn (trec w) \<and>
     (rec_sync (trec w) \<longrightarrow> rec_sync (trec (snd out))) \<and>
     (\<exists>mid f. states (trec (snd out)) = states (trec w) @ mid @ [f] \<and> sorted_wrt (<) (n # map rank mid) \<and>
        exit_ok f (snd (fst out))) \<and>
     TraceError (Trace (fst (fst out))) = map_option Code (snd (fst out))"

lemma advances_refl [simp]: "advances n w n w"
  by (simp add: advances_def)

lemma advances_trans:
  assumes "advances n w m w1" "advances m w1 k w2"
  shows "advances n w k w2"
proof -
  obtain a where a: "states (trec w1) = states (trec w) @ a" "sorted_wrt (<) (n # map rank a)" "\<forall>s \<in> set a. rank s \<le> m"
    using assms(1) by (auto simp: advances_def)
  obtain b where b: "states (trec w2) = states (trec w1) @ b" "sorted_wrt (<) (m # map rank b)" "\<forall>s \<in> set b. rank s \<le> k"
    using assms(2) by (auto simp: advances_def)
  have "sorted_wrt (<) (n # map rank (a @ b))"
    using a(2,3) b(2) assms(1) by (fastforce simp: sorted_wrt_append advances_def)
  moreover have "\<forall>s \<in> set (a @ b). rank s \<le> k" using a(3) b(3) assms(2) by (auto simp: advances_def)
  ultimately show ?thesis
    using a(1) b(1) assms by (auto simp: advances_def)
qed

lemma advances_ends:
  assumes "advances n w m w1" "ends m w1 out"
  shows "ends n w out"
proof -
  obtain a where a: "states (trec w1) = states (trec w) @ a" "sorted_wrt (<) (n # map rank a)" "\<forall>s \<in> set a. rank s \<le> m"
    using assms(1) by (auto simp: advances_def)
  obtain b f where b: "states (trec (snd out)) = states (trec w1) @ b @ [f]" "sorted_wrt (<) (m # map rank b)"
    "exit_ok f (snd (fst out))"
    using assms(2) by (auto simp: ends_def)
  have "sorted_wrt (<) (n # map rank (a @ b))"
    using a(2,3) b(2) assms(1) by (fastforce simp: sorted_wrt_append advances_def)
  then have "\<exists>mid f. states (trec (snd out)) = states (trec w) @ mid @ [f] \<and> sorted_wrt (<) (n # map rank mid) \<and>
      exit_ok f (snd (fst out))"
    using a(1) b by (intro exI [of _ "a @ b"] exI [of _ f]) simp
  with assms show ?thesis by (auto simp: advances_def ends_def)
qed

lemma advances_emit [simp]: "n < rank s \<Longrightarrow> advances n w (rank s) (emitW s w)"
  by (auto simp: advances_def emitW_def recorder_simps intro!: exI [of _ "[s]"])

lemma advances_same: "same_turn w w' \<Longrightarrow> advances n w n w'"
  by (simp add: advances_def same_turn_def)

lemma advances_log [simp]: "advances n w n (logW d w)"
  by (simp add: advances_def logW_def)

lemma advances_execute: "execute c cr g req w = Some (out, w') \<Longrightarrow> advances n w n w'"
  using execute_frame by (blast intro: advances_same)

lemma advances_le: "advances n w m w' \<Longrightarrow> m \<le> k \<Longrightarrow> advances n w k w'"
  by (fastforce simp: advances_def)

definition clean :: "result \<Rightarrow> bool" where
  "clean res \<longleftrightarrow> TraceError (Trace res) = None"

lemma clean_simps [simp]:
  "clean no_result" "clean (set_reply s res) = clean res" "clean (set_samples n res) = clean res"
  "clean (set_transcript n res) = clean res"
  by (simp_all add: clean_def no_result_def no_trace_def set_reply_def set_samples_def set_transcript_def)

lemma ends_emit:
  assumes "exit_ok f err" "TraceError (Trace res) = map_option Code err"
  shows "ends n w ((res, err), emitW f w)"
  using assms by (auto simp: ends_def emitW_def recorder_simps intro!: exI [of _ "[]"])

lemma ends_settle: "ends n (settle c w) out \<Longrightarrow> ends n w out"
  using advances_ends [OF advances_same [OF settle_frame(1)]] by blast

lemma ends_fail: "stage_code code \<Longrightarrow> ends n w (fail c code e res w)"
proof (rule ends_settle [of _ c])
  assume code: "stage_code code"
  show "ends n (settle c w) (fail c code e res w)"
    unfolding fail_def Let_def
    by (auto split: ctx.split option.split intro!: ends_emit
        simp: exit_ok_def code interruptedApplicationError_def contextApplicationError_def contextCode_def
          set_error_def set_outcome_def set_interrupt_latency_def)
qed

lemma ends_succeed: "clean res \<Longrightarrow> ends n w (succeed res w)"
  unfolding succeed_def by (rule ends_emit) (simp_all add: exit_ok_def set_outcome_def clean_def)

lemma ends_noop: "clean res \<Longrightarrow> ends n w (noop s res w)"
  unfolding noop_def by (rule ends_emit) (simp_all add: exit_ok_def set_noop_def set_outcome_def clean_def)

lemma stage_codes [simp]:
  "stage_code ErrorCaptureFailed" "stage_code ErrorTranscriptionFailed" "stage_code ErrorAgentFailed"
  "stage_code ErrorSynthesisFailed" "stage_code ErrorPlaybackFailed"
  by (simp_all add: stage_code_def)

lemma ends_lastCheck: "clean res \<Longrightarrow> ends n w (lastCheck c res w)"
  unfolding lastCheck_def Let_def
  by (intro ends_settle [of n c w]) (auto simp: ends_fail ends_succeed split: option.split)

lemma ends_synthesizeBufferedReply:
  assumes "synthesizeBufferedReply c turn res w = Some out" "clean res" "n < 5"
  shows "ends n w out"
proof -
  obtain syn w1 where e: "execute c TurnContext StageSynthesize
      (mkRequest turn TurnContext no_buffer (Reply res) False) (emitW StateSynthesizing w) = Some (syn, w1)"
    using assms(1) by (auto simp: synthesizeBufferedReply_def bind_eq_Some_conv)
  have adv: "advances n w 5 w1"
    using advances_trans [OF advances_emit [of n StateSynthesizing] advances_execute [OF e]] assms(3) by simp
  have "ends 5 w1 out"
  proof (cases "\<exists>b. syn = Inr b \<and> \<not> Empty (resBuffer b) \<and> Validate (resBuffer b) = None")
    case False
    with assms(1,2) e show ?thesis
      by (auto simp: synthesizeBufferedReply_def ends_fail ends_succeed split: sum.splits option.splits if_splits)
  next
    case True
    then obtain b where b: "syn = Inr b" "\<not> Empty (resBuffer b)" "Validate (resBuffer b) = None" by blast
    obtain pl w2 where p: "execute c TurnContext StagePlayback
        (mkRequest turn TurnContext (Clone (resBuffer b)) [] False) (emitW StateSpeaking w1) = Some (pl, w2)"
      using assms(1) e b by (auto simp: synthesizeBufferedReply_def bind_eq_Some_conv)
    have "advances 5 w1 6 w2"
      using advances_trans [OF advances_emit [of 5 StateSpeaking] advances_execute [OF p]] by simp
    moreover have "ends 6 w2 out"
      using assms(1,2) e b p
      by (auto simp: synthesizeBufferedReply_def ends_fail ends_lastCheck split: sum.splits)
    ultimately show ?thesis by (rule advances_ends)
  qed
  with adv show ?thesis by (rule advances_ends)
qed

lemma ends_completeBufferedResponse:
  assumes "completeBufferedResponse c turn tr res w = Some out" "clean res"
  shows "ends 4 w out"
proof -
  obtain r w1 where e: "execute c TurnContext StageRespond
      (mkRequest turn TurnContext no_buffer tr False) w = Some (r, w1)"
    using assms(1) by (auto simp: completeBufferedResponse_def bind_eq_Some_conv)
  have "ends 4 w1 out"
  proof (cases r)
    case (Inl err)
    with assms(1) e show ?thesis by (auto simp: completeBufferedResponse_def ends_fail)
  next
    case (Inr x)
    let ?res = "set_reply (trim_space (resReply x)) res"
    have "synthesizeBufferedReply c turn ?res (logW (ShowAssistant (Reply ?res)) w1) = Some out"
      using assms(1) e Inr by (auto simp: completeBufferedResponse_def Let_def)
    from ends_synthesizeBufferedReply [OF this, of 4] assms(2) advances_ends [OF advances_log]
    show ?thesis by simp
  qed
  then show ?thesis by (rule advances_ends [OF advances_execute [OF e]])
qed

subsection \<open>Streaming\<close>

text \<open>How far a streaming turn has got; synthesis is only entered after a delta, speaking after synthesis.\<close>

definition level :: "streamingTurnState \<Rightarrow> nat" where
  "level st = (if speakingState st then 6 else if synthState st then 5 else 4)"

definition stream_ok :: "streamingTurnState \<Rightarrow> bool" where
  "stream_ok st \<longleftrightarrow> (speakingState st \<longrightarrow> synthState st) \<and> (synthState st \<longrightarrow> deltaSeen st)"

lemma enterSynthesizing_ok:
  assumes "stream_ok st" "deltaSeen st" "enterSynthesizing st w = (st1, w1)"
  shows "stream_ok st1 \<and> deltaSeen st1 \<and> synthState st1 \<and> advances (level st) w (level st1) w1"
  using assms advances_emit [of 4 StateSynthesizing w]
  by (auto simp: enterSynthesizing_def stream_ok_def level_def split: if_splits)

lemma enterSpeaking_ok:
  assumes "synthState st" "deltaSeen st" "enterSpeaking st w = (st1, w1)"
  shows "stream_ok st1 \<and> deltaSeen st1 \<and> advances (level st) w (level st1) w1"
  using assms advances_emit [of 5 StateSpeaking w]
  by (auto simp: enterSpeaking_def stream_ok_def level_def split: if_splits)

lemma noteWritten_ok:
  assumes "stream_ok st" "noteWritten st w = (st1, w1)"
  shows "stream_ok st1 \<and> deltaSeen st1 = deltaSeen st \<and> advances (level st) w (level st1) w1"
  using assms
  by (auto simp: noteWritten_def stream_ok_def level_def advances_def recorder_simps Let_def split: if_splits)

definition stream_err_ok :: "(errorCode \<times> go_error) option \<Rightarrow> bool" where
  "stream_err_ok err \<longleftrightarrow> (\<forall>code e. err = Some (code, e) \<longrightarrow> stage_code code)"

lemma playStreamingPhrases_ok:
  assumes "playStreamingPhrases c turn ps st w = Some ((err, st'), w')" "stream_ok st" "deltaSeen st"
  shows "stream_ok st' \<and> stream_err_ok err \<and> advances (level st) w (level st') w'"
  using assms
proof (induction ps arbitrary: st w)
  case Nil
  then show ?case by (simp add: stream_err_ok_def)
next
  case (Cons p ps)
  show ?case
  proof (cases "trim_space p = []")
    case True
    with Cons show ?thesis by simp
  next
    case False
    obtain st1 w1 where 1: "enterSynthesizing st w = (st1, w1)" by fastforce
    note ok1 = enterSynthesizing_ok [OF Cons.prems(2,3) 1]
    obtain syn w2 where e: "execute c TurnContext StageSynthesize
        (mkRequest turn TurnContext no_buffer (trim_space p) False) w1 = Some (syn, w2)"
      using Cons.prems(1) False 1 by (auto simp: bind_eq_Some_conv)
    have adv2: "advances (level st) w (level st1) w2"
      using ok1 advances_trans advances_execute [OF e] by blast
    consider er where "syn = Inl er" | b where "syn = Inr b" "Empty (resBuffer b)"
      | b er where "syn = Inr b" "\<not> Empty (resBuffer b)" "Validate (resBuffer b) = Some er"
      | b where "syn = Inr b" "\<not> Empty (resBuffer b)" "Validate (resBuffer b) = None"
      by (cases syn; cases "Validate (resBuffer (projr syn))") auto
    then show ?thesis
    proof cases
      case 1
      with Cons.prems(1) False \<open>enterSynthesizing st w = (st1, w1)\<close> e ok1 adv2 show ?thesis
        by (auto simp: stream_err_ok_def)
    next
      case 2
      with Cons.prems(1) False 1 e have "playStreamingPhrases c turn ps st1 w2 = Some ((err, st'), w')" by simp
      from Cons.IH [OF this] ok1 adv2 advances_trans show ?thesis by blast
    next
      case 3
      with Cons.prems(1) False 1 e ok1 adv2 show ?thesis by (auto simp: stream_err_ok_def)
    next
      case 4
      obtain st2 w3 where s: "enterSpeaking st1 w2 = (st2, w3)" by fastforce
      note ok2 = enterSpeaking_ok [OF _ _ s]
      obtain wr w4 where x: "execute c TurnContext StagePlaybackWrite
          (mkRequest turn TurnContext (Clone (resBuffer b)) [] False) w3 = Some (wr, w4)"
        using Cons.prems(1) False 1 e 4 s by (auto simp: bind_eq_Some_conv)
      have adv4: "advances (level st) w (level st2) w4"
        using adv2 ok1 ok2 advances_trans advances_execute [OF x] by blast
      show ?thesis
      proof (cases wr)
        case (Inl er)
        with Cons.prems(1) False 1 e 4 s x ok1 ok2 adv4 show ?thesis by (auto simp: stream_err_ok_def)
      next
        case (Inr r)
        obtain st3 w5 where n: "noteWritten st2 w4 = (st3, w5)" by fastforce
        with Cons.prems(1) False 1 e 4 s x Inr
        have "playStreamingPhrases c turn ps st3 w5 = Some ((err, st'), w')" by simp
        from Cons.IH [OF this] noteWritten_ok [OF _ n] ok1 ok2 adv4 advances_trans show ?thesis by blast
      qed
    qed
  qed
qed

lemma handleDelta_ok:
  assumes "handleDelta c turn d st w = Some ((err, st'), w')" "stream_ok st"
  shows "stream_ok st' \<and> stream_err_ok err \<and> advances (level st) w (level st') w'"
proof -
  define st1 where "st1 = (if firstDelta st then st\<lparr>deltaSeen := True\<rparr> else st\<lparr>deltaSeen := True, firstDelta := True\<rparr>)"
  define w1 where "w1 = (if firstDelta st then w else w\<lparr>trec := markFirstResponseDelta (wclock w) (trec w)\<rparr>)"
  define st2 where "st2 = st1\<lparr>sentenceBuilder := snd (Push d (sentenceBuilder st1))\<rparr>"
  have "playStreamingPhrases c turn (fst (Push d (sentenceBuilder st1))) st2 w1 = Some ((err, st'), w')"
    using assms(1) by (auto simp: handleDelta_def st1_def w1_def st2_def case_prod_unfold Let_def split: if_splits)
  moreover have "stream_ok st2" "deltaSeen st2" "level st2 = level st" "advances (level st) w (level st2) w1"
    using assms(2) by (auto simp: st2_def st1_def w1_def stream_ok_def level_def advances_def recorder_simps)
  ultimately show ?thesis using playStreamingPhrases_ok advances_trans by metis
qed

definition stream_exit_ok :: "stream_exit \<Rightarrow> bool" where
  "stream_exit_ok ex \<longleftrightarrow> (\<forall>code e. ex = StreamFailed code e \<longrightarrow> stage_code code)"

lemma streamStep_env:
  "sched w = a # as \<Longrightarrow> a \<notin> {PickTurnDone, PickWorkersDone, PickDelta, PickResult} \<Longrightarrow>
     streamStep c turn st w = Some ((None, st), env_step c a (w\<lparr>sched := as\<rparr>))"
  by (cases a) (simp_all add: streamStep_def Let_def del: env_step.simps)

lemma streamStep_ok:
  assumes "streamStep c turn st w = Some ((ex, st'), w')" "stream_ok st"
  shows "stream_ok st' \<and> (\<forall>x. ex = Some x \<longrightarrow> stream_exit_ok x) \<and> advances (level st) w (level st') w'"
proof -
  obtain a as where a: "sched w = a # as" using assms(1) by (auto simp: streamStep_def split: list.splits)
  let ?w0 = "w\<lparr>sched := as\<rparr>"
  have same: "advances n w n v" if "same_turn ?w0 v" for n v
    using that by (simp add: advances_def same_turn_def)
  consider "a = PickTurnDone" | "a = PickWorkersDone" | "a = PickDelta" | "a = PickResult"
    | "a \<notin> {PickTurnDone, PickWorkersDone, PickDelta, PickResult}" by blast
  then show ?thesis
  proof cases
    case 1
    with assms a show ?thesis by (auto simp: streamStep_def stream_exit_ok_def intro: same)
  next
    case 2
    with assms a show ?thesis by (auto simp: streamStep_def stream_exit_ok_def intro: same)
  next
    case 3
    show ?thesis
    proof (cases "\<exists>d q. deltas w = d # q \<and> deltaTurn d = turn \<and> deltaText d \<noteq> []")
      case False
      with 3 assms a show ?thesis
        by (auto simp: streamStep_def Let_def split: list.splits if_splits intro!: same)
    next
      case True
      then obtain d q where d: "deltas w = d # q" "deltaTurn d = turn" "deltaText d \<noteq> []" by blast
      obtain err where h: "handleDelta c turn (deltaText d) st (?w0\<lparr>deltas := q\<rparr>) = Some ((err, st'), w')"
        and ex: "ex = map_option (\<lambda>(code, e). StreamFailed code e) err"
        using 3 assms(1) a d by (auto simp: streamStep_def bind_eq_Some_conv)
      from handleDelta_ok [OF h assms(2)] ex same [of "?w0\<lparr>deltas := q\<rparr>"] show ?thesis
        by (auto simp: stream_exit_ok_def stream_err_ok_def intro: advances_trans)
    qed
  next
    case 4
    with assms a show ?thesis
      by (auto simp: streamStep_def stream_exit_ok_def Let_def split: list.splits if_splits intro!: same)
  next
    case 5
    from streamStep_env [OF a 5] assms(1) have "ex = None" "st' = st" "w' = env_step c a ?w0" by simp_all
    with assms(2) same [OF env_step_frame(1)] show ?thesis by simp
  qed
qed

text \<open>Induction over the iterations of a loop that returned.\<close>

lemma streamLoop_rule:
  assumes run: "streamLoop c turn st w = Some out"
    and go: "\<And>st w st1 w1 out. streamStep c turn st w = Some ((None, st1), w1) \<Longrightarrow> Q st1 w1 out \<Longrightarrow> Q st w out"
    and stop: "\<And>st w x st1 w1. streamStep c turn st w = Some ((Some x, st1), w1) \<Longrightarrow> Q st w ((x, st1), w1)"
  shows "Q st w out"
proof -
  have "c = c \<longrightarrow> turn = turn \<longrightarrow> Q st w out"
  proof (rule streamLoop.raw_induct [where P = "\<lambda>c' turn' st w out. c' = c \<longrightarrow> turn' = turn \<longrightarrow> Q st w out", OF _ run],
      intro impI)
    fix loop c' turn' st w out
    assume IH: "\<And>c' turn' st w out. loop c' turn' st w = Some out \<Longrightarrow> c' = c \<longrightarrow> turn' = turn \<longrightarrow> Q st w out"
      and eq: "Option.bind (streamStep c' turn' st w)
        (\<lambda>out. case fst (fst out) of None \<Rightarrow> loop c' turn' (snd (fst out)) (snd out)
           | Some ex \<Rightarrow> Some ((ex, snd (fst out)), snd out)) = Some out"
      and cs: "c' = c" "turn' = turn"
    obtain ex1 st1 w1 where s: "streamStep c turn st w = Some ((ex1, st1), w1)"
      using eq cs by (auto simp: bind_eq_Some_conv)
    show "Q st w out"
    proof (cases ex1)
      case None
      with eq s cs have "loop c turn st1 w1 = Some out" by simp
      from IH [OF this] go s None show ?thesis by blast
    next
      case (Some x)
      with eq s cs have "out = ((x, st1), w1)" by simp
      with stop s Some show ?thesis by blast
    qed
  qed
  then show ?thesis by simp
qed

lemma streamLoop_ok:
  assumes "streamLoop c turn st w = Some ((ex, st'), w')" "stream_ok st"
  shows "stream_ok st' \<and> stream_exit_ok ex \<and> advances (level st) w (level st') w'"
proof -
  let ?Q = "\<lambda>st w out. stream_ok st \<longrightarrow> stream_ok (snd (fst out)) \<and> stream_exit_ok (fst (fst out)) \<and>
      advances (level st) w (level (snd (fst out))) (snd out)"
  have "?Q st w ((ex, st'), w')"
  proof (rule streamLoop_rule [OF assms(1), where Q = ?Q])
    fix st w st1 w1 and out :: "(_ \<times> _) \<times> _"
    assume "streamStep c turn st w = Some ((None, st1), w1)" "?Q st1 w1 out"
    then show "?Q st w out" using streamStep_ok advances_trans by blast
  next
    fix st w x st1 w1
    assume "streamStep c turn st w = Some ((Some x, st1), w1)"
    then show "?Q st w ((x, st1), w1)" using streamStep_ok by fastforce
  qed
  with assms(2) show ?thesis by simp
qed

lemma drainStep_ok:
  assumes "drainStep c turn st w = Some ((ex, st'), w')" "stream_ok st"
  shows "stream_ok st' \<and> (\<forall>x. ex = Some x \<longrightarrow> stream_err_ok x) \<and> advances (level st) w (level st') w'"
proof (cases "\<exists>d q. deltas w = d # q \<and> deltaTurn d = turn \<and> deltaText d \<noteq> []")
  case False
  with assms show ?thesis
    by (auto simp: drainStep_def stream_err_ok_def Let_def split: list.splits if_splits intro!: advances_same)
next
  case True
  then obtain d q where d: "deltas w = d # q" "deltaTurn d = turn" "deltaText d \<noteq> []" by blast
  obtain err where h: "handleDelta c turn (deltaText d) st (w\<lparr>deltas := q\<rparr>) = Some ((err, st'), w')"
    and ex: "ex = map_option Some err"
    using assms(1) d by (auto simp: drainStep_def bind_eq_Some_conv)
  have "advances (level st) w (level st) (w\<lparr>deltas := q\<rparr>)" by (intro advances_same) simp
  with handleDelta_ok [OF h assms(2)] ex show ?thesis
    by (auto simp: stream_err_ok_def intro: advances_trans)
qed

text \<open>Induction over the iterations of a loop that returned.\<close>

lemma drainDeltas_rule:
  assumes run: "drainDeltas c turn st w = Some out"
    and go: "\<And>st w st1 w1 out. drainStep c turn st w = Some ((None, st1), w1) \<Longrightarrow> Q st1 w1 out \<Longrightarrow> Q st w out"
    and stop: "\<And>st w x st1 w1. drainStep c turn st w = Some ((Some x, st1), w1) \<Longrightarrow> Q st w ((x, st1), w1)"
  shows "Q st w out"
proof -
  have "c = c \<longrightarrow> turn = turn \<longrightarrow> Q st w out"
  proof (rule drainDeltas.raw_induct [where P = "\<lambda>c' turn' st w out. c' = c \<longrightarrow> turn' = turn \<longrightarrow> Q st w out", OF _ run],
      intro impI)
    fix loop c' turn' st w out
    assume IH: "\<And>c' turn' st w out. loop c' turn' st w = Some out \<Longrightarrow> c' = c \<longrightarrow> turn' = turn \<longrightarrow> Q st w out"
      and eq: "Option.bind (drainStep c' turn' st w)
        (\<lambda>out. case fst (fst out) of None \<Rightarrow> loop c' turn' (snd (fst out)) (snd out)
           | Some ex \<Rightarrow> Some ((ex, snd (fst out)), snd out)) = Some out"
      and cs: "c' = c" "turn' = turn"
    obtain ex1 st1 w1 where s: "drainStep c turn st w = Some ((ex1, st1), w1)"
      using eq cs by (auto simp: bind_eq_Some_conv)
    show "Q st w out"
    proof (cases ex1)
      case None
      with eq s cs have "loop c turn st1 w1 = Some out" by simp
      from IH [OF this] go s None show ?thesis by blast
    next
      case (Some x)
      with eq s cs have "out = ((x, st1), w1)" by simp
      with stop s Some show ?thesis by blast
    qed
  qed
  then show ?thesis by simp
qed

lemma drainDeltas_ok:
  assumes "drainDeltas c turn st w = Some ((ex, st'), w')" "stream_ok st"
  shows "stream_ok st' \<and> stream_err_ok ex \<and> advances (level st) w (level st') w'"
proof -
  let ?Q = "\<lambda>st w out. stream_ok st \<longrightarrow> stream_ok (snd (fst out)) \<and> stream_err_ok (fst (fst out)) \<and>
      advances (level st) w (level (snd (fst out))) (snd out)"
  have "?Q st w ((ex, st'), w')"
  proof (rule drainDeltas_rule [OF assms(1), where Q = ?Q])
    fix st w st1 w1 and out :: "(_ \<times> _) \<times> _"
    assume "drainStep c turn st w = Some ((None, st1), w1)" "?Q st1 w1 out"
    then show "?Q st w out" using drainStep_ok advances_trans by blast
  next
    fix st w x st1 w1
    assume "drainStep c turn st w = Some ((Some x, st1), w1)"
    then show "?Q st w ((x, st1), w1)" using drainStep_ok by fastforce
  qed
  with assms(2) show ?thesis by simp
qed

lemma ends_abortAndFail:
  assumes "abortAndFail c turn code e st res w = Some out" "stage_code code"
  shows "ends n w out"
proof -
  obtain w1 where w1: "abortStreamingPlayback c turn st w = Some w1" "out = fail c code e res w1"
    using assms(1) by (auto simp: abortAndFail_def bind_eq_Some_conv)
  have "same_turn w w1"
  proof (cases "speakingState st \<and> workersCtx (settle c w) = None")
    case False
    with w1(1) show ?thesis
      by (auto simp: abortStreamingPlayback_def same_turn_def logW_def Let_def split: if_splits option.splits)
         (simp_all add: settle_frame(1) [unfolded same_turn_def])
  next
    case True
    define cr where "cr = (if turnCtx (settle c w) = Live then TurnContext else Background)"
    obtain r where "execute c cr StagePlaybackStop (mkRequest turn cr no_buffer [] False) (settle c w) = Some (r, w1)"
      using True w1(1) by (auto simp: abortStreamingPlayback_def cr_def Let_def bind_eq_Some_conv)
    from execute_frame [OF this] same_turn_trans [OF settle_frame(1)] show ?thesis by blast
  qed
  from advances_ends [OF advances_same [OF this] ends_fail] assms(2) w1(2) show ?thesis by blast
qed

lemma ends_finishStreaming:
  assumes "finishStreaming c turn st res w = Some out" "clean res" "stream_ok st" "deltaSeen st"
  shows "ends (level st) w out"
proof -
  let ?st = "st\<lparr>sentenceBuilder := snd (Flush (sentenceBuilder st))\<rparr>"
  obtain err st1 w1 where p: "playStreamingPhrases c turn (fst (Flush (sentenceBuilder st))) ?st w = Some ((err, st1), w1)"
    using assms(1) by (auto simp: finishStreaming_def case_prod_unfold Let_def bind_eq_Some_conv)
  have "stream_ok ?st" "deltaSeen ?st" "level ?st = level st" using assms(3,4) by (simp_all add: stream_ok_def level_def)
  with playStreamingPhrases_ok [OF p] have ok: "stream_err_ok err" "advances (level st) w (level st1) w1" by simp_all
  have "ends (level st1) w1 out"
  proof (cases err)
    case (Some ce)
    obtain code e where ce: "ce = (code, e)" by fastforce
    with Some assms(1) p have "abortAndFail c turn code e st1 res w1 = Some out"
      by (auto simp: finishStreaming_def case_prod_unfold Let_def)
    then show ?thesis using ok(1) Some ce by (intro ends_abortAndFail) (auto simp: stream_err_ok_def)
  next
    case None
    obtain f w2 where f: "finishPlayback c turn st1 w1 = Some (f, w2)"
      using assms(1) p None by (auto simp: finishStreaming_def case_prod_unfold Let_def bind_eq_Some_conv)
    have adv: "advances (level st1) w1 (level st1) w2"
      using f advances_execute by (auto simp: finishPlayback_def bind_eq_Some_conv split: if_splits)
    have "ends (level st1) w2 out"
      using assms(1,2) p None f
      by (auto simp: finishStreaming_def case_prod_unfold Let_def ends_fail ends_lastCheck split: option.splits)
    with adv show ?thesis by (rule advances_ends)
  qed
  with ok(2) show ?thesis by (rule advances_ends)
qed

lemma ends_completeStreamingResponse:
  assumes "completeStreamingResponse c turn tr res w = Some out" "clean res"
  shows "ends 4 w out"
proof -
  obtain e w1 where s: "submit c TurnContext StageRespond (mkRequest turn TurnContext no_buffer tr True) w = Some (e, w1)"
    using assms(1) by (auto simp: completeStreamingResponse_def bind_eq_Some_conv)
  have "ends 4 w1 out"
  proof (cases e)
    case (Some er)
    with assms(1) s show ?thesis by (auto simp: completeStreamingResponse_def ends_fail)
  next
    case None
    let ?st0 = newStreamingTurnState
    have st0: "stream_ok ?st0" "level ?st0 = 4" by (simp_all add: newStreamingTurnState_def stream_ok_def level_def)
    obtain ex st w2 where l: "streamLoop c turn ?st0 w1 = Some ((ex, st), w2)"
      using assms(1) s None by (auto simp: completeStreamingResponse_def bind_eq_Some_conv)
    from streamLoop_ok [OF l st0(1)] st0(2)
    have ok: "stream_ok st" "stream_exit_ok ex" "advances 4 w1 (level st) w2" by simp_all
    have "ends (level st) w2 out"
    proof (cases "\<exists>r. ex = StreamResponse r \<and> resErr r = None")
      case False
      then obtain code er where "abortAndFail c turn code er st res w2 = Some out" "stage_code code"
        using assms(1) s None l ok(2)
        by (cases ex) (auto simp: completeStreamingResponse_def stream_exit_ok_def)
      then show ?thesis by (rule ends_abortAndFail)
    next
      case True
      then obtain r where r: "ex = StreamResponse r" "resErr r = None" by blast
      obtain derr st1 w3 where d: "drainDeltas c turn st w2 = Some ((derr, st1), w3)"
        using assms(1) s None l r by (auto simp: completeStreamingResponse_def bind_eq_Some_conv)
      note okd = drainDeltas_ok [OF d ok(1)]
      have "ends (level st1) w3 out"
      proof (cases derr)
        case (Some ce)
        obtain code er where "ce = (code, er)" by fastforce
        with Some assms(1) s None l r d okd show ?thesis
          by (intro ends_abortAndFail [of c turn code er st1 res])
             (auto simp: completeStreamingResponse_def stream_err_ok_def)
      next
        case None': None
        let ?res = "set_reply (trim_space (resReply r)) res"
        let ?w4 = "logW (ShowAssistant (Reply ?res)) w3"
        have c: "clean ?res" using assms(2) by simp
        have run: "(if \<not> deltaSeen st1 then synthesizeBufferedReply c turn ?res ?w4
            else finishStreaming c turn st1 ?res ?w4) = Some out"
          using assms(1) s None l r d None' by (simp add: completeStreamingResponse_def Let_def)
        have "ends (level st1) ?w4 out"
        proof (cases "deltaSeen st1")
          case True
          with run have "finishStreaming c turn st1 ?res ?w4 = Some out" by simp
          from ends_finishStreaming [OF this c] okd True show ?thesis by simp
        next
          case False
          with run have "synthesizeBufferedReply c turn ?res ?w4 = Some out" by simp
          moreover have "level st1 < 5" using False okd by (auto simp: level_def stream_ok_def)
          ultimately show ?thesis using ends_synthesizeBufferedReply c by blast
        qed
        then show ?thesis by (rule advances_ends [OF advances_log])
      qed
      with okd show ?thesis using advances_ends by blast
    qed
    with ok(3) show ?thesis by (rule advances_ends)
  qed
  moreover have "advances 4 w 4 w1" using submit_frame [OF s] by (intro advances_same) simp
  ultimately show ?thesis by (rule advances_ends [rotated])
qed

lemma ends_respondTo:
  assumes "respondTo c turn tr res w = Some out" "clean res" "n < 4"
  shows "ends n w out"
proof -
  let ?w1 = "emitW StateThinking (logW (ShowUser tr) w)"
  have "ends 4 ?w1 out"
    using assms(1,2) ends_completeStreamingResponse ends_completeBufferedResponse
    by (auto simp: respondTo_def Let_def split: if_splits)
  moreover have "advances n w 4 ?w1"
    using advances_trans [OF advances_log advances_emit [of n StateThinking]] assms(3) by simp
  ultimately show ?thesis by (rule advances_ends [rotated])
qed

lemma ends_afterCapture:
  assumes "afterCapture c turn b res w = Some out" "clean res"
  shows "ends 1 w out"
proof -
  let ?res = "set_samples (length (Samples b)) res"
  obtain t w1 where e: "execute c TurnContext StageTranscribe (mkRequest turn TurnContext (Clone b) [] False)
      (emitW StateTranscribing w) = Some (t, w1)"
    using assms(1) by (auto simp: afterCapture_def Let_def bind_eq_Some_conv)
  have adv: "advances 1 w 2 w1"
    using advances_trans [OF advances_emit [of 1 StateTranscribing] advances_execute [OF e]] by simp
  have "ends 2 w1 out"
  proof (cases "\<exists>r. t = Inr r \<and> trim_space (resText r) \<noteq> []")
    case False
    with assms e show ?thesis
      by (auto simp: afterCapture_def Let_def ends_fail ends_noop split: sum.splits)
  next
    case True
    then obtain r where r: "t = Inr r" "trim_space (resText r) \<noteq> []" by blast
    let ?res1 = "set_transcript (length (trim_space (resText r))) ?res"
    obtain g w2 where g: "applyWakeGate c (trim_space (resText r)) w1 = (g, w2)" by fastforce
    then have adv: "advances 2 w1 3 w2"
      using advances_emit [of 2 StateWakeDetected w1] advances_le [of 2 w1 2 w1 3]
      by (auto simp: applyWakeGate_def split: option.splits prod.splits if_splits)
    have "ends 3 w2 out"
      using assms e r g by (auto simp: afterCapture_def Let_def ends_noop split: option.splits intro: ends_respondTo)
    with adv show ?thesis by (rule advances_ends)
  qed
  with adv show ?thesis by (rule advances_ends)
qed

text \<open>
  A turn that ends before it listens carries no error code in its trace; every other turn
  ends as described by \<open>ends\<close>.
\<close>

lemma turnBody_ends:
  assumes "turnBody c turn w = Some out"
  shows "ends 0 w out \<or>
    (\<exists>e. out = ((no_result, Some (contextApplicationError e)), emitW StateStopping (settle c w)))"
proof (cases "ctx_err (turnCtx (settle c w))")
  case (Some e)
  with assms show ?thesis by (auto simp: turnBody_def)
next
  case None
  obtain cap w1 where e: "execute c TurnContext StageCapture (mkRequest turn TurnContext no_buffer [] False)
      (emitW StateListening (settle c w)) = Some (cap, w1)"
    using assms None by (auto simp: turnBody_def bind_eq_Some_conv)
  have adv: "advances 0 (settle c w) 1 w1"
    using advances_trans [OF advances_emit [of 0 StateListening] advances_execute [OF e]] by simp
  have "ends 1 w1 out"
    using assms None e
    by (auto simp: turnBody_def ends_fail ends_noop split: sum.splits option.splits if_splits
        intro: ends_afterCapture simp del: One_nat_def)
  with adv ends_settle advances_ends show ?thesis by blast
qed

lemma runTurn_ends:
  assumes "runTurn c turn w = Some ((res, err), w')"
  shows "\<exists>mid f. States (Trace res) = StateIdle # mid @ [f] \<and> sorted_wrt (<) (0 # map rank mid) \<and> exit_ok f err \<and>
    events (trec w') = map (\<lambda>s. \<lparr>evTurn = turn, evState = s\<rparr>) (States (Trace res)) \<and>
    TurnID (Trace res) = turn \<and> (mid \<noteq> [] \<or> f = StateIdle \<longrightarrow> TraceError (Trace res) = map_option Code err)"
proof -
  let ?b = "beginTurn turn w"
  obtain out where out: "turnBody c turn ?b = Some out" "endTurn c out = ((res, err), w')"
    using assms by (auto simp: runTurn_def bind_eq_Some_conv)
  have b: "states (trec ?b) = [StateIdle]" "recTurn (trec ?b) = turn" "rec_sync (trec ?b)"
    by (simp_all add: beginTurn_def Let_def emitW_def recorder_simps)
  have fin: "States (Trace res) = states (trec (snd out))" "TurnID (Trace res) = recTurn (trec (snd out))"
    "TraceError (Trace res) = TraceError (Trace (fst (fst out)))" "err = snd (fst out)" "trec w' = trec (snd out)"
    using out(2) by (auto simp: endTurn_def recorder_simps split: prod.splits)
  from turnBody_ends [OF out(1)] show ?thesis
  proof
    assume e: "ends 0 ?b out"
    then obtain mid f where "states (trec (snd out)) = StateIdle # mid @ [f]" "sorted_wrt (<) (0 # map rank mid)"
      "exit_ok f err" using b fin(4) by (auto simp: ends_def)
    with e fin b show ?thesis by (auto simp: ends_def rec_sync_def)
  next
    assume "\<exists>e. out = ((no_result, Some (contextApplicationError e)), emitW StateStopping (settle c ?b))"
    then obtain e where o: "out = ((no_result, Some (contextApplicationError e)), emitW StateStopping (settle c ?b))"
      by blast
    have "trec (settle c ?b) = trec ?b" using settle_frame(1) [of ?b c] by (simp add: same_turn_def)
    with o b fin show ?thesis
      by (intro exI [of _ "[]"] exI [of _ StateStopping])
         (auto simp: emitW_def recorder_simps rec_sync_def exit_ok_def contextApplicationError_def)
  qed
qed

text \<open>Every way a turn can end either lets \<^verbatim>\<open>Run\<close> go on or makes it return no error.\<close>

lemma afterTurn_exit_ok: "exit_ok f err \<Longrightarrow> afterTurn err = None \<or> afterTurn err = Some None"
  by (auto simp: exit_ok_def afterTurn_def IsErrorCode_def split: option.splits)

lemma runLoop_rule:
  assumes run: "runLoop c n w = Some out"
    and ended: "\<And>n w. parentCtx (settle c w) \<noteq> None \<Longrightarrow> Q n w (None, n, settle c w)"
    and go: "\<And>n w res err w1 out. parentCtx (settle c w) = None \<Longrightarrow>
      runTurn c (Suc n) (settle c w) = Some ((res, err), w1) \<Longrightarrow> afterTurn err = None \<Longrightarrow>
      Q (Suc n) w1 out \<Longrightarrow> Q n w out"
    and stop: "\<And>n w res err w1 e. parentCtx (settle c w) = None \<Longrightarrow>
      runTurn c (Suc n) (settle c w) = Some ((res, err), w1) \<Longrightarrow> afterTurn err = Some e \<Longrightarrow>
      Q n w (e, Suc n, w1)"
  shows "Q n w out"
proof -
  have "c = c \<longrightarrow> Q n w out"
  proof (rule runLoop.raw_induct [where P = "\<lambda>c' n w out. c' = c \<longrightarrow> Q n w out", OF _ run], intro impI)
    fix loop c' n w out
    assume IH: "\<And>c' n w out. loop c' n w = Some out \<Longrightarrow> c' = c \<longrightarrow> Q n w out"
      and eq: "(if parentCtx (settle c' w) \<noteq> None then Some (None, n, settle c' w)
         else Option.bind (runTurn c' (Suc n) (settle c' w)) (\<lambda>out.
           case afterTurn (snd (fst out)) of None \<Rightarrow> loop c' (Suc n) (snd out)
           | Some err \<Rightarrow> Some (err, Suc n, snd out))) = Some out"
      and cs: "c' = c"
    show "Q n w out"
    proof (cases "parentCtx (settle c w) = None")
      case False
      with eq cs ended show ?thesis by (auto split: if_splits)
    next
      case True
      then obtain res err w1 where t: "runTurn c (Suc n) (settle c w) = Some ((res, err), w1)"
        using eq cs by (auto simp: bind_eq_Some_conv split: if_splits)
      show ?thesis
      proof (cases "afterTurn err")
        case None
        with eq cs True t have "loop c (Suc n) w1 = Some out" by simp
        with IH go True t None show ?thesis by blast
      next
        case (Some e)
        with eq cs True t have "out = (e, Suc n, w1)" by simp
        with stop True t Some show ?thesis by blast
      qed
    qed
  qed
  then show ?thesis by simp
qed

lemma runLoop_no_error: "runLoop c n w = Some (err, n', w') \<Longrightarrow> err = None"
proof -
  assume run: "runLoop c n w = Some (err, n', w')"
  have "fst (err, n', w') = None"
  proof (rule runLoop_rule [OF run, where Q = "\<lambda>n w out. fst out = None"])
    fix n w res err w1 e
    assume "runTurn c (Suc n) (settle c w) = Some ((res, err), w1)" "afterTurn err = Some e"
    with runTurn_ends [OF this(1)] afterTurn_exit_ok [of _ err] show "fst (e, Suc n, w1) = None" by auto
  qed auto
  then show "err = None" by simp
qed

subsection \<open>Properties\<close>

text \<open>
  C1. Every voice turn follows the pipeline: whatever the dependencies, the interruptions and the clock
  do, the states a finished turn reports to the observer, all under its own identity, are
  idle, then some of listening, transcribing, wake detected, thinking, synthesizing and
  speaking in this order and each at most once, then exactly one final state, which matches the
  error returned: idle for success and for a recoverable stage failure, interrupted for an
  interruption, stopping for a cancellation.
\<close>

theorem turn_follows_pipeline:
  assumes "runTurn c turn w = Some ((res, err), w')"
  shows "\<exists>mid f. States (Trace res) = StateIdle # mid @ [f] \<and>
    sorted_wrt (<) (map rank mid) \<and> (\<forall>s \<in> set mid. 0 < rank s) \<and> exit_ok f err \<and>
    events (trec w') = map (\<lambda>s. \<lparr>evTurn = turn, evState = s\<rparr>) (States (Trace res))"
  using runTurn_ends [OF assms] by auto

text \<open>
  The trace of a turn names the error it returned: once a turn has begun to listen, the error code
  in its trace is the code of the returned error, and no code is set for a turn without
  error.
\<close>

theorem trace_error_matches_result:
  assumes "runTurn c turn w = Some ((res, err), w')" "StateListening \<in> set (States (Trace res))"
  shows "TraceError (Trace res) = map_option Code err \<and> TurnID (Trace res) = turn"
proof -
  obtain mid f where m: "States (Trace res) = StateIdle # mid @ [f]" "exit_ok f err"
    "mid \<noteq> [] \<or> f = StateIdle \<longrightarrow> TraceError (Trace res) = map_option Code err" "TurnID (Trace res) = turn"
    using runTurn_ends [OF assms(1)] by blast
  have "f \<noteq> StateListening" using m(2) by (auto simp: exit_ok_def split: option.splits)
  with assms(2) m(1) have "mid \<noteq> []" by auto
  with m show ?thesis by simp
qed

text \<open>
  The voice loop survives every turn: no failure of a dependency, no interruption and no
  cancellation makes \<^verbatim>\<open>Run\<close> return an error; when it returns at all, it returns nil.
\<close>

theorem run_returns_no_error:
  assumes "Run c n w = Some (err, n', w')"
  shows "err = None"
  using assms runLoop_no_error by (auto simp: Run_def bind_eq_Some_conv)

subsection \<open>A concrete turn\<close>

definition demo_coordinator :: coordinator where
  "demo_coordinator = \<lparr>streamingResponder = False, streamingPlayer = False, wakeDetector = None,
     interruptSource = True, partialMetric = None\<rparr>"

definition demo_audio :: buffer where
  "demo_audio = \<lparr>Samples = [0, 1 / 2], SampleRate = 16000, Channels = 1\<rparr>"

definition demo_world :: "action list \<Rightarrow> world" where
  "demo_world as = \<lparr>parentCtx = None, turnCtx = Live, workersCtx = None, wclock = 0, activeTurn = 0,
     busy = (\<lambda>_. None), results = [], responses = [], deltas = [], sched = as, dlog = [],
     trec = newTurnRecorder 0 0\<rparr>"

definition demo_turn :: "action list" where
  "demo_turn = [Proceed, PickSend, CaptureDone demo_audio None, PickResult,
     PickSend, TranscribeDone ''hi'' None, PickResult, PickSend, RespondDone ''yes'' None, PickResult,
     PickSend, SynthesizeDone demo_audio None, PickResult, PickSend, PlaybackDone None, PickResult, Proceed]"



lemma trim_demo: "trim_space ''hi'' = ''hi''" "trim_space ''yes'' = ''yes''" by code_simp+

lemmas demo_simps = demo_coordinator_def demo_world_def demo_turn_def demo_audio_def
  execute_def submit_def await_def complete_def publish_def blank_result_def accept_def
  call_of_def mkRequest_def set_stage_results_def stage_results_def settle_def emitW_def logW_def ctx_of_def
  resultsCap_def chan_can_send_def Empty_def Validate_def Clone_def no_buffer_def bind_eq_Some_conv
  supportsStreaming_def applyWakeGate_def Let_def playbackErr_def runTurn_def beginTurn_def turnBody_def
  endTurn_def recorder_simps no_result_def no_trace_def

lemma demo_turn_runs:
  "\<exists>res w. runTurn demo_coordinator 1 (demo_world demo_turn) = Some ((res, None), w) \<and> Reply res = ''yes'' \<and>
     States (Trace res) = [StateIdle, StateListening, StateTranscribing, StateThinking, StateSynthesizing,
       StateSpeaking, StateIdle]"
  by (simp add: demo_simps afterCapture_def respondTo_def completeBufferedResponse_def
      synthesizeBufferedReply_def lastCheck_def succeed_def trim_demo set_outcome_def set_reply_def
      set_transcript_def set_samples_def)

definition demo_session :: "action list" where
  "demo_session = [Proceed, Proceed, PickSend, CaptureDone no_buffer None, PickResult, ParentEnds Canceled]"

lemma demo_session_runs: "\<exists>err w. Run demo_coordinator 0 (demo_world demo_session) = Some (err, 1, w)"
  by (simp add: demo_session_def Run_def newWorkerSet_def runLoop.simps [of _ 0] runLoop.simps [of _ "Suc 0"] demo_simps
     noop_def set_noop_def set_outcome_def afterTurn_def)

theorem turn_follows_pipeline_witness:
  "\<exists>res err w mid f. runTurn demo_coordinator 1 (demo_world demo_turn) = Some ((res, err), w) \<and>
    Reply res = ''yes'' \<and> States (Trace res) = StateIdle # mid @ [f] \<and>
    sorted_wrt (<) (map rank mid) \<and> exit_ok f err"
proof -
  obtain res w where "runTurn demo_coordinator 1 (demo_world demo_turn) = Some ((res, None), w)" "Reply res = ''yes''"
    using demo_turn_runs by blast
  then show ?thesis using turn_follows_pipeline [of demo_coordinator 1 "demo_world demo_turn" res None w] by blast
qed

theorem trace_error_matches_result_witness:
  "\<exists>res err w. runTurn demo_coordinator 1 (demo_world demo_turn) = Some ((res, err), w) \<and>
    TraceError (Trace res) = map_option Code err \<and> TurnID (Trace res) = 1"
proof -
  obtain res w where "runTurn demo_coordinator 1 (demo_world demo_turn) = Some ((res, None), w)"
    "StateListening \<in> set (States (Trace res))"
    using demo_turn_runs by auto
  then show ?thesis
    using trace_error_matches_result [of demo_coordinator 1 "demo_world demo_turn" res None w] by auto
qed

theorem run_returns_no_error_witness:
  "\<exists>w. Run demo_coordinator 0 (demo_world demo_session) = Some (None, 1, w)"
proof -
  obtain err w where "Run demo_coordinator 0 (demo_world demo_session) = Some (err, 1, w)"
    using demo_session_runs by blast
  with run_returns_no_error [OF this] show ?thesis by auto
qed

end
