(* ===== verification/Turn_Calls.thy ===== *)
theory Turn_Calls
  imports Coordinator
begin

section \<open>Which dependency calls a turn makes\<close>

text \<open>
  The calls a turn makes on its dependencies, in order: one capture, one transcription, the
  wake gate, at most one request to the responder, and only then synthesis and playback,
  all under the identity of the turn.
\<close>

text \<open>The calls that produce output.\<close>

fun output_call :: "turn_id \<Rightarrow> dep_call \<Rightarrow> bool" where
  "output_call turn (CallSynthesize t _) = (t = turn)"
| "output_call turn (CallPlay t _) = (t = turn)"
| "output_call turn (CallWrite t _) = (t = turn)"
| "output_call turn (CallFinish t) = (t = turn)"
| "output_call turn (CallStop t) = (t = turn)"
| "output_call turn (ShowAssistant _) = True"
| "output_call turn NoCall = True"
| "output_call turn DirectStop = True"
| "output_call turn _ = False"

definition outputs :: "turn_id \<Rightarrow> world \<Rightarrow> world \<Rightarrow> bool" where
  "outputs turn w w' \<longleftrightarrow> (\<exists>ds. dlog w' = dlog w @ ds \<and> (\<forall>d \<in> set ds. output_call turn d))"

lemma outputs_refl [simp]: "outputs turn w w"
  by (simp add: outputs_def)

lemma outputs_trans: "outputs turn a b \<Longrightarrow> outputs turn b c \<Longrightarrow> outputs turn a c"
  by (auto simp: outputs_def)

lemma outputs_same: "dlog w' = dlog w \<Longrightarrow> outputs turn w w'"
  by (simp add: outputs_def)

lemma dlog_emitW [simp]: "dlog (emitW s w) = dlog w"
  by (simp add: emitW_def)

lemma outputs_execute:
  assumes "execute c cr g (mkRequest turn cr' b s f) w = Some (out, w')"
    "g \<notin> {StageCapture, StageTranscribe, StageRespond}"
  shows "outputs turn w w'"
proof -
  obtain calls where calls: "dlog w' = dlog w @ calls" "set calls \<subseteq> {call_of c ((mkRequest turn cr' b s f)\<lparr>reqTarget := g\<rparr>)}"
    using execute_frame [OF assms(1)] by blast
  have "output_call turn (call_of c ((mkRequest turn cr' b s f)\<lparr>reqTarget := g\<rparr>))"
    using assms(2) by (cases g) (auto simp: call_of_def mkRequest_def)
  with calls show ?thesis unfolding outputs_def by blast
qed

lemma dlog_tail [simp]:
  "dlog (snd (fail c code e res w)) = dlog w" "dlog (snd (succeed res w)) = dlog w"
  "dlog (snd (lastCheck c res w)) = dlog w" "dlog (snd (noop s res w)) = dlog w"
  by (simp_all add: fail_def succeed_def lastCheck_def noop_def Let_def split: ctx.split option.split)

lemma outputs_tail [simp]:
  "outputs turn w (snd (fail c code e res w))" "outputs turn w (snd (succeed res w))"
  "outputs turn w (snd (lastCheck c res w))" "outputs turn w (logW (ShowAssistant s) w)"
  by (simp_all add: outputs_same) (simp add: outputs_def logW_def)

lemma outputs_synthesizeBufferedReply:
  assumes "synthesizeBufferedReply c turn res w = Some out"
  shows "outputs turn w (snd out)"
proof -
  obtain syn w1 where e: "execute c TurnContext StageSynthesize
      (mkRequest turn TurnContext no_buffer (Reply res) False) (emitW StateSynthesizing w) = Some (syn, w1)"
    using assms(1) by (auto simp: synthesizeBufferedReply_def bind_eq_Some_conv)
  have 1: "outputs turn w w1"
    using outputs_execute [OF e] outputs_trans [OF outputs_same [of "emitW StateSynthesizing w" w]] by simp
  have "outputs turn w1 (snd out)"
  proof (cases "\<exists>b. syn = Inr b \<and> \<not> Empty (resBuffer b) \<and> Validate (resBuffer b) = None")
    case False
    with assms e show ?thesis
      by (auto simp: synthesizeBufferedReply_def split: sum.splits option.splits if_splits)
  next
    case True
    then obtain b where b: "syn = Inr b" "\<not> Empty (resBuffer b)" "Validate (resBuffer b) = None" by blast
    obtain pl w2 where p: "execute c TurnContext StagePlayback
        (mkRequest turn TurnContext (Clone (resBuffer b)) [] False) (emitW StateSpeaking w1) = Some (pl, w2)"
      using assms(1) e b by (auto simp: synthesizeBufferedReply_def bind_eq_Some_conv)
    have "outputs turn w1 w2"
      using outputs_execute [OF p] outputs_trans [OF outputs_same [of "emitW StateSpeaking w1" w1]] by simp
    moreover have "outputs turn w2 (snd out)"
      using assms e b p by (auto simp: synthesizeBufferedReply_def split: sum.splits)
    ultimately show ?thesis by (rule outputs_trans)
  qed
  with 1 show ?thesis by (rule outputs_trans)
qed

lemma dlog_stream_state [simp]:
  "dlog (snd (enterSynthesizing st w)) = dlog w" "dlog (snd (enterSpeaking st w)) = dlog w"
  "dlog (snd (noteWritten st w)) = dlog w"
  by (simp_all add: enterSynthesizing_def enterSpeaking_def noteWritten_def Let_def)

lemma outputs_playStreamingPhrases:
  "playStreamingPhrases c turn ps st w = Some (out, w') \<Longrightarrow> outputs turn w w'"
proof (induction ps arbitrary: st w)
  case (Cons p ps)
  show ?case
  proof (cases "trim_space p = []")
    case True
    with Cons show ?thesis by simp
  next
    case False
    obtain st1 w1 where 1: "enterSynthesizing st w = (st1, w1)" by fastforce
    obtain syn w2 where e: "execute c TurnContext StageSynthesize
        (mkRequest turn TurnContext no_buffer (trim_space p) False) w1 = Some (syn, w2)"
      using Cons.prems(1) False 1 by (auto simp: bind_eq_Some_conv)
    have "dlog w1 = dlog w" using dlog_stream_state(1) [of st w] 1 by simp
    then have 2: "outputs turn w w2" using outputs_execute [OF e] by (simp add: outputs_def)
    show ?thesis
    proof (cases "\<exists>b. syn = Inr b \<and> \<not> Empty (resBuffer b) \<and> Validate (resBuffer b) = None")
      case False: False
      have "w' = w2 \<or> playStreamingPhrases c turn ps st1 w2 = Some (out, w')"
        using Cons.prems \<open>trim_space p \<noteq> []\<close> 1 e False
        by (auto split: sum.splits if_splits option.splits)
      with 2 Cons.IH outputs_trans show ?thesis by blast
    next
      case True
      then obtain b where b: "syn = Inr b" "\<not> Empty (resBuffer b)" "Validate (resBuffer b) = None" by blast
      obtain st2 w3 where s: "enterSpeaking st1 w2 = (st2, w3)" by fastforce
      obtain wr w4 where x: "execute c TurnContext StagePlaybackWrite
          (mkRequest turn TurnContext (Clone (resBuffer b)) [] False) w3 = Some (wr, w4)"
        using Cons.prems(1) False 1 e b s by (auto simp: bind_eq_Some_conv)
      have "dlog w3 = dlog w2" using dlog_stream_state(2) [of st1 w2] s by simp
      then have 4: "outputs turn w w4"
        using outputs_execute [OF x] 2 outputs_trans by (auto simp: outputs_def)
      obtain st3 w5 where n: "noteWritten st2 w4 = (st3, w5)" by fastforce
      have "outputs turn w4 w5" using dlog_stream_state(3) [of st2 w4] n by (simp add: outputs_same)
      with 4 have 5: "outputs turn w w5" by (rule outputs_trans)
      have "w' = w4 \<or> playStreamingPhrases c turn ps st3 w5 = Some (out, w')"
        using Cons.prems False 1 e b s x n by (auto split: sum.splits)
      with 4 5 Cons.IH outputs_trans show ?thesis by blast
    qed
  qed
qed simp

lemma outputs_handleDelta:
  assumes "handleDelta c turn d st w = Some (out, w')"
  shows "outputs turn w w'"
proof -
  obtain st1 w1 ps where "playStreamingPhrases c turn ps st1 w1 = Some (out, w')" "dlog w1 = dlog w"
    using assms by (auto simp: handleDelta_def case_prod_unfold Let_def split: if_splits)
  then show ?thesis using outputs_playStreamingPhrases by (fastforce simp: outputs_def)
qed

lemma outputs_streamStep:
  assumes "streamStep c turn st w = Some (out, w')"
  shows "outputs turn w w'"
proof -
  obtain a as where a: "sched w = a # as" using assms(1) by (auto simp: streamStep_def split: list.splits)
  show ?thesis
  proof (cases "a \<in> {PickTurnDone, PickWorkersDone, PickDelta, PickResult}")
    case False
    with assms have "w' = env_step c a (w\<lparr>sched := as\<rparr>)" by (simp add: streamStep_env [OF a] del: env_step.simps)
    then show ?thesis by (intro outputs_same) simp
  next
    case True
    show ?thesis
    proof (cases "\<exists>d q. a = PickDelta \<and> deltas w = d # q \<and> deltaTurn d = turn \<and> deltaText d \<noteq> []")
      case False
      with assms a \<open>a \<in> _\<close> show ?thesis
        by (auto simp: streamStep_def Let_def split: list.splits if_splits intro!: outputs_same)
    next
      case True
      then obtain d q where d: "a = PickDelta" "deltas w = d # q" "deltaTurn d = turn" "deltaText d \<noteq> []" by blast
      obtain o1 where "handleDelta c turn (deltaText d) st (w\<lparr>sched := as, deltas := q\<rparr>) = Some (o1, w')"
        using assms a d by (auto simp: streamStep_def bind_eq_Some_conv)
      from outputs_handleDelta [OF this] show ?thesis by (simp add: outputs_def)
    qed
  qed
qed

lemma outputs_streamLoop:
  assumes "streamLoop c turn st w = Some out"
  shows "outputs turn w (snd out)"
  by (rule streamLoop_rule [OF assms]) (auto dest: outputs_streamStep intro: outputs_trans)

lemma outputs_drainStep:
  assumes "drainStep c turn st w = Some (out, w')"
  shows "outputs turn w w'"
proof (cases "\<exists>d q. deltas w = d # q \<and> deltaTurn d = turn \<and> deltaText d \<noteq> []")
  case False
  with assms show ?thesis
    by (auto simp: drainStep_def Let_def split: list.splits if_splits intro!: outputs_same)
next
  case True
  then obtain d q where d: "deltas w = d # q" "deltaTurn d = turn" "deltaText d \<noteq> []" by blast
  obtain o1 where "handleDelta c turn (deltaText d) st (w\<lparr>deltas := q\<rparr>) = Some (o1, w')"
    using assms d by (auto simp: drainStep_def bind_eq_Some_conv)
  from outputs_handleDelta [OF this] show ?thesis by (simp add: outputs_def)
qed

lemma outputs_drainDeltas:
  assumes "drainDeltas c turn st w = Some out"
  shows "outputs turn w (snd out)"
  by (rule drainDeltas_rule [OF assms]) (auto dest: outputs_drainStep intro: outputs_trans)

lemma outputs_abortAndFail:
  assumes "abortAndFail c turn code e st res w = Some out"
  shows "outputs turn w (snd out)"
proof -
  obtain w1 where w1: "abortStreamingPlayback c turn st w = Some w1" "out = fail c code e res w1"
    using assms(1) by (auto simp: abortAndFail_def bind_eq_Some_conv)
  have "outputs turn w w1"
  proof (cases "speakingState st \<and> workersCtx (settle c w) = None")
    case False
    with w1(1) show ?thesis
      by (auto simp: abortStreamingPlayback_def outputs_def logW_def Let_def split: if_splits option.splits)
  next
    case True
    define cr where "cr = (if turnCtx (settle c w) = Live then TurnContext else Background)"
    obtain r where "execute c cr StagePlaybackStop (mkRequest turn cr no_buffer [] False) (settle c w) = Some (r, w1)"
      using True w1(1) by (auto simp: abortStreamingPlayback_def cr_def Let_def bind_eq_Some_conv)
    from outputs_execute [OF this] show ?thesis by (simp add: outputs_def)
  qed
  with w1(2) show ?thesis using outputs_trans outputs_tail(1) by blast
qed

lemma outputs_finishStreaming:
  assumes "finishStreaming c turn st res w = Some out"
  shows "outputs turn w (snd out)"
proof -
  let ?st = "st\<lparr>sentenceBuilder := snd (Flush (sentenceBuilder st))\<rparr>"
  obtain err st1 w1 where p: "playStreamingPhrases c turn (fst (Flush (sentenceBuilder st))) ?st w = Some ((err, st1), w1)"
    using assms(1) by (auto simp: finishStreaming_def case_prod_unfold Let_def bind_eq_Some_conv)
  have "outputs turn w1 (snd out)"
  proof (cases err)
    case (Some ce)
    obtain code e where ce: "ce = (code, e)" by fastforce
    with Some assms(1) p have "abortAndFail c turn code e st1 res w1 = Some out"
      by (auto simp: finishStreaming_def case_prod_unfold Let_def)
    then show ?thesis by (rule outputs_abortAndFail)
  next
    case None
    obtain f w2 where f: "finishPlayback c turn st1 w1 = Some (f, w2)"
      using assms(1) p None by (auto simp: finishStreaming_def case_prod_unfold Let_def bind_eq_Some_conv)
    have "outputs turn w1 w2"
      using f outputs_execute by (fastforce simp: finishPlayback_def bind_eq_Some_conv split: if_splits)
    moreover have "outputs turn w2 (snd out)"
      using assms p None f by (auto simp: finishStreaming_def case_prod_unfold Let_def split: option.splits)
    ultimately show ?thesis by (rule outputs_trans)
  qed
  with outputs_playStreamingPhrases [OF p] show ?thesis by (rule outputs_trans)
qed

text \<open>After the response has been requested, a streaming turn only produces output.\<close>

lemma completeStreamingResponse_calls:
  assumes "completeStreamingResponse c turn s res w = Some out" "streamingResponder c"
  shows "dlog (snd out) = dlog w \<or>
    (\<exists>tl. dlog (snd out) = dlog w @ CallRespondStream turn s # tl \<and> (\<forall>d \<in> set tl. output_call turn d))"
proof -
  let ?req = "mkRequest turn TurnContext no_buffer s True"
  obtain e w1 where s: "submit c TurnContext StageRespond ?req w = Some (e, w1)"
    using assms(1) by (auto simp: completeStreamingResponse_def bind_eq_Some_conv)
  have call: "call_of c (?req\<lparr>reqTarget := StageRespond\<rparr>) = CallRespondStream turn s"
    using assms(2) by (simp add: call_of_def mkRequest_def)
  show ?thesis
  proof (cases e)
    case (Some er)
    with assms(1) s submit_frame [OF s] show ?thesis by (auto simp: completeStreamingResponse_def)
  next
    case None
    obtain ex st w2 where l: "streamLoop c turn newStreamingTurnState w1 = Some ((ex, st), w2)"
      using assms(1) s None by (auto simp: completeStreamingResponse_def bind_eq_Some_conv)
    have "outputs turn w2 (snd out)"
    proof (cases "\<exists>r. ex = StreamResponse r \<and> resErr r = None")
      case False
      then obtain code er where "abortAndFail c turn code er st res w2 = Some out"
        using assms(1) s None l by (cases ex) (auto simp: completeStreamingResponse_def)
      then show ?thesis by (rule outputs_abortAndFail)
    next
      case True
      then obtain r where r: "ex = StreamResponse r" "resErr r = None" by blast
      obtain derr st1 w3 where d: "drainDeltas c turn st w2 = Some ((derr, st1), w3)"
        using assms(1) s None l r by (auto simp: completeStreamingResponse_def bind_eq_Some_conv)
      let ?res = "set_reply (trim_space (resReply r)) res"
      let ?w4 = "logW (ShowAssistant (Reply ?res)) w3"
      have "(\<exists>code er. abortAndFail c turn code er st1 res w3 = Some out) \<or>
          synthesizeBufferedReply c turn ?res ?w4 = Some out \<or> finishStreaming c turn st1 ?res ?w4 = Some out"
        using assms(1) s None l r d
        by (cases derr) (auto simp: completeStreamingResponse_def Let_def split: if_splits prod.splits)
      then have "outputs turn w3 (snd out) \<or> outputs turn ?w4 (snd out)"
        by (auto dest: outputs_abortAndFail outputs_synthesizeBufferedReply outputs_finishStreaming)
      then have "outputs turn w3 (snd out)" using outputs_trans [OF outputs_tail(4)] by fast
      with outputs_drainDeltas [OF d] show ?thesis using outputs_trans by simp
    qed
    with outputs_streamLoop [OF l] have "outputs turn w1 (snd out)" using outputs_trans by simp
    with submit_frame [OF s] None call show ?thesis by (auto simp: outputs_def)
  qed
qed

lemma execute_calls:
  assumes "execute c cr g req w = Some (out, w')"
  shows "dlog w' = dlog w \<or> dlog w' = dlog w @ [call_of c (req\<lparr>reqTarget := g\<rparr>)]"
proof -
  obtain e w1 where s: "submit c cr g req w = Some (e, w1)"
    using assms by (auto simp: execute_def bind_eq_Some_conv)
  show ?thesis
  proof (cases e)
    case (Some er)
    with assms s submit_frame [OF s] show ?thesis by (auto simp: execute_def)
  next
    case None
    then obtain o2 w2 where "await c cr (reqTurn req) g w1 = Some (o2, w2)"
      using assms s by (auto simp: execute_def bind_eq_Some_conv)
    moreover from this have "w2 = w'"
      using assms s None by (auto simp: execute_def split: sum.splits option.splits)
    ultimately have "await c cr (reqTurn req) g w1 = Some (o2, w')" by simp
    with awaitLoop_frame submit_frame [OF s] None show ?thesis unfolding await_def by fastforce
  qed
qed

lemma completeBufferedResponse_calls:
  assumes "completeBufferedResponse c turn s res w = Some out"
  shows "dlog (snd out) = dlog w \<or>
    (\<exists>tl. dlog (snd out) = dlog w @ CallRespond turn s # tl \<and> (\<forall>d \<in> set tl. output_call turn d))"
proof -
  let ?req = "mkRequest turn TurnContext no_buffer s False"
  obtain r w1 where e: "execute c TurnContext StageRespond ?req w = Some (r, w1)"
    using assms(1) by (auto simp: completeBufferedResponse_def bind_eq_Some_conv)
  have call: "call_of c (?req\<lparr>reqTarget := StageRespond\<rparr>) = CallRespond turn s"
    by (simp add: call_of_def mkRequest_def)
  show ?thesis
  proof (cases r)
    case (Inl err)
    then have "dlog (snd out) = dlog w1" using assms e by (auto simp: completeBufferedResponse_def)
    with execute_calls [OF e] call show ?thesis by auto
  next
    case (Inr x)
    let ?res = "set_reply (trim_space (resReply x)) res"
    have "synthesizeBufferedReply c turn ?res (logW (ShowAssistant (Reply ?res)) w1) = Some out"
      using assms(1) e Inr by (auto simp: completeBufferedResponse_def Let_def)
    from outputs_trans [OF outputs_tail(4) outputs_synthesizeBufferedReply [OF this]]
    have "outputs turn w1 (snd out)" .
    moreover have "dlog w1 = dlog w @ [CallRespond turn s]" using execute_frame [OF e] Inr call by simp
    ultimately show ?thesis by (auto simp: outputs_def)
  qed
qed

text \<open>A command the wake gate lets through; without a detector every non-empty transcript is one.\<close>

definition accepted :: "coordinator \<Rightarrow> string \<Rightarrow> bool" where
  "accepted c s \<longleftrightarrow>
     (case wakeDetector c of
        None \<Rightarrow> s \<noteq> [] \<and> trimmed s
      | Some detect \<Rightarrow> \<exists>transcript command. detect transcript = (command, True) \<and> s = trim_space command)"

definition turn_calls :: "coordinator \<Rightarrow> turn_id \<Rightarrow> dep_call list \<Rightarrow> bool" where
  "turn_calls c turn ds \<longleftrightarrow>
     (\<exists>k b s r tl. ds = take k [CallNext turn, CallTranscribe turn b, ShowUser s, r] @ tl \<and>
        r \<in> {CallRespond turn s, CallRespondStream turn s} \<and> (k < 4 \<longrightarrow> tl = []) \<and>
        (2 < k \<longrightarrow> accepted c s) \<and> (\<forall>d \<in> set tl. output_call turn d))"

lemma respondTo_calls:
  assumes "respondTo c turn s res w = Some out"
  shows "\<exists>r tl. dlog (snd out) = dlog w @ [ShowUser s] \<or>
    dlog (snd out) = dlog w @ [ShowUser s, r] @ tl \<and> r \<in> {CallRespond turn s, CallRespondStream turn s} \<and>
      (\<forall>d \<in> set tl. output_call turn d)"
proof -
  let ?w1 = "emitW StateThinking (logW (ShowUser s) w)"
  have log: "dlog ?w1 = dlog w @ [ShowUser s]" by (simp add: logW_def)
  show ?thesis
  proof (cases "supportsStreaming c")
    case True
    then have "completeStreamingResponse c turn s res ?w1 = Some out" "streamingResponder c"
      using assms by (simp_all add: respondTo_def supportsStreaming_def)
    from completeStreamingResponse_calls [OF this] log show ?thesis by auto
  next
    case False
    then have "completeBufferedResponse c turn s res ?w1 = Some out"
      using assms by (simp add: respondTo_def)
    from completeBufferedResponse_calls [OF this] log show ?thesis by auto
  qed
qed

lemma applyWakeGate_accepted:
  "applyWakeGate c tr w = (Some s, w') \<Longrightarrow> tr \<noteq> [] \<Longrightarrow> trimmed tr \<Longrightarrow> accepted c s \<and> dlog w' = dlog w"
  by (auto simp: applyWakeGate_def accepted_def split: option.splits prod.splits if_splits)

lemma applyWakeGate_refused: "applyWakeGate c tr w = (None, w') \<Longrightarrow> dlog w' = dlog w"
  by (auto simp: applyWakeGate_def split: option.splits prod.splits if_splits)

text \<open>The calls after a capture: nothing, the transcription, or everything up to the response.\<close>

lemma afterCapture_calls:
  assumes "afterCapture c turn b res w = Some out"
  shows "\<exists>k s r tl. dlog (snd out) = dlog w @ take k [CallTranscribe turn b, ShowUser s, r] @ tl \<and>
    r \<in> {CallRespond turn s, CallRespondStream turn s} \<and> (k < 3 \<longrightarrow> tl = []) \<and>
    (1 < k \<longrightarrow> accepted c s) \<and> (\<forall>d \<in> set tl. output_call turn d)"
    (is "\<exists>k s r tl. ?P k s r tl")
proof -
  let ?req = "mkRequest turn TurnContext (Clone b) [] False"
  obtain tr w1 where e: "execute c TurnContext StageTranscribe ?req (emitW StateTranscribing w) = Some (tr, w1)"
    using assms by (auto simp: afterCapture_def bind_eq_Some_conv Let_def)
  have call: "call_of c (?req\<lparr>reqTarget := StageTranscribe\<rparr>) = CallTranscribe turn b"
    by (simp add: call_of_def mkRequest_def Clone_def)
  let ?s = "trim_space (resText (projr tr))"
  show ?thesis
  proof (cases "isl tr \<or> ?s = [] \<or> fst (applyWakeGate c ?s w1) = None")
    case True
    then have "dlog (snd out) = dlog w1"
      using assms e
      by (auto simp: afterCapture_def Let_def applyWakeGate_refused split: sum.splits if_splits prod.splits option.splits)
    with execute_calls [OF e] call have "?P 0 [] (CallRespond turn []) [] \<or> ?P 1 [] (CallRespond turn []) []"
      by auto
    then show ?thesis by blast
  next
    case False
    then obtain x s w2 where x: "tr = Inr x" "applyWakeGate c ?s w1 = (Some s, w2)" "?s \<noteq> []"
      by (cases tr) (auto simp: prod_eq_iff)
    obtain res1 where "respondTo c turn s res1 w2 = Some out"
      using assms e x by (auto simp: afterCapture_def Let_def split: if_splits)
    then obtain r tl where r: "dlog (snd out) = dlog w2 @ [ShowUser s] \<or>
        dlog (snd out) = dlog w2 @ [ShowUser s, r] @ tl \<and> r \<in> {CallRespond turn s, CallRespondStream turn s} \<and>
        (\<forall>d \<in> set tl. output_call turn d)"
      using respondTo_calls by blast
    have "accepted c s" "dlog w2 = dlog w @ [CallTranscribe turn b]"
      using applyWakeGate_accepted [OF x(2,3) trimmed_trim_space] execute_frame [OF e] x(1) call by auto
    with r have "?P 2 s (CallRespond turn s) [] \<or> ?P 3 s r tl" by auto
    then show ?thesis by blast
  qed
qed

lemma turn_calls_short: "turn_calls c turn []" "turn_calls c turn [CallNext turn]"
proof -
  show "turn_calls c turn []" unfolding turn_calls_def by (rule exI [of _ 0]) auto
  show "turn_calls c turn [CallNext turn]" unfolding turn_calls_def by (rule exI [of _ 1]) auto
qed

lemma runTurn_calls:
  assumes "runTurn c turn w = Some (out, w')"
  shows "\<exists>ds. dlog w' = dlog w @ ds \<and> turn_calls c turn ds"
proof -
  let ?w0 = "settle c (beginTurn turn w)"
  let ?req = "mkRequest turn TurnContext no_buffer [] False"
  obtain o1 where b: "turnBody c turn (beginTurn turn w) = Some o1" "dlog w' = dlog (snd o1)"
    using assms by (auto simp: runTurn_def endTurn_def bind_eq_Some_conv)
  have w0: "dlog ?w0 = dlog w" by (simp add: beginTurn_def)
  show ?thesis
  proof (cases "ctx_err (turnCtx ?w0)")
    case (Some e)
    with b w0 have "dlog w' = dlog w" by (auto simp: turnBody_def Let_def)
    then show ?thesis using turn_calls_short by auto
  next
    case None
    obtain cap w1 where e: "execute c TurnContext StageCapture ?req (emitW StateListening ?w0) = Some (cap, w1)"
      using b(1) None by (auto simp: turnBody_def Let_def bind_eq_Some_conv)
    have call: "call_of c (?req\<lparr>reqTarget := StageCapture\<rparr>) = CallNext turn"
      by (simp add: call_of_def mkRequest_def)
    have log1: "dlog w1 = dlog w \<or> dlog w1 = dlog w @ [CallNext turn]"
      using execute_calls [OF e] call w0 by simp
    show ?thesis
    proof (cases "\<exists>x. cap = Inr x \<and> \<not> Empty (resBuffer x) \<and> Validate (resBuffer x) = None")
      case False
      with b None e have "dlog w' = dlog w1"
        by (auto simp: turnBody_def Let_def split: sum.splits option.splits if_splits)
      with log1 show ?thesis using turn_calls_short by auto
    next
      case True
      then obtain x where x: "cap = Inr x" "\<not> Empty (resBuffer x)" "Validate (resBuffer x) = None" by blast
      have "afterCapture c turn (resBuffer x) no_result w1 = Some o1"
        using b(1) None e x by (auto simp: turnBody_def Let_def)
      from afterCapture_calls [OF this] obtain k s r tl where k:
        "dlog (snd o1) = dlog w1 @ take k [CallTranscribe turn (resBuffer x), ShowUser s, r] @ tl"
        "r \<in> {CallRespond turn s, CallRespondStream turn s}" "k < 3 \<longrightarrow> tl = []" "1 < k \<longrightarrow> accepted c s"
        "\<forall>d \<in> set tl. output_call turn d" by blast
      have "dlog w1 = dlog w @ [CallNext turn]" using execute_frame [OF e] x(1) call w0 by auto
      with k(1) b(2) have "dlog w' = dlog w @ take (Suc k) [CallNext turn, CallTranscribe turn (resBuffer x), ShowUser s, r] @ tl"
        by simp
      moreover have "turn_calls c turn (take (Suc k) [CallNext turn, CallTranscribe turn (resBuffer x), ShowUser s, r] @ tl)"
        unfolding turn_calls_def using k(2-)
        by (intro exI [of _ "Suc k"] exI [of _ "resBuffer x"] exI [of _ s] exI [of _ r] exI [of _ tl]) auto
      ultimately show ?thesis by blast
    qed
  qed
qed

subsection \<open>Answers are matched to requests\<close>

text \<open>
  Workers outlive the turns that gave up on them, so their results may arrive when nobody waits
  for them any more.  \<open>unanswered turn g w\<close> counts the requests of a turn and stage that a worker still
  holds or whose result was not taken yet.
\<close>

definition answers :: "turn_id \<Rightarrow> stage \<Rightarrow> stageResult \<Rightarrow> bool" where
  "answers turn g r \<longleftrightarrow> resTurn r = turn \<and> resStage r = g"

definition held :: "turn_id \<Rightarrow> stage \<Rightarrow> world \<Rightarrow> nat" where
  "held turn g w =
     (case busy w (worker_of g) of None \<Rightarrow> 0 | Some q \<Rightarrow> of_bool (reqTurn q = turn \<and> reqTarget q = g))"

definition unanswered :: "turn_id \<Rightarrow> stage \<Rightarrow> world \<Rightarrow> nat" where
  "unanswered turn g w = held turn g w + length (filter (answers turn g) (results w @ responses w))"

definition workers_ok :: "world \<Rightarrow> bool" where
  "workers_ok w \<longleftrightarrow>
     (\<forall>k q. busy w k = Some q \<longrightarrow> worker_of (reqTarget q) = k) \<and>
     (\<forall>r \<in> set (results w @ responses w). resTurn r = reqTurn (resFor r) \<and> resStage r = reqTarget (resFor r))"

text \<open>Every request of the turn and stage that is under way or answered satisfies \<open>P\<close>.\<close>

definition all_from :: "turn_id \<Rightarrow> stage \<Rightarrow> (stageRequest \<Rightarrow> bool) \<Rightarrow> world \<Rightarrow> bool" where
  "all_from turn g P w \<longleftrightarrow>
     (\<forall>k q. busy w k = Some q \<and> reqTurn q = turn \<and> reqTarget q = g \<longrightarrow> P q) \<and>
     (\<forall>r \<in> set (results w @ responses w). answers turn g r \<longrightarrow> P (resFor r))"

definition progress :: "turn_id \<Rightarrow> stage \<Rightarrow> world \<Rightarrow> world \<Rightarrow> bool" where
  "progress turn g w w' \<longleftrightarrow> workers_ok w' \<and> unanswered turn g w' \<le> unanswered turn g w \<and>
     (\<forall>P. all_from turn g P w \<longrightarrow> all_from turn g P w')"

lemma progress_refl: "workers_ok w \<Longrightarrow> progress turn g w w"
  by (simp add: progress_def)

lemma progress_trans: "progress turn g a b \<Longrightarrow> progress turn g b c \<Longrightarrow> progress turn g a c"
  by (auto simp: progress_def)

lemma progress_same:
  "workers_ok w \<Longrightarrow> busy w' = busy w \<Longrightarrow> results w' = results w \<Longrightarrow> responses w' = responses w \<Longrightarrow> progress turn g w w'"
  by (auto simp add: progress_def workers_ok_def unanswered_def held_def all_from_def)

lemma progress_complete:
  assumes "workers_ok w" "\<And>q. resTurn (f q) = reqTurn q \<and> resStage (f q) = reqTarget q \<and> resFor (f q) = q"
  shows "progress turn g w (complete k f w)"
proof (cases "busy w k")
  case None
  with assms(1) show ?thesis by (simp add: complete_def progress_refl)
next
  case (Some q)
  have f: "resTurn (f q) = reqTurn q" "resStage (f q) = reqTarget q" "resFor (f q) = q" using assms(2) by simp_all
  have k: "worker_of (reqTarget q) = k" using assms(1) Some by (simp add: workers_ok_def)
  let ?w = "complete k f w" and ?old = "results w @ responses w"
  show ?thesis
  proof (cases "?w = w")
    case True
    with assms(1) show ?thesis by (simp add: progress_refl)
  next
    case False
    then have b: "busy ?w = (busy w)(k := None)"
      and len: "length (filter A (results ?w @ responses ?w)) = length (filter A ?old) + of_bool (A (f q))"
      and mem: "set (results ?w @ responses ?w) = insert (f q) (set ?old)" for A
      using Some by (auto simp: complete_def publish_def split: if_splits)
    have "held turn g ?w + of_bool (answers turn g (f q)) \<le> held turn g w"
      using Some f k b by (cases "worker_of g = k") (auto simp: held_def answers_def)
    then have "unanswered turn g ?w \<le> unanswered turn g w" by (simp add: unanswered_def len del: filter_append)
    moreover have "workers_ok ?w" using assms(1) f unfolding workers_ok_def mem b by auto
    moreover have "all_from turn g P ?w" if "all_from turn g P w" for P
      using that Some f unfolding all_from_def mem b by (auto simp: answers_def)
    ultimately show ?thesis by (simp add: progress_def)
  qed
qed

lemma progress_env_step:
  assumes "workers_ok w"
  shows "progress turn g w (env_step c a w)"
proof (cases a)
  case (ResultDropped k)
  with assms show ?thesis
    by (auto simp: progress_def workers_ok_def unanswered_def held_def all_from_def split: option.splits)
next
  case (DeltaSent s)
  with assms show ?thesis by (auto simp: publishDelta_def intro!: progress_same split: option.splits)
qed (use assms in \<open>auto intro!: progress_same progress_complete progress_refl simp: blank_result_def split: option.splits\<close>)

lemma progress_settleLoop: "workers_ok w \<Longrightarrow> progress turn g w (settleLoop c as w)"
proof (induction as arbitrary: w)
  case (Cons a as)
  note e = progress_env_step [OF Cons.prems, of turn g c a]
  with Cons.IH [of "env_step c a w"] progress_trans have "progress turn g w (settleLoop c as (env_step c a w))"
    by (auto simp: progress_def)
  with Cons.prems show ?case by (simp add: progress_same)
qed (simp add: progress_same)

lemma submitLoop_accepts:
  "submitLoop c cr req as w = Some (None, w') \<Longrightarrow> workers_ok w \<Longrightarrow>
     \<exists>v. progress turn g w v \<and> busy v (worker_of (reqTarget req)) = None \<and> w' = accept c req v"
proof (induction as arbitrary: w)
  case (Cons a as)
  have go: ?case if "submitLoop c cr req as v = Some (None, w')" "progress turn g w v" for v
    using Cons.IH [OF that(1)] that(2) progress_trans unfolding progress_def by blast
  consider "a = PickSend" "busy w (worker_of (reqTarget req)) = None"
    | "submitLoop c cr req as w = Some (None, w')"
    | "submitLoop c cr req as (env_step c a w) = Some (None, w')"
    using Cons.prems(1) by (cases a) (auto split: option.splits)
  then show ?case
  proof cases
    case 1
    with Cons.prems(1) have "w' = accept c req (w\<lparr>sched := as\<rparr>)" by simp
    with 1 progress_same [OF Cons.prems(2), of "w\<lparr>sched := as\<rparr>" turn g] show ?thesis
      by (intro exI [of _ "w\<lparr>sched := as\<rparr>"]) simp
  next
    case 2
    then show ?thesis using go [of w] progress_refl [OF Cons.prems(2)] by simp
  next
    case 3
    then show ?thesis using go [of "env_step c a w"] progress_env_step [OF Cons.prems(2)] by blast
  qed
qed simp

text \<open>Taking a result that answers the request, or one that does not.\<close>

lemma take_result:
  assumes "stage_results g w = r # q" "workers_ok w"
  shows "progress turn g w (set_stage_results g q w) \<and>
    (answers turn g r \<longrightarrow> Suc (unanswered turn g (set_stage_results g q w)) = unanswered turn g w) \<and>
    r \<in> set (results w @ responses w)"
proof -
  have "(\<exists>p. results w @ responses w = p @ r # drop (Suc (length p)) (results w @ responses w) \<and>
      results (set_stage_results g q w) @ responses (set_stage_results g q w) =
        p @ drop (Suc (length p)) (results w @ responses w)) \<and> busy (set_stage_results g q w) = busy w"
    using assms(1)
    by (auto simp: stage_results_def set_stage_results_def split: if_splits
        intro: exI [of _ "results w"] exI [of _ "[]"])
  then obtain p s where ps: "results w @ responses w = p @ r # s"
    "results (set_stage_results g q w) @ responses (set_stage_results g q w) = p @ s"
    "busy (set_stage_results g q w) = busy w" by blast
  show ?thesis
    using assms(2) unfolding progress_def workers_ok_def unanswered_def all_from_def held_def ps
    by (auto simp: ps)
qed

lemma awaitLoop_takes:
  "awaitLoop c cr turn g as w = Some (Inr res, w') \<Longrightarrow> workers_ok w \<Longrightarrow>
     answers turn g res \<and> workers_ok w' \<and> Suc (unanswered turn g w') \<le> unanswered turn g w \<and>
     (\<forall>P. all_from turn g P w \<longrightarrow> P (resFor res))"
proof (induction as arbitrary: w)
  case (Cons a as)
  have go: ?case if "awaitLoop c cr turn g as v = Some (Inr res, w')" "progress turn g w v" for v
    using Cons.IH [OF that(1)] that(2) unfolding progress_def by force
  consider q where "stage_results g w = res # q" "answers turn g res" "w' = (set_stage_results g q w)\<lparr>sched := as\<rparr>"
    | r q where "stage_results g w = r # q" "awaitLoop c cr turn g as (set_stage_results g q w) = Some (Inr res, w')"
    | "awaitLoop c cr turn g as w = Some (Inr res, w')"
    | "awaitLoop c cr turn g as (env_step c a w) = Some (Inr res, w')"
    using Cons.prems(1)
    by (cases a) (auto simp: Let_def answers_def split: option.splits list.splits if_splits)
  then show ?case
  proof cases
    case 1
    note t = take_result [OF 1(1) Cons.prems(2), of turn]
    have "unanswered turn g w' = unanswered turn g (set_stage_results g q w)" "workers_ok w'"
      using t 1(3) by (simp_all add: unanswered_def held_def progress_def workers_ok_def)
    moreover have "\<forall>P. all_from turn g P w \<longrightarrow> P (resFor res)" using t 1(2) by (auto simp: all_from_def)
    ultimately show ?thesis using t 1(2) by simp
  next
    case 2
    then show ?thesis using go take_result [OF 2(1) Cons.prems(2)] by blast
  next
    case 3
    then show ?thesis using go progress_refl [OF Cons.prems(2)] by blast
  next
    case 4
    then show ?thesis using go progress_env_step [OF Cons.prems(2)] by blast
  qed
qed simp

lemma accept_unanswered:
  assumes "workers_ok v" "busy v (worker_of (reqTarget q)) = None"
  shows "workers_ok (accept c q v) \<and>
    unanswered (reqTurn q) (reqTarget q) (accept c q v) = Suc (unanswered (reqTurn q) (reqTarget q) v) \<and>
    (unanswered (reqTurn q) (reqTarget q) v = 0 \<longrightarrow> all_from (reqTurn q) (reqTarget q) (\<lambda>p. p = q) (accept c q v))"
proof -
  have "all_from (reqTurn q) (reqTarget q) (\<lambda>p. p = q) (accept c q v)" if "unanswered (reqTurn q) (reqTarget q) v = 0"
    using assms that
    by (auto simp: all_from_def accept_def unanswered_def held_def workers_ok_def filter_empty_conv answers_def)
       (metis option.distinct(1))
  with assms show ?thesis
    by (auto simp: accept_def workers_ok_def unanswered_def held_def)
qed

lemma execute_answer:
  assumes "execute c cr g req w = Some (Inr res, w')" "workers_ok w" "unanswered (reqTurn req) g w = 0"
  shows "resFor res = req\<lparr>reqTarget := g\<rparr> \<and> workers_ok w' \<and> unanswered (reqTurn req) g w' = 0"
proof -
  let ?q = "req\<lparr>reqTarget := g\<rparr>"
  obtain e w1 where s': "submit c cr g req w = Some (e, w1)"
    using assms(1) by (auto simp: execute_def bind_eq_Some_conv)
  with assms(1) have s: "submit c cr g req w = Some (None, w1)" by (cases e) (auto simp: execute_def)
  obtain o2 w2 where a': "await c cr (reqTurn req) g w1 = Some (o2, w2)"
    using assms(1) s by (auto simp: execute_def bind_eq_Some_conv)
  with assms(1) s have a: "await c cr (reqTurn req) g w1 = Some (Inr res, w')"
    by (cases o2) (auto simp: execute_def split: option.splits)
  obtain v where v: "progress (reqTurn req) g w v" "busy v (worker_of g) = None" "w1 = accept c ?q v"
    using submitLoop_accepts [OF s [unfolded submit_def] assms(2)] by auto
  have 0: "unanswered (reqTurn req) g v = 0" "workers_ok v" using v(1) assms(3) by (auto simp: progress_def)
  have w1: "workers_ok w1" "unanswered (reqTurn req) g w1 = 1" "all_from (reqTurn req) g (\<lambda>p. p = ?q) w1"
    using accept_unanswered [OF 0(2), of ?q c] v 0(1) by auto
  from awaitLoop_takes [OF a [unfolded await_def] w1(1)] w1(2,3) show ?thesis by auto
qed

subsection \<open>Properties\<close>

text \<open>
  C2. A turn never answers what the wake gate refused: the calls of a turn on its dependencies are a
  capture, a transcription, showing the user's command, one request to the responder, and
  output calls, in this order and all under the turn's identity, cut off where the turn
  ended; anything from showing the command onwards happens only for a command the gate accepted.
\<close>

theorem responder_called_only_when_addressed:
  assumes "runTurn c turn w = Some (out, w')"
  shows "\<exists>ds. dlog w' = dlog w @ ds \<and> turn_calls c turn ds"
  using runTurn_calls [OF assms] .

theorem responder_called_only_when_addressed_witness:
  "\<exists>out w ds. runTurn demo_coordinator 1 (demo_world demo_turn) = Some (out, w) \<and>
     dlog w = ds \<and> turn_calls demo_coordinator 1 ds"
proof -
  obtain out w where "runTurn demo_coordinator 1 (demo_world demo_turn) = Some (out, w)"
    using demo_turn_runs by blast
  with responder_called_only_when_addressed [OF this] show ?thesis by (auto simp: demo_world_def)
qed

text \<open>
  C14. An answer is never taken from a stale request: if nothing of a turn and stage is outstanding when a stage call
  is made, then the result the call returns is the worker's answer to exactly this request,
  whatever late results of interrupted turns and other stages the channels hold, and
  afterwards again nothing of that turn and stage is outstanding.
\<close>

theorem stage_answer_belongs_to_request:
  assumes "execute c cr g req w = Some (Inr res, w')" "workers_ok w" "unanswered (reqTurn req) g w = 0"
  shows "resFor res = req\<lparr>reqTarget := g\<rparr> \<and> workers_ok w' \<and> unanswered (reqTurn req) g w' = 0"
  using execute_answer [OF assms] .

definition stale_world :: world where
  "stale_world = (demo_world [PickSend, PickResult, CaptureDone demo_audio None, PickResult])
     \<lparr>results := [blank_result (mkRequest 1 TurnContext no_buffer [] False)]\<rparr>"

theorem stage_answer_belongs_to_request_witness:
  "\<exists>res w'. execute demo_coordinator TurnContext StageCapture (mkRequest 2 TurnContext no_buffer [] False) stale_world
     = Some (Inr res, w') \<and> reqTurn (resFor res) = 2 \<and> resBuffer res = demo_audio"
proof -
  let ?req = "mkRequest 2 TurnContext no_buffer [] False"
  obtain res w' where e: "execute demo_coordinator TurnContext StageCapture ?req stale_world = Some (Inr res, w')"
    "resBuffer res = demo_audio"
    by (simp add: stale_world_def demo_simps)
  have "workers_ok stale_world" "unanswered (reqTurn ?req) StageCapture stale_world = 0"
    by (simp_all add: stale_world_def workers_ok_def unanswered_def held_def answers_def demo_world_def
        blank_result_def mkRequest_def)
  from stage_answer_belongs_to_request [OF e(1) this] e show ?thesis by (auto simp: mkRequest_def)
qed

text \<open>
  An interruption that arrives before the turn starts listening ends the voice loop: \<^verbatim>\<open>Run\<close> returns
  nil although the parent context is still alive, because the first look at the turn's
  context takes the interruption for a cancellation.
\<close>

theorem early_interrupt_ends_run:
  assumes "interruptSource c" "parentCtx w = None" "sched w = Proceed # InterruptArrives (Suc n) d # Proceed # as"
  shows "\<exists>w'. Run c n w = Some (None, Suc n, w') \<and> parentCtx w' = None"
  using assms
  by (simp add: Run_def newWorkerSet_def runLoop.simps settle_def runTurn_def beginTurn_def turnBody_def emitW_def
      Let_def endTurn_def afterTurn_def IsErrorCode_def contextApplicationError_def stopWorkers_def)

theorem early_interrupt_ends_run_witness:
  "\<exists>w'. Run demo_coordinator 0 (demo_world [Proceed, InterruptArrives 1 5, Proceed]) = Some (None, 1, w') \<and>
     parentCtx w' = None"
  using early_interrupt_ends_run [of demo_coordinator "demo_world [Proceed, InterruptArrives 1 5, Proceed]" 0 5 "[]"]
  by (simp add: demo_coordinator_def demo_world_def)

end
