(* ===== verification/Application.thy ===== *)
theory Application
  imports Coordinator
begin

section \<open>The sequential application (\<^verbatim>\<open>internal/application/application.go\<close>, lines 155--345)\<close>

text \<open>
  The single-goroutine pipeline: capture, transcription, response, synthesis, playback, called directly.
  The dependencies are the functions of a record \<open>appDeps\<close> over a state \<^typ>\<open>'s\<close> that stands for everything
  outside the application, the context and the clock included.  A call that returns an error
  returns no value the code looks at.
\<close>

subsection \<open>Dependencies\<close>

record 's appDeps =
  input :: "'s \<Rightarrow> (go_error + buffer) \<times> 's"
  endOfSpeechProvider :: "('s \<Rightarrow> instant option \<times> 's) option"
  transcriber :: "buffer \<Rightarrow> 's \<Rightarrow> (go_error + string) \<times> 's"
  responder :: "string \<Rightarrow> 's \<Rightarrow> (go_error + string) \<times> 's"
  synthesizer :: "string \<Rightarrow> 's \<Rightarrow> (go_error + buffer) \<times> 's"
  player :: "buffer \<Rightarrow> 's \<Rightarrow> go_error option \<times> 's"
  observer :: "turn_event \<Rightarrow> 's \<Rightarrow> 's"
  partialProvider :: "(turn_id \<Rightarrow> 's \<Rightarrow> duration \<times> 's) option"
  showUser :: "string \<Rightarrow> 's \<Rightarrow> 's"
  showAssistant :: "string \<Rightarrow> 's \<Rightarrow> 's"
  ctxErr :: "'s \<Rightarrow> go_error option"
  clockNow :: "'s \<Rightarrow> instant"

text \<open>What the caller gives to \<^verbatim>\<open>New\<close>; \<^term>\<open>None\<close> is a nil interface.\<close>

record 's dependencies =
  depInput :: "(('s \<Rightarrow> (go_error + buffer) \<times> 's) \<times> ('s \<Rightarrow> instant option \<times> 's) option) option"
  depTranscriber :: "(buffer \<Rightarrow> 's \<Rightarrow> (go_error + string) \<times> 's) option"
  depResponder :: "(string \<Rightarrow> 's \<Rightarrow> (go_error + string) \<times> 's) option"
  depSynthesizer :: "(string \<Rightarrow> 's \<Rightarrow> (go_error + buffer) \<times> 's) option"
  depPlayer :: "(buffer \<Rightarrow> 's \<Rightarrow> go_error option \<times> 's) option"
  depObserver :: "((turn_event \<Rightarrow> 's \<Rightarrow> 's) \<times> (turn_id \<Rightarrow> 's \<Rightarrow> duration \<times> 's) option) option"
  depView :: "((string \<Rightarrow> 's \<Rightarrow> 's) \<times> (string \<Rightarrow> 's \<Rightarrow> 's)) option"

definition NewApplication ::
  "('s \<Rightarrow> go_error option) \<Rightarrow> ('s \<Rightarrow> instant) \<Rightarrow> 's dependencies \<Rightarrow> appError + 's appDeps"
where
  "NewApplication ctxe clk d =
     (case depInput d of None \<Rightarrow> Inl (invalidApplication ''voice input is nil'') | Some (inp, eos) \<Rightarrow>
      case depTranscriber d of None \<Rightarrow> Inl (invalidApplication ''transcriber is nil'') | Some tr \<Rightarrow>
      case depResponder d of None \<Rightarrow> Inl (invalidApplication ''responder is nil'') | Some re \<Rightarrow>
      case depSynthesizer d of None \<Rightarrow> Inl (invalidApplication ''synthesizer is nil'') | Some sy \<Rightarrow>
      case depPlayer d of None \<Rightarrow> Inl (invalidApplication ''player is nil'') | Some pl \<Rightarrow>
      (let (ob, pm) = (case depObserver d of None \<Rightarrow> (\<lambda>_ s. s, None) | Some x \<Rightarrow> x);
           (su, sa) = (case depView d of None \<Rightarrow> (\<lambda>_ s. s, \<lambda>_ s. s) | Some x \<Rightarrow> x)
       in Inr \<lparr>input = inp, endOfSpeechProvider = eos, transcriber = tr, responder = re, synthesizer = sy,
            player = pl, observer = ob, partialProvider = pm, showUser = su, showAssistant = sa,
            ctxErr = ctxe, clockNow = clk\<rparr>))"

subsection \<open>The turn\<close>

definition appEmit :: "'s appDeps \<Rightarrow> state \<Rightarrow> turnRecorder \<times> 's \<Rightarrow> turnRecorder \<times> 's" where
  "appEmit d st rs =
     (case rs of (r, s) \<Rightarrow> (emit (clockNow d s) st r, observer d \<lparr>evTurn = recTurn r, evState = st\<rparr> s))"

text \<open>What a turn hands to its deferred call: result, error, recorder and outside state.\<close>

type_synonym 's turn_out = "(result \<times> appError option) \<times> turnRecorder \<times> 's"

definition appFail :: "'s appDeps \<Rightarrow> errorCode \<Rightarrow> go_error \<Rightarrow> result \<Rightarrow> turnRecorder \<times> 's \<Rightarrow> 's turn_out" where
  "appFail d code err res rs =
     (let contextErr = (case ctxErr d (snd rs) of
                          Some e \<Rightarrow> Some e
                        | None \<Rightarrow> if errors_is err Canceled \<or> errors_is err DeadlineExceeded then Some err else None)
      in case contextErr of
           Some e \<Rightarrow>
             ((set_error (contextCode e) (set_outcome ''cancelled'' res), Some (contextApplicationError e)),
              appEmit d StateStopping rs)
         | None \<Rightarrow>
             ((set_error code (set_outcome ''error'' res), Some \<lparr>Code = code, Recoverable = True, Err = err\<rparr>),
              appEmit d StateIdle rs))"

definition appSucceed :: "'s appDeps \<Rightarrow> result \<Rightarrow> turnRecorder \<times> 's \<Rightarrow> 's turn_out" where
  "appSucceed d res rs = ((set_outcome ''success'' res, None), appEmit d StateIdle rs)"

definition appNoop :: "'s appDeps \<Rightarrow> result \<Rightarrow> turnRecorder \<times> 's \<Rightarrow> 's turn_out" where
  "appNoop d res rs = ((set_noop ''noop'' res, None), appEmit d StateIdle rs)"

definition appCancelled :: "'s appDeps \<Rightarrow> go_error \<Rightarrow> result \<Rightarrow> turnRecorder \<times> 's \<Rightarrow> 's turn_out" where
  "appCancelled d e res rs = ((res, Some (contextApplicationError e)), appEmit d StateStopping rs)"

definition appPlay :: "'s appDeps \<Rightarrow> buffer \<Rightarrow> result \<Rightarrow> turnRecorder \<times> 's \<Rightarrow> 's turn_out" where
  "appPlay d b res rs0 =
     (let (r, s) = appEmit d StateSpeaking (markFirstPCM (clockNow d (snd rs0)) (fst rs0), snd rs0);
          (err, s1) = player d (Clone b) s
      in case err of
           Some e \<Rightarrow> appFail d ErrorPlaybackFailed e res (r, s1)
         | None \<Rightarrow>
             (case ctxErr d s1 of
                Some e \<Rightarrow> appCancelled d e res (r, s1)
              | None \<Rightarrow> appSucceed d res (r, s1)))"

definition appSynthesize :: "'s appDeps \<Rightarrow> result \<Rightarrow> turnRecorder \<times> 's \<Rightarrow> 's turn_out" where
  "appSynthesize d res rs0 =
     (let (r, s) = appEmit d StateSynthesizing rs0;
          (out, s1) = synthesizer d (Reply res) s
      in case out of
           Inl e \<Rightarrow> appFail d ErrorSynthesisFailed e res (r, s1)
         | Inr b \<Rightarrow>
             if Empty b then appSucceed d res (r, s1)
             else (case Validate b of
                Some e \<Rightarrow> appFail d ErrorSynthesisFailed e res (r, s1)
              | None \<Rightarrow> appPlay d b res (r, s1)))"

definition appRespond :: "'s appDeps \<Rightarrow> string \<Rightarrow> result \<Rightarrow> turnRecorder \<times> 's \<Rightarrow> 's turn_out" where
  "appRespond d transcript res rs0 =
     (let (r, s) = appEmit d StateThinking (fst rs0, showUser d transcript (snd rs0));
          (out, s1) = responder d transcript s
      in case out of
           Inl e \<Rightarrow> appFail d ErrorAgentFailed e res (r, s1)
         | Inr reply \<Rightarrow>
             (let res1 = set_reply (trim_space reply) res
              in appSynthesize d res1 (r, showAssistant d (Reply res1) s1)))"

definition appTranscribe :: "'s appDeps \<Rightarrow> buffer \<Rightarrow> result \<Rightarrow> turnRecorder \<times> 's \<Rightarrow> 's turn_out" where
  "appTranscribe d b res0 rs0 =
     (let (r, s) = appEmit d StateTranscribing rs0;
          res = set_samples (length (Samples b)) res0;
          (out, s1) = transcriber d (Clone b) s
      in case out of
           Inl e \<Rightarrow> appFail d ErrorTranscriptionFailed e res (r, s1)
         | Inr raw \<Rightarrow>
             (let r1 = markFinalTranscript (clockNow d s1) r;
                  transcript = trim_space raw
              in if transcript = [] then appNoop d res (r1, s1)
                 else appRespond d transcript (set_transcript (length transcript) res) (r1, s1)))"

text \<open>\<^verbatim>\<open>recorder.captureEndOfSpeech(a.input)\<close>: the provider is asked only while the mark is unset.\<close>

definition appEndOfSpeech :: "'s appDeps \<Rightarrow> turnRecorder \<times> 's \<Rightarrow> turnRecorder \<times> 's" where
  "appEndOfSpeech d rs =
     (case rs of (r, s) \<Rightarrow>
        if endOfSpeech r \<noteq> 0 then (r, s)
        else case endOfSpeechProvider d of
          None \<Rightarrow> (r, s)
        | Some f \<Rightarrow> (case f s of (t, s1) \<Rightarrow> (captureEndOfSpeech (clockNow d s1) (Some t) r, s1)))"

definition appBody :: "'s appDeps \<Rightarrow> turnRecorder \<times> 's \<Rightarrow> 's turn_out" where
  "appBody d rs0 =
     (case ctxErr d (snd rs0) of
        Some e \<Rightarrow> appCancelled d e no_result rs0
      | None \<Rightarrow>
          (let (r, s) = appEmit d StateListening rs0;
               (out, s1) = input d s
           in case out of
                Inl e \<Rightarrow> appFail d ErrorCaptureFailed e no_result (r, s1)
              | Inr b \<Rightarrow>
                  if Empty b then appNoop d no_result (r, s1)
                  else (case Validate b of
                     Some e \<Rightarrow> appFail d ErrorCaptureFailed e no_result (r, s1)
                   | None \<Rightarrow> appTranscribe d b no_result (appEndOfSpeech d (r, s1)))))"

text \<open>The deferred \<^verbatim>\<open>recorder.finish\<close>, with the observer asked for its partial-transcript metric.\<close>

definition appFinish :: "'s appDeps \<Rightarrow> 's turn_out \<Rightarrow> (result \<times> appError option) \<times> 's" where
  "appFinish d out =
     (case out of ((res, err), r, s) \<Rightarrow>
        (let now = clockNow d s;
             (partial, s1) = (case partialProvider d of
                None \<Rightarrow> (None, s)
              | Some f \<Rightarrow> if FirstSTTPartial (Trace res) = 0
                  then (case f (recTurn r) s of (v, s') \<Rightarrow> (Some (\<lambda>_. v), s')) else (None, s))
         in ((res\<lparr>Trace := finish now partial r (Trace res)\<rparr>, err), s1)))"

definition appRunTurn :: "'s appDeps \<Rightarrow> turn_id \<Rightarrow> 's \<Rightarrow> (result \<times> appError option) \<times> 's" where
  "appRunTurn d sequence s =
     appFinish d (appBody d (appEmit d StateIdle (newTurnRecorder (clockNow d s) (Suc sequence), s)))"

definition appAfterTurn :: "appError option \<Rightarrow> appError option option" where
  "appAfterTurn err =
     (case err of
        None \<Rightarrow> None
      | Some e \<Rightarrow>
          if IsErrorCode e ErrorCancelled \<or> IsErrorCode e ErrorDeadlineExceeded then Some None
          else if Recoverable e then None
          else Some (Some e))"

partial_function (option) appRun :: "'s appDeps \<Rightarrow> turn_id \<Rightarrow> 's \<Rightarrow> (appError option \<times> turn_id \<times> 's) option"
where [code]:
  "appRun d sequence s =
     (if ctxErr d s \<noteq> None then Some (None, sequence, s)
      else case appAfterTurn (snd (fst (appRunTurn d sequence s))) of
          None \<Rightarrow> appRun d (Suc sequence) (snd (appRunTurn d sequence s))
        | Some err \<Rightarrow> Some (err, Suc sequence, snd (appRunTurn d sequence s)))"

subsection \<open>What a turn does, without workers, clocks and contexts\<close>

text \<open>
  The specification of an undisturbed turn: each stage is a function of the data the previous stage
  produced, and the summary is what the turn's caller and its observer can tell.
\<close>

record stages =
  sCapture :: "go_error + buffer"
  sTranscribe :: "buffer \<Rightarrow> go_error + string"
  sGate :: "string \<Rightarrow> string option"
  sWake :: bool
  sRespond :: "string \<Rightarrow> go_error + string"
  sSynthesize :: "string \<Rightarrow> go_error + buffer"
  sPlay :: "buffer \<Rightarrow> go_error option"

record summary =
  sumStates :: "state list"
  sumReply :: string
  sumNoop :: bool
  sumOutcome :: string
  sumError :: "errorCode option"

definition failure :: "state list \<Rightarrow> string \<Rightarrow> errorCode \<Rightarrow> go_error \<Rightarrow> summary" where
  "failure sts reply code e =
     (if errors_is e Canceled \<or> errors_is e DeadlineExceeded
      then \<lparr>sumStates = sts @ [StateStopping], sumReply = reply, sumNoop = False, sumOutcome = ''cancelled'',
            sumError = Some (contextCode e)\<rparr>
      else \<lparr>sumStates = sts @ [StateIdle], sumReply = reply, sumNoop = False, sumOutcome = ''error'',
            sumError = Some code\<rparr>)"

definition success :: "state list \<Rightarrow> string \<Rightarrow> summary" where
  "success sts reply = \<lparr>sumStates = sts @ [StateIdle], sumReply = reply, sumNoop = False,
     sumOutcome = ''success'', sumError = None\<rparr>"

definition ignored :: "state list \<Rightarrow> string \<Rightarrow> summary" where
  "ignored sts outcome = \<lparr>sumStates = sts @ [StateIdle], sumReply = [], sumNoop = True,
     sumOutcome = outcome, sumError = None\<rparr>"

definition speak :: "stages \<Rightarrow> state list \<Rightarrow> string \<Rightarrow> summary" where
  "speak sg sts reply =
     (let sts1 = sts @ [StateSynthesizing] in
      case sSynthesize sg reply of
        Inl e \<Rightarrow> failure sts1 reply ErrorSynthesisFailed e
      | Inr b \<Rightarrow>
          if Empty b then success sts1 reply
          else case Validate b of
            Some e \<Rightarrow> failure sts1 reply ErrorSynthesisFailed e
          | None \<Rightarrow>
              (let sts2 = sts1 @ [StateSpeaking] in
               case sPlay sg b of
                 Some e \<Rightarrow> failure sts2 reply ErrorPlaybackFailed e
               | None \<Rightarrow> success sts2 reply))"

definition answer :: "stages \<Rightarrow> state list \<Rightarrow> string \<Rightarrow> summary" where
  "answer sg sts command =
     (let sts1 = sts @ [StateThinking] in
      case sRespond sg command of
        Inl e \<Rightarrow> failure sts1 [] ErrorAgentFailed e
      | Inr reply \<Rightarrow> speak sg sts1 (trim_space reply))"

definition pipeline :: "stages \<Rightarrow> summary" where
  "pipeline sg =
     (let sts1 = [StateIdle, StateListening] in
      case sCapture sg of
        Inl e \<Rightarrow> failure sts1 [] ErrorCaptureFailed e
      | Inr b \<Rightarrow>
          if Empty b then ignored sts1 ''noop''
          else case Validate b of
            Some e \<Rightarrow> failure sts1 [] ErrorCaptureFailed e
          | None \<Rightarrow>
              (let sts2 = sts1 @ [StateTranscribing] in
               case sTranscribe sg b of
                 Inl e \<Rightarrow> failure sts2 [] ErrorTranscriptionFailed e
               | Inr raw \<Rightarrow>
                   if trim_space raw = [] then ignored sts2 ''noop''
                   else case sGate sg (trim_space raw) of
                     None \<Rightarrow> ignored sts2 ''wake_ignored''
                   | Some command \<Rightarrow>
                       answer sg (if sWake sg then sts2 @ [StateWakeDetected] else sts2) command))"

text \<open>What the caller of a turn sees of its result.\<close>

definition summarize :: "result \<times> appError option \<Rightarrow> summary" where
  "summarize out = \<lparr>sumStates = States (Trace (fst out)), sumReply = Reply (fst out), sumNoop = Noop (fst out),
     sumOutcome = Outcome (Trace (fst out)), sumError = map_option Code (snd out)\<rparr>"

subsection \<open>The application refines the specification\<close>

text \<open>The dependencies compute the stages, and the context stays alive.\<close>

definition serves :: "'s appDeps \<Rightarrow> stages \<Rightarrow> bool" where
  "serves d sg \<longleftrightarrow>
     (\<forall>s. fst (input d s) = sCapture sg) \<and> (\<forall>b s. fst (transcriber d b s) = sTranscribe sg b) \<and>
     (\<forall>t s. fst (responder d t s) = sRespond sg t) \<and> (\<forall>t s. fst (synthesizer d t s) = sSynthesize sg t) \<and>
     (\<forall>b s. fst (player d b s) = sPlay sg b) \<and> (\<forall>s. ctxErr d s = None) \<and> sGate sg = Some \<and> \<not> sWake sg"

text \<open>The summary of a turn that has not been finished yet.\<close>

definition summaryOf :: "'s turn_out \<Rightarrow> summary" where
  "summaryOf out = (summarize (fst out))\<lparr>sumStates := states (fst (snd out))\<rparr>"

lemma summarize_appFinish: "summarize (fst (appFinish d out)) = summaryOf out"
  by (auto simp: appFinish_def summarize_def summaryOf_def recorder_simps Let_def split: prod.splits)

lemma states_appEmit [simp]: "states (fst (appEmit d st rs)) = states (fst rs) @ [st]"
  by (simp add: appEmit_def recorder_simps split: prod.split)

lemma Clone_id [simp]: "Clone b = b"
  by (simp add: Clone_def)

lemmas result_defs = set_outcome_def set_error_def set_noop_def set_samples_def set_transcript_def set_reply_def

definition fresh :: "result \<Rightarrow> bool" where
  "fresh res \<longleftrightarrow> \<not> Noop res"

lemma fresh_simps [simp]:
  "fresh no_result" "fresh (set_samples n res) = fresh res" "fresh (set_transcript n res) = fresh res"
  "fresh (set_reply t res) = fresh res"
  "Reply no_result = []" "Reply (set_samples n res) = Reply res" "Reply (set_transcript n res) = Reply res"
  "Reply (set_reply t res) = t"
  by (simp_all add: fresh_def no_result_def result_defs)

lemma summary_appFail:
  assumes "ctxErr d (snd rs) = None" "fresh res"
  shows "summaryOf (appFail d code e res rs) = failure (states (fst rs)) (Reply res) code e"
  using assms
  by (auto simp: appFail_def summaryOf_def summarize_def failure_def result_defs fresh_def)

lemma summary_appSucceed: "fresh res \<Longrightarrow> summaryOf (appSucceed d res rs) = success (states (fst rs)) (Reply res)"
  by (simp add: appSucceed_def summaryOf_def summarize_def success_def result_defs fresh_def)

lemma summary_appNoop: "Reply res = [] \<Longrightarrow> summaryOf (appNoop d res rs) = ignored (states (fst rs)) ''noop''"
  by (simp add: appNoop_def summaryOf_def summarize_def ignored_def result_defs)

lemmas summary_simps = summary_appFail summary_appSucceed summary_appNoop

lemma fst_call: "f s = (x, y) \<Longrightarrow> x = fst (f s)"
  by simp

lemma summary_appPlay:
  assumes "serves d sg" "fresh res"
  shows "summaryOf (appPlay d b res rs) =
    (case sPlay sg b of
       Some e \<Rightarrow> failure (states (fst rs) @ [StateSpeaking]) (Reply res) ErrorPlaybackFailed e
     | None \<Rightarrow> success (states (fst rs) @ [StateSpeaking]) (Reply res))"
proof -
  obtain r s where e: "appEmit d StateSpeaking (markFirstPCM (clockNow d (snd rs)) (fst rs), snd rs) = (r, s)" by fastforce
  then have r: "states r = states (fst rs) @ [StateSpeaking]"
    using states_appEmit [of d StateSpeaking "(markFirstPCM (clockNow d (snd rs)) (fst rs), snd rs)"]
    by (simp add: recorder_simps)
  obtain err s1 where p: "player d b s = (err, s1)" by fastforce
  then have "err = sPlay sg b" using assms(1) by (metis fst_conv serves_def)
  with assms e p r show ?thesis
    by (auto simp: appPlay_def summary_simps serves_def split: option.split)
qed

lemma summary_appSynthesize:
  assumes "serves d sg" "fresh res"
  shows "summaryOf (appSynthesize d res rs) = speak sg (states (fst rs)) (Reply res)"
proof -
  obtain r s where e: "appEmit d StateSynthesizing rs = (r, s)" by fastforce
  then have r: "states r = states (fst rs) @ [StateSynthesizing]" using states_appEmit [of d StateSynthesizing rs] by simp
  obtain out s1 where p: "synthesizer d (Reply res) s = (out, s1)" by fastforce
  then have "out = sSynthesize sg (Reply res)" using assms(1) by (metis fst_conv serves_def)
  moreover have "ctxErr d x = None" for x using assms(1) by (simp add: serves_def)
  ultimately show ?thesis using assms e p r
    by (auto simp: appSynthesize_def summary_simps summary_appPlay speak_def Let_def split: option.split sum.split)
qed

lemma summary_appRespond:
  assumes "serves d sg" "fresh res" "Reply res = []"
  shows "summaryOf (appRespond d t res rs) = answer sg (states (fst rs)) t"
proof -
  obtain r s where e: "appEmit d StateThinking (fst rs, showUser d t (snd rs)) = (r, s)" by fastforce
  then have r: "states r = states (fst rs) @ [StateThinking]"
    using states_appEmit [of d StateThinking "(fst rs, showUser d t (snd rs))"] by simp
  obtain out s1 where p: "responder d t s = (out, s1)" by fastforce
  then have "out = sRespond sg t" using assms(1) by (metis fst_conv serves_def)
  moreover have "ctxErr d x = None" for x using assms(1) by (simp add: serves_def)
  ultimately show ?thesis using assms e p r
    by (auto simp: appRespond_def summary_simps summary_appSynthesize answer_def Let_def split: sum.split)
qed

lemma summary_appTranscribe:
  assumes "serves d sg" "fresh res" "Reply res = []"
  shows "summaryOf (appTranscribe d b res rs) =
    (let sts = states (fst rs) @ [StateTranscribing] in
     case sTranscribe sg b of
       Inl e \<Rightarrow> failure sts [] ErrorTranscriptionFailed e
     | Inr raw \<Rightarrow> if trim_space raw = [] then ignored sts ''noop'' else answer sg sts (trim_space raw))"
proof -
  obtain r s where e: "appEmit d StateTranscribing rs = (r, s)" by fastforce
  then have r: "states r = states (fst rs) @ [StateTranscribing]" using states_appEmit [of d StateTranscribing rs] by simp
  obtain out s1 where p: "transcriber d b s = (out, s1)" by fastforce
  then have "out = sTranscribe sg b" using assms(1) by (metis fst_conv serves_def)
  moreover have "ctxErr d x = None" for x using assms(1) by (simp add: serves_def)
  ultimately show ?thesis using assms e p r
    by (auto simp: appTranscribe_def summary_simps summary_appRespond recorder_simps Let_def split: sum.split)
qed

lemma states_appEndOfSpeech: "states (fst (appEndOfSpeech d rs)) = states (fst rs)"
  by (simp add: appEndOfSpeech_def recorder_simps split: prod.splits option.splits)

lemma summary_appBody:
  assumes "serves d sg" "states (fst rs) = [StateIdle]"
  shows "summaryOf (appBody d rs) = pipeline sg"
proof -
  obtain r s where e: "appEmit d StateListening rs = (r, s)" by fastforce
  then have r: "states r = [StateIdle, StateListening]" using states_appEmit [of d StateListening rs] assms(2) by simp
  obtain out s1 where p: "input d s = (out, s1)" by fastforce
  then have "out = sCapture sg" using assms(1) by (metis fst_conv serves_def)
  moreover have "ctxErr d x = None" "sGate sg = Some" "\<not> sWake sg" for x using assms(1) by (simp_all add: serves_def)
  ultimately show ?thesis using assms e p r
    by (auto simp: appBody_def summary_simps summary_appTranscribe states_appEndOfSpeech pipeline_def Let_def
        split: sum.split option.split)
qed

lemma appRunTurn_refines: "serves d sg \<Longrightarrow> summarize (fst (appRunTurn d n s)) = pipeline sg"
  by (simp add: appRunTurn_def summarize_appFinish summary_appBody recorder_simps)

subsection \<open>The coordinator refines the specification\<close>

text \<open>
  A prompt environment: every request is accepted at once and its dependency returns at once; nothing
  else happens.
\<close>

definition doneCapture :: "go_error + buffer \<Rightarrow> action" where
  "doneCapture x = (case x of Inl e \<Rightarrow> CaptureDone no_buffer (Some e) | Inr b \<Rightarrow> CaptureDone b None)"

definition doneTranscribe :: "go_error + string \<Rightarrow> action" where
  "doneTranscribe x = (case x of Inl e \<Rightarrow> TranscribeDone [] (Some e) | Inr t \<Rightarrow> TranscribeDone t None)"

definition doneRespond :: "go_error + string \<Rightarrow> action" where
  "doneRespond x = (case x of Inl e \<Rightarrow> RespondDone [] (Some e) | Inr t \<Rightarrow> RespondDone t None)"

definition doneSynthesize :: "go_error + buffer \<Rightarrow> action" where
  "doneSynthesize x = (case x of Inl e \<Rightarrow> SynthesizeDone no_buffer (Some e) | Inr b \<Rightarrow> SynthesizeDone b None)"

definition prompt :: "action \<Rightarrow> action list" where
  "prompt a = [PickSend, a, PickResult]"

definition promptSpeech :: "stages \<Rightarrow> string \<Rightarrow> action list" where
  "promptSpeech sg reply =
     prompt (doneSynthesize (sSynthesize sg reply)) @
     (case sSynthesize sg reply of Inl _ \<Rightarrow> [] | Inr b \<Rightarrow> prompt (PlaybackDone (sPlay sg b)))"

definition promptAnswer :: "stages \<Rightarrow> string \<Rightarrow> action list" where
  "promptAnswer sg command =
     prompt (doneRespond (sRespond sg command)) @
     (case sRespond sg command of Inl _ \<Rightarrow> [] | Inr reply \<Rightarrow> promptSpeech sg (trim_space reply))"

definition promptTranscription :: "stages \<Rightarrow> buffer \<Rightarrow> action list" where
  "promptTranscription sg b =
     prompt (doneTranscribe (sTranscribe sg b)) @
     (case sTranscribe sg b of
        Inl _ \<Rightarrow> []
      | Inr raw \<Rightarrow> (case sGate sg (trim_space raw) of None \<Rightarrow> [] | Some command \<Rightarrow> promptAnswer sg command))"

definition promptTurn :: "stages \<Rightarrow> action list" where
  "promptTurn sg =
     Proceed # prompt (doneCapture (sCapture sg)) @
     (case sCapture sg of Inl _ \<Rightarrow> [] | Inr b \<Rightarrow> promptTranscription sg b)"

text \<open>The workers are idle and nothing of them is left in the channels.\<close>

definition idle :: "world \<Rightarrow> bool" where
  "idle w \<longleftrightarrow> busy w = (\<lambda>_. None) \<and> results w = [] \<and> responses w = [] \<and> turnCtx w = Live"

lemma execute_prompt:
  assumes "idle w" "sched w = prompt a @ as" "a \<notin> {PickTurnDone, PickWorkersDone, PickResult}"
    and env: "\<And>v. env_step c a v = complete (worker_of g) f v"
    and f: "resTurn (f (req\<lparr>reqTarget := g\<rparr>)) = reqTurn req" "resStage (f (req\<lparr>reqTarget := g\<rparr>)) = g"
  shows "execute c cr g req w =
    Some (case resErr (f (req\<lparr>reqTarget := g\<rparr>)) of Some e \<Rightarrow> Inl e | None \<Rightarrow> Inr (f (req\<lparr>reqTarget := g\<rparr>)),
      w\<lparr>sched := as, dlog := dlog w @ [call_of c (req\<lparr>reqTarget := g\<rparr>)]\<rparr>)"
proof -
  let ?q = "req\<lparr>reqTarget := g\<rparr>"
  let ?w1 = "accept c ?q (w\<lparr>sched := a # PickResult # as\<rparr>)"
  let ?w2 = "complete (worker_of g) f ?w1"
  have s: "submit c cr g req w = Some (None, ?w1)"
    using assms(1,2) by (simp add: submit_def prompt_def idle_def)
  have "awaitLoop c cr (reqTurn req) g (a # PickResult # as) ?w1 =
      awaitLoop c cr (reqTurn req) g (PickResult # as) ?w2"
    using assms(3) env by (cases a) (simp_all del: env_step.simps)
  also have "\<dots> = Some (Inr (f ?q), w\<lparr>sched := as, dlog := dlog w @ [call_of c ?q]\<rparr>)"
    using assms(1) f
    by (auto simp: complete_def publish_def accept_def idle_def stage_results_def set_stage_results_def
        chan_can_send_def resultsCap_def Let_def fun_eq_iff)
  finally show ?thesis using s
    by (simp add: execute_def await_def accept_def split: option.split)
qed

text \<open>An action that does not end the turn's context.\<close>

fun calm :: "action \<Rightarrow> bool" where
  "calm (InterruptArrives _ _) = False"
| "calm (ParentEnds _) = False"
| "calm _ = True"

lemma env_step_calm: "calm a \<Longrightarrow> turnCtx (env_step c a w) = turnCtx w"
  by (cases a) (simp_all add: complete_def publish_def publishDelta_def split: option.split)

lemma settle_calm: "list_all calm (sched w) \<Longrightarrow> turnCtx (settle c w) = turnCtx w"
proof -
  have "list_all calm as \<Longrightarrow> turnCtx (settleLoop c as v) = turnCtx v" for as v
    by (induction as arbitrary: v) (simp_all add: env_step_calm)
  then show "list_all calm (sched w) \<Longrightarrow> turnCtx (settle c w) = turnCtx w" by (simp add: settle_def)
qed

lemma prompt_calm [simp]:
  "list_all calm (prompt a) = calm a" "calm (doneCapture x)" "calm (doneTranscribe y)" "calm (doneRespond z)"
  "calm (doneSynthesize v)"
  by (simp_all add: prompt_def doneCapture_def doneTranscribe_def doneRespond_def doneSynthesize_def split: sum.split)

lemma promptSpeech_calm [simp]: "list_all calm (promptSpeech sg t)"
  by (simp add: promptSpeech_def split: sum.split)

lemma promptAnswer_calm [simp]: "list_all calm (promptAnswer sg t)"
  by (simp add: promptAnswer_def split: sum.split)

lemma promptTranscription_calm [simp]: "list_all calm (promptTranscription sg b)"
  by (simp add: promptTranscription_def split: sum.split option.split)

definition summaryW :: "(result \<times> appError option) \<times> world \<Rightarrow> summary" where
  "summaryW out = (summarize (fst out))\<lparr>sumStates := states (trec (snd out))\<rparr>"

definition undisturbed :: "world \<Rightarrow> bool" where
  "undisturbed w \<longleftrightarrow> turnCtx w = Live \<and> list_all calm (sched w)"

lemma summary_fail:
  assumes "undisturbed w" "fresh res"
  shows "summaryW (fail c code e res w) = failure (states (trec w)) (Reply res) code e"
proof -
  have "turnCtx (settle c w) = Live" "states (trec (settle c w)) = states (trec w)"
    using assms(1) settle_calm settle_frame(1) [of w c, unfolded same_turn_def] by (auto simp: undisturbed_def)
  then show ?thesis using assms(2)
    by (auto simp: fail_def summaryW_def summarize_def failure_def emitW_def recorder_simps result_defs fresh_def Let_def)
qed

lemma summary_succeed: "fresh res \<Longrightarrow> summaryW (succeed res w) = success (states (trec w)) (Reply res)"
  by (simp add: succeed_def summaryW_def summarize_def success_def emitW_def recorder_simps result_defs fresh_def)

lemma summary_lastCheck:
  assumes "undisturbed w" "fresh res"
  shows "summaryW (lastCheck c res w) = success (states (trec w)) (Reply res)"
proof -
  have "turnCtx (settle c w) = Live" "states (trec (settle c w)) = states (trec w)"
    using assms(1) settle_calm settle_frame(1) [of w c, unfolded same_turn_def] by (auto simp: undisturbed_def)
  then show ?thesis using assms(2) by (simp add: lastCheck_def summary_succeed)
qed

lemma summary_noop: "Reply res = [] \<Longrightarrow> summaryW (noop s res w) = ignored (states (trec w)) s"
  by (simp add: noop_def summaryW_def summarize_def ignored_def emitW_def recorder_simps result_defs)

lemmas summaryW_simps = summary_fail summary_succeed summary_lastCheck summary_noop

lemma emitW_sel [simp]:
  "idle (emitW s w) = idle w" "sched (emitW s w) = sched w" "turnCtx (emitW s w) = turnCtx w"
  "states (trec (emitW s w)) = states (trec w) @ [s]" "undisturbed (emitW s w) = undisturbed w"
  by (simp_all add: emitW_def idle_def undisturbed_def recorder_simps)

lemma logW_sel [simp]:
  "idle (logW d w) = idle w" "sched (logW d w) = sched w" "trec (logW d w) = trec w"
  by (simp_all add: logW_def idle_def)

lemma after_prompt [simp]:
  "idle (w\<lparr>sched := as\<rparr>) = idle w" "idle (w\<lparr>sched := as, dlog := ds\<rparr>) = idle w" "trec (w\<lparr>sched := as, dlog := ds\<rparr>) = trec w"
  "idle w \<Longrightarrow> undisturbed (w\<lparr>sched := as, dlog := ds\<rparr>) = list_all calm as"
  by (simp_all add: idle_def undisturbed_def)

text \<open>What each stage call returns in a prompt environment.\<close>

lemma exec_capture:
  assumes "idle w" "sched w = prompt (doneCapture x) @ as"
  shows "\<exists>out ds. execute c cr StageCapture req w = Some (out, w\<lparr>sched := as, dlog := ds\<rparr>) \<and>
    (case x of Inl e \<Rightarrow> out = Inl e | Inr b \<Rightarrow> \<exists>r. out = Inr r \<and> resBuffer r = b)"
proof -
  have "execute c cr StageCapture req w =
      Some (case err of Some e \<Rightarrow> Inl e | None \<Rightarrow> Inr ((blank_result (req\<lparr>reqTarget := StageCapture\<rparr>))\<lparr>resBuffer := b, resErr := err\<rparr>),
        w\<lparr>sched := as, dlog := dlog w @ [call_of c (req\<lparr>reqTarget := StageCapture\<rparr>)]\<rparr>)"
    if "doneCapture x = CaptureDone b err" for b err
    by (subst execute_prompt [where f = "\<lambda>q. (blank_result q)\<lparr>resBuffer := b, resErr := err\<rparr>", OF assms])
       (simp_all add: that blank_result_def)
  then show ?thesis by (cases x) (auto simp: doneCapture_def)
qed

lemma exec_transcribe:
  assumes "idle w" "sched w = prompt (doneTranscribe x) @ as"
  shows "\<exists>out ds. execute c cr StageTranscribe req w = Some (out, w\<lparr>sched := as, dlog := ds\<rparr>) \<and>
    (case x of Inl e \<Rightarrow> out = Inl e | Inr b \<Rightarrow> \<exists>r. out = Inr r \<and> resText r = b)"
proof -
  have "execute c cr StageTranscribe req w =
      Some (case err of Some e \<Rightarrow> Inl e | None \<Rightarrow> Inr ((blank_result (req\<lparr>reqTarget := StageTranscribe\<rparr>))\<lparr>resText := b, resErr := err\<rparr>),
        w\<lparr>sched := as, dlog := dlog w @ [call_of c (req\<lparr>reqTarget := StageTranscribe\<rparr>)]\<rparr>)"
    if "doneTranscribe x = TranscribeDone b err" for b err
    by (subst execute_prompt [where f = "\<lambda>q. (blank_result q)\<lparr>resText := b, resErr := err\<rparr>", OF assms])
       (simp_all add: that blank_result_def)
  then show ?thesis by (cases x) (auto simp: doneTranscribe_def)
qed

lemma exec_respond:
  assumes "idle w" "sched w = prompt (doneRespond x) @ as"
  shows "\<exists>out ds. execute c cr StageRespond req w = Some (out, w\<lparr>sched := as, dlog := ds\<rparr>) \<and>
    (case x of Inl e \<Rightarrow> out = Inl e | Inr b \<Rightarrow> \<exists>r. out = Inr r \<and> resReply r = b)"
proof -
  have "execute c cr StageRespond req w =
      Some (case err of Some e \<Rightarrow> Inl e | None \<Rightarrow> Inr ((blank_result (req\<lparr>reqTarget := StageRespond\<rparr>))\<lparr>resReply := b, resErr := err\<rparr>),
        w\<lparr>sched := as, dlog := dlog w @ [call_of c (req\<lparr>reqTarget := StageRespond\<rparr>)]\<rparr>)"
    if "doneRespond x = RespondDone b err" for b err
    by (subst execute_prompt [where f = "\<lambda>q. (blank_result q)\<lparr>resReply := b, resErr := err\<rparr>", OF assms])
       (simp_all add: that blank_result_def)
  then show ?thesis by (cases x) (auto simp: doneRespond_def)
qed

lemma exec_synthesize:
  assumes "idle w" "sched w = prompt (doneSynthesize x) @ as"
  shows "\<exists>out ds. execute c cr StageSynthesize req w = Some (out, w\<lparr>sched := as, dlog := ds\<rparr>) \<and>
    (case x of Inl e \<Rightarrow> out = Inl e | Inr b \<Rightarrow> \<exists>r. out = Inr r \<and> resBuffer r = b)"
proof -
  have "execute c cr StageSynthesize req w =
      Some (case err of Some e \<Rightarrow> Inl e | None \<Rightarrow> Inr ((blank_result (req\<lparr>reqTarget := StageSynthesize\<rparr>))\<lparr>resBuffer := b, resErr := err\<rparr>),
        w\<lparr>sched := as, dlog := dlog w @ [call_of c (req\<lparr>reqTarget := StageSynthesize\<rparr>)]\<rparr>)"
    if "doneSynthesize x = SynthesizeDone b err" for b err
    by (subst execute_prompt [where f = "\<lambda>q. (blank_result q)\<lparr>resBuffer := b, resErr := err\<rparr>", OF assms])
       (simp_all add: that blank_result_def)
  then show ?thesis by (cases x) (auto simp: doneSynthesize_def)
qed

lemma exec_play:
  assumes "idle w" "sched w = prompt (PlaybackDone x) @ as"
  shows "\<exists>out ds. execute c cr StagePlayback req w = Some (out, w\<lparr>sched := as, dlog := ds\<rparr>) \<and>
    (case x of Some e \<Rightarrow> out = Inl e | None \<Rightarrow> \<exists>r. out = Inr r)"
  by (subst execute_prompt [where f = "\<lambda>q. (blank_result q)\<lparr>resErr := playbackErr c q x\<rparr>", OF assms])
     (auto simp: playbackErr_def blank_result_def split: option.splits)

lemma summary_synthesizeBufferedReply:
  assumes "idle w" "sched w = promptSpeech sg (Reply res)" "fresh res"
  shows "map_option summaryW (synthesizeBufferedReply c turn res w) = Some (speak sg (states (trec w)) (Reply res))"
proof -
  let ?w = "emitW StateSynthesizing w" and ?x = "sSynthesize sg (Reply res)"
  define as where "as = (case ?x of Inl _ \<Rightarrow> [] | Inr b \<Rightarrow> prompt (PlaybackDone (sPlay sg b)))"
  have as: "list_all calm as" by (simp add: as_def split: sum.split)
  have "idle ?w" "sched ?w = prompt (doneSynthesize ?x) @ as"
    using assms by (simp_all add: promptSpeech_def as_def)
  from exec_synthesize [OF this, of c TurnContext "mkRequest turn TurnContext no_buffer (Reply res) False"]
  obtain out ds where e: "execute c TurnContext StageSynthesize
      (mkRequest turn TurnContext no_buffer (Reply res) False) ?w = Some (out, ?w\<lparr>sched := as, dlog := ds\<rparr>)"
    "case ?x of Inl e \<Rightarrow> out = Inl e | Inr b \<Rightarrow> \<exists>r. out = Inr r \<and> resBuffer r = b" by blast
  show ?thesis
  proof (cases "\<exists>b. ?x = Inr b \<and> \<not> Empty b \<and> Validate b = None")
    case False
    with e assms as show ?thesis
      by (auto simp: synthesizeBufferedReply_def speak_def summaryW_simps simp del: map_option_eq_Some split: sum.splits option.splits)
  next
    case True
    then obtain b r where b: "?x = Inr b" "\<not> Empty b" "Validate b = None" "out = Inr r" "resBuffer r = b"
      using e(2) by auto
    let ?w2 = "emitW StateSpeaking (?w\<lparr>sched := as, dlog := ds\<rparr>)"
    have "idle ?w2" "sched ?w2 = prompt (PlaybackDone (sPlay sg b)) @ []"
      using assms(1) b(1) by (simp_all add: as_def)
    from exec_play [OF this, of c TurnContext "mkRequest turn TurnContext b [] False"] e(1) b assms
    show ?thesis
      by (auto simp: synthesizeBufferedReply_def speak_def summaryW_simps Let_def simp del: map_option_eq_Some split: option.splits)
  qed
qed

lemma summary_completeBufferedResponse:
  assumes "idle w" "sched w = promptAnswer sg t" "fresh res" "Reply res = []"
  shows "map_option summaryW (completeBufferedResponse c turn t res (emitW StateThinking w)) =
    Some (answer sg (states (trec w)) t)"
proof -
  let ?w = "emitW StateThinking w" and ?x = "sRespond sg t"
  define as where "as = (case ?x of Inl _ \<Rightarrow> [] | Inr reply \<Rightarrow> promptSpeech sg (trim_space reply))"
  have as: "list_all calm as" by (simp add: as_def split: sum.split)
  have "idle ?w" "sched ?w = prompt (doneRespond ?x) @ as"
    using assms by (simp_all add: promptAnswer_def as_def)
  from exec_respond [OF this, of c TurnContext "mkRequest turn TurnContext no_buffer t False"]
  obtain out ds where e: "execute c TurnContext StageRespond (mkRequest turn TurnContext no_buffer t False) ?w =
      Some (out, ?w\<lparr>sched := as, dlog := ds\<rparr>)"
    "case ?x of Inl e \<Rightarrow> out = Inl e | Inr b \<Rightarrow> \<exists>r. out = Inr r \<and> resReply r = b" by blast
  show ?thesis
  proof (cases ?x)
    case (Inl er)
    with e assms as show ?thesis by (simp add: completeBufferedResponse_def answer_def summaryW_simps del: map_option_eq_Some)
  next
    case (Inr reply)
    let ?res = "set_reply (trim_space reply) res"
    let ?w2 = "logW (ShowAssistant (Reply ?res)) (?w\<lparr>sched := as, dlog := ds\<rparr>)"
    have "idle ?w2" "sched ?w2 = promptSpeech sg (Reply ?res)" "fresh ?res"
      using assms Inr by (simp_all add: as_def)
    from summary_synthesizeBufferedReply [OF this, of c turn] e Inr show ?thesis
      by (auto simp: completeBufferedResponse_def answer_def Let_def simp del: map_option_eq_Some)
  qed
qed

text \<open>The wake gate of the coordinator is the one of the specification.\<close>

definition gated :: "coordinator \<Rightarrow> stages \<Rightarrow> bool" where
  "gated c sg \<longleftrightarrow> \<not> supportsStreaming c \<and>
     (case wakeDetector c of
        None \<Rightarrow> sGate sg = Some \<and> \<not> sWake sg
      | Some detect \<Rightarrow> sWake sg \<and>
          (\<forall>t. sGate sg t = (case detect t of (command, matched) \<Rightarrow> if matched then Some (trim_space command) else None)))"

lemma gate_cases:
  assumes "gated c sg"
  shows "applyWakeGate c t w =
    (sGate sg t, if sGate sg t \<noteq> None \<and> sWake sg then emitW StateWakeDetected w else w)"
  using assms by (auto simp: gated_def applyWakeGate_def split: option.splits prod.splits)

lemma summary_afterCapture:
  assumes "idle w" "sched w = promptTranscription sg b" "gated c sg" "fresh res" "Reply res = []"
  shows "map_option summaryW (afterCapture c turn b res w) =
    Some (let sts = states (trec w) @ [StateTranscribing] in
     case sTranscribe sg b of
       Inl e \<Rightarrow> failure sts [] ErrorTranscriptionFailed e
     | Inr raw \<Rightarrow> if trim_space raw = [] then ignored sts ''noop''
         else case sGate sg (trim_space raw) of
           None \<Rightarrow> ignored sts ''wake_ignored''
         | Some command \<Rightarrow> answer sg (if sWake sg then sts @ [StateWakeDetected] else sts) command)"
proof -
  let ?w = "emitW StateTranscribing w" and ?x = "sTranscribe sg b"
  define as where "as = (case ?x of Inl _ \<Rightarrow> []
      | Inr raw \<Rightarrow> (case sGate sg (trim_space raw) of None \<Rightarrow> [] | Some command \<Rightarrow> promptAnswer sg command))"
  have as: "list_all calm as" by (simp add: as_def split: sum.split option.split)
  have "idle ?w" "sched ?w = prompt (doneTranscribe ?x) @ as"
    using assms by (simp_all add: promptTranscription_def as_def)
  from exec_transcribe [OF this, of c TurnContext "mkRequest turn TurnContext b [] False"]
  obtain out ds where e: "execute c TurnContext StageTranscribe (mkRequest turn TurnContext b [] False) ?w =
      Some (out, ?w\<lparr>sched := as, dlog := ds\<rparr>)"
    "case ?x of Inl e \<Rightarrow> out = Inl e | Inr t \<Rightarrow> \<exists>r. out = Inr r \<and> resText r = t" by blast
  let ?w1 = "?w\<lparr>sched := as, dlog := ds\<rparr>"
  show ?thesis
  proof (cases "\<exists>raw command. ?x = Inr raw \<and> trim_space raw \<noteq> [] \<and> sGate sg (trim_space raw) = Some command")
    case False
    with e assms as show ?thesis
      by (auto simp: afterCapture_def summaryW_simps gate_cases [OF assms(3)] Let_def simp del: map_option_eq_Some split: sum.splits option.splits)
  next
    case True
    then obtain raw command where x: "?x = Inr raw" "trim_space raw \<noteq> []" "sGate sg (trim_space raw) = Some command"
      by blast
    let ?w2 = "if sWake sg then emitW StateWakeDetected ?w1 else ?w1"
    let ?w3 = "logW (ShowUser command) ?w2"
    let ?res = "set_transcript (length (trim_space raw)) (set_samples (length (Samples b)) res)"
    have "idle ?w3" "sched ?w3 = promptAnswer sg command" "fresh ?res" "Reply ?res = []"
      using assms x by (simp_all add: as_def)
    from summary_completeBufferedResponse [OF this, of c turn] e x assms(3) show ?thesis
      by (auto simp: afterCapture_def respondTo_def gate_cases [OF assms(3)] gated_def Let_def simp del: map_option_eq_Some)
  qed
qed

lemma turnBody_refines:
  assumes "idle w" "sched w = promptTurn sg" "gated c sg" "states (trec w) = [StateIdle]"
  shows "map_option summaryW (turnBody c turn w) = Some (pipeline sg)"
proof -
  let ?x = "sCapture sg"
  define as where "as = (case ?x of Inl _ \<Rightarrow> [] | Inr b \<Rightarrow> promptTranscription sg b)"
  have as: "list_all calm as" by (simp add: as_def split: sum.split)
  have set: "settle c w = w\<lparr>sched := prompt (doneCapture ?x) @ as\<rparr>"
    using assms(2) by (simp add: settle_def promptTurn_def as_def)
  let ?w = "emitW StateListening (w\<lparr>sched := prompt (doneCapture ?x) @ as\<rparr>)"
  have "idle ?w" "sched ?w = prompt (doneCapture ?x) @ as" using assms(1) by simp_all
  from exec_capture [OF this, of c TurnContext "mkRequest turn TurnContext no_buffer [] False"]
  obtain out ds where e: "execute c TurnContext StageCapture (mkRequest turn TurnContext no_buffer [] False) ?w =
      Some (out, ?w\<lparr>sched := as, dlog := ds\<rparr>)"
    "case ?x of Inl e \<Rightarrow> out = Inl e | Inr b \<Rightarrow> \<exists>r. out = Inr r \<and> resBuffer r = b" by blast
  have live: "turnCtx w = Live" using assms(1) by (simp add: idle_def)
  let ?w1 = "?w\<lparr>sched := as, dlog := ds\<rparr>"
  show ?thesis
  proof (cases "\<exists>b. ?x = Inr b \<and> \<not> Empty b \<and> Validate b = None")
    case False
    have sts: "states (trec ?w1) = [StateIdle, StateListening]" using assms(4) by simp
    have und: "undisturbed ?w1" using as \<open>idle ?w\<close> by simp
    consider er where "?x = Inl er" "out = Inl er" | r where "out = Inr r" "?x = Inr (resBuffer r)" "Empty (resBuffer r)"
      | r er where "out = Inr r" "?x = Inr (resBuffer r)" "\<not> Empty (resBuffer r)" "Validate (resBuffer r) = Some er"
      using e(2) False by (cases ?x) auto
    then show ?thesis
    proof cases
      case 1
      then have "turnBody c turn w = Some (fail c ErrorCaptureFailed er no_result ?w1)"
        using e(1) live by (simp add: turnBody_def set)
      with 1 sts und show ?thesis by (simp add: pipeline_def summary_fail del: map_option_eq_Some)
    next
      case 2
      then have "turnBody c turn w = Some (noop ''noop'' no_result ?w1)"
        using e(1) live by (simp add: turnBody_def set)
      with 2 sts show ?thesis by (simp add: pipeline_def summary_noop del: map_option_eq_Some)
    next
      case 3
      then have "turnBody c turn w = Some (fail c ErrorCaptureFailed er no_result ?w1)"
        using e(1) live by (simp add: turnBody_def set)
      with 3 sts und show ?thesis by (simp add: pipeline_def summary_fail del: map_option_eq_Some)
    qed
  next
    case True
    then obtain b where b: "?x = Inr b" "\<not> Empty b" "Validate b = None" by blast
    then have "idle ?w1" "sched ?w1 = promptTranscription sg b" using \<open>idle ?w\<close> by (simp_all add: as_def)
    moreover obtain r where "out = Inr r" "resBuffer r = b" using e(2) b(1) by auto
    then have "turnBody c turn w = afterCapture c turn b no_result ?w1"
      using e(1) live b by (simp add: turnBody_def set)
    ultimately show ?thesis
      using summary_afterCapture [of ?w1 sg b c no_result turn] assms(3,4) b
      by (simp add: pipeline_def Let_def del: map_option_eq_Some split: sum.split option.split)
  qed
qed

lemma runTurn_refines:
  assumes "idle w" "parentCtx w = None" "sched w = promptTurn sg" "gated c sg"
  shows "map_option (summarize \<circ> fst) (runTurn c turn w) = Some (pipeline sg)"
proof -
  have "idle (beginTurn turn w)" "sched (beginTurn turn w) = promptTurn sg" "states (trec (beginTurn turn w)) = [StateIdle]"
    using assms by (simp_all add: beginTurn_def idle_def emitW_def recorder_simps)
  from turnBody_refines [OF this(1,2) assms(4) this(3), of turn] obtain out
    where out: "turnBody c turn (beginTurn turn w) = Some out" "summaryW out = pipeline sg" by auto
  have "summarize (fst (endTurn c out)) = summaryW out"
    by (simp add: endTurn_def summarize_def summaryW_def recorder_simps split: prod.split)
  with out show ?thesis by (simp add: runTurn_def)
qed

subsection \<open>Properties\<close>


definition demo_stages :: stages where
  "demo_stages = \<lparr>sCapture = Inr demo_audio, sTranscribe = (\<lambda>_. Inr ''hi''), sGate = Some, sWake = False,
     sRespond = (\<lambda>_. Inr ''yes''), sSynthesize = (\<lambda>_. Inl (Message ''no voice'')), sPlay = (\<lambda>_. None)\<rparr>"

definition demo_deps :: "nat appDeps" where
  "demo_deps = \<lparr>input = (\<lambda>s. (sCapture demo_stages, Suc s)), endOfSpeechProvider = None,
     transcriber = (\<lambda>b s. (sTranscribe demo_stages b, Suc s)), responder = (\<lambda>t s. (sRespond demo_stages t, Suc s)),
     synthesizer = (\<lambda>t s. (sSynthesize demo_stages t, Suc s)), player = (\<lambda>b s. (sPlay demo_stages b, Suc s)),
     observer = (\<lambda>_ s. s), partialProvider = None, showUser = (\<lambda>_ s. s), showAssistant = (\<lambda>_ s. s),
     ctxErr = (\<lambda>_. None), clockNow = int\<rparr>"

lemma pipeline_demo: "pipeline demo_stages = \<lparr>sumStates = [StateIdle, StateListening, StateTranscribing, StateThinking,
    StateSynthesizing, StateIdle], sumReply = ''yes'', sumNoop = False, sumOutcome = ''error'',
    sumError = Some ErrorSynthesisFailed\<rparr>"
  by (simp add: pipeline_def demo_stages_def demo_audio_def Empty_def Validate_def trim_demo answer_def speak_def
      failure_def)




end
