(* ===== verification/Barge_In.thy ===== *)
theory Barge_In
  imports Wake Capture
begin

section \<open>Barge-in (\<^verbatim>\<open>internal/application/barge_in.go\<close>, \<^verbatim>\<open>interrupt.go\<close>, \<^verbatim>\<open>timed_input.go\<close>)\<close>

text \<open>
  While the assistant speaks, the recorder publishes short candidates.  The controller transcribes each and
  asks the policy; the first confirmed one becomes an interrupt event of the subscribed turn.
  The goroutine of a subscription is a function of the moves its \<^verbatim>\<open>select\<close> statements take, in order;
  a list that ends before the goroutine does leaves it waiting.
\<close>

record interruptEvent =
  intTurn :: turn_id
  intReason :: string
  intLatency :: duration

text \<open>
  A candidate together with what happens while it is handled: the transcriber's answer,
  whether the turn's context had ended when the transcriber failed, the clock when the
  latency is computed, and whether the context wins the final \<^verbatim>\<open>select\<close>.
\<close>

record candidateRun =
  runCandidate :: bargeCandidate
  runTranscript :: "go_error + string"
  runCtxEnded :: bool
  runNow :: instant
  runOvertaken :: bool

datatype barge_move = BargeCtxDone | BargeClosed | BargeReceived candidateRun

datatype barge_exit = BargeWaiting | BargeStopped | BargePublished interruptEvent

definition positiveLatency :: "duration \<Rightarrow> duration" where
  "positiveLatency d = (if d \<le> 0 then 1 else d)"

text \<open>One candidate: \<^term>\<open>None\<close> to go on with the loop.\<close>

definition handleCandidate :: "(string \<Rightarrow> bool) \<Rightarrow> turn_id \<Rightarrow> candidateRun \<Rightarrow> barge_exit option" where
  "handleCandidate confirm turn x =
     (case candStartedAt (runCandidate x) of
        None \<Rightarrow> None
      | Some t0 \<Rightarrow>
          if Empty (candBuffer (runCandidate x)) then None
          else case runTranscript x of
            Inl _ \<Rightarrow> if runCtxEnded x then Some BargeStopped else None
          | Inr transcript \<Rightarrow>
              if \<not> confirm transcript then None
              else if runOvertaken x then Some BargeStopped
              else Some (BargePublished \<lparr>intTurn = turn, intReason = ''wake_stop'',
                           intLatency = positiveLatency (runNow x - t0)\<rparr>))"

fun subscribeLoop :: "(string \<Rightarrow> bool) \<Rightarrow> turn_id \<Rightarrow> barge_move list \<Rightarrow> barge_exit" where
  "subscribeLoop confirm turn [] = BargeWaiting"
| "subscribeLoop confirm turn (BargeCtxDone # ms) = BargeStopped"
| "subscribeLoop confirm turn (BargeClosed # ms) = BargeStopped"
| "subscribeLoop confirm turn (BargeReceived x # ms) =
     (case handleCandidate confirm turn x of Some e \<Rightarrow> e | None \<Rightarrow> subscribeLoop confirm turn ms)"

text \<open>
  \<^verbatim>\<open>Subscribe\<close>: the controller's source may have no candidate channel, then the subscription is closed at once.
\<close>

definition Subscribe :: "(string \<Rightarrow> bool) \<Rightarrow> bool \<Rightarrow> turn_id \<Rightarrow> barge_move list \<Rightarrow> barge_exit" where
  "Subscribe confirm has_channel turn ms = (if has_channel then subscribeLoop confirm turn ms else BargeStopped)"

text \<open>The constructor refuses nil parts; \<^term>\<open>None\<close> is nil.\<close>

record ('s, 't) bargeController =
  bargeSource :: 's
  bargeTranscriber :: 't
  bargePolicy :: "string \<Rightarrow> bool"

definition NewBargeInController ::
  "'s option \<Rightarrow> 't option \<Rightarrow> (string \<Rightarrow> bool) option \<Rightarrow> go_error + ('s, 't) bargeController"
where
  "NewBargeInController source transcriber policy =
     (case source of None \<Rightarrow> Inl (Message ''barge candidate source is nil'') | Some s \<Rightarrow>
      case transcriber of None \<Rightarrow> Inl (Message ''barge transcriber is nil'') | Some t \<Rightarrow>
      case policy of None \<Rightarrow> Inl (Message ''barge policy is nil'') | Some p \<Rightarrow>
      Inr \<lparr>bargeSource = s, bargeTranscriber = t, bargePolicy = p\<rparr>)"

subsection \<open>The watcher of a turn\<close>

datatype watch_move = WatchCtxDone | WatchClosed | WatchEvent interruptEvent

text \<open>\<^verbatim>\<open>watchInterrupts\<close>: the cause the turn's context is cancelled with, if any.\<close>

fun watchInterrupts :: "turn_id \<Rightarrow> watch_move list \<Rightarrow> ctx option" where
  "watchInterrupts turn [] = None"
| "watchInterrupts turn (WatchCtxDone # ms) = None"
| "watchInterrupts turn (WatchClosed # ms) = None"
| "watchInterrupts turn (WatchEvent e # ms) =
     (if intTurn e \<noteq> turn then watchInterrupts turn ms else Some (Interrupted (intLatency e)))"

fun interruptedContext :: "ctx \<Rightarrow> bool" where
  "interruptedContext (Interrupted _) = True"
| "interruptedContext _ = False"

fun interruptLatency :: "ctx \<Rightarrow> duration" where
  "interruptLatency (Interrupted d) = d"
| "interruptLatency _ = 0"

subsection \<open>The end-of-speech stamp\<close>

record timedInput =
  ended :: "instant option"

definition timedNext :: "instant \<Rightarrow> buffer \<times> go_error option \<Rightarrow> timedInput \<Rightarrow> (buffer \<times> go_error option) \<times> timedInput" where
  "timedNext now out i =
     (case out of (b, err) \<Rightarrow>
        if err \<noteq> None then (out, i)
        else if \<not> Empty b then ((b, None), i\<lparr>ended := Some now\<rparr>) else ((b, None), i))"

definition ConsumeEndOfSpeech :: "timedInput \<Rightarrow> instant option \<times> timedInput" where
  "ConsumeEndOfSpeech i = (ended i, i\<lparr>ended := None\<rparr>)"

lemma consume_once: "ConsumeEndOfSpeech (snd (ConsumeEndOfSpeech i)) = (None, snd (ConsumeEndOfSpeech i))"
  by (simp add: ConsumeEndOfSpeech_def)

subsection \<open>Properties\<close>

lemma subscribeLoop_published:
  "subscribeLoop confirm turn ms = BargePublished e \<Longrightarrow>
     intTurn e = turn \<and> 0 < intLatency e \<and>
     (\<exists>pre x post t. ms = pre @ BargeReceived x # post \<and> runTranscript x = Inr t \<and> confirm t \<and>
        \<not> Empty (candBuffer (runCandidate x)) \<and> candStartedAt (runCandidate x) \<noteq> None)"
proof (induction confirm turn ms rule: subscribeLoop.induct)
  case (4 confirm turn x ms)
  show ?case
  proof (cases "handleCandidate confirm turn x")
    case None
    with 4 have "subscribeLoop confirm turn ms = BargePublished e" by simp
    from 4(1) [OF None this] show ?thesis by (metis append_Cons)
  next
    case (Some r)
    with 4(2) show ?thesis
      by (fastforce simp: handleCandidate_def positiveLatency_def
          split: option.splits if_splits sum.splits intro: exI [of _ "[]"])
  qed
qed simp_all


definition demo_candidate :: candidateRun where
  "demo_candidate = \<lparr>runCandidate = \<lparr>candBuffer = \<lparr>Samples = [1 / 2], SampleRate = 16000, Channels = 1\<rparr>,
     candStartedAt = Some 5, candPeakRMS = 1\<rparr>, runTranscript = Inr ''x para'', runCtxEnded = False,
     runNow = 9, runOvertaken = False\<rparr>"


end
