(* ===== verification/Transcript_Bridge.thy ===== *)
theory Transcript_Bridge
  imports Turn_Recorder
begin

section \<open>The transcript bridge (\<^verbatim>\<open>internal/application/transcript.go\<close>)\<close>

text \<open>
  The bridge decodes a short preview while the user is still speaking and wraps the final transcription.
  Each listening turn starts a preview goroutine; the transcription worker calls \<^verbatim>\<open>Transcribe\<close>.  They share the
  decode mutex and, under a second mutex, the identity of the current turn, the cancel function
  of the current preview and the preview latency.  The sections between two synchronisation
  points are the steps of \<open>br_step\<close>; the preview goroutines are numbered in the order they start.
\<close>

datatype transcriptKind = TranscriptPartial | TranscriptFinal

record transcriptEvent =
  trTurn :: turn_id
  trKind :: transcriptKind
  trText :: string

datatype preview_pc =
    PvAbsent
  | PvSelect turn_id instant
  | PvLock turn_id instant buffer
  | PvDecode turn_id instant buffer
  | PvChecked turn_id duration string
  | PvEmit turn_id string
  | PvDone

datatype final_pc =
    FinIdle
  | FinLock turn_id buffer
  | FinDecode turn_id buffer
  | FinCancel turn_id buffer "go_error + string"
  | FinEmit turn_id buffer string

datatype lock_owner = PreviewLock nat | FinalLock

text \<open>\<open>decoded\<close> and \<open>returned\<close> are no fields of the code: what the transcriber gave to
  \<^verbatim>\<open>Transcribe\<close>, and what \<^verbatim>\<open>Transcribe\<close> returned.\<close>

record bridge =
  brTurn :: turn_id
  brStarted :: instant
  brCancel :: "nat option"
  brLatency :: duration
  brNow :: instant
  decodeMu :: "lock_owner option"
  previews :: "nat \<Rightarrow> preview_pc"
  nextPreview :: nat
  cancelled :: "nat set"
  finPc :: final_pc
  transcripts :: "transcriptEvent list"
  decoded :: "(buffer \<times> (go_error + string)) list"
  returned :: "(buffer \<times> (go_error + string)) list"

definition newBridge :: bridge where
  "newBridge = \<lparr>brTurn = 0, brStarted = 0, brCancel = None, brLatency = 0, brNow = 0, decodeMu = None,
     previews = (\<lambda>_. PvAbsent), nextPreview = 0, cancelled = {}, finPc = FinIdle, transcripts = [],
     decoded = [], returned = []\<rparr>"

subsection \<open>Operations\<close>

definition startPreview :: "turn_id \<Rightarrow> bridge \<Rightarrow> bridge" where
  "startPreview turn b =
     (let b1 = (case brCancel b of None \<Rightarrow> b | Some i \<Rightarrow> b\<lparr>cancelled := insert i (cancelled b)\<rparr>);
          i = nextPreview b1
      in b1\<lparr>brTurn := turn, brStarted := brNow b1, brCancel := Some i, brLatency := 0,
            previews := (previews b1)(i := PvSelect turn (brNow b1)), nextPreview := Suc i\<rparr>)"

definition cancelPreview :: "turn_id \<Rightarrow> bridge \<Rightarrow> bridge" where
  "cancelPreview turn b =
     (if brTurn b \<noteq> turn then b
      else case brCancel b of
        None \<Rightarrow> b
      | Some i \<Rightarrow> b\<lparr>cancelled := insert i (cancelled b), brCancel := None\<rparr>)"

definition bridgeOnEvent :: "turn_event \<Rightarrow> bridge \<Rightarrow> bridge" where
  "bridgeOnEvent e b =
     (case evState e of
        StateListening \<Rightarrow> startPreview (evTurn e) b
      | StateStopping \<Rightarrow> cancelPreview (evTurn e) b
      | _ \<Rightarrow> b)"

definition isCurrentTurn :: "turn_id \<Rightarrow> bridge \<Rightarrow> bool" where
  "isCurrentTurn turn b \<longleftrightarrow> brTurn b = turn"

definition ConsumeFirstSTTPartial :: "turn_id \<Rightarrow> bridge \<Rightarrow> duration \<times> bridge" where
  "ConsumeFirstSTTPartial turn b =
     (if brTurn b \<noteq> turn then (0, b) else (brLatency b, b\<lparr>brLatency := 0\<rparr>))"

text \<open>The preview goroutine: receiving, entering the decode section, after decoding, recording, publishing.\<close>

definition previewReceive :: "nat \<Rightarrow> buffer option \<Rightarrow> bridge \<Rightarrow> bridge" where
  "previewReceive i msg b =
     (case previews b i of
        PvSelect turn t0 \<Rightarrow>
          (case msg of
             None \<Rightarrow> b\<lparr>previews := (previews b)(i := PvDone)\<rparr>
           | Some buf \<Rightarrow> if Empty buf then b\<lparr>previews := (previews b)(i := PvDone)\<rparr>
               else b\<lparr>previews := (previews b)(i := PvLock turn t0 buf)\<rparr>)
      | _ \<Rightarrow> b)"

definition previewAcquire :: "nat \<Rightarrow> bridge \<Rightarrow> bridge" where
  "previewAcquire i b =
     (case previews b i of
        PvLock turn t0 buf \<Rightarrow>
          if i \<in> cancelled b \<or> \<not> isCurrentTurn turn b then b\<lparr>previews := (previews b)(i := PvDone)\<rparr>
          else b\<lparr>previews := (previews b)(i := PvDecode turn t0 buf), decodeMu := Some (PreviewLock i)\<rparr>
      | _ \<Rightarrow> b)"

definition previewLeave :: "nat \<Rightarrow> bridge \<Rightarrow> bridge" where
  "previewLeave i b = b\<lparr>previews := (previews b)(i := PvDone), decodeMu := None\<rparr>"

definition previewDecoded :: "nat \<Rightarrow> go_error + string \<Rightarrow> bridge \<Rightarrow> bridge" where
  "previewDecoded i out b =
     (case previews b i of
        PvDecode turn t0 buf \<Rightarrow>
          (case out of
             Inl _ \<Rightarrow> previewLeave i b
           | Inr raw \<Rightarrow>
               if i \<in> cancelled b \<or> \<not> isCurrentTurn turn b \<or> trim_space raw = [] then previewLeave i b
               else b\<lparr>previews := (previews b)(i := PvChecked turn (positiveDuration (brNow b - t0)) (trim_space raw))\<rparr>)
      | _ \<Rightarrow> b)"

definition previewRecord :: "nat \<Rightarrow> bridge \<Rightarrow> bridge" where
  "previewRecord i b =
     (case previews b i of
        PvChecked turn latency text' \<Rightarrow>
          if brTurn b \<noteq> turn then previewLeave i b
          else b\<lparr>brLatency := (if brLatency b = 0 then latency else brLatency b),
                 previews := (previews b)(i := PvEmit turn text')\<rparr>
      | _ \<Rightarrow> b)"

definition previewEmit :: "nat \<Rightarrow> bridge \<Rightarrow> bridge" where
  "previewEmit i b =
     (case previews b i of
        PvEmit turn text' \<Rightarrow>
          (previewLeave i b)\<lparr>transcripts := transcripts b @ [\<lparr>trTurn = turn, trKind = TranscriptPartial, trText = text'\<rparr>]\<rparr>
      | _ \<Rightarrow> b)"

text \<open>\<^verbatim>\<open>Transcribe\<close>: reading the turn, entering, leaving the decode section, cancelling the preview, publishing.\<close>

definition finalCall :: "buffer \<Rightarrow> bridge \<Rightarrow> bridge" where
  "finalCall buf b = b\<lparr>finPc := FinLock (brTurn b) buf\<rparr>"

definition finalDecoded :: "go_error + string \<Rightarrow> bridge \<Rightarrow> bridge" where
  "finalDecoded out b =
     (case finPc b of
        FinDecode turn buf \<Rightarrow>
          b\<lparr>finPc := FinCancel turn buf out, decodeMu := None, decoded := decoded b @ [(buf, out)]\<rparr>
      | _ \<Rightarrow> b)"

definition finalCancel :: "bridge \<Rightarrow> bridge" where
  "finalCancel b =
     (case finPc b of
        FinCancel turn buf out \<Rightarrow>
          (case out of
             Inl e \<Rightarrow> (cancelPreview turn b)\<lparr>finPc := FinIdle, returned := returned b @ [(buf, Inl e)]\<rparr>
           | Inr raw \<Rightarrow> (cancelPreview turn b)\<lparr>finPc := FinEmit turn buf (trim_space raw)\<rparr>)
      | _ \<Rightarrow> b)"

definition finalEmit :: "bridge \<Rightarrow> bridge" where
  "finalEmit b =
     (case finPc b of
        FinEmit turn buf text' \<Rightarrow>
          b\<lparr>finPc := FinIdle, transcripts := transcripts b @ [\<lparr>trTurn = turn, trKind = TranscriptFinal, trText = text'\<rparr>],
            returned := returned b @ [(buf, Inr text')]\<rparr>
      | _ \<Rightarrow> b)"

subsection \<open>The interleavings\<close>

inductive br_step :: "bridge \<Rightarrow> bridge \<Rightarrow> bool" where
  tick: "0 \<le> d \<Longrightarrow> br_step b (b\<lparr>brNow := brNow b + d\<rparr>)"
| event: "br_step b (bridgeOnEvent e b)"
| consume: "br_step b (snd (ConsumeFirstSTTPartial turn b))"
| pv_cancelled: "previews b i = PvSelect turn t0 \<Longrightarrow> i \<in> cancelled b \<Longrightarrow> br_step b (b\<lparr>previews := (previews b)(i := PvDone)\<rparr>)"
| pv_receive: "previews b i = PvSelect turn t0 \<Longrightarrow> br_step b (previewReceive i msg b)"
| pv_acquire: "previews b i = PvLock turn t0 buf \<Longrightarrow> decodeMu b = None \<Longrightarrow> br_step b (previewAcquire i b)"
| pv_decoded: "previews b i = PvDecode turn t0 buf \<Longrightarrow> br_step b (previewDecoded i out b)"
| pv_record: "previews b i = PvChecked turn latency s \<Longrightarrow> br_step b (previewRecord i b)"
| pv_emit: "previews b i = PvEmit turn s \<Longrightarrow> br_step b (previewEmit i b)"
| fin_call: "finPc b = FinIdle \<Longrightarrow> br_step b (finalCall buf b)"
| fin_acquire: "finPc b = FinLock turn buf \<Longrightarrow> decodeMu b = None \<Longrightarrow>
    br_step b (b\<lparr>finPc := FinDecode turn buf, decodeMu := Some FinalLock\<rparr>)"
| fin_decoded: "finPc b = FinDecode turn buf \<Longrightarrow> br_step b (finalDecoded out b)"
| fin_cancel: "finPc b = FinCancel turn buf out \<Longrightarrow> br_step b (finalCancel b)"
| fin_emit: "finPc b = FinEmit turn buf s \<Longrightarrow> br_step b (finalEmit b)"

abbreviation br_reach :: "bridge \<Rightarrow> bool" where
  "br_reach b \<equiv> br_step\<^sup>*\<^sup>* newBridge b"

subsection \<open>The invariant\<close>

fun decoding :: "preview_pc \<Rightarrow> bool" where
  "decoding (PvDecode _ _ _) = True"
| "decoding (PvChecked _ _ _) = True"
| "decoding (PvEmit _ _) = True"
| "decoding _ = False"

fun preview_text :: "preview_pc \<Rightarrow> string option" where
  "preview_text (PvChecked _ _ s) = Some s"
| "preview_text (PvEmit _ s) = Some s"
| "preview_text _ = None"

fun preview_latency :: "preview_pc \<Rightarrow> duration option" where
  "preview_latency (PvChecked _ d _) = Some d"
| "preview_latency _ = None"

text \<open>What \<^verbatim>\<open>Transcribe\<close> is about to return.\<close>

fun pending :: "final_pc \<Rightarrow> (buffer \<times> (go_error + string)) list" where
  "pending (FinCancel _ buf out) = [(buf, map_sum id trim_space out)]"
| "pending (FinEmit _ buf s) = [(buf, Inr s)]"
| "pending _ = []"

definition lock_ok :: "bridge \<Rightarrow> bool" where
  "lock_ok b \<longleftrightarrow> (\<forall>i. decoding (previews b i) = (decodeMu b = Some (PreviewLock i))) \<and>
     ((\<exists>turn buf. finPc b = FinDecode turn buf) = (decodeMu b = Some FinalLock)) \<and>
     (\<forall>i \<ge> nextPreview b. previews b i = PvAbsent)"

definition text_ok :: "bridge \<Rightarrow> bool" where
  "text_ok b \<longleftrightarrow> (\<forall>i s. preview_text (previews b i) = Some s \<longrightarrow> s \<noteq> []) \<and>
     (\<forall>e \<in> set (transcripts b). trKind e = TranscriptPartial \<longrightarrow> trText e \<noteq> []) \<and>
     returned b @ pending (finPc b) = map (map_prod id (map_sum id trim_space)) (decoded b)"

definition latency_ok :: "bridge \<Rightarrow> bool" where
  "latency_ok b \<longleftrightarrow> 0 \<le> brLatency b \<and> (\<forall>i d. preview_latency (previews b i) = Some d \<longrightarrow> 0 < d)"

lemmas bridge_ops = bridgeOnEvent_def startPreview_def cancelPreview_def ConsumeFirstSTTPartial_def
  previewReceive_def previewAcquire_def previewLeave_def previewDecoded_def previewRecord_def previewEmit_def
  finalCall_def finalDecoded_def finalCancel_def finalEmit_def

lemma lock_ok_step: "br_step b b' \<Longrightarrow> lock_ok b \<Longrightarrow> lock_ok b'"
proof (induction rule: br_step.induct)
  case (event b e)
  then have "previews b (nextPreview b) = PvAbsent" by (simp add: lock_ok_def)
  with event have "decodeMu b \<noteq> Some (PreviewLock (nextPreview b))"
    by (metis decoding.simps(4) lock_ok_def)
  with event show ?case
    by (auto simp: bridge_ops lock_ok_def Let_def split: state.splits option.splits)
next
  case (fin_cancel b turn buf out)
  then show ?case
    by (auto simp: bridge_ops lock_ok_def split: sum.splits option.splits)
qed (auto simp: bridge_ops lock_ok_def isCurrentTurn_def not_less_eq_eq split: option.splits sum.splits if_splits,
    (metis decoding.simps preview_pc.distinct)+)

lemma text_ok_step: "br_step b b' \<Longrightarrow> text_ok b \<Longrightarrow> text_ok b'"
proof (induction rule: br_step.induct)
  case (event b e)
  then show ?case
    by (auto simp: bridge_ops text_ok_def Let_def split: state.splits option.splits)
next
  case (fin_cancel b turn buf out)
  then show ?case
    by (auto simp: bridge_ops text_ok_def split: sum.splits option.splits)
next
  case (pv_record b i turn latency s)
  then have "s \<noteq> []" by (metis text_ok_def preview_text.simps(1))
  with pv_record show ?case by (auto simp: bridge_ops text_ok_def)
next
  case (pv_emit b i turn s)
  then have "s \<noteq> []" by (metis text_ok_def preview_text.simps(2))
  with pv_emit show ?case by (auto simp: bridge_ops text_ok_def)
qed (auto simp: bridge_ops text_ok_def isCurrentTurn_def split: option.splits sum.splits if_splits)

lemma latency_ok_step: "br_step b b' \<Longrightarrow> latency_ok b \<Longrightarrow> latency_ok b'"
proof (induction rule: br_step.induct)
  case (event b e)
  then show ?case
    by (auto simp: bridge_ops latency_ok_def Let_def split: state.splits option.splits)
next
  case (fin_cancel b turn buf out)
  then show ?case
    by (auto simp: bridge_ops latency_ok_def split: sum.splits option.splits)
next
  case (pv_record b i turn latency s)
  then have "0 < latency" by (metis latency_ok_def preview_latency.simps(1))
  with pv_record show ?case by (auto simp: bridge_ops latency_ok_def)
qed (auto simp: bridge_ops latency_ok_def isCurrentTurn_def positiveDuration_def split: option.splits sum.splits if_splits)

lemma br_invariant: "br_reach b \<Longrightarrow> lock_ok b \<and> text_ok b \<and> latency_ok b"
proof (induction rule: rtranclp_induct)
  case base
  show ?case by (simp add: newBridge_def lock_ok_def text_ok_def latency_ok_def)
next
  case (step b b')
  then show ?case using lock_ok_step text_ok_step latency_ok_step by blast
qed

subsection \<open>Properties\<close>

text \<open>
  C34. Previews never leak into the authoritative transcript: in every reachable state at most one decode is
  under way, a final decode excludes every preview that has decoded but not yet published,
  \<^verbatim>\<open>Transcribe\<close> has returned, call by call, exactly the transcriber's answers to its own buffers (trimmed),
  and every partial event carries text.
\<close>

theorem preview_never_replaces_final:
  assumes "br_reach b"
  shows "(\<forall>i j. decoding (previews b i) \<and> decoding (previews b j) \<longrightarrow> i = j) \<and>
    (\<forall>turn buf. finPc b = FinDecode turn buf \<longrightarrow> (\<forall>i. \<not> decoding (previews b i))) \<and>
    returned b = take (length (returned b)) (map (map_prod id (map_sum id trim_space)) (decoded b)) \<and>
    (\<forall>e \<in> set (transcripts b). trKind e = TranscriptPartial \<longrightarrow> trText e \<noteq> [])"
proof -
  have l: "lock_ok b" and t: "text_ok b" using br_invariant [OF assms] by auto
  have "i = j" if "decoding (previews b i)" "decoding (previews b j)" for i j
    using l that by (simp add: lock_ok_def)
  moreover have "\<not> decoding (previews b i)" if "finPc b = FinDecode turn buf" for turn buf i
    using l that by (auto simp: lock_ok_def)
  moreover have "returned b = take (length (returned b)) (returned b @ pending (finPc b))" by simp
  then have "returned b = take (length (returned b)) (map (map_prod id (map_sum id trim_space)) (decoded b))"
    using t unfolding text_ok_def by metis
  ultimately show ?thesis using t by (auto simp: text_ok_def)
qed

text \<open>A run in which the preview takes the decode mutex between the final decode and the cancellation.\<close>

definition demo_voice :: buffer where
  "demo_voice = \<lparr>Samples = [1 / 2], SampleRate = 16000, Channels = 1\<rparr>"

definition race_states :: "bridge list" where
  "race_states =
     (let s1 = bridgeOnEvent \<lparr>evTurn = 1, evState = StateListening\<rparr> newBridge;
          s2 = previewReceive 0 (Some demo_voice) s1;
          s3 = finalCall demo_voice s2;
          s4 = s3\<lparr>finPc := FinDecode 1 demo_voice, decodeMu := Some FinalLock\<rparr>;
          s5 = finalDecoded (Inr ''hola'') s4;
          s6 = previewAcquire 0 s5;
          s7 = previewDecoded 0 (Inr ''ho'') s6;
          s8 = finalCancel s7;
          s9 = finalEmit s8;
          s10 = previewRecord 0 s9;
          s11 = previewEmit 0 s10
      in [newBridge, s1, s2, s3, s4, s5, s6, s7, s8, s9, s10, s11])"

lemma trim_race: "trim_space ''ho'' = ''ho''" "trim_space ''hola'' = ''hola''"
  by code_simp+

lemmas race_simps = newBridge_def demo_voice_def Empty_def isCurrentTurn_def bridge_ops trim_race

lemma race_run:
  "br_reach (last race_states)" and
  race_transcripts: "transcripts (last race_states) =
     [\<lparr>trTurn = 1, trKind = TranscriptFinal, trText = ''hola''\<rparr>, \<lparr>trTurn = 1, trKind = TranscriptPartial, trText = ''ho''\<rparr>]"
proof -
  define s1 where "s1 = bridgeOnEvent \<lparr>evTurn = 1, evState = StateListening\<rparr> newBridge"
  define s2 where "s2 = previewReceive 0 (Some demo_voice) s1"
  define s3 where "s3 = finalCall demo_voice s2"
  define s4 where "s4 = s3\<lparr>finPc := FinDecode 1 demo_voice, decodeMu := Some FinalLock\<rparr>"
  define s5 where "s5 = finalDecoded (Inr ''hola'') s4"
  define s6 where "s6 = previewAcquire 0 s5"
  define s7 where "s7 = previewDecoded 0 (Inr ''ho'') s6"
  define s8 where "s8 = finalCancel s7"
  define s9 where "s9 = finalEmit s8"
  define s10 where "s10 = previewRecord 0 s9"
  note defs = s10_def s9_def s8_def s7_def s6_def s5_def s4_def s3_def s2_def s1_def
  have last: "last race_states = previewEmit 0 s10" by (simp add: race_states_def defs Let_def)
  have "br_step newBridge s1" unfolding s1_def by (rule event)
  moreover have "br_step s1 s2" unfolding s2_def by (rule pv_receive [of _ _ 1 0]) (simp add: defs race_simps)
  moreover have "br_step s2 s3" unfolding s3_def by (rule fin_call) (simp add: defs race_simps)
  moreover have "br_step s3 s4" unfolding s4_def by (rule fin_acquire) (simp_all add: defs race_simps)
  moreover have "br_step s4 s5" unfolding s5_def by (rule fin_decoded [of _ 1 demo_voice]) (simp add: defs)
  moreover have "br_step s5 s6" unfolding s6_def by (rule pv_acquire [of _ _ 1 0 demo_voice]) (simp_all add: defs race_simps)
  moreover have "br_step s6 s7" unfolding s7_def by (rule pv_decoded [of _ _ 1 0 demo_voice]) (simp add: defs race_simps)
  moreover have "br_step s7 s8" unfolding s8_def by (rule fin_cancel [of _ 1 demo_voice "Inr ''hola''"]) (simp add: defs race_simps)
  moreover have "br_step s8 s9" unfolding s9_def by (rule fin_emit [of _ 1 demo_voice "''hola''"]) (simp add: defs race_simps)
  moreover have "br_step s9 s10" unfolding s10_def by (rule pv_record [of _ _ 1 1 "''ho''"]) (simp add: defs race_simps positiveDuration_def)
  moreover have "br_step s10 (last race_states)" unfolding last by (rule pv_emit [of _ _ 1 "''ho''"]) (simp add: defs race_simps positiveDuration_def)
  ultimately show "br_reach (last race_states)" by (meson converse_rtranclp_into_rtranclp rtranclp.rtrancl_refl)
  show "transcripts (last race_states) =
     [\<lparr>trTurn = 1, trKind = TranscriptFinal, trText = ''hola''\<rparr>, \<lparr>trTurn = 1, trKind = TranscriptPartial, trText = ''ho''\<rparr>]"
    by (simp add: last defs race_simps positiveDuration_def)
qed

theorem preview_never_replaces_final_witness:
  "\<exists>b. br_reach b \<and> (\<exists>e \<in> set (transcripts b). trKind e = TranscriptPartial \<and> trText e \<noteq> [])"
  using preview_never_replaces_final [OF race_run] race_run race_transcripts by (intro exI [of _ "last race_states"]) simp

text \<open>
  A partial transcript can be published after the final one of the same turn: the decode mutex is released before the
  preview is cancelled, and a preview that decodes in between publishes when it likes.
\<close>

theorem partial_may_follow_final:
  "\<exists>b pre mid post e f. br_reach b \<and> transcripts b = pre @ f # mid @ e # post \<and>
     trKind f = TranscriptFinal \<and> trKind e = TranscriptPartial \<and> trTurn e = trTurn f"
  using race_run race_transcripts
  by (intro exI [of _ "last race_states"] exI [of _ "[]"] exI [of _ "[]"] exI [of _ "[]"]) simp

end
