(* ===== verification/Observers.thy ===== *)
theory Observers
  imports Coordinator Capture Transcript_Bridge
begin

section \<open>Observers of the assistant (\<^verbatim>\<open>cmd/assistant\<close>, \<^verbatim>\<open>internal/console/status.go\<close>)\<close>

text \<open>
  The observers \<^verbatim>\<open>main\<close> composes: the capture gate that closes the microphone path while the assistant
  speaks, the console, and the transcript bridge, joined by a fan-out.  An observer is a
  function on the state of everything it writes to.
\<close>

type_synonym 's observer_fun = "turn_event \<Rightarrow> 's \<Rightarrow> 's"

subsection \<open>Gate and fan-out\<close>

text \<open>\<^term>\<open>None\<close> for a nil observer or suppressor.\<close>

definition captureGateOnEvent ::
  "'s observer_fun option \<Rightarrow> (bool \<Rightarrow> 's \<Rightarrow> 's) option \<Rightarrow> 's observer_fun"
where
  "captureGateOnEvent downstream capture e s =
     (let s1 = (case capture of
          None \<Rightarrow> s
        | Some setSuppressed \<Rightarrow>
            (case evState e of
               state.StateSpeaking \<Rightarrow> setSuppressed True s
             | StateIdle \<Rightarrow> setSuppressed False s
             | StateInterrupted \<Rightarrow> setSuppressed False s
             | StateStopping \<Rightarrow> setSuppressed False s
             | _ \<Rightarrow> s))
      in case downstream of None \<Rightarrow> s1 | Some o' \<Rightarrow> o' e s1)"

text \<open>An observer with, for those that provide it, the partial-transcript metric.\<close>

type_synonym 's any_observer = "'s observer_fun \<times> (turn_id \<Rightarrow> 's \<Rightarrow> duration \<times> 's) option"

definition newFanoutObserver :: "'s any_observer option list \<Rightarrow> 's any_observer list" where
  "newFanoutObserver observers = map the (filter (\<lambda>o'. o' \<noteq> None) observers)"

fun fanoutOnEvent :: "'s any_observer list \<Rightarrow> 's observer_fun" where
  "fanoutOnEvent [] e s = s"
| "fanoutOnEvent (o' # os) e s = fanoutOnEvent os e (fst o' e s)"

fun fanoutConsume :: "'s any_observer list \<Rightarrow> turn_id \<Rightarrow> 's \<Rightarrow> duration \<times> 's" where
  "fanoutConsume [] turn s = (0, s)"
| "fanoutConsume (o' # os) turn s =
     (case snd o' of
        None \<Rightarrow> fanoutConsume os turn s
      | Some consume \<Rightarrow>
          (case consume turn s of (latency, s1) \<Rightarrow>
             if 0 < latency then (latency, s1) else fanoutConsume os turn s1))"

subsection \<open>Console\<close>

record statusPrinter =
  writer :: bool
  lastStatus :: string
  written :: "string list"

definition setStatus :: "string \<Rightarrow> statusPrinter \<Rightarrow> statusPrinter" where
  "setStatus status p =
     (if \<not> writer p \<or> status = [] \<or> status = lastStatus p then p
      else p\<lparr>lastStatus := status, written := written p @ [status]\<rparr>)"

definition consoleLabel :: "state \<Rightarrow> string" where
  "consoleLabel s =
     (case s of
        StateIdle \<Rightarrow> ''Escuchando''
      | StateListening \<Rightarrow> ''Escuchando''
      | StateTranscribing \<Rightarrow> ''Procesando STT''
      | StateThinking \<Rightarrow> ''Pensando''
      | StateSynthesizing \<Rightarrow> ''Sintetizando''
      | state.StateSpeaking \<Rightarrow> ''Hablando''
      | StateStopping \<Rightarrow> ''Deteniendo''
      | _ \<Rightarrow> ''Escuchando'')"

definition consoleOnEvent :: "turn_event \<Rightarrow> statusPrinter \<Rightarrow> statusPrinter" where
  "consoleOnEvent e p = setStatus (consoleLabel (evState e)) p"

text \<open>The lines written for partial transcripts.\<close>

definition consoleOnTranscript :: "transcriptEvent \<Rightarrow> string list \<Rightarrow> string list" where
  "consoleOnTranscript e out =
     (if trKind e \<noteq> TranscriptPartial \<or> trText e = [] then out
      else out @ [''[partial] '' @ trText e @ [CHR 0x0A]])"

subsection \<open>Wake aliases\<close>

fun splitComma :: "string \<Rightarrow> string list" where
  "splitComma [] = [[]]"
| "splitComma (c # s) =
     (if c = CHR '','' then [] # splitComma s
      else case splitComma s of p # ps \<Rightarrow> (c # p) # ps | [] \<Rightarrow> [[c]])"

definition splitWakeAliases :: "string \<Rightarrow> string list" where
  "splitWakeAliases value' =
     (if trim_space value' = [] then []
      else filter (\<lambda>a. a \<noteq> []) (map trim_space (splitComma value')))"

lemma splitComma_nonempty: "splitComma s \<noteq> []"
  by (induction s) (auto split: list.split)

lemma splitComma_pieces: "p \<in> set (splitComma s) \<Longrightarrow> CHR '','' \<notin> set p"
proof (induction s arbitrary: p)
  case (Cons c s)
  then show ?case using splitComma_nonempty [of s] by (auto split: if_splits list.splits)
qed simp

subsection \<open>The composition of \<^verbatim>\<open>main\<close>\<close>

record 'd desk =
  deskRecorder :: "'d recorder"
  deskStatus :: statusPrinter
  deskBridge :: bridge

definition mainObserver :: "'d desk any_observer list" where
  "mainObserver = newFanoutObserver
     [Some (captureGateOnEvent (Some (\<lambda>e k. k\<lparr>deskStatus := consoleOnEvent e (deskStatus k)\<rparr>))
              (Some (\<lambda>b k. k\<lparr>deskRecorder := SetSuppressed b (deskRecorder k)\<rparr>)), None),
      Some (\<lambda>e k. k\<lparr>deskBridge := bridgeOnEvent e (deskBridge k)\<rparr>,
            Some (\<lambda>turn k. case ConsumeFirstSTTPartial turn (deskBridge k) of (d, b) \<Rightarrow> (d, k\<lparr>deskBridge := b\<rparr>)))]"

definition mainOnEvent :: "'d desk observer_fun" where
  "mainOnEvent = fanoutOnEvent mainObserver"

subsection \<open>The gate contract\<close>

text \<open>
  What the capture needs of an observer: it is closed when the assistant starts to speak, opened
  when a turn ends or begins, and left alone by every other state.
\<close>

definition opens_gate :: "state \<Rightarrow> bool" where
  "opens_gate s \<longleftrightarrow> s \<in> {StateIdle, StateInterrupted, StateStopping}"

locale capture_gate =
  fixes onEvent :: "turn_event \<Rightarrow> 's \<Rightarrow> 's" and closed :: "'s \<Rightarrow> bool"
  assumes closes: "evState e = state.StateSpeaking \<Longrightarrow> closed (onEvent e s)"
    and opens: "opens_gate (evState e) \<Longrightarrow> \<not> closed (onEvent e s)"
    and keeps: "evState e \<noteq> state.StateSpeaking \<Longrightarrow> \<not> opens_gate (evState e) \<Longrightarrow> closed (onEvent e s) = closed s"
begin

text \<open>On the events of a turn's path the gate is closed exactly while the last state is speaking.\<close>

lemma closed_on_path:
  assumes path: "map evState evs = StateIdle # mid @ [f]" "sorted_wrt (<) (map rank mid)" "opens_gate f"
    and k: "0 < k" "k \<le> length evs"
  shows "closed (fold onEvent (take k evs) s) \<longleftrightarrow> evState (evs ! (k - 1)) = state.StateSpeaking"
  using k
proof (induction k)
  case (Suc k)
  let ?sts = "StateIdle # mid @ [f]"
  have nth: "evState (evs ! i) = ?sts ! i" if "i < length evs" for i
    using that path(1) by (metis nth_map)
  have len: "length evs = length mid + 2" using path(1) by (metis length_map length_Cons length_append_singleton add_2_eq_Suc')
  have step: "fold onEvent (take (Suc k) evs) s = onEvent (evs ! k) (fold onEvent (take k evs) s)"
    using Suc.prems(2) by (simp add: take_Suc_conv_app_nth)
  show ?case
  proof (cases "evState (evs ! k) = state.StateSpeaking \<or> opens_gate (evState (evs ! k))")
    case True
    then show ?thesis using step closes opens by (auto simp: opens_gate_def)
  next
    case False
    have k0: "0 < k" using False nth [of 0] len by (cases k) (simp_all add: opens_gate_def)
    have kmid: "k \<le> length mid"
    proof (rule ccontr)
      assume "\<not> k \<le> length mid"
      with Suc.prems(2) len have "k = Suc (length mid)" by simp
      with nth [of k] len have "evState (evs ! k) = f" by simp
      with False path(3) show False by simp
    qed
    have prev: "evState (evs ! (k - 1)) \<noteq> state.StateSpeaking"
    proof (cases "k = 1")
      case True
      then show ?thesis using nth [of 0] len by simp
    next
      case False': False
      then obtain j where j: "k = Suc (Suc j)" using k0 by (metis One_nat_def not0_implies_Suc not_gr_zero)
      have "evState (evs ! Suc j) = mid ! j" using nth [of "Suc j"] kmid len j by (simp add: nth_append)
      moreover have "rank (mid ! j) < rank (mid ! Suc j)"
        using path(2) kmid j sorted_wrt_nth_less [of "(<)" "map rank mid" j "Suc j"] by simp
      moreover have "rank (mid ! Suc j) \<le> 6" by (cases "mid ! Suc j") simp_all
      ultimately show ?thesis using j by auto
    qed
    have "closed (fold onEvent (take k evs) s) \<longleftrightarrow> evState (evs ! (k - 1)) = state.StateSpeaking"
      using Suc.IH k0 Suc.prems by simp
    then show ?thesis using step keeps False prev by auto
  qed
qed simp

lemma open_after_path:
  assumes "map evState evs = StateIdle # mid @ [f]" "opens_gate f"
  shows "\<not> closed (fold onEvent evs s)"
proof -
  have "evs \<noteq> []" using assms(1) by auto
  then obtain es e where e: "evs = es @ [e]" by (metis rev_exhaust)
  with assms have "opens_gate (evState e)" by (metis last_snoc last_map map_is_Nil_conv append_is_Nil_conv last_ConsR not_Cons_self2)
  with e opens show ?thesis by simp
qed

end

lemma deskRecorder_mainOnEvent:
  "deskRecorder (mainOnEvent e k) =
     (if evState e = state.StateSpeaking then SetSuppressed True (deskRecorder k)
      else if opens_gate (evState e) then SetSuppressed False (deskRecorder k) else deskRecorder k)"
  by (cases "evState e")
     (simp_all add: mainOnEvent_def mainObserver_def newFanoutObserver_def captureGateOnEvent_def opens_gate_def Let_def)

lemma suppressed_SetSuppressed [simp]: "suppressed (SetSuppressed b r) = b"
  by (simp add: SetSuppressed_def flushBargeCandidates_def Let_def)

interpretation desk_gate: capture_gate mainOnEvent "\<lambda>k. suppressed (deskRecorder k)"
  by unfold_locales (auto simp: deskRecorder_mainOnEvent opens_gate_def)

lemma exit_opens_gate: "exit_ok f err \<Longrightarrow> opens_gate f"
  by (auto simp: exit_ok_def opens_gate_def split: option.splits)

text \<open>A status is printed only when it changes.\<close>

lemma setStatus_distinct_adjacent:
  "setStatus a (setStatus a p) = setStatus a p"
  by (simp add: setStatus_def)

end
