(* ===== verification/Tools.thy ===== *)
theory Tools
  imports Prelude
begin

section \<open>Tool policy, registry and executor (\<^verbatim>\<open>internal/tools\<close>: \<^verbatim>\<open>policy.go\<close>, \<^verbatim>\<open>tool.go\<close>, \<^verbatim>\<open>executor.go\<close>)\<close>

text \<open>
  The model may only call registered tools, and a tool is registered only if the policy allows its name.
  A tool is a name and a function on the state \<^typ>\<open>'s\<close> of everything a tool can touch; whether the
  context has ended and the clock are read from that state as well.  The quoting of a name in
  an error message (\<^verbatim>\<open>%q\<close>) is a parameter of the executor.
\<close>

subsection \<open>Calls, messages and tools\<close>

record toolCall =
  callID :: string
  callType :: string
  callName :: string
  callArguments :: string

record toolMessage =
  tmRole :: string
  tmCallID :: string
  tmContent :: string

record toolResult =
  resContent :: string
  resIsError :: bool

definition Errorf :: "string \<Rightarrow> toolResult" where
  "Errorf s = \<lparr>resContent = ''ERROR: '' @ s, resIsError = True\<rparr>"

record 's tool =
  toolName :: string
  toolDescription :: string
  toolExecute :: "string \<Rightarrow> 's \<Rightarrow> toolResult \<times> 's"

subsection \<open>Policy\<close>

record toolPolicy =
  allowed :: "string set"
  allowAll :: bool

definition NewToolPolicy :: "string list \<Rightarrow> toolPolicy" where
  "NewToolPolicy names = \<lparr>allowed = set (filter (\<lambda>n. n \<noteq> []) names), allowAll = False\<rparr>"

definition defaultAllowedTools :: "string list" where
  "defaultAllowedTools = [''web_search'', ''web_fetch'']"

definition DefaultToolPolicy :: toolPolicy where
  "DefaultToolPolicy = NewToolPolicy defaultAllowedTools"

definition AllowAllToolPolicy :: toolPolicy where
  "AllowAllToolPolicy = \<lparr>allowed = {}, allowAll = True\<rparr>"

definition WithAllowed :: "toolPolicy \<Rightarrow> string list \<Rightarrow> toolPolicy" where
  "WithAllowed p names =
     (if allowAll p then p
      else \<lparr>allowed = allowed p \<union> set (filter (\<lambda>n. n \<noteq> []) names), allowAll = False\<rparr>)"

definition Allows :: "toolPolicy \<Rightarrow> string \<Rightarrow> bool" where
  "Allows p name \<longleftrightarrow> allowAll p \<or> name \<in> allowed p"

subsection \<open>Registry\<close>

record 's registry =
  regTools :: "'s tool list"
  regPolicy :: toolPolicy
  regDenied :: "string set"

definition NewRegistry :: "toolPolicy option \<Rightarrow> 's registry" where
  "NewRegistry policy = \<lparr>regTools = [], regPolicy = (case policy of None \<Rightarrow> DefaultToolPolicy | Some p \<Rightarrow> p), regDenied = {}\<rparr>"

definition getTool :: "'s registry \<Rightarrow> string \<Rightarrow> 's tool option" where
  "getTool r name = find (\<lambda>t. toolName t = name) (regTools r)"

definition IsDenied :: "'s registry \<Rightarrow> string \<Rightarrow> bool" where
  "IsDenied r name \<longleftrightarrow> name \<in> regDenied r"

datatype register_error = ToolIsNil | ToolDenied string | AlreadyRegistered string

definition Register :: "'s tool option \<Rightarrow> 's registry \<Rightarrow> register_error option \<times> 's registry" where
  "Register t r =
     (case t of
        None \<Rightarrow> (Some ToolIsNil, r)
      | Some tool \<Rightarrow>
          let name = toolName tool in
          if \<not> Allows (regPolicy r) name then (Some (ToolDenied name), r\<lparr>regDenied := insert name (regDenied r)\<rparr>)
          else if getTool r name \<noteq> None then (Some (AlreadyRegistered name), r)
          else (None, r\<lparr>regTools := regTools r @ [tool]\<rparr>))"

definition IsToolDenied :: "register_error \<Rightarrow> bool" where
  "IsToolDenied e \<longleftrightarrow> (\<exists>n. e = ToolDenied n)"

definition registryNames :: "'s registry \<Rightarrow> string list" where
  "registryNames r = map toolName (regTools r)"

text \<open>The definitions advertised to the model, one per tool: name and description.\<close>

definition Definitions :: "'s registry \<Rightarrow> (string \<times> string \<times> string) list" where
  "Definitions r = map (\<lambda>t. (''function'', toolName t, toolDescription t)) (regTools r)"

subsection \<open>Executor\<close>

text \<open>\<^verbatim>\<open>strings.Join\<close>.\<close>

fun joinWith :: "string \<Rightarrow> string list \<Rightarrow> string" where
  "joinWith sep [] = []"
| "joinWith sep [p] = p"
| "joinWith sep (p # q # ps) = p @ sep @ joinWith sep (q # ps)"

datatype executionErrorCode = ExecutionUnknownTool | ExecutionDeniedTool | ExecutionToolError | ExecutionCancelled

record executionRecord =
  recCall :: toolCall
  recMessage :: toolMessage
  recLog :: string
  recError :: "executionErrorCode option"
  recDuration :: duration

definition Success :: "executionRecord \<Rightarrow> bool" where
  "Success r \<longleftrightarrow> recError r = None"

text \<open>What the executor sees of the outside: the state of the context and the clock.\<close>

record 's outside =
  outCtxErr :: "'s \<Rightarrow> go_error option"
  outNow :: "'s \<Rightarrow> instant"

text \<open>The marks of the log lines, as UTF-8 bytes.\<close>

definition crossMark :: string where "crossMark = [CHR 0xE2, CHR 0x9C, CHR 0x97, CHR '' '']"
definition checkMark :: string where "checkMark = [CHR 0xE2, CHR 0x9C, CHR 0x93, CHR '' '']"
definition dash :: string where "dash = [CHR '' '', CHR 0xE2, CHR 0x80, CHR 0x94, CHR '' '']"

definition refused :: "(string \<Rightarrow> string) \<Rightarrow> string \<Rightarrow> string \<Rightarrow> string \<Rightarrow> toolCall \<Rightarrow> executionErrorCode \<Rightarrow> executionRecord" where
  "refused quote before after why call code =
     \<lparr>recCall = call,
      recMessage = \<lparr>tmRole = ''tool'', tmCallID = callID call,
                    tmContent = ''ERROR: '' @ before @ quote (callName call) @ after\<rparr>,
      recLog = crossMark @ callName call @ dash @ why,
      recError = Some code, recDuration = 0\<rparr>"

text \<open>The body of \<^verbatim>\<open>runDetailed\<close>; \<^term>\<open>None\<close> for an executor without a registry.\<close>

definition runCall ::
  "'s outside \<Rightarrow> (string \<Rightarrow> string) \<Rightarrow> 's registry option \<Rightarrow> toolCall \<Rightarrow> 's \<Rightarrow> executionRecord \<times> 's"
where
  "runCall x quote reg call s =
     (case reg of
        None \<Rightarrow> (refused quote ''unknown tool '' [] ''not found'' call ExecutionUnknownTool, s)
      | Some r \<Rightarrow>
          if IsDenied r (callName call)
          then (refused quote ''tool '' '' denied by policy'' ''denied'' call ExecutionDeniedTool, s)
          else case getTool r (callName call) of
            None \<Rightarrow> (refused quote ''unknown tool '' [] ''not found'' call ExecutionUnknownTool, s)
          | Some t \<Rightarrow>
              (case toolExecute t (callArguments call) s of (res, s1) \<Rightarrow>
                 (\<lparr>recCall = call,
                   recMessage = \<lparr>tmRole = ''tool'', tmCallID = callID call, tmContent = resContent res\<rparr>,
                   recLog = (if outCtxErr x s1 \<noteq> None then crossMark @ callName call @ dash @ ''cancelled''
                             else if resIsError res then crossMark @ callName call else checkMark @ callName call),
                   recError = (if outCtxErr x s1 \<noteq> None then Some ExecutionCancelled
                               else if resIsError res then Some ExecutionToolError else None),
                   recDuration = 0\<rparr>, s1)))"

definition runDetailed ::
  "'s outside \<Rightarrow> (string \<Rightarrow> string) \<Rightarrow> 's registry option \<Rightarrow> toolCall \<Rightarrow> 's \<Rightarrow> executionRecord \<times> 's"
where
  "runDetailed x quote reg call s =
     (case runCall x quote reg call s of (r, s1) \<Rightarrow> (r\<lparr>recDuration := outNow x s1 - outNow x s\<rparr>, s1))"

fun RunAllDetailed ::
  "'s outside \<Rightarrow> (string \<Rightarrow> string) \<Rightarrow> 's registry option \<Rightarrow> toolCall list \<Rightarrow> 's \<Rightarrow> executionRecord list \<times> 's"
where
  "RunAllDetailed x quote reg [] s = ([], s)"
| "RunAllDetailed x quote reg (call # calls) s =
     (if outCtxErr x s \<noteq> None then ([], s)
      else case runDetailed x quote reg call s of (r, s1) \<Rightarrow>
        if outCtxErr x s1 \<noteq> None then ([r], s1)
        else case RunAllDetailed x quote reg calls s1 of (rs, s2) \<Rightarrow> (r # rs, s2))"

definition RunAll ::
  "'s outside \<Rightarrow> (string \<Rightarrow> string) \<Rightarrow> 's registry option \<Rightarrow> toolCall list \<Rightarrow> 's \<Rightarrow> (toolMessage list \<times> string) \<times> 's"
where
  "RunAll x quote reg calls s =
     (case RunAllDetailed x quote reg calls s of (rs, s1) \<Rightarrow>
        ((map recMessage rs, joinWith [CHR 0x0A] (map recLog rs)), s1))"

text \<open>\<^verbatim>\<open>FormatToolCalls\<close>: the names joined by arrows after the wrench sign.\<close>

definition FormatToolCalls :: "toolCall list \<Rightarrow> string" where
  "FormatToolCalls calls =
     [CHR 0xF0, CHR 0x9F, CHR 0x94, CHR 0xA7, CHR '' ''] @
     joinWith [CHR '' '', CHR 0xE2, CHR 0x86, CHR 0x92, CHR '' ''] (map callName calls)"

subsection \<open>The registry invariant\<close>

definition registry_ok :: "'s registry \<Rightarrow> bool" where
  "registry_ok r \<longleftrightarrow> distinct (registryNames r) \<and> (\<forall>t \<in> set (regTools r). Allows (regPolicy r) (toolName t)) \<and>
     (\<forall>n \<in> regDenied r. \<not> Allows (regPolicy r) n)"

lemma getTool_Some: "getTool r n = Some t \<Longrightarrow> t \<in> set (regTools r) \<and> toolName t = n"
  by (auto simp: getTool_def find_Some_iff)

lemma getTool_None: "getTool r n = None \<longleftrightarrow> n \<notin> set (registryNames r)"
  by (auto simp: getTool_def find_None_iff registryNames_def)

lemma registry_ok_new: "registry_ok (NewRegistry p)"
  by (simp add: registry_ok_def NewRegistry_def registryNames_def)

lemma registry_ok_Register: "registry_ok r \<Longrightarrow> registry_ok (snd (Register t r))"
  by (auto simp: registry_ok_def Register_def getTool_None registryNames_def Let_def split: option.split)

lemma Register_policy [simp]: "regPolicy (snd (Register t r)) = regPolicy r"
  by (simp add: Register_def Let_def split: option.split)

text \<open>The registry after registering a list of tools, as \<^verbatim>\<open>buildRegistry\<close> does.\<close>

fun registerAll :: "'s tool list \<Rightarrow> 's registry \<Rightarrow> register_error + 's registry" where
  "registerAll [] r = Inr r"
| "registerAll (t # ts) r =
     (case Register (Some t) r of (err, r1) \<Rightarrow>
        case err of
          None \<Rightarrow> registerAll ts r1
        | Some e \<Rightarrow> if IsToolDenied e then registerAll ts r1 else Inl e)"

lemma registerAll_ok:
  "registerAll ts r = Inr r' \<Longrightarrow> registry_ok r \<Longrightarrow> registry_ok r' \<and> regPolicy r' = regPolicy r"
proof (induction ts arbitrary: r)
  case (Cons t ts)
  obtain err r1 where r1: "Register (Some t) r = (err, r1)" by fastforce
  have ok: "registry_ok r1" "regPolicy r1 = regPolicy r"
    using registry_ok_Register [OF Cons.prems(2), of "Some t"] Register_policy [of "Some t" r] r1 by simp_all
  with Cons r1 show ?case by (auto split: option.splits if_splits)
qed simp

lemma Register_tools: "set (regTools (snd (Register (Some t) r))) \<subseteq> insert t (set (regTools r))"
  by (auto simp: Register_def Let_def)

lemma registerAll_tools:
  "registerAll ts r = Inr r' \<Longrightarrow> set (regTools r') \<subseteq> set (regTools r) \<union> set ts"
proof (induction ts arbitrary: r)
  case (Cons t ts)
  obtain err r1 where r1: "Register (Some t) r = (err, r1)" by fastforce
  have "registerAll ts r1 = Inr r'" using Cons.prems r1 by (auto split: option.splits if_splits)
  with Cons.IH r1 Register_tools [of t r] show ?case by fastforce
qed simp

subsection \<open>Properties\<close>

lemma runDetailed_frame:
  "recCall (fst (runDetailed x q reg call s)) = call \<and>
   tmRole (recMessage (fst (runDetailed x q reg call s))) = ''tool'' \<and>
   tmCallID (recMessage (fst (runDetailed x q reg call s))) = callID call"
  by (auto simp: runDetailed_def runCall_def refused_def split: prod.splits option.splits)

lemma runDetailed_disallowed:
  assumes "registry_ok r" "\<not> Allows (regPolicy r) (callName call)"
  shows "snd (runDetailed x q (Some r) call s) = s \<and>
    recError (fst (runDetailed x q (Some r) call s)) \<in> {Some ExecutionDeniedTool, Some ExecutionUnknownTool}"
proof -
  have "getTool r (callName call) = None"
    using assms getTool_Some [of r "callName call"]
    by (cases "getTool r (callName call)") (auto simp: registry_ok_def)
  then show ?thesis by (simp add: runDetailed_def runCall_def refused_def)
qed

lemma RunAllDetailed_prefix:
  "RunAllDetailed x q reg calls s = (rs, s') \<Longrightarrow>
     map recCall rs = take (length rs) calls \<and> (length rs < length calls \<longrightarrow> outCtxErr x s' \<noteq> None) \<and>
     (\<forall>r \<in> set rs. tmRole (recMessage r) = ''tool'' \<and> tmCallID (recMessage r) = callID (recCall r))"
proof (induction calls arbitrary: rs s s')
  case (Cons c cs)
  obtain r s1 where r: "runDetailed x q reg c s = (r, s1)" by fastforce
  have f: "recCall r = c" "tmRole (recMessage r) = ''tool''" "tmCallID (recMessage r) = callID c"
    using runDetailed_frame [of x q reg c s] r by simp_all
  obtain rs1 s2 where rest: "RunAllDetailed x q reg cs s1 = (rs1, s2)" by fastforce
  show ?case
    using Cons.prems Cons.IH [OF rest] f r rest by (auto split: if_splits)
qed simp

text \<open>
  C16. The tool policy holds at execution: with a registry built by registering any tools under a policy, the
  records of an execution are one per call, in order, until the context ends, each
  message names the call it answers, and a call of a name the policy does not allow runs
  nothing (the outside state is unchanged) and is answered with an error.
\<close>

theorem tool_policy_enforced:
  assumes "registerAll ts (NewRegistry (Some p)) = Inr r" "RunAllDetailed x q (Some r) calls s = (rs, s')"
  shows "map recCall rs = take (length rs) calls \<and> (length rs < length calls \<longrightarrow> outCtxErr x s' \<noteq> None) \<and>
    (\<forall>rec \<in> set rs. tmCallID (recMessage rec) = callID (recCall rec)) \<and>
    (\<forall>call u. \<not> Allows p (callName call) \<longrightarrow> snd (runDetailed x q (Some r) call u) = u \<and>
       recError (fst (runDetailed x q (Some r) call u)) \<in> {Some ExecutionDeniedTool, Some ExecutionUnknownTool})"
proof -
  have ok: "registry_ok r" and p: "regPolicy r = p"
    using registerAll_ok [OF assms(1) registry_ok_new] by (simp_all add: NewRegistry_def)
  show ?thesis
    using RunAllDetailed_prefix [OF assms(2)] runDetailed_disallowed [OF ok, unfolded p] by blast
qed

definition counter_tool :: "string \<Rightarrow> nat tool" where
  "counter_tool n = \<lparr>toolName = n, toolDescription = [], toolExecute = (\<lambda>_ s. (\<lparr>resContent = ''ok'', resIsError = False\<rparr>, Suc s))\<rparr>"

definition demo_call :: "string \<Rightarrow> toolCall" where
  "demo_call n = \<lparr>callID = ''1'', callType = ''function'', callName = n, callArguments = ''{}''\<rparr>"

theorem tool_policy_enforced_witness:
  "\<exists>r. registerAll [counter_tool ''web_fetch'', counter_tool ''fs_delete''] (NewRegistry (Some DefaultToolPolicy)) = Inr r \<and>
     registryNames r = [''web_fetch''] \<and>
     snd (runDetailed \<lparr>outCtxErr = (\<lambda>_. None), outNow = int\<rparr> id (Some r) (demo_call ''fs_delete'') 7) = 7"
proof -
  have "\<exists>r. registerAll [counter_tool ''web_fetch'', counter_tool ''fs_delete''] (NewRegistry (Some DefaultToolPolicy)) = Inr r \<and>
     registryNames r = [''web_fetch'']"
    by (simp add: counter_tool_def NewRegistry_def DefaultToolPolicy_def NewToolPolicy_def defaultAllowedTools_def Register_def
        Allows_def getTool_def IsToolDenied_def registryNames_def Let_def)
  then obtain r where r: "registerAll [counter_tool ''web_fetch'', counter_tool ''fs_delete'']
      (NewRegistry (Some DefaultToolPolicy)) = Inr r" "registryNames r = [''web_fetch'']" by blast
  have "\<not> Allows DefaultToolPolicy (callName (demo_call ''fs_delete''))"
    by (simp add: Allows_def DefaultToolPolicy_def NewToolPolicy_def defaultAllowedTools_def demo_call_def)
  with tool_policy_enforced [OF r(1), of "\<lparr>outCtxErr = (\<lambda>_. None), outNow = int\<rparr>" id "[]" 7 "[]" 7] r
  show ?thesis by auto
qed

end
