(* ===== verification/Llm_Client.thy ===== *)
theory Llm_Client
  imports Tools Go_Text
begin

section \<open>The model client (\<^verbatim>\<open>internal/llm/llama.go\<close>)\<close>

text \<open>
  One model call: the request is built from the history, the answer is a stream of events whose
  content fragments and tool-call fragments are reassembled.  The transport (JSON encoding of
  the request, HTTP, JSON decoding of an event) is what the environment answers: the argument
  \<open>reply\<close> of a call, and the decoder \<open>decode\<close> of one event.
\<close>

subsection \<open>Messages and events\<close>

record message =
  msgRole :: string
  msgContent :: string
  msgToolCalls :: "toolCall list"
  msgToolCallID :: string

definition textMessage :: "string \<Rightarrow> string \<Rightarrow> message" where
  "textMessage role content = \<lparr>msgRole = role, msgContent = content, msgToolCalls = [], msgToolCallID = []\<rparr>"

record toolFragment =
  frIndex :: int
  frID :: string
  frType :: string
  frName :: string
  frArguments :: string

text \<open>The first choice of a decoded event.\<close>

record streamDelta =
  dlContent :: string
  dlToolCalls :: "toolFragment list"

subsection \<open>Partial tool calls\<close>

text \<open>
  The partial calls live in a slice whose elements hold a \<^verbatim>\<open>strings.Builder\<close>.  A builder remembers the
  address of its first write and panics when it is written to at another one.  An
  append beyond the capacity moves the elements to a new array, so an address is the number of the
  array and the position in it; \<open>grow n\<close> is the capacity \<^verbatim>\<open>append\<close> chooses for a full slice of length \<open>n\<close>.
\<close>

record partialCall =
  pcID :: string
  pcType :: string
  pcName :: string
  pcArgs :: string
  pcAddr :: "nat option"

record callSlice =
  arrayNo :: nat
  capacity :: nat
  elems :: "partialCall list"

definition blankPartial :: partialCall where
  "blankPartial = \<lparr>pcID = [], pcType = [], pcName = [], pcArgs = [], pcAddr = None\<rparr>"

definition appendBlank :: "(nat \<Rightarrow> nat) \<Rightarrow> callSlice \<Rightarrow> callSlice" where
  "appendBlank grow sl =
     (if length (elems sl) < capacity sl then sl\<lparr>elems := elems sl @ [blankPartial]\<rparr>
      else sl\<lparr>arrayNo := Suc (arrayNo sl), capacity := grow (length (elems sl)), elems := elems sl @ [blankPartial]\<rparr>)"

text \<open>\<^verbatim>\<open>for len(partials) <= toolCall.Index\<close>; the first argument is the number of elements still missing.\<close>

fun extendTo :: "nat \<Rightarrow> (nat \<Rightarrow> nat) \<Rightarrow> callSlice \<Rightarrow> callSlice" where
  "extendTo 0 grow sl = sl"
| "extendTo (Suc n) grow sl = extendTo n grow (appendBlank grow sl)"

definition overwrite :: "string \<Rightarrow> string \<Rightarrow> string" where
  "overwrite new old = (if new \<noteq> [] then new else old)"

text \<open>One fragment; \<^term>\<open>None\<close> is a panic (a negative index, or a builder that was moved).\<close>

definition addFragment :: "(nat \<Rightarrow> nat) \<Rightarrow> toolFragment \<Rightarrow> callSlice \<Rightarrow> callSlice option" where
  "addFragment grow f sl0 =
     (let sl = extendTo (nat (frIndex f + 1) - length (elems sl0)) grow sl0 in
      if frIndex f < 0 then None
      else
        let i = nat (frIndex f); p = elems sl ! i in
        if pcAddr p \<noteq> None \<and> pcAddr p \<noteq> Some (arrayNo sl) then None
        else Some (sl\<lparr>elems := (elems sl)[i := \<lparr>pcID = overwrite (frID f) (pcID p), pcType = overwrite (frType f) (pcType p),
               pcName = overwrite (frName f) (pcName p), pcArgs = pcArgs p @ frArguments f,
               pcAddr = Some (arrayNo sl)\<rparr>]\<rparr>))"

fun addFragments :: "(nat \<Rightarrow> nat) \<Rightarrow> toolFragment list \<Rightarrow> callSlice \<Rightarrow> callSlice option" where
  "addFragments grow [] sl = Some sl"
| "addFragments grow (f # fs) sl =
     (case addFragment grow f sl of None \<Rightarrow> None | Some sl1 \<Rightarrow> addFragments grow fs sl1)"

definition noPartials :: callSlice where
  "noPartials = \<lparr>arrayNo = 0, capacity = 0, elems = []\<rparr>"

definition finishCall :: "partialCall \<Rightarrow> toolCall" where
  "finishCall p = \<lparr>callID = pcID p, callType = pcType p, callName = pcName p,
     callArguments = (if pcArgs p = [] then ''{}'' else pcArgs p)\<rparr>"

subsection \<open>The stream\<close>

datatype 'a panicking = Panic | Returned 'a

text \<open>\<open>onDelta\<close> is \<^term>\<open>None\<close> for a nil callback.  \<open>rest\<close> is what the scanner reports after the last line.\<close>

fun parseLines ::
  "(nat \<Rightarrow> nat) \<Rightarrow> (string \<Rightarrow> streamDelta option) \<Rightarrow> (string \<Rightarrow> 's \<Rightarrow> go_error option \<times> 's) option \<Rightarrow>
     string list \<Rightarrow> go_error option \<Rightarrow> string \<Rightarrow> callSlice \<Rightarrow> 's \<Rightarrow>
     ((go_error + string \<times> toolCall list) \<times> 's) panicking"
where
  "parseLines grow decode onDelta [] rest content sl s =
     Returned ((case rest of Some e \<Rightarrow> Inl (Wrapped ''stream'' e)
                | None \<Rightarrow> Inr (content, map finishCall (elems sl))), s)"
| "parseLines grow decode onDelta (line # ls) rest content sl s =
     (if take 6 line \<noteq> ''data: '' then parseLines grow decode onDelta ls rest content sl s
      else if drop 6 line = ''[DONE]'' then Returned (Inr (content, map finishCall (elems sl)), s)
      else case decode (drop 6 line) of
        None \<Rightarrow> parseLines grow decode onDelta ls rest content sl s
      | Some d \<Rightarrow>
          (let (err, s1) = (case onDelta of
                 Some f \<Rightarrow> if dlContent d \<noteq> [] then f (dlContent d) s else (None, s)
               | None \<Rightarrow> (None, s))
           in case err of
                Some e \<Rightarrow> Returned (Inl (Wrapped ''stream delta'' e), s1)
              | None \<Rightarrow>
                  (case addFragments grow (dlToolCalls d) sl of
                     None \<Rightarrow> Panic
                   | Some sl1 \<Rightarrow> parseLines grow decode onDelta ls rest (content @ dlContent d) sl1 s1)))"

definition parseStreamWithDelta ::
  "(nat \<Rightarrow> nat) \<Rightarrow> (string \<Rightarrow> streamDelta option) \<Rightarrow> (string \<Rightarrow> 's \<Rightarrow> go_error option \<times> 's) option \<Rightarrow>
     string list \<Rightarrow> go_error option \<Rightarrow> 's \<Rightarrow> ((go_error + string \<times> toolCall list) \<times> 's) panicking"
where
  "parseStreamWithDelta grow decode onDelta ls rest s = parseLines grow decode onDelta ls rest [] noPartials s"

subsection \<open>The call\<close>

fun decimal :: "nat \<Rightarrow> string" where
  "decimal n = (if n < 10 then [char_of (48 + n)] else decimal (n div 10) @ [char_of (48 + n mod 10)])"

declare decimal.simps [simp del]

text \<open>What the transport answers to a request.\<close>

datatype transport =
    MarshalFailed go_error
  | RequestFailed go_error
  | RequestNil
  | DoFailed go_error
  | NoBody
  | BadStatus nat "go_error + string"
  | StreamBody "string list" "go_error option"

definition callLLM ::
  "(nat \<Rightarrow> nat) \<Rightarrow> (string \<Rightarrow> streamDelta option) \<Rightarrow> bool \<Rightarrow> (string \<Rightarrow> 's \<Rightarrow> go_error option \<times> 's) option \<Rightarrow>
     transport \<Rightarrow> 's \<Rightarrow> ((go_error + string \<times> toolCall list) \<times> 's) panicking"
where
  "callLLM grow decode has_tools onDelta reply s =
     (let streamDelta = (if has_tools then None else onDelta) in
      case reply of
        MarshalFailed e \<Rightarrow> Returned (Inl (Wrapped ''marshal llama-server request'' e), s)
      | RequestFailed e \<Rightarrow> Returned (Inl (Wrapped ''create llama-server request'' e), s)
      | RequestNil \<Rightarrow> Returned (Inl (Message ''create llama-server request: nil request''), s)
      | DoFailed e \<Rightarrow> Returned (Inl (Wrapped ''llama-server request'' e), s)
      | NoBody \<Rightarrow> Returned (Inl (Message ''llama-server response has no body''), s)
      | BadStatus n (Inl e) \<Rightarrow> Returned (Inl (Wrapped (''llama-server status '' @ decimal n @ '': read body'') e), s)
      | BadStatus n (Inr payload) \<Rightarrow> Returned (Inl (Message (''llama-server status '' @ decimal n @ '': '' @ trim_space payload)), s)
      | StreamBody ls rest \<Rightarrow> parseStreamWithDelta grow decode streamDelta ls rest s)"

text \<open>The messages of the request.\<close>

definition requestHistory :: "message list \<Rightarrow> string \<Rightarrow> message list" where
  "requestHistory history userText =
     (if trim_space userText \<noteq> [] then history @ [textMessage ''user'' userText] else history)"

text \<open>The answer is the reply, the tool-call log and the next history.\<close>

definition generate ::
  "(nat \<Rightarrow> nat) \<Rightarrow> (string \<Rightarrow> streamDelta option) \<Rightarrow> message list \<Rightarrow> string \<Rightarrow> bool \<Rightarrow>
     (string \<Rightarrow> 's \<Rightarrow> go_error option \<times> 's) option \<Rightarrow> (message list \<Rightarrow> transport) \<Rightarrow> 's \<Rightarrow>
     ((go_error + string \<times> string \<times> message list) \<times> 's) panicking"
where
  "generate grow decode history userText has_tools onDelta server s =
     (let next = requestHistory history userText in
      case callLLM grow decode has_tools onDelta (server next) s of
        Panic \<Rightarrow> Panic
      | Returned (Inl e, s1) \<Rightarrow> Returned (Inl e, s1)
      | Returned (Inr (content, calls), s1) \<Rightarrow>
          if calls = []
          then Returned (Inr (trim_space content, [], next @ [textMessage ''assistant'' (trim_space content)]), s1)
          else Returned (Inr (content, FormatToolCalls calls,
                 next @ [(textMessage ''assistant'' content)\<lparr>msgToolCalls := calls\<rparr>]), s1))"

subsection \<open>Reassembly\<close>

lemma extendTo_elems: "elems (extendTo n grow sl) = elems sl @ replicate n blankPartial"
  by (induction n grow sl rule: extendTo.induct) (simp_all add: appendBlank_def)

text \<open>What the fragments say of one index.\<close>

definition argsOf :: "nat \<Rightarrow> toolFragment list \<Rightarrow> string" where
  "argsOf i fs = concat (map frArguments (filter (\<lambda>f. nat (frIndex f) = i) fs))"

definition lastOf :: "(toolFragment \<Rightarrow> string) \<Rightarrow> nat \<Rightarrow> toolFragment list \<Rightarrow> string" where
  "lastOf sel i fs = foldl (\<lambda>old f. overwrite (sel f) old) [] (filter (\<lambda>f. nat (frIndex f) = i) fs)"

definition assembled :: "toolFragment list \<Rightarrow> callSlice \<Rightarrow> bool" where
  "assembled fs sl \<longleftrightarrow> (\<forall>f \<in> set fs. 0 \<le> frIndex f \<and> nat (frIndex f) < length (elems sl)) \<and>
     (\<forall>i < length (elems sl). pcArgs (elems sl ! i) = argsOf i fs \<and> pcID (elems sl ! i) = lastOf frID i fs \<and>
        pcType (elems sl ! i) = lastOf frType i fs \<and> pcName (elems sl ! i) = lastOf frName i fs)"

lemma assembled_blank:
  assumes "assembled fs sl" "length (elems sl) \<le> i"
  shows "argsOf i fs = [] \<and> lastOf sel i fs = []"
proof -
  have "filter (\<lambda>f. nat (frIndex f) = i) fs = []"
    using assms by (fastforce simp: assembled_def filter_empty_conv)
  then show ?thesis by (simp add: argsOf_def lastOf_def)
qed

lemma addFragment_assembled:
  assumes "assembled fs sl" "addFragment grow f sl = Some sl'"
  shows "assembled (fs @ [f]) sl'"
proof -
  define n where "n = nat (frIndex f + 1) - length (elems sl)"
  define es where "es = elems sl @ replicate n blankPartial"
  have nn: "0 \<le> frIndex f" using assms(2) by (auto simp: addFragment_def Let_def split: if_splits)
  let ?i = "nat (frIndex f)"
  have i: "?i < length es" using nn by (simp add: es_def n_def)
  have sl': "elems sl' = es[?i := \<lparr>pcID = overwrite (frID f) (pcID (es ! ?i)), pcType = overwrite (frType f) (pcType (es ! ?i)),
      pcName = overwrite (frName f) (pcName (es ! ?i)), pcArgs = pcArgs (es ! ?i) @ frArguments f,
      pcAddr = pcAddr (elems sl' ! ?i)\<rparr>]"
    using assms(2) i by (auto simp: addFragment_def Let_def extendTo_elems es_def n_def split: if_splits)
  have es: "pcArgs (es ! j) = argsOf j fs \<and> pcID (es ! j) = lastOf frID j fs \<and> pcType (es ! j) = lastOf frType j fs \<and>
      pcName (es ! j) = lastOf frName j fs" if "j < length es" for j
  proof (cases "j < length (elems sl)")
    case True
    with assms(1) show ?thesis by (simp add: assembled_def es_def nth_append)
  next
    case False
    then have "es ! j = blankPartial" using that by (simp add: es_def nth_append)
    with assembled_blank [OF assms(1), of j] False show ?thesis by (simp add: blankPartial_def)
  qed
  have len: "length (elems sl') = length es" by (subst sl') simp
  have "\<forall>g \<in> set (fs @ [f]). 0 \<le> frIndex g \<and> nat (frIndex g) < length es"
    using assms(1) nn i by (auto simp: assembled_def es_def)
  moreover have "pcArgs (elems sl' ! j) = argsOf j (fs @ [f]) \<and> pcID (elems sl' ! j) = lastOf frID j (fs @ [f]) \<and>
      pcType (elems sl' ! j) = lastOf frType j (fs @ [f]) \<and> pcName (elems sl' ! j) = lastOf frName j (fs @ [f])"
    if "j < length es" for j
    using es [OF that] that i
    by (subst sl', subst sl', subst sl', subst sl') (auto simp: argsOf_def lastOf_def nth_list_update)
  ultimately show ?thesis by (simp add: assembled_def len)
qed

lemma addFragments_assembled:
  "addFragments grow fs sl = Some sl' \<Longrightarrow> assembled gs sl \<Longrightarrow> assembled (gs @ fs) sl'"
proof (induction fs arbitrary: gs sl)
  case (Cons f fs)
  then obtain sl1 where "addFragment grow f sl = Some sl1" "addFragments grow fs sl1 = Some sl'"
    by (auto split: option.splits)
  with Cons addFragment_assembled show ?case by fastforce
qed simp

text \<open>Fragments whose indices do not go back cannot hit a builder that was moved.\<close>

definition tail_fresh :: "callSlice \<Rightarrow> bool" where
  "tail_fresh sl \<longleftrightarrow> (elems sl \<noteq> [] \<longrightarrow> pcAddr (last (elems sl)) \<in> {None, Some (arrayNo sl)})"

lemma addFragment_ordered:
  assumes "tail_fresh sl" "int (length (elems sl)) \<le> frIndex f + 1" "0 \<le> frIndex f"
  shows "\<exists>sl'. addFragment grow f sl = Some sl' \<and> tail_fresh sl' \<and> int (length (elems sl')) = frIndex f + 1"
proof -
  let ?n = "nat (frIndex f + 1) - length (elems sl)" and ?i = "nat (frIndex f)"
  let ?sl = "extendTo ?n grow sl"
  have len: "length (elems ?sl) = Suc ?i" using assms(2,3) by (simp add: extendTo_elems)
  have ne: "elems ?sl \<noteq> []" using len by auto
  have lst: "elems ?sl ! ?i = last (elems ?sl)" using len by (simp add: last_conv_nth [OF ne])
  have fresh: "pcAddr (elems ?sl ! ?i) \<in> {None, Some (arrayNo ?sl)}"
  proof (cases ?n)
    case 0
    with assms(1) lst len show ?thesis by (auto simp: tail_fresh_def)
  next
    case (Suc m)
    then have "last (elems ?sl) = blankPartial" by (simp only: extendTo_elems last_append last_replicate) simp
    with lst show ?thesis by (simp add: blankPartial_def)
  qed
  have "last ((elems ?sl)[?i := p]) = p" for p using len ne by (simp add: last_list_update)
  then show ?thesis
    using fresh assms(3) len by (auto simp: addFragment_def Let_def tail_fresh_def)
qed

lemma addFragments_ordered:
  "sorted (map frIndex fs) \<Longrightarrow> (\<forall>f \<in> set fs. int (length (elems sl)) \<le> frIndex f + 1 \<and> 0 \<le> frIndex f) \<Longrightarrow> tail_fresh sl \<Longrightarrow>
     \<exists>sl'. addFragments grow fs sl = Some sl' \<and> tail_fresh sl' \<and>
       int (length (elems sl')) = (if fs = [] then int (length (elems sl)) else frIndex (last fs) + 1)"
proof (induction fs arbitrary: sl)
  case (Cons f fs)
  obtain sl1 where s1: "addFragment grow f sl = Some sl1" "tail_fresh sl1" "int (length (elems sl1)) = frIndex f + 1"
    using addFragment_ordered [of sl f grow] Cons.prems by auto
  from Cons.IH [of sl1] Cons.prems(1,2) s1 show ?case by auto
qed simp

text \<open>The events of a stream: the decoded lines up to the end mark.\<close>

fun events_of :: "(string \<Rightarrow> streamDelta option) \<Rightarrow> string list \<Rightarrow> streamDelta list" where
  "events_of decode [] = []"
| "events_of decode (line # ls) =
     (if take 6 line \<noteq> ''data: '' then events_of decode ls
      else if drop 6 line = ''[DONE]'' then []
      else case decode (drop 6 line) of None \<Rightarrow> events_of decode ls | Some d \<Rightarrow> d # events_of decode ls)"

definition fragments :: "streamDelta list \<Rightarrow> toolFragment list" where
  "fragments ds = concat (map dlToolCalls ds)"

text \<open>A callback that records what it is given.\<close>

definition collect :: "string \<Rightarrow> string list \<Rightarrow> go_error option \<times> string list" where
  "collect d s = (None, s @ [d])"

lemma parseLines_ordered:
  assumes "sorted (map frIndex (fragments (events_of decode ls)))"
    "\<forall>f \<in> set (fragments (events_of decode ls)). int (length (elems sl)) \<le> frIndex f + 1 \<and> 0 \<le> frIndex f"
    "tail_fresh sl" "assembled gs sl"
  shows "\<exists>sl'. parseLines grow decode (Some collect) ls None content sl s =
      Returned (Inr (content @ concat (map dlContent (events_of decode ls)), map finishCall (elems sl')),
        s @ filter (\<lambda>c. c \<noteq> []) (map dlContent (events_of decode ls))) \<and>
    assembled (gs @ fragments (events_of decode ls)) sl'"
  using assms
proof (induction ls arbitrary: content sl s gs)
  case Nil
  then show ?case by (auto simp: fragments_def)
next
  case (Cons line ls)
  consider "take 6 line \<noteq> ''data: ''" | "take 6 line = ''data: ''" "drop 6 line = ''[DONE]''"
    | "take 6 line = ''data: ''" "drop 6 line \<noteq> ''[DONE]''" "decode (drop 6 line) = None"
    | d where "take 6 line = ''data: ''" "drop 6 line \<noteq> ''[DONE]''" "decode (drop 6 line) = Some d" by blast
  then show ?case
  proof cases
    case 1
    with Cons show ?thesis by simp
  next
    case 2
    with Cons.prems(4) show ?thesis by (auto simp: fragments_def)
  next
    case 3
    with Cons show ?thesis by simp
  next
    case 4
    let ?rest = "fragments (events_of decode ls)"
    have ev: "events_of decode (line # ls) = d # events_of decode ls" using 4 by simp
    have frs: "fragments (d # events_of decode ls) = dlToolCalls d @ ?rest" by (simp add: fragments_def)
    have srt: "sorted (map frIndex (dlToolCalls d))" "sorted (map frIndex ?rest)"
      "\<forall>f \<in> set (dlToolCalls d). \<forall>g \<in> set ?rest. frIndex f \<le> frIndex g"
      using Cons.prems(1) unfolding ev frs by (auto simp: sorted_append)
    obtain sl1 where sl1: "addFragments grow (dlToolCalls d) sl = Some sl1" "tail_fresh sl1"
      "int (length (elems sl1)) = (if dlToolCalls d = [] then int (length (elems sl)) else frIndex (last (dlToolCalls d)) + 1)"
      using addFragments_ordered [OF srt(1) _ Cons.prems(3), of grow] Cons.prems(2) unfolding ev frs by auto
    have asm: "assembled (gs @ dlToolCalls d) sl1" using addFragments_assembled [OF sl1(1) Cons.prems(4)] .
    have "\<forall>f \<in> set ?rest. int (length (elems sl1)) \<le> frIndex f + 1 \<and> 0 \<le> frIndex f"
      using Cons.prems(2) srt(3) sl1(3) unfolding ev frs by auto
    from Cons.IH [OF srt(2) this sl1(2) asm, of "content @ dlContent d" "s @ (if dlContent d \<noteq> [] then [dlContent d] else [])"]
    show ?thesis unfolding ev frs using 4 sl1(1) by (auto simp: collect_def Let_def)
  qed
qed

subsection \<open>Properties\<close>


definition demo_fragment :: "int \<Rightarrow> string \<Rightarrow> toolFragment" where
  "demo_fragment i a = \<lparr>frIndex = i, frID = ''c'', frType = ''function'', frName = ''f'', frArguments = a\<rparr>"

text \<open>A decoder that knows three payloads.\<close>

definition demo_decode :: "string \<Rightarrow> streamDelta option" where
  "demo_decode s =
     (if s = ''A'' then Some \<lparr>dlContent = ''he'', dlToolCalls = [demo_fragment 0 ''x'']\<rparr>
      else if s = ''B'' then Some \<lparr>dlContent = ''y'', dlToolCalls = [demo_fragment 1 ''z'']\<rparr>
      else None)"


text \<open>
  Interleaved tool calls crash the client: after a fragment for call 0 and one for call 1, a further fragment
  for call 0 writes to a builder that the growth of the slice has moved, and the parser
  panics; so does any fragment with a negative index.
\<close>

theorem interleaved_tool_calls_panic:
  assumes "grow 0 = 1" "map frIndex fs = [0, 1, 0]"
  shows "addFragments grow fs noPartials = None \<and>
    (\<forall>f sl. frIndex f < 0 \<longrightarrow> addFragment grow f sl = None)"
proof -
  obtain a b c where fs: "fs = [a, b, c]" "frIndex a = 0" "frIndex b = 1" "frIndex c = 0"
    using assms(2) by (auto simp: map_eq_Cons_conv)
  then show ?thesis using assms(1)
    by (auto simp: addFragment_def noPartials_def appendBlank_def blankPartial_def numeral_2_eq_2)
qed

theorem interleaved_tool_calls_panic_witness:
  "addFragments Suc [demo_fragment 0 ''x'', demo_fragment 1 ''y'', demo_fragment 0 ''z''] noPartials = None"
  using interleaved_tool_calls_panic [of Suc "[demo_fragment 0 ''x'', demo_fragment 1 ''y'', demo_fragment 0 ''z'']"]
  by (simp add: demo_fragment_def)

end
