(* ===== verification/Memory.thy ===== *)
theory Memory
  imports Llm_Client "HOL-Library.Multiset"
begin

section \<open>Bounded conversation memory (\<^verbatim>\<open>internal/memory\<close>)\<close>

text \<open>
  The memory holds a trusted system prompt, an optional summary and the most recent complete turns, within
  a budget of JSON bytes.  The size of a history is the length of its JSON encoding, which
  is written out here; how \<^verbatim>\<open>encoding/json\<close> compacts the raw arguments of a tool call is the parameter
  \<open>raw\<close> (\<^term>\<open>None\<close> for arguments that are no JSON).  The context is asked at named points.
\<close>

subsection \<open>JSON size\<close>

definition hexDigit :: "nat \<Rightarrow> char" where
  "hexDigit n = (if n < 10 then char_of (48 + n) else char_of (87 + n))"

text \<open>One ASCII character of a JSON string, HTML-safe as \<^verbatim>\<open>json.Marshal\<close> of Go 1.21 (the version of
  \<^verbatim>\<open>go.mod\<close>) writes it.\<close>

definition jsonAscii :: "nat \<Rightarrow> string" where
  "jsonAscii b =
     (if b = 34 \<or> b = 92 then [char_of (92::nat), char_of b]
      else if b = 10 then [char_of (92::nat), CHR ''n'']
      else if b = 13 then [char_of (92::nat), CHR ''r'']
      else if b = 9 then [char_of (92::nat), CHR ''t'']
      else if b < 32 \<or> b \<in> {38, 60, 62} then [char_of (92::nat), CHR ''u'', CHR ''0'', CHR ''0'', hexDigit (b div 16), hexDigit (b mod 16)]
      else [char_of b])"

function jsonBody :: "string \<Rightarrow> string" where
  "jsonBody s =
     (if s = [] then []
      else let (r, n) = decode_rune s; rest = drop n s in
        (if byte_val (hd s) < 128 then jsonAscii (byte_val (hd s))
         else if (r, n) = (rune_error, 1) then char_of (92::nat) # ''ufffd''
         else if r = 8232 then char_of (92::nat) # ''u2028''
         else if r = 8233 then char_of (92::nat) # ''u2029''
         else take n s) @ jsonBody rest)"
  by pat_completeness auto
termination
  by (relation "measure length") (auto dest!: decode_rune_shrinks simp: prod_eq_iff)

declare jsonBody.simps [simp del]

definition jsonString :: "string \<Rightarrow> string" where
  "jsonString s = CHR 0x22 # jsonBody s @ [CHR 0x22]"

definition jsonField :: "string \<Rightarrow> string \<Rightarrow> string" where
  "jsonField name value' = jsonString name @ '':'' @ value'"

definition jsonObject :: "string list \<Rightarrow> string" where
  "jsonObject fs = ''{'' @ joinWith '','' fs @ ''}''"

definition jsonArray :: "string list \<Rightarrow> string" where
  "jsonArray items = ''['' @ joinWith '','' items @ '']''"

text \<open>Empty arguments are a nil \<^verbatim>\<open>json.RawMessage\<close>.\<close>

definition marshalCall :: "(string \<Rightarrow> string option) \<Rightarrow> toolCall \<Rightarrow> string option" where
  "marshalCall raw c =
     (case (if callArguments c = [] then Some ''null'' else raw (callArguments c)) of
        None \<Rightarrow> None
      | Some args \<Rightarrow>
          Some (jsonObject [jsonField ''id'' (jsonString (callID c)), jsonField ''type'' (jsonString (callType c)),
            jsonField ''function'' (jsonObject [jsonField ''name'' (jsonString (callName c)), jsonField ''arguments'' args])]))"

fun marshalAll :: "('a \<Rightarrow> string option) \<Rightarrow> 'a list \<Rightarrow> string list option" where
  "marshalAll f [] = Some []"
| "marshalAll f (x # xs) =
     (case f x of None \<Rightarrow> None | Some s \<Rightarrow> map_option (\<lambda>ss. s # ss) (marshalAll f xs))"

definition marshalMessage :: "(string \<Rightarrow> string option) \<Rightarrow> message \<Rightarrow> string option" where
  "marshalMessage raw m =
     (case marshalAll (marshalCall raw) (msgToolCalls m) of
        None \<Rightarrow> None
      | Some calls \<Rightarrow>
          Some (jsonObject
            ([jsonField ''role'' (jsonString (msgRole m))] @
             (if msgContent m = [] then [] else [jsonField ''content'' (jsonString (msgContent m))]) @
             (if calls = [] then [] else [jsonField ''tool_calls'' (jsonArray calls)]) @
             (if msgToolCallID m = [] then [] else [jsonField ''tool_call_id'' (jsonString (msgToolCallID m))]))))"

text \<open>The marshalling error of a raw message that is no JSON.\<close>

definition Measure :: "(string \<Rightarrow> string option) \<Rightarrow> message list \<Rightarrow> go_error + int" where
  "Measure raw ms =
     (case marshalAll (marshalMessage raw) ms of
        None \<Rightarrow> Inl (Message ''json: error calling MarshalJSON for type json.RawMessage'')
      | Some ss \<Rightarrow> Inr (int (length (if ms = [] then ''null'' else jsonArray ss))))"

subsection \<open>State and errors\<close>

datatype memErrorCode = MemInvalidConfig | MemInvalidHistory | MemBudgetExceeded | MemSummarizer | MemCancelled

record memoryError =
  meCode :: memErrorCode
  meErr :: go_error

definition memError :: "memErrorCode \<Rightarrow> string \<Rightarrow> memoryError" where
  "memError code s = \<lparr>meCode = code, meErr = Message s\<rparr>"

definition contextMemoryError :: "go_error \<Rightarrow> memoryError" where
  "contextMemoryError e = \<lparr>meCode = MemCancelled, meErr = e\<rparr>"

type_synonym summarizer = "string \<Rightarrow> message list \<Rightarrow> int \<Rightarrow> go_error + string"

record manager =
  maxHistoryBytes :: int
  maxSummaryBytes :: int
  systemPrompt :: string
  memSummarizer :: "summarizer option"
  memSummary :: string
  memTurns :: "message list list"

record memTrace =
  mtInputMessages :: nat
  mtInputBytes :: int
  mtOutputMessages :: nat
  mtOutputBytes :: int
  mtDroppedTurns :: nat
  mtDroppedMessages :: nat
  mtSummaryGenerated :: bool
  mtSummaryBytes :: nat

record snapshot =
  snHistory :: "message list"
  snSummary :: string
  snTrace :: memTrace

definition summaryPrefix :: string where
  "summaryPrefix = ''[memory-summary]'' @ [CHR 0x0A]"

definition summaryMessage :: "string \<Rightarrow> message" where
  "summaryMessage s = textMessage ''user'' (summaryPrefix @ s)"

definition buildHistory :: "manager \<Rightarrow> string \<Rightarrow> message list list \<Rightarrow> message list" where
  "buildHistory m summary turns =
     textMessage ''system'' (systemPrompt m) #
     (if trim_space summary \<noteq> [] then [summaryMessage summary] else []) @ concat turns"

definition reserve :: "manager \<Rightarrow> string" where
  "reserve m = replicate (nat (maxSummaryBytes m)) (CHR ''x'')"

definition showInt :: "int \<Rightarrow> string" where
  "showInt i = (if i < 0 then CHR ''-'' # decimal (nat (- i)) else decimal (nat i))"

definition overBudget :: "string \<Rightarrow> int \<Rightarrow> int \<Rightarrow> memoryError" where
  "overBudget what n budget = memError MemBudgetExceeded (what @ '' '' @ showInt n @ '' bytes, budget is '' @ showInt budget)"

definition MemoryNew ::
  "(string \<Rightarrow> string option) \<Rightarrow> int \<Rightarrow> int \<Rightarrow> string \<Rightarrow> summarizer option \<Rightarrow> memoryError + manager"
where
  "MemoryNew raw maxHistory maxSummary prompt summ =
     (let m = \<lparr>maxHistoryBytes = maxHistory, maxSummaryBytes = maxSummary, systemPrompt = prompt,
               memSummarizer = summ, memSummary = [], memTurns = []\<rparr> in
      if maxHistory \<le> 0 then Inl (memError MemInvalidConfig ''max history bytes must be greater than zero'')
      else if maxSummary \<le> 0 then Inl (memError MemInvalidConfig ''max summary bytes must be greater than zero'')
      else if maxHistory \<le> maxSummary then Inl (memError MemInvalidConfig ''max summary bytes must be less than max history bytes'')
      else (case Measure raw (buildHistory m [] []) of
        Inl e \<Rightarrow> Inl \<lparr>meCode = MemInvalidConfig, meErr = Wrapped ''measure system prompt'' e\<rparr>
      | Inr base \<Rightarrow>
          if maxHistory < base then Inl (overBudget ''system prompt requires'' base maxHistory)
          else if summ = None then Inr m
          else (case Measure raw (buildHistory m (reserve m) []) of
            Inl e \<Rightarrow> Inl \<lparr>meCode = MemInvalidConfig, meErr = Wrapped ''measure summary reserve'' e\<rparr>
          | Inr reserved \<Rightarrow>
              if maxHistory < reserved
              then Inl (memError MemInvalidConfig ''history budget cannot contain configured summary reserve'')
              else Inr m)))"

definition memHistory :: "manager \<Rightarrow> message list" where
  "memHistory m = buildHistory m (memSummary m) (memTurns m)"

definition memReset :: "manager \<Rightarrow> manager" where
  "memReset m = m\<lparr>memSummary := [], memTurns := []\<rparr>"

subsection \<open>Reading a history\<close>

definition conversationMessages :: "manager \<Rightarrow> message list \<Rightarrow> memoryError + message list" where
  "conversationMessages m history =
     (case history of
        [] \<Rightarrow> Inl (memError MemInvalidHistory ''history is empty'')
      | first # rest \<Rightarrow>
          if msgRole first \<noteq> ''system'' \<or> msgContent first \<noteq> systemPrompt m \<or> msgToolCallID first \<noteq> [] \<or> msgToolCalls first \<noteq> []
          then Inl (memError MemInvalidHistory ''trusted system prompt is missing or changed'')
          else
            let conversation = (case rest of
                  [] \<Rightarrow> []
                | candidate # others \<Rightarrow>
                    if memSummary m \<noteq> [] \<and> msgRole candidate = msgRole (summaryMessage (memSummary m)) \<and>
                       msgContent candidate = msgContent (summaryMessage (memSummary m)) \<and>
                       msgToolCallID candidate = [] \<and> msgToolCalls candidate = []
                    then others else rest)
            in if \<exists>x \<in> set conversation. msgRole x = ''system''
               then Inl (memError MemInvalidHistory ''conversation contains a system message'')
               else Inr conversation)"

text \<open>The identifiers of an assistant's calls join the pending ones.\<close>

fun addCalls :: "toolCall list \<Rightarrow> string set \<Rightarrow> memoryError + string set" where
  "addCalls [] pending = Inr pending"
| "addCalls (c # cs) pending =
     (let i = trim_space (callID c) in
      if i = [] then Inl (memError MemInvalidHistory ''tool call ID is empty'')
      else if i \<in> pending then Inl (memError MemInvalidHistory ''tool call ID is duplicated'')
      else addCalls cs (insert i pending))"

definition finishTurn :: "message list list \<Rightarrow> message list \<Rightarrow> string set \<Rightarrow> memoryError + message list list" where
  "finishTurn turns current pending =
     (if pending \<noteq> {} then Inl (memError MemInvalidHistory ''tool call is missing a result'')
      else Inr (if current = [] then turns else turns @ [current]))"

fun splitLoop ::
  "message list \<Rightarrow> message list list \<Rightarrow> message list \<Rightarrow> string set \<Rightarrow> memoryError + message list list"
where
  "splitLoop [] turns current pending = finishTurn turns current pending"
| "splitLoop (m # ms) turns current pending =
     (if msgRole m = ''user'' then
        (if msgToolCallID m \<noteq> [] \<or> msgToolCalls m \<noteq> []
         then Inl (memError MemInvalidHistory ''user message contains tool fields'')
         else if current = [] then splitLoop ms turns [m] pending
         else case finishTurn turns current pending of
           Inl e \<Rightarrow> Inl e
         | Inr turns1 \<Rightarrow> splitLoop ms turns1 [m] pending)
      else if msgRole m = ''assistant'' then
        (if current = [] then Inl (memError MemInvalidHistory ''assistant message appears before user'')
         else if pending \<noteq> {} then Inl (memError MemInvalidHistory ''assistant continued before all tool results'')
         else if msgToolCallID m \<noteq> [] then Inl (memError MemInvalidHistory ''assistant message contains tool_call_id'')
         else case addCalls (msgToolCalls m) pending of
           Inl e \<Rightarrow> Inl e
         | Inr pending1 \<Rightarrow> splitLoop ms turns (current @ [m]) pending1)
      else if msgRole m = ''tool'' then
        (if current = [] then Inl (memError MemInvalidHistory ''tool message appears before user'')
         else if msgToolCalls m \<noteq> [] then Inl (memError MemInvalidHistory ''tool message contains tool calls'')
         else
           let i = trim_space (msgToolCallID m) in
           if i = [] then Inl (memError MemInvalidHistory ''tool message has empty tool_call_id'')
           else if i \<notin> pending then Inl (memError MemInvalidHistory ''tool result has no matching call'')
           else splitLoop ms turns (current @ [m]) (pending - {i}))
      else Inl (memError MemInvalidHistory ''conversation contains an unsupported role''))"

definition splitTurns :: "message list \<Rightarrow> memoryError + message list list" where
  "splitTurns ms = splitLoop ms [] [] {}"

subsection \<open>Compaction\<close>

function dropInvalidEnd :: "string \<Rightarrow> string" where
  "dropInvalidEnd s = (if s \<noteq> [] \<and> \<not> valid_utf8 s then dropInvalidEnd (butlast s) else s)"
  by pat_completeness auto
termination
  by (relation "measure length") auto

declare dropInvalidEnd.simps [simp del]

definition truncateUTF8 :: "string \<Rightarrow> int \<Rightarrow> string" where
  "truncateUTF8 value' maxBytes =
     (if maxBytes \<le> 0 \<or> value' = [] then []
      else if int (length value') \<le> maxBytes then value'
      else trim_space (dropInvalidEnd (take (nat maxBytes) value')))"

text \<open>Drop the oldest turns until the rest fits; \<open>sz\<close> measures what would be sent.\<close>

fun dropOldest ::
  "(message list list \<Rightarrow> go_error + int) \<Rightarrow> int \<Rightarrow> message list list \<Rightarrow>
     go_error + (message list list \<times> message list list)"
where
  "dropOldest sz budget [] = Inr ([], [])"
| "dropOldest sz budget (t # ts) =
     (case sz (t # ts) of
        Inl e \<Rightarrow> Inl e
      | Inr n \<Rightarrow>
          if n \<le> budget then Inr ([], t # ts)
          else (case dropOldest sz budget ts of
                  Inl e \<Rightarrow> Inl e
                | Inr (dropped, kept) \<Rightarrow> Inr (t # dropped, kept)))"

text \<open>The points at which the context is asked.\<close>

datatype ctx_point = AtEntry | BeforeSummary | AfterSummaryError | AtCommit

text \<open>The summary after the eviction of \<open>dropped\<close>; \<open>checked\<close> tells whether the context is asked before.\<close>

definition summarizeDropped ::
  "(ctx_point \<Rightarrow> go_error option) \<Rightarrow> bool \<Rightarrow> manager \<Rightarrow> message list list \<Rightarrow> memoryError + string"
where
  "summarizeDropped ctxe checked m dropped =
     (case memSummarizer m of
        None \<Rightarrow> Inr []
      | Some summ \<Rightarrow>
          (case (if checked then ctxe BeforeSummary else None) of
             Some e \<Rightarrow> Inl (contextMemoryError e)
           | None \<Rightarrow>
               (case summ (memSummary m) (concat dropped) (maxSummaryBytes m) of
                  Inl e \<Rightarrow>
                    (case ctxe AfterSummaryError of
                       Some c \<Rightarrow> Inl (contextMemoryError c)
                     | None \<Rightarrow> Inl \<lparr>meCode = MemSummarizer, meErr = e\<rparr>)
                | Inr s \<Rightarrow> Inr (truncateUTF8 (trim_space s) (maxSummaryBytes m)))))"

definition invalidHistory :: "string \<Rightarrow> go_error \<Rightarrow> memoryError" where
  "invalidHistory what e = \<lparr>meCode = MemInvalidHistory, meErr = Wrapped what e\<rparr>"

text \<open>The common end of \<^verbatim>\<open>Update\<close> and \<^verbatim>\<open>Prepare\<close>: measure, check the budget and the context, publish.\<close>

definition commitMemory ::
  "(string \<Rightarrow> string option) \<Rightarrow> (ctx_point \<Rightarrow> go_error option) \<Rightarrow> string \<Rightarrow> string \<Rightarrow> message list \<Rightarrow> nat \<Rightarrow> int \<Rightarrow>
     message list list \<Rightarrow> message list list \<Rightarrow> string \<Rightarrow> manager \<Rightarrow> (memoryError + snapshot) \<times> manager"
where
  "commitMemory raw ctxe measureText overText extra inputMessages inputBytes dropped kept summary m =
     (let output = buildHistory m summary kept in
      (case Measure raw (output @ extra) of
        Inl e \<Rightarrow> (Inl (invalidHistory measureText e), m)
      | Inr outputBytes \<Rightarrow>
          if maxHistoryBytes m < outputBytes
          then (Inl (overBudget overText outputBytes (maxHistoryBytes m)), m)
          else (case ctxe AtCommit of
            Some e \<Rightarrow> (Inl (contextMemoryError e), m)
          | None \<Rightarrow>
              (Inr \<lparr>snHistory = output, snSummary = summary,
                    snTrace = \<lparr>mtInputMessages = inputMessages, mtInputBytes = inputBytes,
                      mtOutputMessages = length (output @ extra), mtOutputBytes = outputBytes,
                      mtDroppedTurns = length dropped, mtDroppedMessages = length (concat dropped),
                      mtSummaryGenerated = (dropped \<noteq> [] \<and> summary \<noteq> []), mtSummaryBytes = length summary\<rparr>\<rparr>,
               m\<lparr>memSummary := summary, memTurns := kept\<rparr>))))"

text \<open>The eviction of \<^verbatim>\<open>Update\<close>: the dropped turns and the kept ones.\<close>

definition evictForHistory ::
  "(string \<Rightarrow> string option) \<Rightarrow> manager \<Rightarrow> message list list \<Rightarrow> memoryError + (message list list \<times> message list list)"
where
  "evictForHistory raw m turns =
     (case Measure raw (buildHistory m (memSummary m) turns) of
        Inl e \<Rightarrow> Inl (invalidHistory ''measure candidate history'' e)
      | Inr candidateBytes \<Rightarrow>
        if maxHistoryBytes m < candidateBytes then
          (let reserved = (if memSummarizer m \<noteq> None then reserve m else []) in
           case dropOldest (\<lambda>ts. Measure raw (buildHistory m reserved ts)) (maxHistoryBytes m) turns of
             Inl e \<Rightarrow> Inl (invalidHistory ''measure reserved history'' e)
           | Inr parts \<Rightarrow> Inr parts)
        else Inr ([], turns))"

definition memUpdate ::
  "(string \<Rightarrow> string option) \<Rightarrow> (ctx_point \<Rightarrow> go_error option) \<Rightarrow> message list \<Rightarrow> manager \<Rightarrow>
     (memoryError + snapshot) \<times> manager"
where
  "memUpdate raw ctxe history m =
     (case ctxe AtEntry of
        Some e \<Rightarrow> (Inl (contextMemoryError e), m)
      | None \<Rightarrow>
        (case Measure raw history of
          Inl e \<Rightarrow> (Inl (invalidHistory ''measure input history'' e), m)
        | Inr inputBytes \<Rightarrow>
          (case conversationMessages m history of
            Inl e \<Rightarrow> (Inl e, m)
          | Inr conversation \<Rightarrow>
            (case splitTurns conversation of
              Inl e \<Rightarrow> (Inl e, m)
            | Inr turns \<Rightarrow>
              (case evictForHistory raw m turns of
                Inl e \<Rightarrow> (Inl e, m)
              | Inr (dropped, kept) \<Rightarrow>
                (case (if dropped = [] then Inr (memSummary m) else summarizeDropped ctxe True m dropped) of
                  Inl e \<Rightarrow> (Inl e, m)
                | Inr summary \<Rightarrow>
                    commitMemory raw ctxe ''measure output history'' ''bounded history requires'' []
                      (length history) inputBytes dropped kept summary m))))))"

text \<open>
  \<^verbatim>\<open>Prepare\<close> makes room for the user's words before the model call.  The oldest turns are dropped with the
  summary reserved, and again without the reserve when even the empty history does not fit with it; the
  last component tells whether a summary is still used.
\<close>

definition promptSize :: "(string \<Rightarrow> string option) \<Rightarrow> manager \<Rightarrow> message \<Rightarrow> string \<Rightarrow> message list list \<Rightarrow> go_error + int" where
  "promptSize raw m prospective summary turns = Measure raw (buildHistory m summary turns @ [prospective])"

definition evictForPrompt ::
  "(string \<Rightarrow> string option) \<Rightarrow> manager \<Rightarrow> message \<Rightarrow> memoryError + (message list list \<times> message list list \<times> bool)"
where
  "evictForPrompt raw m prospective =
     (let useSummary = (trim_space (memSummary m) \<noteq> [] \<or> memSummarizer m \<noteq> None);
          reserved = (if useSummary then reserve m else [])
      in
      case dropOldest (promptSize raw m prospective reserved) (maxHistoryBytes m) (memTurns m) of
        Inl e \<Rightarrow> Inl (invalidHistory ''measure prepared prompt'' e)
      | Inr (dropped1, kept1) \<Rightarrow>
        (case promptSize raw m prospective reserved kept1 of
           Inl e \<Rightarrow> Inl (invalidHistory ''measure summary reserve'' e)
         | Inr baseBytes \<Rightarrow>
           (let useSummary2 = (useSummary \<and> baseBytes \<le> maxHistoryBytes m);
                reserved2 = (if baseBytes \<le> maxHistoryBytes m then reserved else [])
            in
            case dropOldest (promptSize raw m prospective reserved2) (maxHistoryBytes m) kept1 of
              Inl e \<Rightarrow> Inl (invalidHistory ''measure prepared prompt'' e)
            | Inr (dropped2, kept) \<Rightarrow> Inr (dropped1 @ dropped2, kept, useSummary2))))"

definition memPrepare ::
  "(string \<Rightarrow> string option) \<Rightarrow> (ctx_point \<Rightarrow> go_error option) \<Rightarrow> string \<Rightarrow> manager \<Rightarrow>
     (memoryError + snapshot) \<times> manager"
where
  "memPrepare raw ctxe userText m =
     (case ctxe AtEntry of
        Some e \<Rightarrow> (Inl (contextMemoryError e), m)
      | None \<Rightarrow>
        let prospective = textMessage ''user'' userText;
            inputPrompt = memHistory m @ [prospective]
        in
        (case Measure raw inputPrompt of
          Inl e \<Rightarrow> (Inl (invalidHistory ''measure prospective prompt'' e), m)
        | Inr inputBytes \<Rightarrow>
          if inputBytes \<le> maxHistoryBytes m then
            (Inr \<lparr>snHistory = memHistory m, snSummary = memSummary m,
                  snTrace = \<lparr>mtInputMessages = length inputPrompt, mtInputBytes = inputBytes,
                    mtOutputMessages = length inputPrompt, mtOutputBytes = inputBytes,
                    mtDroppedTurns = 0, mtDroppedMessages = 0, mtSummaryGenerated = False,
                    mtSummaryBytes = length (memSummary m)\<rparr>\<rparr>, m)
          else
            (case evictForPrompt raw m prospective of
              Inl e \<Rightarrow> (Inl e, m)
            | Inr (dropped, kept, useSummary) \<Rightarrow>
              (case (if \<not> useSummary then Inr []
                    else if dropped = [] then Inr (memSummary m)
                    else summarizeDropped ctxe False m dropped) of
                Inl e \<Rightarrow> (Inl e, m)
              | Inr summary \<Rightarrow>
                  commitMemory raw ctxe ''measure prepared output'' ''system prompt and current input require'' [prospective]
                    (length inputPrompt) inputBytes dropped kept summary m))))"

subsection \<open>The extractive summarizer\<close>

definition summaryPart :: "message \<Rightarrow> string list" where
  "summaryPart x =
     (let names = filter (\<lambda>n. n \<noteq> []) (map (\<lambda>c. trim_space (callName c)) (msgToolCalls x));
          content = (if names \<noteq> [] then ''tool calls: '' @ joinWith '', '' names else trim_space (msgContent x))
      in if content \<noteq> [] then [msgRole x @ '': '' @ content] else [])"

text \<open>The context is asked on entry and before every message (\<open>ctxe k\<close> is the answer to the \<open>k\<close>-th question).\<close>

fun collectParts :: "(nat \<Rightarrow> go_error option) \<Rightarrow> nat \<Rightarrow> message list \<Rightarrow> go_error + string list" where
  "collectParts ctxe k [] = Inr []"
| "collectParts ctxe k (x # xs) =
     (case ctxe k of
        Some e \<Rightarrow> Inl e
      | None \<Rightarrow>
          (case collectParts ctxe (Suc k) xs of
             Inl e \<Rightarrow> Inl e
           | Inr parts \<Rightarrow> Inr (summaryPart x @ parts)))"

definition extractiveSummarize :: "(nat \<Rightarrow> go_error option) \<Rightarrow> summarizer" where
  "extractiveSummarize ctxe previous dropped maxBytes =
     (case ctxe 0 of
        Some e \<Rightarrow> Inl e
      | None \<Rightarrow>
          let p = trim_space previous in
          (case collectParts ctxe 1 dropped of
            Inl e \<Rightarrow> Inl e
          | Inr parts \<Rightarrow>
              Inr (truncateUTF8 (joinWith '' | '' ((if p \<noteq> [] then [''previous: '' @ p] else []) @ parts)) maxBytes)))"

subsection \<open>Well-formed turns\<close>

text \<open>
  What a turn is, independently of the scan: a user message and then rounds, each an assistant message
  followed by exactly one result for each of its calls, in any order.
\<close>

definition callIDs :: "message \<Rightarrow> string list" where
  "callIDs a = map (\<lambda>c. trim_space (callID c)) (msgToolCalls a)"

definition resultIDs :: "message list \<Rightarrow> string list" where
  "resultIDs rs = map (\<lambda>r. trim_space (msgToolCallID r)) rs"

definition userMessage :: "message \<Rightarrow> bool" where
  "userMessage u \<longleftrightarrow> msgRole u = ''user'' \<and> msgToolCallID u = [] \<and> msgToolCalls u = []"

definition callingMessage :: "message \<Rightarrow> bool" where
  "callingMessage a \<longleftrightarrow> msgRole a = ''assistant'' \<and> msgToolCallID a = [] \<and> distinct (callIDs a) \<and> [] \<notin> set (callIDs a)"

definition resultMessage :: "message \<Rightarrow> bool" where
  "resultMessage r \<longleftrightarrow> msgRole r = ''tool'' \<and> msgToolCalls r = [] \<and> trim_space (msgToolCallID r) \<noteq> []"

definition partialRound :: "message list \<Rightarrow> string set \<Rightarrow> bool" where
  "partialRound b pending \<longleftrightarrow>
     (\<exists>a rs. b = a # rs \<and> callingMessage a \<and> (\<forall>r \<in> set rs. resultMessage r) \<and> finite pending \<and>
        mset (resultIDs rs) + mset_set pending = mset (callIDs a))"

definition toolRound :: "message list \<Rightarrow> bool" where
  "toolRound b \<longleftrightarrow>
     (\<exists>a rs. b = a # rs \<and> callingMessage a \<and> (\<forall>r \<in> set rs. resultMessage r) \<and>
        mset (resultIDs rs) = mset (callIDs a))"

definition openTurn :: "message list \<Rightarrow> string set \<Rightarrow> bool" where
  "openTurn t pending \<longleftrightarrow>
     (\<exists>u bs b. t = u # concat bs @ b \<and> userMessage u \<and> (\<forall>x \<in> set bs. toolRound x) \<and>
        (b = [] \<and> pending = {} \<or> partialRound b pending))"

definition completeTurn :: "message list \<Rightarrow> bool" where
  "completeTurn t \<longleftrightarrow> (\<exists>u bs. t = u # concat bs \<and> userMessage u \<and> (\<forall>b \<in> set bs. toolRound b))"

lemma partialRound_empty: "partialRound b {} \<longleftrightarrow> toolRound b"
  by (simp add: partialRound_def toolRound_def)

lemma openTurn_complete: "openTurn t {} \<longleftrightarrow> completeTurn t"
proof
  assume "openTurn t {}"
  then obtain u bs b where t: "t = u # concat bs @ b" "userMessage u" "\<forall>x \<in> set bs. toolRound x" "b = [] \<or> toolRound b"
    by (auto simp: openTurn_def partialRound_empty)
  then show "completeTurn t"
    by (cases "b = []") (force simp: completeTurn_def intro: exI [of _ bs] exI [of _ "bs @ [b]"])+
next
  assume "completeTurn t"
  then obtain u bs where "t = u # concat bs @ []" "userMessage u" "\<forall>b \<in> set bs. toolRound b"
    by (auto simp: completeTurn_def)
  then show "openTurn t {}"
    unfolding openTurn_def by blast
qed

lemma openTurn_Nil [simp]: "\<not> openTurn [] pending"
  by (simp add: openTurn_def)

lemma completeTurn_nonempty: "completeTurn t \<Longrightarrow> t \<noteq> []"
  by (auto simp: completeTurn_def)

lemma addCalls_Inr:
  "addCalls cs pending = Inr pending1 \<longleftrightarrow>
     [] \<notin> set (map (\<lambda>c. trim_space (callID c)) cs) \<and> distinct (map (\<lambda>c. trim_space (callID c)) cs) \<and>
     pending \<inter> set (map (\<lambda>c. trim_space (callID c)) cs) = {} \<and>
     pending1 = pending \<union> set (map (\<lambda>c. trim_space (callID c)) cs)"
  by (induction cs arbitrary: pending) (auto simp: Let_def)

lemma openTurn_user: "userMessage u \<Longrightarrow> openTurn [u] {}"
  by (force simp: openTurn_def intro: exI [of _ "[]"])

lemma openTurn_assistant:
  assumes "openTurn t {}" "msgRole a = ''assistant''" "msgToolCallID a = []" "addCalls (msgToolCalls a) {} = Inr pending"
  shows "openTurn (t @ [a]) pending"
proof -
  have p: "callingMessage a" "pending = set (callIDs a)"
    using assms by (simp_all add: callingMessage_def callIDs_def addCalls_Inr)
  then have "partialRound [a] pending"
    by (auto simp: partialRound_def resultIDs_def callingMessage_def mset_set_set)
  moreover obtain u bs where "t = u # concat bs" "userMessage u" "\<forall>x \<in> set bs. toolRound x"
    using assms(1) by (auto simp: openTurn_complete completeTurn_def)
  ultimately show ?thesis
    by (auto simp: openTurn_def)
qed

lemma openTurn_result:
  assumes "openTurn t pending" "resultMessage r" "trim_space (msgToolCallID r) \<in> pending"
  shows "openTurn (t @ [r]) (pending - {trim_space (msgToolCallID r)})"
proof -
  obtain u bs b where t: "t = u # concat bs @ b" "userMessage u" "\<forall>x \<in> set bs. toolRound x" "partialRound b pending"
    using assms by (auto simp: openTurn_def)
  then obtain a rs where b: "b = a # rs" "callingMessage a" "\<forall>r \<in> set rs. resultMessage r" "finite pending"
      "mset (resultIDs rs) + mset_set pending = mset (callIDs a)"
    by (auto simp: partialRound_def)
  have "mset_set pending = add_mset (trim_space (msgToolCallID r)) (mset_set (pending - {trim_space (msgToolCallID r)}))"
    using assms(3) b(4) by (metis mset_set.remove)
  then have "partialRound (b @ [r]) (pending - {trim_space (msgToolCallID r)})"
    using b assms(2) by (auto simp: partialRound_def resultIDs_def)
  then show ?thesis
    using t by (auto simp: openTurn_def)
qed

lemma splitLoop_sound:
  assumes "splitLoop ms turns current pending = Inr ts"
    and "current = [] \<and> pending = {} \<or> openTurn current pending"
  shows "\<exists>new. ts = turns @ new \<and> concat new = current @ ms \<and> (\<forall>t \<in> set new. completeTurn t)"
  using assms
proof (induction ms turns current pending rule: splitLoop.induct)
  case (1 turns current pending)
  then show ?case
    by (auto simp: finishTurn_def openTurn_complete completeTurn_nonempty split: if_splits)
next
  case (2 m ms turns current pending)
  consider (user) "msgRole m = ''user''" | (assistant) "msgRole m = ''assistant''" | (tool) "msgRole m = ''tool''"
    using 2(5) by (auto split: if_splits)
  then show ?case
  proof cases
    case user
    then have u: "userMessage m"
      using 2(5) by (auto simp: userMessage_def split: if_splits)
    show ?thesis
    proof (cases "current = []")
      case True
      then show ?thesis
        using 2(1,5,6) user u by (auto simp: userMessage_def openTurn_user split: if_splits)
    next
      case False
      then have "completeTurn current" "pending = {}" "splitLoop ms (turns @ [current]) [m] {} = Inr ts"
        using 2(5,6) user by (auto simp: finishTurn_def openTurn_complete split: if_splits)
      then show ?thesis
        using 2(2) [of "turns @ [current]"] False u user
        by (auto simp: userMessage_def finishTurn_def openTurn_user intro: exI [of _ "current # _"])
    qed
  next
    case assistant
    then show ?thesis
      using 2(3,5,6) by (auto simp: openTurn_assistant split: if_splits sum.splits)
  next
    case tool
    then show ?thesis
      using 2(4,5,6) by (auto simp: Let_def resultMessage_def openTurn_result split: if_splits)
  qed
qed

lemma splitLoop_results:
  assumes "\<forall>r \<in> set rs. resultMessage r" "finite pending" "mset (resultIDs rs) = mset_set pending" "current \<noteq> []"
  shows "splitLoop (rs @ ms) turns current pending = splitLoop ms turns (current @ rs) {}"
  using assms
proof (induction rs arbitrary: pending current)
  case Nil
  then show ?case
    by (auto simp: resultIDs_def mset_set_empty_iff)
next
  case (Cons r rs)
  let ?i = "trim_space (msgToolCallID r)"
  have i: "?i \<in> pending"
    using Cons.prems(2,3) by (metis elem_mset_set list.set_intros(1) list.simps(9) resultIDs_def set_mset_mset)
  have "mset (resultIDs rs) = mset_set (pending - {?i})"
    using Cons.prems(2,3) i by (simp add: resultIDs_def mset_set.remove)
  then show ?case
    using Cons.IH [of "pending - {?i}" "current @ [r]"] Cons.prems i by (simp add: resultMessage_def Let_def)
qed

lemma splitLoop_round:
  assumes "toolRound b" "current \<noteq> []"
  shows "splitLoop (b @ ms) turns current {} = splitLoop ms turns (current @ b) {}"
proof -
  obtain a rs where b: "b = a # rs" "callingMessage a" "\<forall>r \<in> set rs. resultMessage r" "mset (resultIDs rs) = mset (callIDs a)"
    using assms(1) by (auto simp: toolRound_def)
  have "addCalls (msgToolCalls a) {} = Inr (set (callIDs a))"
    using b(2) by (simp add: addCalls_Inr callingMessage_def callIDs_def)
  then have "splitLoop (b @ ms) turns current {} = splitLoop (rs @ ms) turns (current @ [a]) (set (callIDs a))"
    using b assms(2) by (simp add: callingMessage_def)
  also have "\<dots> = splitLoop ms turns ((current @ [a]) @ rs) {}"
    using b by (intro splitLoop_results) (auto simp: callingMessage_def mset_set_set)
  finally show ?thesis
    using b(1) by simp
qed

lemma splitLoop_rounds:
  assumes "\<forall>b \<in> set bs. toolRound b" "current \<noteq> []"
  shows "splitLoop (concat bs @ ms) turns current {} = splitLoop ms turns (current @ concat bs) {}"
  using assms by (induction bs arbitrary: current) (simp_all add: splitLoop_round)

lemma splitLoop_turn:
  assumes "completeTurn t"
  shows "splitLoop (t @ ms) turns current {} = splitLoop ms (if current = [] then turns else turns @ [current]) t {}"
  using assms by (auto simp: completeTurn_def userMessage_def finishTurn_def splitLoop_rounds)

lemma splitLoop_complete:
  assumes "\<forall>t \<in> set ts. completeTurn t"
  shows "splitLoop (concat ts) turns current {} = Inr ((if current = [] then turns else turns @ [current]) @ ts)"
  using assms
proof (induction ts arbitrary: turns current)
  case Nil
  then show ?case by (simp add: finishTurn_def)
next
  case (Cons t ts)
  then show ?case
    by (simp add: splitLoop_turn completeTurn_nonempty)
qed

lemma splitTurns_Inr: "splitTurns ms = Inr ts \<longleftrightarrow> concat ts = ms \<and> (\<forall>t \<in> set ts. completeTurn t)"
  unfolding splitTurns_def
  using splitLoop_sound [of ms "[]" "[]" "{}" ts] splitLoop_complete [of ts "[]" "[]"] by auto

text \<open>
  The scan of a stored history accepts exactly the sequences of complete turns and returns them: the turns it
  gives concatenate to the messages, each starts with a user message, and each assistant message
  in it is answered by one result per call.
\<close>

theorem split_turns_iff_complete:
  "splitTurns ms = Inr ts \<longleftrightarrow> concat ts = ms \<and> list_all completeTurn ts"
  by (simp add: splitTurns_Inr list_all_iff)

subsection \<open>The budget\<close>

lemma joinWith_snoc: "xs \<noteq> [] \<Longrightarrow> joinWith sep (xs @ [y]) = joinWith sep xs @ sep @ y"
  by (induction sep xs rule: joinWith.induct) auto

lemma marshalAll_append:
  "marshalAll f (xs @ ys) =
     (case marshalAll f xs of None \<Rightarrow> None | Some as \<Rightarrow> map_option (\<lambda>bs. as @ bs) (marshalAll f ys))"
  by (cases "marshalAll f ys"; induction xs) (auto split: option.splits)

lemma marshalAll_length: "marshalAll f xs = Some ys \<Longrightarrow> length ys = length xs"
  by (induction xs arbitrary: ys) (auto split: option.splits)

lemma Measure_butlast:
  assumes "Measure raw (h @ [p]) = Inr n" "h \<noteq> []"
  obtains k where "Measure raw h = Inr k" "k \<le> n"
proof -
  obtain ss where ss: "marshalAll (marshalMessage raw) (h @ [p]) = Some ss" "n = int (length (jsonArray ss))"
    using assms(1) by (auto simp: Measure_def split: option.splits)
  then obtain as y where as: "marshalAll (marshalMessage raw) h = Some as" "ss = as @ [y]"
    by (auto simp: marshalAll_append split: option.splits)
  then have "as \<noteq> []"
    using assms(2) marshalAll_length by fastforce
  with as ss that [of "int (length (jsonArray as))"] assms(2) show ?thesis
    by (auto simp: Measure_def jsonArray_def joinWith_snoc)
qed

lemma buildHistory_nonempty [simp]: "buildHistory m summary turns \<noteq> []"
  by (simp add: buildHistory_def)

definition withinBudget :: "(string \<Rightarrow> string option) \<Rightarrow> int \<Rightarrow> message list \<Rightarrow> bool" where
  "withinBudget raw budget ms = (case Measure raw ms of Inl e \<Rightarrow> False | Inr n \<Rightarrow> n \<le> budget)"

lemma withinBudget_butlast: "withinBudget raw budget (h @ [p]) \<Longrightarrow> h \<noteq> [] \<Longrightarrow> withinBudget raw budget h"
  by (fastforce simp: withinBudget_def split: sum.splits elim: Measure_butlast)

lemma trimmed_Nil [simp]: "trimmed []"
  using trimmed_trim_space [of "[]"] by simp

lemma trimmed_truncateUTF8: "trimmed s \<Longrightarrow> trimmed (truncateUTF8 s n)"
  by (auto simp: truncateUTF8_def trimmed_trim_space)

lemma length_dropInvalidEnd: "length (dropInvalidEnd s) \<le> length s"
proof (induction s rule: dropInvalidEnd.induct)
  case (1 s)
  then show ?case
    by (subst dropInvalidEnd.simps) auto
qed

lemma length_truncateUTF8: "0 \<le> n \<Longrightarrow> int (length (truncateUTF8 s n)) \<le> n"
  using length_trim_space [of "dropInvalidEnd (take (nat n) s)"] length_dropInvalidEnd [of "take (nat n) s"]
  by (auto simp: truncateUTF8_def)

lemma summarizeDropped_Inr:
  assumes "summarizeDropped ctxe checked m dropped = Inr s" "0 \<le> maxSummaryBytes m"
  shows "trimmed s \<and> int (length s) \<le> maxSummaryBytes m"
  using assms
  by (auto simp: summarizeDropped_def trimmed_truncateUTF8 trimmed_trim_space length_truncateUTF8 split: option.splits sum.splits)

lemma dropOldest_parts: "dropOldest sz budget ts = Inr (dropped, kept) \<Longrightarrow> ts = dropped @ kept"
  by (induction ts arbitrary: dropped) (auto split: sum.splits if_splits)

text \<open>What every operation keeps of a manager.\<close>

definition goodMemory :: "(string \<Rightarrow> string option) \<Rightarrow> manager \<Rightarrow> bool" where
  "goodMemory raw m \<longleftrightarrow>
     0 \<le> maxSummaryBytes m \<and> withinBudget raw (maxHistoryBytes m) (buildHistory m [] []) \<and>
     withinBudget raw (maxHistoryBytes m) (memHistory m) \<and>
     trimmed (memSummary m) \<and> int (length (memSummary m)) \<le> maxSummaryBytes m \<and>
     (\<forall>t \<in> set (memTurns m). completeTurn t)"

lemma buildHistory_update [simp]: "buildHistory (m\<lparr>memSummary := a, memTurns := b\<rparr>) s ts = buildHistory m s ts"
  by (simp add: buildHistory_def)

lemma commitMemory_keeps:
  assumes "goodMemory raw m" "trimmed summary" "int (length summary) \<le> maxSummaryBytes m" "\<forall>t \<in> set kept. completeTurn t"
    and "extra = [] \<or> (\<exists>p. extra = [p])"
  shows "goodMemory raw (snd (commitMemory raw ctxe mt ot extra k n dropped kept summary m))"
proof (cases "Measure raw (buildHistory m summary kept @ extra)")
  case (Inl e)
  then show ?thesis using assms(1) by (simp add: commitMemory_def)
next
  case (Inr b)
  then have "b \<le> maxHistoryBytes m \<Longrightarrow> withinBudget raw (maxHistoryBytes m) (buildHistory m summary kept)"
    using assms(5) by (auto simp: withinBudget_def elim: Measure_butlast)
  with Inr assms show ?thesis
    by (auto simp: commitMemory_def goodMemory_def memHistory_def Let_def split: option.splits)
qed

lemma evictForHistory_parts: "evictForHistory raw m turns = Inr (dropped, kept) \<Longrightarrow> turns = dropped @ kept"
  by (auto simp: evictForHistory_def Let_def split: sum.splits if_splits dest!: dropOldest_parts)

lemma memUpdate_keeps:
  assumes "goodMemory raw m"
  shows "goodMemory raw (snd (memUpdate raw ctxe history m))"
proof -
  have kept: "goodMemory raw (snd (commitMemory raw ctxe mt ot [] k n dropped kept summary m))"
    if "splitTurns c = Inr turns" "evictForHistory raw m turns = Inr (dropped, kept)"
       "(if dropped = [] then Inr (memSummary m) else summarizeDropped ctxe True m dropped) = Inr summary"
    for mt ot k n dropped kept summary turns c
    using that assms summarizeDropped_Inr [of ctxe True m dropped summary]
    by (intro commitMemory_keeps) (auto simp: splitTurns_Inr goodMemory_def dest!: evictForHistory_parts split: if_splits)
  show ?thesis
    using assms unfolding memUpdate_def Let_def
    by (auto simp del: if_split split: option.split sum.split prod.split intro!: kept)
qed

lemma evictForPrompt_parts: "evictForPrompt raw m p = Inr (dropped, kept, us) \<Longrightarrow> memTurns m = dropped @ kept"
  by (auto simp: evictForPrompt_def Let_def split: sum.splits prod.splits dest!: dropOldest_parts)

lemma memPrepare_keeps:
  assumes "goodMemory raw m"
  shows "goodMemory raw (snd (memPrepare raw ctxe userText m))"
proof -
  have kept: "goodMemory raw (snd (commitMemory raw ctxe mt ot [p] k n dropped kept summary m))"
    if "evictForPrompt raw m q = Inr (dropped, kept, us)"
       "(if \<not> us then Inr [] else if dropped = [] then Inr (memSummary m) else summarizeDropped ctxe False m dropped) = Inr summary"
    for mt ot p q k n dropped kept summary us
    using that assms summarizeDropped_Inr [of ctxe False m dropped summary]
    by (intro commitMemory_keeps) (auto simp: goodMemory_def dest!: evictForPrompt_parts split: if_splits)
  show ?thesis
    using assms unfolding memPrepare_def Let_def
    by (auto simp del: if_split split: option.split sum.split prod.split intro!: kept)
qed

subsection \<open>The memory as its clients see it\<close>

definition liveMemory :: "ctx_point \<Rightarrow> go_error option" where
  "liveMemory p = None"

text \<open>
  The contract of the bounded memory: a failed operation changes nothing, a successful one publishes the
  history it answers with, and the invariant is kept.
\<close>

locale bounded_memory =
  fixes history :: "'m \<Rightarrow> message list"
    and prepare :: "'c \<Rightarrow> string \<Rightarrow> 'm \<Rightarrow> (memoryError + snapshot) \<times> 'm"
    and update :: "'c \<Rightarrow> message list \<Rightarrow> 'm \<Rightarrow> (memoryError + snapshot) \<times> 'm"
    and good :: "'m \<Rightarrow> bool"
  assumes prepare_failed: "prepare c t m = (Inl e, m') \<Longrightarrow> m' = m"
    and update_failed: "update c h m = (Inl e, m') \<Longrightarrow> m' = m"
    and prepare_published: "prepare c t m = (Inr s, m') \<Longrightarrow> snHistory s = history m'"
    and update_published: "update c h m = (Inr s, m') \<Longrightarrow> snHistory s = history m'"
    and prepare_good: "good m \<Longrightarrow> good (snd (prepare c t m))"
    and update_good: "good m \<Longrightarrow> good (snd (update c h m))"

lemma commitMemory_Inr:
  assumes "commitMemory raw ctxe mt ot extra k n dropped kept summary m = (Inr s, m')"
  shows "m' = m\<lparr>memSummary := summary, memTurns := kept\<rparr>" "snHistory s = memHistory m'"
    "withinBudget raw (maxHistoryBytes m) (snHistory s @ extra)"
  using assms by (auto simp: commitMemory_def Let_def memHistory_def withinBudget_def split: sum.splits option.splits if_splits)

lemma commitMemory_Inl: "commitMemory raw ctxe mt ot extra k n dropped kept summary m = (Inl e, m') \<Longrightarrow> m' = m"
  by (auto simp: commitMemory_def Let_def split: sum.splits option.splits if_splits)

lemma memPrepare_Inl: "memPrepare raw ctxe u m = (Inl e, m') \<Longrightarrow> m' = m"
  by (auto simp: memPrepare_def Let_def dest: commitMemory_Inl simp del: if_split split: option.splits sum.splits prod.splits
      split: if_split_asm)

lemma memUpdate_Inl: "memUpdate raw ctxe h m = (Inl e, m') \<Longrightarrow> m' = m"
  by (auto simp: memUpdate_def Let_def dest: commitMemory_Inl simp del: if_split split: option.splits sum.splits prod.splits)

lemma memPrepare_Inr:
  assumes "memPrepare raw ctxe u m = (Inr s, m')"
  shows "snHistory s = memHistory m' \<and> withinBudget raw (maxHistoryBytes m) (snHistory s @ [textMessage ''user'' u]) \<and>
    (\<exists>dropped. memTurns m = dropped @ memTurns m')"
proof (cases "withinBudget raw (maxHistoryBytes m) (memHistory m @ [textMessage ''user'' u])")
  case True
  with assms show ?thesis
    by (auto simp: memPrepare_def withinBudget_def Let_def split: option.splits sum.splits)
next
  case False
  with assms obtain mt ot k n dropped kept us summary where
      "evictForPrompt raw m (textMessage ''user'' u) = Inr (dropped, kept, us)"
      "commitMemory raw ctxe mt ot [textMessage ''user'' u] k n dropped kept summary m = (Inr s, m')"
    by (auto simp: memPrepare_def withinBudget_def Let_def simp del: if_split split: option.splits sum.splits prod.splits
        split: if_split_asm)
  then show ?thesis
    using commitMemory_Inr [of raw ctxe mt ot "[textMessage ''user'' u]" k n dropped kept summary m s m']
    by (auto dest: evictForPrompt_parts)
qed

lemma memUpdate_Inr:
  assumes "memUpdate raw ctxe h m = (Inr s, m')"
  obtains c turns dropped where "conversationMessages m h = Inr c" "splitTurns c = Inr turns"
    "turns = dropped @ memTurns m'" "snHistory s = memHistory m'" "mtDroppedTurns (snTrace s) = length dropped"
proof -
  obtain c turns mt ot k n dropped kept summary where
      u: "conversationMessages m h = Inr c" "splitTurns c = Inr turns" "evictForHistory raw m turns = Inr (dropped, kept)"
      "commitMemory raw ctxe mt ot [] k n dropped kept summary m = (Inr s, m')"
    using assms
    by (auto simp: memUpdate_def Let_def simp del: if_split split: option.splits sum.splits prod.splits
        split: if_split_asm)
  then have "mtDroppedTurns (snTrace s) = length dropped"
    by (auto simp: commitMemory_def Let_def split: option.splits sum.splits if_split_asm)
  then show thesis
    using that u commitMemory_Inr [OF u(4)] evictForHistory_parts [OF u(3)] by auto
qed

interpretation mem: bounded_memory memHistory "memPrepare raw" "memUpdate raw" "goodMemory raw" for raw
  by unfold_locales
    (auto dest: memPrepare_Inl memUpdate_Inl memPrepare_Inr simp: memPrepare_keeps memUpdate_keeps elim: memUpdate_Inr)

subsection \<open>Properties\<close>

datatype memOp =
    UpdateOp "ctx_point \<Rightarrow> go_error option" "message list"
  | PrepareOp "ctx_point \<Rightarrow> go_error option" string
  | ResetOp

fun memApply :: "(string \<Rightarrow> string option) \<Rightarrow> memOp \<Rightarrow> manager \<Rightarrow> manager" where
  "memApply raw (UpdateOp ctxe h) m = snd (memUpdate raw ctxe h m)"
| "memApply raw (PrepareOp ctxe u) m = snd (memPrepare raw ctxe u m)"
| "memApply raw ResetOp m = memReset m"

lemma memReset_keeps: "goodMemory raw m \<Longrightarrow> goodMemory raw (memReset m)"
  by (auto simp: memReset_def goodMemory_def memHistory_def)

lemma memApply_keeps: "goodMemory raw m \<Longrightarrow> goodMemory raw (memApply raw op m)"
  by (cases op) (simp_all add: mem.update_good mem.prepare_good memReset_keeps)

lemma commitMemory_config:
  "maxHistoryBytes (snd (commitMemory raw ctxe mt ot extra k n dropped kept summary m)) = maxHistoryBytes m"
  "maxSummaryBytes (snd (commitMemory raw ctxe mt ot extra k n dropped kept summary m)) = maxSummaryBytes m"
  "systemPrompt (snd (commitMemory raw ctxe mt ot extra k n dropped kept summary m)) = systemPrompt m"
  by (auto simp: commitMemory_def Let_def split: sum.split option.split)

lemma memApply_config:
  "maxHistoryBytes (memApply raw op m) = maxHistoryBytes m \<and> maxSummaryBytes (memApply raw op m) = maxSummaryBytes m \<and>
   systemPrompt (memApply raw op m) = systemPrompt m"
  by (cases op)
    (auto simp: memUpdate_def memPrepare_def memReset_def Let_def commitMemory_config simp del: if_split
      split: option.split sum.split prod.split split: if_split)

lemma memApplys_keep:
  "goodMemory raw m \<Longrightarrow> goodMemory raw (fold (memApply raw) ops m) \<and>
     maxHistoryBytes (fold (memApply raw) ops m) = maxHistoryBytes m \<and>
     maxSummaryBytes (fold (memApply raw) ops m) = maxSummaryBytes m \<and> systemPrompt (fold (memApply raw) ops m) = systemPrompt m"
  by (induction ops arbitrary: m) (auto simp: memApply_keeps memApply_config)

lemma MemoryNew_Inr:
  assumes "MemoryNew raw a b p summ = Inr m"
  shows "goodMemory raw m" "maxHistoryBytes m = a" "maxSummaryBytes m = b" "systemPrompt m = p" "memSummarizer m = summ"
proof -
  have "m = \<lparr>maxHistoryBytes = a, maxSummaryBytes = b, systemPrompt = p, memSummarizer = summ, memSummary = [], memTurns = []\<rparr> \<and>
      0 < b \<and> withinBudget raw a (buildHistory m [] [])"
    using assms by (auto simp: MemoryNew_def Let_def withinBudget_def split: sum.splits if_split_asm)
  then show "goodMemory raw m" "maxHistoryBytes m = a" "maxSummaryBytes m = b" "systemPrompt m = p" "memSummarizer m = summ"
    by (auto simp: goodMemory_def memHistory_def)
qed

text \<open>
  C4. Whatever sequence of updates, preparations and resets runs on a new memory, with whatever context outcomes
  and whatever histories, the history it emits takes no more JSON bytes than the budget, begins
  with the unchanged system prompt, and the summary and the turns it holds are within bounds and complete.
\<close>

theorem memory_stays_bounded:
  assumes "MemoryNew raw budget maxSummary prompt summ = Inr m0"
  shows "let m = fold (memApply raw) ops m0 in
    withinBudget raw budget (memHistory m) \<and> hd (memHistory m) = textMessage ''system'' prompt \<and>
    int (length (memSummary m)) \<le> maxSummary \<and> list_all completeTurn (memTurns m)"
  using MemoryNew_Inr [OF assms] memApplys_keep [of raw m0 ops]
  by (auto simp: Let_def goodMemory_def list_all_iff memHistory_def buildHistory_def)

text \<open>
  A successful preparation leaves room for the user's words: the history it answers, which is the stored one,
  fits the budget together with them, and the turns kept are the newest ones in their order.
\<close>

theorem prepare_makes_room:
  assumes "memPrepare raw ctxe userText m = (Inr s, m')"
  shows "withinBudget raw (maxHistoryBytes m) (snHistory s @ [textMessage ''user'' userText]) \<and>
    snHistory s = memHistory m' \<and> suffix (memTurns m') (memTurns m)"
  using memPrepare_Inr [OF assms] by (auto simp: suffix_def)

lemma toolRound_roles: "toolRound b \<Longrightarrow> x \<in> set b \<Longrightarrow> msgRole x \<noteq> ''system''"
  by (auto simp: toolRound_def callingMessage_def resultMessage_def)

lemma completeTurn_roles: "completeTurn t \<Longrightarrow> x \<in> set t \<Longrightarrow> msgRole x \<noteq> ''system''"
  using toolRound_roles by (fastforce simp: completeTurn_def userMessage_def)

lemma conversation_of_history:
  assumes "goodMemory raw m"
  shows "conversationMessages m (memHistory m) = Inr (concat (memTurns m))"
proof -
  have roles: "msgRole x \<noteq> ''system''" if "t \<in> set (memTurns m)" "x \<in> set t" for t x
    using that assms completeTurn_roles by (auto simp: goodMemory_def)
  have "memSummary m \<noteq> [] \<Longrightarrow> trim_space (memSummary m) \<noteq> []"
    using assms by (simp add: goodMemory_def trim_space_trimmed)
  then show ?thesis
    using roles by (auto simp: conversationMessages_def memHistory_def buildHistory_def summaryMessage_def textMessage_def Let_def split: list.splits)
qed

text \<open>
  Updating a memory with the history it emits is accepted under a live context and changes nothing: what
  \<^verbatim>\<open>History\<close> writes, \<^verbatim>\<open>Update\<close> reads back.
\<close>

theorem history_reads_back:
  assumes "goodMemory raw m"
  shows "\<exists>s. memUpdate raw liveMemory (memHistory m) m = (Inr s, m) \<and> snHistory s = memHistory m \<and>
    mtDroppedTurns (snTrace s) = 0"
proof -
  obtain n where n: "Measure raw (memHistory m) = Inr n" "n \<le> maxHistoryBytes m"
    using assms by (auto simp: goodMemory_def withinBudget_def split: sum.splits)
  have "splitTurns (concat (memTurns m)) = Inr (memTurns m)"
    using assms by (simp add: splitTurns_Inr goodMemory_def)
  with n show ?thesis
    by (simp add: memUpdate_def liveMemory_def conversation_of_history [OF assms] evictForHistory_def commitMemory_def Let_def
        flip: memHistory_def)
qed

lemma marshalAll_defined: "(\<exists>ys. marshalAll f xs = Some ys) \<longleftrightarrow> (\<forall>x \<in> set xs. f x \<noteq> None)"
  by (induction xs) (auto split: option.splits)

lemma Measure_defined: "(\<exists>n. Measure raw ms = Inr n) \<longleftrightarrow> (\<forall>x \<in> set ms. marshalMessage raw x \<noteq> None)"
  unfolding marshalAll_defined [symmetric] by (auto simp: Measure_def split: option.split)

lemma marshal_textMessage: "marshalMessage raw (textMessage r c) \<noteq> None"
  by (simp add: marshalMessage_def textMessage_def)

lemma Measure_buildHistory:
  "(\<forall>x \<in> set (concat turns). marshalMessage raw x \<noteq> None) \<Longrightarrow> \<exists>n. Measure raw (buildHistory m summary turns) = Inr n"
  unfolding Measure_defined using marshal_textMessage by (auto simp: buildHistory_def summaryMessage_def)

lemma dropOldest_total:
  assumes "\<And>k. \<exists>n. sz (drop k ts) = Inr n"
  shows "\<exists>d kept. dropOldest sz budget ts = Inr (d, kept) \<and> (kept = [] \<or> (\<exists>n. sz kept = Inr n \<and> n \<le> budget))"
  using assms
proof (induction ts)
  case (Cons t ts)
  obtain n where "sz (t # ts) = Inr n"
    using Cons.prems [of 0] by auto
  moreover have "\<exists>n. sz (drop k ts) = Inr n" for k
    using Cons.prems [of "Suc k"] by simp
  ultimately show ?case
    using Cons.IH by auto
qed simp

lemma conversationMessages_subset: "conversationMessages m h = Inr c \<Longrightarrow> set c \<subseteq> set h"
  by (auto simp: conversationMessages_def Let_def split: list.splits if_split_asm)

text \<open>
  C36. Without a summarizer an update under a live context succeeds on every history that can be
  encoded, starts with the system prompt and is a sequence of complete turns, however long it is; the turns
  kept are the newest ones.
\<close>

theorem update_never_overflows:
  assumes "goodMemory raw m" "memSummarizer m = None" "memSummary m = []"
    and "Measure raw history = Inr n" "conversationMessages m history = Inr c" "splitTurns c = Inr turns"
  shows "\<exists>s m'. memUpdate raw liveMemory history m = (Inr s, m') \<and> suffix (memTurns m') turns"
proof -
  have enc: "\<forall>x \<in> set (concat turns). marshalMessage raw x \<noteq> None"
    using assms(4-6) conversationMessages_subset [OF assms(5)] Measure_defined [of raw history]
    by (auto simp: splitTurns_Inr)
  then have sz: "\<exists>n. Measure raw (buildHistory m [] (drop k turns)) = Inr n" for k
    by (intro Measure_buildHistory) (use set_drop_subset in fastforce)
  obtain d kept where kept: "dropOldest (\<lambda>ts. Measure raw (buildHistory m [] ts)) (maxHistoryBytes m) turns = Inr (d, kept)"
      "kept = [] \<or> withinBudget raw (maxHistoryBytes m) (buildHistory m [] kept)"
    using dropOldest_total [of "\<lambda>ts. Measure raw (buildHistory m [] ts)" turns "maxHistoryBytes m", OF sz]
    by (auto simp: withinBudget_def)
  then have "withinBudget raw (maxHistoryBytes m) (buildHistory m [] kept)"
    using assms(1) by (auto simp: goodMemory_def)
  moreover obtain k where "Measure raw (buildHistory m [] turns) = Inr k"
    using sz [of 0] by auto
  ultimately obtain d kept where d: "evictForHistory raw m turns = Inr (d, kept)"
      "withinBudget raw (maxHistoryBytes m) (buildHistory m [] kept)"
    using kept(1) assms(2,3) by (cases "maxHistoryBytes m < k") (auto simp: evictForHistory_def withinBudget_def)
  then show ?thesis
    using assms evictForHistory_parts [OF d(1)]
    by (auto simp: memUpdate_def liveMemory_def summarizeDropped_def commitMemory_def withinBudget_def suffix_def Let_def split: sum.splits)
qed

text \<open>Small inputs for the witnesses: a memory of 170 bytes, one long turn and one short.\<close>

definition demo_turn1 :: "message list" where
  "demo_turn1 = [textMessage ''user'' ''<<<<<<<<'', textMessage ''assistant'' ''ok'']"

definition demo_turn2 :: "message list" where
  "demo_turn2 = [textMessage ''user'' ''hi'', textMessage ''assistant'' ''ho'']"

definition demo_memory :: "summarizer option \<Rightarrow> manager" where
  "demo_memory summ = \<lparr>maxHistoryBytes = 170, maxSummaryBytes = 12, systemPrompt = ''p'', memSummarizer = summ, memSummary = [], memTurns = []\<rparr>"

definition demo_system :: message where
  "demo_system = textMessage ''system'' ''p''"

lemma demo_summary: "extractiveSummarize (\<lambda>_. None) [] demo_turn1 12 = Inr ''user: <<<<<<''"
  by (simp add: extractiveSummarize_def demo_turn1_def textMessage_def summaryPart_def trim_space_plain byte_val_def
      truncateUTF8_def dropInvalidEnd.simps valid_utf8_ascii eval_nat_numeral)

lemma size_base: "Measure Some [demo_system] = Inr 33"
  by code_simp

lemma size_full: "Measure Some (demo_system # demo_turn1 @ demo_turn2) = Inr 213"
  by code_simp

lemma size_reserved: "Measure Some [demo_system, summaryMessage (replicate 12 (CHR ''x''))] = Inr 92"
  by code_simp

lemma size_full_reserved: "Measure Some (demo_system # summaryMessage (replicate 12 (CHR ''x'')) # demo_turn1 @ demo_turn2) = Inr 272"
  by code_simp

lemma size_kept_reserved: "Measure Some (demo_system # summaryMessage (replicate 12 (CHR ''x'')) # demo_turn2) = Inr 159"
  by code_simp

lemma size_kept_escaped: "Measure Some (demo_system # summaryMessage ''user: <<<<<<'' # demo_turn2) = Inr 189"
  by code_simp

lemma size_prompt: "Measure Some [demo_system, textMessage ''user'' ''hi''] = Inr 64"
  by code_simp

lemma demo_trims:
  "trim_space (replicate 12 (CHR ''x'')) = replicate 12 (CHR ''x'')"
  "trim_space ''user: <<<<<<'' = ''user: <<<<<<''"
  by (simp_all add: trim_space_plain byte_val_def)

lemma demo_build:
  "buildHistory (demo_memory summ) [] turns = demo_system # concat turns"
  "buildHistory (demo_memory summ) (replicate 12 (CHR ''x'')) turns = demo_system # summaryMessage (replicate 12 (CHR ''x'')) # concat turns"
  "buildHistory (demo_memory summ) ''user: <<<<<<'' turns =
     demo_system # summaryMessage ''user: <<<<<<'' # concat turns"
  "reserve (demo_memory summ) = replicate 12 (CHR ''x'')"
  by (simp_all add: buildHistory_def demo_trims demo_system_def reserve_def demo_memory_def)

lemma demo_fields [simp]:
  "maxHistoryBytes (demo_memory summ) = 170" "maxSummaryBytes (demo_memory summ) = 12" "systemPrompt (demo_memory summ) = ''p''"
  "memSummarizer (demo_memory summ) = summ" "memSummary (demo_memory summ) = []" "memTurns (demo_memory summ) = []"
  by (simp_all add: demo_memory_def)

lemma demo_new: "MemoryNew Some 170 12 ''p'' summ = Inr (demo_memory summ)"
  using size_base size_reserved
  by (simp add: MemoryNew_def demo_build Let_def demo_memory_def [symmetric])

lemma demo_good: "goodMemory Some (demo_memory summ)"
  by (rule MemoryNew_Inr(1) [OF demo_new])

lemma demo_split: "splitTurns (demo_turn1 @ demo_turn2) = Inr [demo_turn1, demo_turn2]"
  by (simp add: splitTurns_def demo_turn1_def demo_turn2_def textMessage_def finishTurn_def)

lemma demo_conversation: "conversationMessages (demo_memory summ) (demo_system # demo_turn1 @ demo_turn2) = Inr (demo_turn1 @ demo_turn2)"
  by (auto simp: conversationMessages_def demo_system_def demo_turn1_def demo_turn2_def textMessage_def)

theorem memory_stays_bounded_witness:
  "withinBudget Some 170 (memHistory (memApply Some (UpdateOp liveMemory (demo_system # demo_turn1 @ demo_turn2)) (demo_memory None)))"
  using memory_stays_bounded [OF demo_new [of None], of "[UpdateOp liveMemory (demo_system # demo_turn1 @ demo_turn2)]"]
  by (simp add: Let_def)

theorem prepare_makes_room_witness:
  "\<exists>s m'. memPrepare Some liveMemory ''hi'' (demo_memory None) = (Inr s, m') \<and>
     withinBudget Some 170 (snHistory s @ [textMessage ''user'' ''hi''])"
proof -
  obtain s m' where p: "memPrepare Some liveMemory ''hi'' (demo_memory None) = (Inr s, m')"
    using size_prompt by (simp add: memPrepare_def liveMemory_def memHistory_def demo_build)
  from prepare_makes_room [OF p] p show ?thesis by auto
qed

theorem history_reads_back_witness:
  "\<exists>s. memUpdate Some liveMemory (memHistory (demo_memory None)) (demo_memory None) = (Inr s, demo_memory None)"
  using history_reads_back [OF demo_good [of None]] by blast

theorem update_never_overflows_witness:
  "\<exists>s m'. memUpdate Some liveMemory (demo_system # demo_turn1 @ demo_turn2) (demo_memory None) = (Inr s, m') \<and>
     suffix (memTurns m') [demo_turn1, demo_turn2]"
  using update_never_overflows [OF demo_good [of None] _ _ size_full demo_conversation demo_split] by simp

text \<open>
  The reserve for the summary is counted in unescaped characters: with the extractive summarizer, a memory
  that \<^verbatim>\<open>New\<close> accepted as large enough for a summary of 12 bytes refuses an update with
  \<^verbatim>\<open>budget_exceeded\<close>, because the 12 bytes of its own summary are longer in JSON than the reserve.
\<close>

theorem escaped_summary_overflows:
  "let summ = Some (extractiveSummarize (\<lambda>_. None)); m = demo_memory summ in
   MemoryNew Some 170 12 ''p'' summ = Inr m \<and>
   memUpdate Some liveMemory (demo_system # demo_turn1 @ demo_turn2) m =
     (Inl (memError MemBudgetExceeded ''bounded history requires 189 bytes, budget is 170''), m)"
proof -
  define summ where "summ = Some (extractiveSummarize (\<lambda>_. None))"
  have e: "evictForHistory Some (demo_memory summ) [demo_turn1, demo_turn2] = Inr ([demo_turn1], [demo_turn2])"
    using size_full size_full_reserved size_kept_reserved by (simp add: evictForHistory_def demo_build summ_def Let_def)
  have "truncateUTF8 (trim_space ''user: <<<<<<'') 12 = ''user: <<<<<<''"
    by (simp add: demo_trims truncateUTF8_def)
  then have s: "summarizeDropped liveMemory True (demo_memory summ) [demo_turn1] = Inr ''user: <<<<<<''"
    using demo_summary by (simp add: summarizeDropped_def summ_def liveMemory_def)
  have t: "showInt 189 = ''189''" "showInt 170 = ''170''" by code_simp+
  show ?thesis
    using size_full size_kept_escaped e s demo_new [of summ] t
    by (simp add: Let_def memUpdate_def liveMemory_def [of AtEntry] demo_conversation demo_split commitMemory_def demo_build overBudget_def
        flip: summ_def)
qed

end
