(* ===== verification/Agent_Runtime.thy ===== *)
theory Agent_Runtime
  imports Memory
begin

section \<open>The agent runtime (\<^verbatim>\<open>internal/orchestrator\<close>)\<close>

text \<open>
  The loop of model and tool rounds.  The model is an interface with an optional streaming extension; the
  executor is the one of \<^verbatim>\<open>internal/tools\<close>.  The world moves on between two looks at the context: \<open>agTick\<close> is what
  happens to it meanwhile.  A panic of the model leaves the loop.
\<close>

subsection \<open>Traces and results\<close>

datatype stopReason = StopDirectReply | StopRoundLimit | StopModelError | StopCancelled | StopDeadlineExceeded

record toolTrace =
  ttCallID :: string
  ttTool :: string
  ttSuccess :: bool
  ttErrorCode :: "executionErrorCode option"
  ttDuration :: duration

record roundTrace =
  rdNumber :: nat
  rdModelDuration :: duration
  rdDuration :: duration
  rdTools :: "toolTrace list"
  rdStop :: "stopReason option"
  rdError :: string

record agentTrace =
  atRounds :: "roundTrace list"
  atToolRounds :: nat
  atStop :: "stopReason option"

record agentRequest =
  rqInput :: string
  rqHistory :: "message list"

record agentResult =
  resReply :: string
  resHistory :: "message list"
  resTrace :: agentTrace

datatype runtimeErrorCode =
    RuntimeInvalidRuntime | RuntimeModelError | RuntimeRoundLimit | RuntimeCancelled | RuntimeDeadlineExceeded

record runtimeError =
  reCode :: runtimeErrorCode
  reRound :: nat
  reErr :: go_error

text \<open>The text of an error.\<close>

fun errText :: "go_error \<Rightarrow> string" where
  "errText Canceled = ''context canceled''"
| "errText DeadlineExceeded = ''context deadline exceeded''"
| "errText EOF = ''EOF''"
| "errText UnexpectedEOF = ''unexpected EOF''"
| "errText ShortWrite = ''short write''"
| "errText TurnInterrupted = ''turn interrupted''"
| "errText (Message s) = s"
| "errText (Wrapped what e) = what @ '': '' @ errText e"

subsection \<open>The runtime\<close>

type_synonym 's delta = "string \<Rightarrow> 's \<Rightarrow> go_error option \<times> 's"
type_synonym 's generation = "((go_error + string \<times> message list) \<times> 's) panicking"

record 's generator =
  genGenerate :: "message list \<Rightarrow> string \<Rightarrow> 's registry option \<Rightarrow> 's \<Rightarrow> 's generation"
  genStream :: "(message list \<Rightarrow> string \<Rightarrow> 's registry option \<Rightarrow> 's delta \<Rightarrow> 's \<Rightarrow> 's generation) option"

record 's agentRuntime =
  agMaxToolRounds :: int
  agModel :: "'s generator"
  agRegistry :: "'s registry option"
  agExecutor :: "'s registry option"
  agObserver :: "roundTrace \<Rightarrow> 's \<Rightarrow> 's"
  agOutside :: "'s outside"
  agQuote :: "string \<Rightarrow> string"
  agTick :: "'s \<Rightarrow> 's"

definition runtimeFailure :: "runtimeErrorCode \<Rightarrow> nat \<Rightarrow> string \<Rightarrow> runtimeError" where
  "runtimeFailure code n s = \<lparr>reCode = code, reRound = n, reErr = Message s\<rparr>"

text \<open>A nil executor is made from the registry, a nil observer does nothing.\<close>

definition NewAgentRuntime ::
  "int \<Rightarrow> 's generator option \<Rightarrow> 's registry option \<Rightarrow> 's registry option option \<Rightarrow> (roundTrace \<Rightarrow> 's \<Rightarrow> 's) option \<Rightarrow>
     's outside \<Rightarrow> (string \<Rightarrow> string) \<Rightarrow> ('s \<Rightarrow> 's) \<Rightarrow> runtimeError + 's agentRuntime"
where
  "NewAgentRuntime maxRounds model registry executor observer outside' quote tick =
     (if maxRounds \<le> 0 then Inl (runtimeFailure RuntimeInvalidRuntime 0 ''max tool rounds must be greater than zero'')
      else (case model of
              None \<Rightarrow> Inl (runtimeFailure RuntimeInvalidRuntime 0 ''generator is nil'')
            | Some g \<Rightarrow>
                Inr \<lparr>agMaxToolRounds = maxRounds, agModel = g, agRegistry = registry,
                     agExecutor = (case executor of None \<Rightarrow> registry | Some e \<Rightarrow> e),
                     agObserver = (case observer of None \<Rightarrow> (\<lambda>r s. s) | Some f \<Rightarrow> f),
                     agOutside = outside', agQuote = quote, agTick = tick\<rparr>))"

definition runtimeErrorFromContext :: "nat \<Rightarrow> go_error \<Rightarrow> runtimeError" where
  "runtimeErrorFromContext n e =
     (if errors_is e DeadlineExceeded then \<lparr>reCode = RuntimeDeadlineExceeded, reRound = n, reErr = DeadlineExceeded\<rparr>
      else \<lparr>reCode = RuntimeCancelled, reRound = n, reErr = Canceled\<rparr>)"

definition stopReasonFromContext :: "go_error \<Rightarrow> stopReason" where
  "stopReasonFromContext e = (if errors_is e DeadlineExceeded then StopDeadlineExceeded else StopCancelled)"

definition pendingToolCalls :: "message list \<Rightarrow> toolCall list" where
  "pendingToolCalls history =
     (if history = [] then []
      else if msgRole (last history) \<noteq> ''assistant'' then [] else msgToolCalls (last history))"

definition positiveDuration :: "duration \<Rightarrow> duration" where
  "positiveDuration d = (if d \<le> 0 then 1 else d)"

definition stopForContext :: "agentResult \<Rightarrow> nat \<Rightarrow> go_error \<Rightarrow> agentResult \<times> runtimeError option" where
  "stopForContext res n e =
     (res\<lparr>resTrace := (resTrace res)\<lparr>atStop := Some (stopReasonFromContext e)\<rparr>\<rparr>, Some (runtimeErrorFromContext n e))"

text \<open>The end of a round that stops the loop: the round joins the trace and its reason is the turn's.\<close>

definition closeRound :: "roundTrace \<Rightarrow> nat \<Rightarrow> agentResult \<Rightarrow> agentResult" where
  "closeRound rd toolRounds res =
     res\<lparr>resTrace := \<lparr>atRounds = atRounds (resTrace res) @ [rd], atToolRounds = toolRounds, atStop = rdStop rd\<rparr>\<rparr>"

definition ctxErr :: "'s agentRuntime \<Rightarrow> 's \<Rightarrow> go_error option \<times> 's" where
  "ctxErr r s = (let s1 = agTick r s in (outCtxErr (agOutside r) s1, s1))"

definition now :: "'s agentRuntime \<Rightarrow> 's \<Rightarrow> instant" where
  "now r s = outNow (agOutside r) s"

definition callModel ::
  "'s agentRuntime \<Rightarrow> 's delta option \<Rightarrow> message list \<Rightarrow> string \<Rightarrow> 's \<Rightarrow> 's generation"
where
  "callModel r streamDelta history input s =
     (case (genStream (agModel r), streamDelta) of
        (Some g, Some f) \<Rightarrow> g history input (agRegistry r) f s
      | _ \<Rightarrow> genGenerate (agModel r) history input (agRegistry r) s)"

lemma callModel_buffered [simp]: "callModel r None h i s = genGenerate (agModel r) h i (agRegistry r) s"
  by (simp add: callModel_def split: option.split)

definition traceTool :: "executionRecord \<Rightarrow> toolTrace" where
  "traceTool rec = \<lparr>ttCallID = callID (recCall rec), ttTool = callName (recCall rec), ttSuccess = Success rec,
     ttErrorCode = recError rec, ttDuration = positiveDuration (recDuration rec)\<rparr>"

definition toolAnswer :: "executionRecord \<Rightarrow> message" where
  "toolAnswer rec = \<lparr>msgRole = tmRole (recMessage rec), msgContent = tmContent (recMessage rec), msgToolCalls = [],
     msgToolCallID = tmCallID (recMessage rec)\<rparr>"

text \<open>
  One iteration of the loop.  \<open>RoundStop\<close> is a return of \<^verbatim>\<open>run\<close>; after \<open>RoundContinue\<close> the loop goes on
  with an empty input and one more tool round.
\<close>

datatype 's roundOutcome =
    RoundPanic
  | RoundStop "agentResult \<times> runtimeError option" 's
  | RoundContinue agentResult 's

definition modelFailed ::
  "'s agentRuntime \<Rightarrow> nat \<Rightarrow> nat \<Rightarrow> instant \<Rightarrow> duration \<Rightarrow> go_error \<Rightarrow> agentResult \<Rightarrow> 's \<Rightarrow> 's roundOutcome"
where
  "modelFailed r n toolRounds started modelDuration e res s =
     (case ctxErr r s of (c, s1) \<Rightarrow>
        let rd = \<lparr>rdNumber = n, rdModelDuration = modelDuration, rdDuration = positiveDuration (now r s1 - started),
                  rdTools = [], rdStop = Some (case c of None \<Rightarrow> StopModelError | Some x \<Rightarrow> stopReasonFromContext x),
                  rdError = errText e\<rparr>;
            s2 = agObserver r rd s1
        in case ctxErr r s2 of
             (Some x, s3) \<Rightarrow> RoundStop (closeRound rd toolRounds res, Some (runtimeErrorFromContext n x)) s3
           | (None, s3) \<Rightarrow>
               RoundStop (closeRound rd toolRounds res, Some \<lparr>reCode = RuntimeModelError, reRound = n, reErr = e\<rparr>) s3)"

definition roundLimitError :: "'s agentRuntime \<Rightarrow> nat \<Rightarrow> runtimeError" where
  "roundLimitError r n =
     runtimeFailure RuntimeRoundLimit n (''maximum of '' @ showInt (agMaxToolRounds r) @ '' tool rounds reached'')"

definition runTools ::
  "'s agentRuntime \<Rightarrow> nat \<Rightarrow> nat \<Rightarrow> instant \<Rightarrow> duration \<Rightarrow> toolCall list \<Rightarrow> agentResult \<Rightarrow> 's \<Rightarrow> 's roundOutcome"
where
  "runTools r n toolRounds started modelDuration calls res s =
     (case RunAllDetailed (agOutside r) (agQuote r) (agExecutor r) calls s of (recs, s1) \<Rightarrow>
      case ctxErr r s1 of (c, s2) \<Rightarrow>
        let rd = \<lparr>rdNumber = n, rdModelDuration = modelDuration, rdDuration = positiveDuration (now r s2 - started),
                  rdTools = map traceTool recs, rdStop = map_option stopReasonFromContext c, rdError = []\<rparr>;
            t = resTrace res;
            res1 = res\<lparr>resHistory := resHistory res @ map toolAnswer recs,
                       resTrace := \<lparr>atRounds = atRounds t @ [rd], atToolRounds = Suc toolRounds,
                                    atStop = (case rdStop rd of None \<Rightarrow> atStop t | Some x \<Rightarrow> Some x)\<rparr>\<rparr>;
            s3 = agObserver r rd s2
        in case ctxErr r s3 of
             (Some x, s4) \<Rightarrow> RoundStop (res1, Some (runtimeErrorFromContext n x)) s4
           | (None, s4) \<Rightarrow> RoundContinue res1 s4)"

definition agentRound ::
  "'s agentRuntime \<Rightarrow> 's delta option \<Rightarrow> nat \<Rightarrow> nat \<Rightarrow> string \<Rightarrow> agentResult \<Rightarrow> 's \<Rightarrow> 's roundOutcome"
where
  "agentRound r streamDelta n toolRounds input res s =
     (case ctxErr r s of
        (Some e, s1) \<Rightarrow> RoundStop (stopForContext res n e) s1
      | (None, s1) \<Rightarrow>
          (case callModel r streamDelta (resHistory res) input s1 of
             Panic \<Rightarrow> RoundPanic
           | Returned (Inl e, s2) \<Rightarrow>
               modelFailed r n toolRounds (now r s1) (positiveDuration (now r s2 - now r s1)) e res s2
           | Returned (Inr (reply, nextHistory), s2) \<Rightarrow>
               (let res1 = res\<lparr>resHistory := nextHistory\<rparr>;
                    calls = pendingToolCalls nextHistory;
                    d = positiveDuration (now r s2 - now r s1);
                    rd = \<lparr>rdNumber = n, rdModelDuration = d, rdDuration = d, rdTools = [], rdStop = None, rdError = []\<rparr>
                in
                if calls = [] then
                  (let rd1 = rd\<lparr>rdStop := Some StopDirectReply\<rparr> in
                   RoundStop (closeRound rd1 toolRounds (res1\<lparr>resReply := trim_space reply\<rparr>), None) (agObserver r rd1 s2))
                else if agMaxToolRounds r \<le> int toolRounds then
                  (let rd1 = rd\<lparr>rdStop := Some StopRoundLimit\<rparr> in
                   RoundStop (closeRound rd1 toolRounds res1, Some (roundLimitError r n)) (agObserver r rd1 s2))
                else runTools r n toolRounds (now r s1) d calls res1 s2)))"

lemma agentRound_continue: "agentRound r d n k input res s = RoundContinue res' s' \<Longrightarrow> int k < agMaxToolRounds r"
  by (auto simp: agentRound_def modelFailed_def Let_def split: prod.splits option.splits panicking.splits sum.splits if_splits)

function runLoop ::
  "'s agentRuntime \<Rightarrow> 's delta option \<Rightarrow> nat \<Rightarrow> nat \<Rightarrow> string \<Rightarrow> agentResult \<Rightarrow> 's \<Rightarrow>
     ((agentResult \<times> runtimeError option) \<times> 's) panicking"
where
  "runLoop r streamDelta n toolRounds input res s =
     (case agentRound r streamDelta n toolRounds input res s of
        RoundPanic \<Rightarrow> Panic
      | RoundStop result s1 \<Rightarrow> Returned (result, s1)
      | RoundContinue res1 s1 \<Rightarrow> runLoop r streamDelta (Suc n) (Suc toolRounds) [] res1 s1)"
  by pat_completeness auto
termination
  by (relation "measure (\<lambda>(r, d, n, k, rest). nat (agMaxToolRounds r - int k))") (auto dest!: agentRound_continue)

declare runLoop.simps [simp del]

definition emptyTrace :: agentTrace where
  "emptyTrace = \<lparr>atRounds = [], atToolRounds = 0, atStop = None\<rparr>"

text \<open>\<^verbatim>\<open>run\<close> on an initialised runtime; deltas are suppressed for the whole turn when any tool is exposed.\<close>

definition exposesTools :: "'s agentRuntime \<Rightarrow> bool" where
  "exposesTools r = (case agRegistry r of None \<Rightarrow> False | Some reg \<Rightarrow> Definitions reg \<noteq> [])"

definition runAgent ::
  "'s agentRuntime \<Rightarrow> agentRequest \<Rightarrow> 's delta option \<Rightarrow> 's \<Rightarrow> ((agentResult \<times> runtimeError option) \<times> 's) panicking"
where
  "runAgent r request onDelta s =
     (let res = \<lparr>resReply = [], resHistory = rqHistory request, resTrace = emptyTrace\<rparr> in
      if agMaxToolRounds r \<le> 0
      then Returned ((res, Some (runtimeFailure RuntimeInvalidRuntime 0 ''runtime is not initialized'')), s)
      else runLoop r (if exposesTools r then None else onDelta) 1 0 (rqInput request) res s)"

definition RunStream :: "'s agentRuntime \<Rightarrow> agentRequest \<Rightarrow> 's delta option \<Rightarrow> 's \<Rightarrow> ((agentResult \<times> runtimeError option) \<times> 's) panicking" where
  "RunStream r request onDelta s = runAgent r request onDelta s"

definition RunOnce :: "'s agentRuntime \<Rightarrow> agentRequest \<Rightarrow> 's \<Rightarrow> ((agentResult \<times> runtimeError option) \<times> 's) panicking" where
  "RunOnce r request s = runAgent r request None s"

subsection \<open>Metrics\<close>

record metrics =
  mxRounds :: nat
  mxToolRounds :: nat
  mxToolCalls :: "string \<Rightarrow> nat"
  mxToolFailures :: "string \<Rightarrow> nat"
  mxStops :: "stopReason \<Rightarrow> nat"

definition NewMetricsObserver :: metrics where
  "NewMetricsObserver = \<lparr>mxRounds = 0, mxToolRounds = 0, mxToolCalls = (\<lambda>_. 0), mxToolFailures = (\<lambda>_. 0), mxStops = (\<lambda>_. 0)\<rparr>"

definition countTool :: "toolTrace \<Rightarrow> metrics \<Rightarrow> metrics" where
  "countTool t m =
     m\<lparr>mxToolCalls := (mxToolCalls m)(ttTool t := Suc (mxToolCalls m (ttTool t))),
       mxToolFailures := (if ttSuccess t then mxToolFailures m
                          else (mxToolFailures m)(ttTool t := Suc (mxToolFailures m (ttTool t))))\<rparr>"

definition metricsOnRound :: "roundTrace \<Rightarrow> metrics \<Rightarrow> metrics" where
  "metricsOnRound rd m =
     (let m1 = m\<lparr>mxRounds := Suc (mxRounds m), mxToolRounds := (if rdTools rd \<noteq> [] then Suc (mxToolRounds m) else mxToolRounds m)\<rparr>;
          m2 = fold countTool (rdTools rd) m1
      in (case rdStop rd of None \<Rightarrow> m2 | Some x \<Rightarrow> m2\<lparr>mxStops := (mxStops m2)(x := Suc (mxStops m2 x))\<rparr>))"

subsection \<open>The rounds of a turn\<close>

lemma agentRound_cases:
  assumes "agentRound r d n k input res s = outcome"
  obtains (panic) "outcome = RoundPanic"
  | (stopped) e s1 where "outcome = RoundStop (stopForContext res n e) s1"
  | (model) rd err s1 where "outcome = RoundStop (closeRound rd k res, Some err) s1" "rdNumber rd = n" "rdStop rd \<noteq> Some StopDirectReply"
      "rdTools rd = []"
  | (direct) s1 reply hist s2 rd s3 where "callModel r d (resHistory res) input s1 = Returned (Inr (reply, hist), s2)"
      "pendingToolCalls hist = []" "rdNumber rd = n" "rdStop rd = Some StopDirectReply" "rdTools rd = []"
      "outcome = RoundStop (closeRound rd k (res\<lparr>resHistory := hist, resReply := trim_space reply\<rparr>), None) s3"
  | (limit) hist rd s3 where "pendingToolCalls hist \<noteq> []" "agMaxToolRounds r \<le> int k" "rdNumber rd = n" "rdStop rd = Some StopRoundLimit"
      "outcome = RoundStop (closeRound rd k (res\<lparr>resHistory := hist\<rparr>), Some (roundLimitError r n)) s3" "rdTools rd = []"
  | (tools) s1 reply hist s2 started md where "callModel r d (resHistory res) input s1 = Returned (Inr (reply, hist), s2)"
      "pendingToolCalls hist \<noteq> []" "int k < agMaxToolRounds r"
      "outcome = runTools r n k started md (pendingToolCalls hist) (res\<lparr>resHistory := hist\<rparr>) s2"
proof -
  obtain c s1 where c: "ctxErr r s = (c, s1)" by fastforce
  show thesis
  proof (cases c)
    case (Some e)
    with c assms stopped show thesis by (auto simp: agentRound_def)
  next
    case None
    show thesis
    proof (cases "callModel r d (resHistory res) input s1")
      case Panic
      with c None assms panic show thesis by (auto simp: agentRound_def)
    next
      case (Returned out)
      obtain y s2 where out: "out = (y, s2)" by fastforce
      show thesis
      proof (cases y)
        case (Inl e)
        have *: "outcome = modelFailed r n k (now r s1) (positiveDuration (now r s2 - now r s1)) e res s2"
          using assms c None Returned out Inl by (simp add: agentRound_def)
        show thesis
          using * by (auto simp: modelFailed_def Let_def stopReasonFromContext_def split: prod.splits option.splits if_splits intro!: model)
      next
        case (Inr z)
        obtain reply hist where z: "z = (reply, hist)" by fastforce
        note eq = assms [unfolded agentRound_def, simplified c None prod.case option.case Returned out Inr z panicking.case sum.case]
        have m: "callModel r d (resHistory res) input s1 = Returned (Inr (reply, hist), s2)"
          using Returned out Inr z by simp
        consider (a) "pendingToolCalls hist = []" | (b) "pendingToolCalls hist \<noteq> []" "agMaxToolRounds r \<le> int k"
          | (c) "pendingToolCalls hist \<noteq> []" "int k < agMaxToolRounds r"
          by linarith
        then show thesis
        proof cases
          case a
          show thesis by (rule direct [OF m a]) (use eq a in \<open>auto simp: Let_def\<close>)
        next
          case b
          show thesis by (rule limit [OF b]) (use eq b in \<open>auto simp: Let_def\<close>)
        next
          case c
          show thesis by (rule tools [OF m c]) (use eq c in \<open>auto simp: Let_def\<close>)
        qed
      qed
    qed
  qed
qed

lemma stopReasonFromContext_not_direct [simp]: "stopReasonFromContext e \<noteq> StopDirectReply"
  by (simp add: stopReasonFromContext_def)

lemma runTools_Stop:
  assumes "runTools r n k started md calls res s = RoundStop (res', err) s'"
  shows "err \<noteq> None \<and> (\<exists>rd. atRounds (resTrace res') = atRounds (resTrace res) @ [rd] \<and> rdNumber rd = n) \<and>
    atToolRounds (resTrace res') = Suc k \<and>
    (atStop (resTrace res) \<noteq> Some StopDirectReply \<longrightarrow> atStop (resTrace res') \<noteq> Some StopDirectReply)"
  using assms by (auto simp: runTools_def Let_def split: prod.splits option.splits)

lemma runTools_Continue:
  assumes "runTools r n k started md calls res s = RoundContinue res' s'"
  shows "(\<exists>rd. atRounds (resTrace res') = atRounds (resTrace res) @ [rd] \<and> rdNumber rd = n) \<and> atToolRounds (resTrace res') = Suc k \<and>
    (atStop (resTrace res) \<noteq> Some StopDirectReply \<longrightarrow> atStop (resTrace res') \<noteq> Some StopDirectReply)"
  using assms by (auto simp: runTools_def Let_def split: prod.splits option.splits)

text \<open>What holds before the \<open>n\<close>-th iteration: the rounds so far are numbered from one and all were tool rounds.\<close>

definition loopTrace :: "'s agentRuntime \<Rightarrow> nat \<Rightarrow> nat \<Rightarrow> agentTrace \<Rightarrow> bool" where
  "loopTrace r n k t \<longleftrightarrow> n = Suc k \<and> int k \<le> agMaxToolRounds r \<and> map rdNumber (atRounds t) = [1..<n] \<and> atToolRounds t = k \<and>
     atStop t \<noteq> Some StopDirectReply"

definition finalTrace :: "'s agentRuntime \<Rightarrow> agentTrace \<Rightarrow> runtimeError option \<Rightarrow> bool" where
  "finalTrace r t err \<longleftrightarrow> map rdNumber (atRounds t) = [1..<Suc (length (atRounds t))] \<and>
     int (length (atRounds t)) \<le> agMaxToolRounds r + 1 \<and> int (atToolRounds t) \<le> agMaxToolRounds r \<and>
     (err = None \<longleftrightarrow> atStop t = Some StopDirectReply)"

lemma loopTrace_length: "loopTrace r n k t \<Longrightarrow> length (atRounds t) = k"
  by (auto simp: loopTrace_def dest: arg_cong [of _ _ length])

lemma finalTrace_snoc:
  assumes "loopTrace r n k t" "atRounds t' = atRounds t @ [rd]" "rdNumber rd = n" "int (atToolRounds t') \<le> agMaxToolRounds r"
    "err = None \<longleftrightarrow> atStop t' = Some StopDirectReply"
  shows "finalTrace r t' err"
  using assms loopTrace_length [OF assms(1)] by (simp add: loopTrace_def finalTrace_def)

lemma loopTrace_snoc:
  assumes "loopTrace r n k t" "atRounds t' = atRounds t @ [rd]" "rdNumber rd = n" "atToolRounds t' = Suc k" "int k < agMaxToolRounds r"
    "atStop t' \<noteq> Some StopDirectReply"
  shows "loopTrace r (Suc n) (Suc k) t'"
  using assms by (simp add: loopTrace_def)

lemma agentRound_trace:
  assumes "loopTrace r n k (resTrace res)"
  shows "case agentRound r d n k input res s of
      RoundPanic \<Rightarrow> True
    | RoundStop out s1 \<Rightarrow> finalTrace r (resTrace (fst out)) (snd out)
    | RoundContinue res1 s1 \<Rightarrow> loopTrace r (Suc n) (Suc k) (resTrace res1)"
proof (cases rule: agentRound_cases [OF refl, of r d n k input res s, case_names panic stopped model direct limit tools])
  case panic
  then show ?thesis by simp
next
  case (stopped e s1)
  then show ?thesis
    using assms loopTrace_length [OF assms] by (simp add: loopTrace_def finalTrace_def stopForContext_def)
next
  case (model rd err s1)
  then show ?thesis
    using assms by (auto simp: closeRound_def loopTrace_def intro!: finalTrace_snoc [OF assms])
next
  case (direct s1 reply hist s2 rd s3)
  then show ?thesis
    using assms by (auto simp: closeRound_def loopTrace_def intro!: finalTrace_snoc [OF assms])
next
  case (limit hist rd s3)
  then show ?thesis
    using assms by (auto simp: closeRound_def loopTrace_def intro!: finalTrace_snoc [OF assms])
next
  case (tools s1 reply hist s2 started md)
  show ?thesis
  proof (cases "runTools r n k started md (pendingToolCalls hist) (res\<lparr>resHistory := hist\<rparr>) s2")
    case (RoundStop out s3)
    obtain res' err where out: "out = (res', err)" by fastforce
    show ?thesis
      using runTools_Stop [OF RoundStop [unfolded out]] tools RoundStop out assms
      by (auto simp: loopTrace_def intro!: finalTrace_snoc [OF assms])
  next
    case (RoundContinue res' s3)
    have "atStop (resTrace res) \<noteq> Some StopDirectReply"
      using assms by (simp add: loopTrace_def)
    with runTools_Continue [OF RoundContinue] obtain rd where
        "atRounds (resTrace res') = atRounds (resTrace res) @ [rd]" "rdNumber rd = n" "atToolRounds (resTrace res') = Suc k"
        "atStop (resTrace res') \<noteq> Some StopDirectReply"
      by auto
    from loopTrace_snoc [OF assms this(1-3) tools(3) this(4)] tools RoundContinue show ?thesis
      by simp
  qed (use tools in simp)
qed

lemma runLoop_trace:
  assumes "runLoop r d n k input res s = Returned ((res', err), s')" "loopTrace r n k (resTrace res)"
  shows "finalTrace r (resTrace res') err"
  using assms
proof (induction r d n k input res s rule: runLoop.induct)
  case (1 r d n k input res s)
  then show ?case
    using agentRound_trace [OF 1(3), of d input s]
    by (subst (asm) runLoop.simps) (auto split: roundOutcome.splits)
qed

text \<open>
  C10. The loop of the agent is bounded: whatever the model, the tools and the context do, a turn that returns has
  made at most one model call more than the configured tool rounds, with the rounds of its trace
  numbered from one, and it succeeds exactly when its stop reason is a direct reply.
\<close>

theorem agent_rounds_bounded:
  assumes "runAgent r request onDelta s = Returned ((res, err), s')" "0 < agMaxToolRounds r"
  shows "let t = resTrace res in
    map rdNumber (atRounds t) = [1..<Suc (length (atRounds t))] \<and> int (length (atRounds t)) \<le> agMaxToolRounds r + 1 \<and>
    int (atToolRounds t) \<le> agMaxToolRounds r \<and> (err = None \<longleftrightarrow> atStop t = Some StopDirectReply)"
proof -
  have "finalTrace r (resTrace res) err"
    using assms by (auto simp: runAgent_def Let_def loopTrace_def emptyTrace_def intro!: runLoop_trace)
  then show ?thesis by (simp add: finalTrace_def Let_def)
qed

subsection \<open>The history of a turn\<close>

text \<open>The contract of the model, on both ways of calling it: a successful answer extends the request by one assistant message.\<close>

definition extendsHistory :: "message list \<Rightarrow> string \<Rightarrow> string \<Rightarrow> message list \<Rightarrow> bool" where
  "extendsHistory history input reply hist \<longleftrightarrow>
     (\<exists>a. hist = requestHistory history input @ [a] \<and> msgRole a = ''assistant'' \<and> msgToolCallID a = [] \<and>
        (msgToolCalls a = [] \<longrightarrow> msgContent a = trim_space reply))"

text \<open>An assistant message with calls and their answers, in the order of the calls.\<close>

definition answeredRound :: "message list \<Rightarrow> bool" where
  "answeredRound b \<longleftrightarrow>
     (\<exists>a rs. b = a # rs \<and> msgRole a = ''assistant'' \<and> msgToolCallID a = [] \<and> msgToolCalls a \<noteq> [] \<and>
        map msgToolCallID rs = map callID (msgToolCalls a) \<and> (\<forall>x \<in> set rs. msgRole x = ''tool'' \<and> msgToolCalls x = []))"

text \<open>A context that has ended stays ended.\<close>

definition contextPersists :: "'s agentRuntime \<Rightarrow> bool" where
  "contextPersists r \<longleftrightarrow>
     (\<forall>s. outCtxErr (agOutside r) s \<noteq> None \<longrightarrow>
        outCtxErr (agOutside r) (agTick r s) \<noteq> None \<and> (\<forall>rd. outCtxErr (agOutside r) (agObserver r rd s) \<noteq> None))"

lemma runTools_answers:
  assumes "runTools r n k started md calls res s = RoundContinue res' s'" "contextPersists r"
  shows "\<exists>rs. resHistory res' = resHistory res @ rs \<and> map msgToolCallID rs = map callID calls \<and>
    (\<forall>x \<in> set rs. msgRole x = ''tool'' \<and> msgToolCalls x = [])"
proof -
  obtain recs s1 where recs: "RunAllDetailed (agOutside r) (agQuote r) (agExecutor r) calls s = (recs, s1)" by fastforce
  obtain c s2 where c: "ctxErr r s1 = (c, s2)" by fastforce
  obtain rd s4 where rd: "ctxErr r (agObserver r rd s2) = (None, s4)"
    using assms(1) recs c by (auto simp: runTools_def Let_def split: prod.splits option.splits)
  have "outCtxErr (agOutside r) s1 = None"
    using assms(2) c rd unfolding contextPersists_def ctxErr_def Let_def by (metis prod.inject)
  then have "map recCall recs = calls"
    using RunAllDetailed_prefix [OF recs] by (auto dest: leI)
  moreover have "resHistory res' = resHistory res @ map toolAnswer recs"
    using assms(1) recs by (auto simp: runTools_def Let_def split: prod.splits option.splits)
  moreover have "\<forall>x \<in> set recs. tmCallID (recMessage x) = callID (recCall x)"
    using RunAllDetailed_prefix [OF recs] by blast
  then have "map msgToolCallID (map toolAnswer recs) = map callID (map recCall recs)"
    by (simp add: toolAnswer_def)
  ultimately show ?thesis
    using RunAllDetailed_prefix [OF recs] by (intro exI [of _ "map toolAnswer recs"]) (auto simp: toolAnswer_def)
qed

locale model_contract =
  fixes g :: "'s generator"
  assumes generate_extends: "genGenerate g h i reg s = Returned (Inr (reply, hist), s') \<Longrightarrow> extendsHistory h i reply hist"
    and stream_extends: "genStream g = Some f \<Longrightarrow> f h i reg d s = Returned (Inr (reply, hist), s') \<Longrightarrow> extendsHistory h i reply hist"
begin

lemma callModel_extends:
  assumes "agModel r = g" "callModel r d h i s = Returned (Inr (reply, hist), s')"
  shows "extendsHistory h i reply hist"
  using assms by (auto simp: callModel_def split: option.splits intro: generate_extends stream_extends)

lemma agentRound_history:
  assumes "agModel r = g" "contextPersists r"
  shows "case agentRound r d n k input res s of
      RoundPanic \<Rightarrow> True
    | RoundStop out s1 \<Rightarrow> snd out = None \<longrightarrow>
        (\<exists>a. resHistory (fst out) = requestHistory (resHistory res) input @ [a] \<and> msgRole a = ''assistant'' \<and> msgToolCallID a = [] \<and>
           msgToolCalls a = [] \<and> msgContent a = resReply (fst out)) \<and> atToolRounds (resTrace (fst out)) = k
    | RoundContinue res1 s1 \<Rightarrow> (\<exists>b. resHistory res1 = requestHistory (resHistory res) input @ b \<and> answeredRound b)"
proof (cases rule: agentRound_cases [OF refl, of r d n k input res s, case_names panic stopped model direct limit tools])
  case (direct s1 reply hist s2 rd s3)
  with callModel_extends [OF assms(1) direct(1)] show ?thesis
    by (auto simp: extendsHistory_def closeRound_def pendingToolCalls_def)
next
  case (tools s1 reply hist s2 started md)
  obtain a where a: "hist = requestHistory (resHistory res) input @ [a]" "msgRole a = ''assistant''" "msgToolCallID a = []"
    using callModel_extends [OF assms(1) tools(1)] by (auto simp: extendsHistory_def)
  show ?thesis
  proof (cases "runTools r n k started md (pendingToolCalls hist) (res\<lparr>resHistory := hist\<rparr>) s2")
    case (RoundStop out s3)
    then show ?thesis
      using tools runTools_Stop by (cases out) fastforce
  next
    case (RoundContinue res' s3)
    then obtain rs where "resHistory res' = hist @ rs" "map msgToolCallID rs = map callID (pendingToolCalls hist)"
        "\<forall>x \<in> set rs. msgRole x = ''tool'' \<and> msgToolCalls x = []"
      using runTools_answers [OF RoundContinue assms(2)] by auto
    moreover have "pendingToolCalls hist = msgToolCalls a"
      using a by (simp add: pendingToolCalls_def)
    ultimately show ?thesis
      using a tools RoundContinue by (auto simp: answeredRound_def)
  qed (use tools in simp)
qed (simp_all add: stopForContext_def)

lemma runLoop_history:
  assumes "agModel r = g" "contextPersists r" "runLoop r d n k input res s = Returned ((res', None), s')"
  shows "\<exists>bs a. resHistory res' = requestHistory (resHistory res) input @ concat bs @ [a] \<and> (\<forall>b \<in> set bs. answeredRound b) \<and>
    k + length bs = atToolRounds (resTrace res') \<and>
    msgRole a = ''assistant'' \<and> msgToolCallID a = [] \<and> msgToolCalls a = [] \<and> msgContent a = resReply res'"
  using assms
proof (induction r d n k input res s rule: runLoop.induct)
  case (1 r d n k input res s)
  note round = agentRound_history [OF 1(2,3), where d = d and n = n and k = k and input = input and res = res and s = s]
  show ?case
  proof (cases "agentRound r d n k input res s")
    case RoundPanic
    then show ?thesis using 1(4) by (simp add: runLoop.simps)
  next
    case (RoundStop out s1)
    then have "out = (res', None)" using 1(4) by (simp add: runLoop.simps)
    with round RoundStop show ?thesis by (auto intro!: exI [of _ "[]"])
  next
    case (RoundContinue res1 s1)
    then obtain b where b: "resHistory res1 = requestHistory (resHistory res) input @ b" "answeredRound b"
      using round by auto
    have "runLoop r d (Suc n) (Suc k) [] res1 s1 = Returned ((res', None), s')"
      using 1(4) RoundContinue by (simp add: runLoop.simps [of r d n])
    from 1(1) [OF RoundContinue 1(2,3) this] obtain bs a where
      "resHistory res' = requestHistory (resHistory res1) [] @ concat bs @ [a]" "\<forall>b \<in> set bs. answeredRound b"
      "Suc k + length bs = atToolRounds (resTrace res')" "msgRole a = ''assistant''" "msgToolCallID a = []" "msgToolCalls a = []"
      "msgContent a = resReply res'"
      by blast
    with b show ?thesis
      by (intro exI [of _ "b # bs"] exI [of _ a]) (auto simp: requestHistory_def)
  qed
qed

end

text \<open>The client of llama-server as a model.\<close>

definition hasTools :: "'s registry option \<Rightarrow> bool" where
  "hasTools reg = (case reg of None \<Rightarrow> False | Some r \<Rightarrow> Definitions r \<noteq> [])"

definition dropLog :: "((go_error + string \<times> string \<times> message list) \<times> 's) panicking \<Rightarrow> 's generation" where
  "dropLog x =
     (case x of
        Panic \<Rightarrow> Panic
      | Returned (Inl e, s) \<Rightarrow> Returned (Inl e, s)
      | Returned (Inr (reply, log, hist), s) \<Rightarrow> Returned (Inr (reply, hist), s))"

definition llamaGenerator ::
  "(nat \<Rightarrow> nat) \<Rightarrow> (string \<Rightarrow> streamDelta option) \<Rightarrow> (message list \<Rightarrow> 's \<Rightarrow> transport) \<Rightarrow> 's generator"
where
  "llamaGenerator grow decode server =
     \<lparr>genGenerate = (\<lambda>h i reg s. dropLog (generate grow decode h i (hasTools reg) None (\<lambda>ms. server ms s) s)),
      genStream = Some (\<lambda>h i reg f s. dropLog (generate grow decode h i (hasTools reg) (Some f) (\<lambda>ms. server ms s) s))\<rparr>"

lemma generate_extendsHistory:
  assumes "dropLog (generate grow decode h i t f server s) = Returned (Inr (reply, hist), s')"
  shows "extendsHistory h i reply hist"
  using assms
  by (auto simp: dropLog_def generate_def Let_def extendsHistory_def textMessage_def
      split: panicking.splits sum.splits prod.splits if_splits)

interpretation llama: model_contract "llamaGenerator grow decode server" for grow decode server
  by unfold_locales (auto simp: llamaGenerator_def dest: generate_extendsHistory)

text \<open>
  C37. A turn of the runtime over the llama-server client that succeeds leaves a history with nothing pending: the
  request's history, the user's words, one block per tool round (an assistant message and one
  answer for each of its calls, in order) and an assistant message without calls, whose content is the reply.
\<close>

theorem agent_turn_answers_every_call:
  assumes "runAgent r request onDelta s = Returned ((res, None), s')" "agModel r = llamaGenerator grow decode server"
    and "contextPersists r" "trim_space (rqInput request) \<noteq> []"
  shows "\<exists>bs a. resHistory res = rqHistory request @ textMessage ''user'' (rqInput request) # concat bs @ [a] \<and>
    (\<forall>b \<in> set bs. answeredRound b) \<and> length bs = atToolRounds (resTrace res) \<and>
    msgRole a = ''assistant'' \<and> msgToolCallID a = [] \<and> msgToolCalls a = [] \<and> msgContent a = resReply res"
proof -
  define res0 where "res0 = \<lparr>resReply = [], resHistory = rqHistory request, resTrace = emptyTrace\<rparr>"
  have "runLoop r (if exposesTools r then None else onDelta) 1 0 (rqInput request) res0 s = Returned ((res, None), s')"
    using assms(1) by (auto simp: runAgent_def Let_def res0_def split: if_split_asm)
  from llama.runLoop_history [OF assms(2,3) this] assms(4) show ?thesis
    by (simp add: requestHistory_def res0_def)
qed

text \<open>A runtime whose model asks for one tool and then answers.\<close>

definition demo_payload :: "string \<Rightarrow> streamDelta option" where
  "demo_payload p =
     (if p = ''A'' then Some \<lparr>dlContent = [], dlToolCalls = [demo_fragment 0 ''x'']\<rparr>
      else if p = ''B'' then Some \<lparr>dlContent = ''ok'', dlToolCalls = []\<rparr> else None)"

definition demo_server :: "message list \<Rightarrow> unit \<Rightarrow> transport" where
  "demo_server ms s = StreamBody [if msgRole (last ms) = ''tool'' then ''data: B'' else ''data: A''] None"

definition demo_outside :: "unit outside" where
  "demo_outside = \<lparr>outCtxErr = (\<lambda>_. None), outNow = (\<lambda>_. 0)\<rparr>"

definition demo_agent :: "unit agentRuntime" where
  "demo_agent = \<lparr>agMaxToolRounds = 2, agModel = llamaGenerator Suc demo_payload demo_server, agRegistry = None, agExecutor = None,
     agObserver = (\<lambda>rd s. s), agOutside = demo_outside, agQuote = (\<lambda>x. x), agTick = (\<lambda>s. s)\<rparr>"

definition demo_request :: agentRequest where
  "demo_request = \<lparr>rqInput = ''hi'', rqHistory = [demo_system]\<rparr>"

lemma demo_agent_fields [simp]:
  "agMaxToolRounds demo_agent = 2" "agModel demo_agent = llamaGenerator Suc demo_payload demo_server" "agRegistry demo_agent = None"
  "agExecutor demo_agent = None" "agObserver demo_agent rd s = ()" "agOutside demo_agent = demo_outside" "agTick demo_agent s = ()"
  "outCtxErr demo_outside s = None" "outNow demo_outside s = 0" "ctxErr demo_agent s = (None, ())" "now demo_agent s = 0"
  by (simp_all add: demo_agent_def demo_outside_def ctxErr_def now_def)

lemma demo_generate:
  "genGenerate (llamaGenerator Suc demo_payload demo_server) h i None () =
     (let ms = requestHistory h i in
      if msgRole (last ms) = ''tool'' then Returned (Inr (''ok'', ms @ [textMessage ''assistant'' ''ok'']), ())
      else Returned (Inr ([], ms @ [(textMessage ''assistant'' [])\<lparr>msgToolCalls :=
        [\<lparr>callID = ''c'', callType = ''function'', callName = ''f'', callArguments = ''x''\<rparr>]\<rparr>]), ()))"
  by (simp add: llamaGenerator_def dropLog_def generate_def callLLM_def demo_server_def hasTools_def parseStreamWithDelta_def
      demo_payload_def demo_fragment_def addFragment_def noPartials_def appendBlank_def blankPartial_def overwrite_def finishCall_def
      trim_space_plain byte_val_def Let_def)

lemma demo_agent_run: "\<exists>res. runAgent demo_agent demo_request None () = Returned ((res, None), ()) \<and> atToolRounds (resTrace res) = 1"
  by (simp add: runAgent_def demo_request_def exposesTools_def Let_def, subst runLoop.simps,
      simp add: agentRound_def demo_generate runTools_def runDetailed_def runCall_def refused_def toolAnswer_def
        pendingToolCalls_def textMessage_def requestHistory_def trim_space_plain byte_val_def Let_def demo_system_def,
      subst runLoop.simps,
      simp add: agentRound_def demo_generate pendingToolCalls_def textMessage_def requestHistory_def closeRound_def
        trim_space_plain byte_val_def Let_def)

lemma demo_persists: "contextPersists demo_agent"
  by (simp add: contextPersists_def)

theorem agent_rounds_bounded_witness:
  "\<exists>res. runAgent demo_agent demo_request None () = Returned ((res, None), ()) \<and> length (atRounds (resTrace res)) \<le> 3"
proof -
  obtain res where r: "runAgent demo_agent demo_request None () = Returned ((res, None), ())" using demo_agent_run by auto
  from agent_rounds_bounded [OF r] r show ?thesis by (auto simp: Let_def)
qed

theorem agent_turn_answers_every_call_witness:
  "\<exists>res bs a. runAgent demo_agent demo_request None () = Returned ((res, None), ()) \<and>
     resHistory res = demo_system # textMessage ''user'' ''hi'' # concat bs @ [a] \<and> length bs = 1"
proof -
  obtain res where r: "runAgent demo_agent demo_request None () = Returned ((res, None), ())" "atToolRounds (resTrace res) = 1"
    using demo_agent_run by auto
  from agent_turn_answers_every_call [OF r(1) demo_agent_fields(2) demo_persists] r show ?thesis
    by (auto simp: demo_request_def trim_space_plain byte_val_def)
qed

subsection \<open>Counters and stop reasons\<close>

lemma countTools:
  "mxRounds (fold countTool ts m) = mxRounds m \<and> mxToolRounds (fold countTool ts m) = mxToolRounds m \<and>
   mxStops (fold countTool ts m) = mxStops m \<and>
   mxToolCalls (fold countTool ts m) t = mxToolCalls m t + length (filter (\<lambda>x. ttTool x = t) ts) \<and>
   mxToolFailures (fold countTool ts m) t = mxToolFailures m t + length (filter (\<lambda>x. ttTool x = t \<and> \<not> ttSuccess x) ts)"
  by (induction ts arbitrary: m) (auto simp: countTool_def)

lemma countRounds:
  "mxRounds (fold metricsOnRound rds m) = mxRounds m + length rds \<and>
   mxToolRounds (fold metricsOnRound rds m) = mxToolRounds m + length (filter (\<lambda>rd. rdTools rd \<noteq> []) rds) \<and>
   mxStops (fold metricsOnRound rds m) x = mxStops m x + length (filter (\<lambda>rd. rdStop rd = Some x) rds) \<and>
   mxToolCalls (fold metricsOnRound rds m) t = mxToolCalls m t + length (filter (\<lambda>y. ttTool y = t) (concat (map rdTools rds))) \<and>
   mxToolFailures (fold metricsOnRound rds m) t =
     mxToolFailures m t + length (filter (\<lambda>y. ttTool y = t \<and> \<not> ttSuccess y) (concat (map rdTools rds)))"
proof (induction rds arbitrary: m)
  case (Cons rd rds)
  show ?case
    using Cons.IH [of "metricsOnRound rd m"]
    by (auto simp: metricsOnRound_def countTools Let_def split: option.split)
qed simp

text \<open>
  The metrics observer counts what the trace says: after any rounds its counters are the number of rounds, of
  rounds with tools, of stops by reason, and of calls and failed calls by tool name.
\<close>

theorem metrics_count_rounds:
  "let m = fold metricsOnRound rds NewMetricsObserver; ts = concat (map rdTools rds) in
   mxRounds m = length rds \<and> mxToolRounds m = length (filter (\<lambda>rd. rdTools rd \<noteq> []) rds) \<and>
   mxStops m x = length (filter (\<lambda>rd. rdStop rd = Some x) rds) \<and>
   mxToolCalls m t = length (filter (\<lambda>y. ttTool y = t) ts) \<and>
   mxToolFailures m t = length (filter (\<lambda>y. ttTool y = t \<and> \<not> ttSuccess y) ts)"
  using countRounds [of rds NewMetricsObserver x t] by (simp add: Let_def NewMetricsObserver_def)

text \<open>A context that ends between the two looks after the tools stops the turn with an error and without a stop reason.\<close>

definition late_cancel :: "nat agentRuntime" where
  "late_cancel = \<lparr>agMaxToolRounds = 2,
     agModel = \<lparr>genGenerate = (\<lambda>h i reg s. Returned (Inr ([], h @ [(textMessage ''assistant'' [])\<lparr>msgToolCalls :=
         [\<lparr>callID = ''c'', callType = ''function'', callName = ''f'', callArguments = ''x''\<rparr>]\<rparr>]), s)), genStream = None\<rparr>,
     agRegistry = None, agExecutor = None, agObserver = (\<lambda>rd s. s),
     agOutside = \<lparr>outCtxErr = (\<lambda>s. if 3 \<le> s then Some Canceled else None), outNow = (\<lambda>s. int s)\<rparr>, agQuote = (\<lambda>x. x), agTick = Suc\<rparr>"

lemma late_cancel_has_no_stop_reason:
  "case runAgent late_cancel demo_request None 0 of
     Panic \<Rightarrow> False
   | Returned ((res, err), s) \<Rightarrow> map_option reCode err = Some RuntimeCancelled \<and> atStop (resTrace res) = None"
  by (simp add: runAgent_def demo_request_def exposesTools_def late_cancel_def Let_def runLoop.simps agentRound_def ctxErr_def
      now_def pendingToolCalls_def textMessage_def runTools_def runDetailed_def runCall_def refused_def runtimeErrorFromContext_def emptyTrace_def)

end
