(* ===== verification/Conversation.thy ===== *)
theory Conversation
  imports Agent_Runtime
begin

section \<open>The conversation session (\<^verbatim>\<open>internal/conversation\<close>)\<close>

text \<open>
  One turn of a conversation is a transaction over the memory and the agent.  Both are interfaces: the memory
  is given by its two operations, the agent by its run and its optional streaming run.  The
  context is asked at named points, by the session and inside the memory.
\<close>

datatype sessionErrorCode = SessionMemoryPrepare | SessionAgent | SessionMemoryUpdate | SessionCancelled | SessionDeadline

datatype sessionCause = CauseMemory memoryError | CauseAgent runtimeError | CauseContext go_error

record sessionError =
  seCode :: sessionErrorCode
  seCause :: sessionCause

record sessionResult =
  srReply :: string
  srHistory :: "message list"
  srAgentTrace :: agentTrace
  srMemoryTrace :: "memTrace option"

definition emptyResult :: sessionResult where
  "emptyResult = \<lparr>srReply = [], srHistory = [], srAgentTrace = emptyTrace, srMemoryTrace = None\<rparr>"

record ('c, 'm, 's) session =
  sePrepare :: "'c \<Rightarrow> string \<Rightarrow> 'm \<Rightarrow> (memoryError + snapshot) \<times> 'm"
  seUpdate :: "'c \<Rightarrow> message list \<Rightarrow> 'm \<Rightarrow> (memoryError + snapshot) \<times> 'm"
  seRun :: "agentRequest \<Rightarrow> 's \<Rightarrow> ((agentResult \<times> runtimeError option) \<times> 's) panicking"
  seRunStream :: "(agentRequest \<Rightarrow> 's delta option \<Rightarrow> 's \<Rightarrow> ((agentResult \<times> runtimeError option) \<times> 's) panicking) option"

datatype sessionPoint = SessionEntry | PrepareFailed | AgentFailed | UpdateFailed

record 'c sessionContext =
  cxLook :: "sessionPoint \<Rightarrow> go_error option"
  cxPrepare :: 'c
  cxUpdate :: 'c

definition sessionContextError :: "go_error \<Rightarrow> sessionError" where
  "sessionContextError e =
     (if errors_is e DeadlineExceeded then \<lparr>seCode = SessionDeadline, seCause = CauseContext DeadlineExceeded\<rparr>
      else \<lparr>seCode = SessionCancelled, seCause = CauseContext Canceled\<rparr>)"

text \<open>An error of a stage is the context's when the context has ended, and the stage's otherwise.\<close>

definition stageError :: "'c sessionContext \<Rightarrow> sessionPoint \<Rightarrow> sessionErrorCode \<Rightarrow> sessionCause \<Rightarrow> sessionError" where
  "stageError cx p code cause =
     (case cxLook cx p of Some e \<Rightarrow> sessionContextError e | None \<Rightarrow> \<lparr>seCode = code, seCause = cause\<rparr>)"

definition runTurnAgent ::
  "('c, 'm, 's) session \<Rightarrow> agentRequest \<Rightarrow> 's delta option \<Rightarrow> 's \<Rightarrow> ((agentResult \<times> runtimeError option) \<times> 's) panicking"
where
  "runTurnAgent se request onDelta s =
     (case (seRunStream se, onDelta) of
        (Some f, Some d) \<Rightarrow> f request (Some d) s
      | _ \<Rightarrow> seRun se request s)"

definition sessionRespond ::
  "('c, 'm, 's) session \<Rightarrow> 'c sessionContext \<Rightarrow> string \<Rightarrow> 's delta option \<Rightarrow> 'm \<Rightarrow> 's \<Rightarrow>
     ((sessionError + sessionResult) \<times> 'm \<times> 's) panicking"
where
  "sessionRespond se cx words onDelta m s =
     (case cxLook cx SessionEntry of
        Some e \<Rightarrow> Returned (Inl (sessionContextError e), m, s)
      | None \<Rightarrow>
        (let t = trim_space words in
         if t = [] then Returned (Inr emptyResult, m, s)
         else
         (case sePrepare se (cxPrepare cx) t m of
            (Inl e, m1) \<Rightarrow> Returned (Inl (stageError cx PrepareFailed SessionMemoryPrepare (CauseMemory e)), m1, s)
          | (Inr prepared, m1) \<Rightarrow>
            (case runTurnAgent se \<lparr>rqInput = t, rqHistory = snHistory prepared\<rparr> onDelta s of
               Panic \<Rightarrow> Panic
             | Returned ((turn, Some e), s1) \<Rightarrow> Returned (Inl (stageError cx AgentFailed SessionAgent (CauseAgent e)), m1, s1)
             | Returned ((turn, None), s1) \<Rightarrow>
               (case seUpdate se (cxUpdate cx) (resHistory turn) m1 of
                  (Inl e, m2) \<Rightarrow> Returned (Inl (stageError cx UpdateFailed SessionMemoryUpdate (CauseMemory e)), m2, s1)
                | (Inr committed, m2) \<Rightarrow>
                    Returned (Inr \<lparr>srReply = trim_space (resReply turn), srHistory = snHistory committed,
                      srAgentTrace = resTrace turn, srMemoryTrace = Some (snTrace committed)\<rparr>, m2, s1))))))"

subsection \<open>The transaction over any bounded memory\<close>

context bounded_memory begin

lemma respond_failed:
  assumes "sePrepare se = prepare" "seUpdate se = update"
    and "sessionRespond se cx words onDelta m s = Returned (Inl e, m', s')"
  shows "m' = m \<or> (\<exists>p. prepare (cxPrepare cx) (trim_space words) m = (Inr p, m'))"
  using assms(3) unfolding sessionRespond_def Let_def assms(1,2)
  by (auto split: option.splits if_split_asm sum.splits prod.splits panicking.splits dest: prepare_failed update_failed)

lemma respond_committed:
  assumes "sePrepare se = prepare" "seUpdate se = update"
    and "sessionRespond se cx words onDelta m s = Returned (Inr res, m', s')" "trim_space words \<noteq> []"
  obtains p m1 turn u where "prepare (cxPrepare cx) (trim_space words) m = (Inr p, m1)" "snHistory p = history m1"
    "runTurnAgent se \<lparr>rqInput = trim_space words, rqHistory = history m1\<rparr> onDelta s = Returned ((turn, None), s')"
    "update (cxUpdate cx) (resHistory turn) m1 = (Inr u, m')" "srReply res = trim_space (resReply turn)" "srHistory res = history m'"
  using assms(3,4) prepare_published update_published unfolding sessionRespond_def Let_def assms(1,2)
  by (auto split: option.splits if_split_asm sum.splits prod.splits panicking.splits)

lemma respond_good:
  assumes "sePrepare se = prepare" "seUpdate se = update"
    and "sessionRespond se cx words onDelta m s = Returned (r, m', s')" "good m"
  shows "good m'"
proof -
  have *: "good m1" if "prepare c t m = (x, m1)" for c t x m1
    using prepare_good [OF assms(4), of c t] that by simp
  have **: "good m2" if "prepare c t m = (x, m1)" "update c' h m1 = (y, m2)" for c t x m1 c' h y m2
    using update_good [OF * [OF that(1)], of c' h] that by simp
  show ?thesis
    using assms(3,4) unfolding sessionRespond_def Let_def assms(1,2)
    by (auto split: option.splits if_split_asm sum.splits prod.splits panicking.splits intro: * **)
qed

end

subsection \<open>The session of the assistant\<close>

text \<open>The session over the bounded memory and the agent runtime, as \<^verbatim>\<open>newLegacyAgentRuntime\<close> builds it.\<close>

definition agentSession ::
  "(string \<Rightarrow> string option) \<Rightarrow> 's agentRuntime \<Rightarrow> (ctx_point \<Rightarrow> go_error option, manager, 's) session"
where
  "agentSession raw r = \<lparr>sePrepare = memPrepare raw, seUpdate = memUpdate raw, seRun = RunOnce r, seRunStream = Some (RunStream r)\<rparr>"

lemma agentSession_fields [simp]:
  "sePrepare (agentSession raw r) = memPrepare raw" "seUpdate (agentSession raw r) = memUpdate raw"
  "runTurnAgent (agentSession raw r) q d s = runAgent r q d s"
  by (simp_all add: agentSession_def runTurnAgent_def RunOnce_def RunStream_def split: option.split)

text \<open>Lists cut before every element with a property are determined by their concatenation.\<close>

definition headed :: "('a \<Rightarrow> bool) \<Rightarrow> 'a list \<Rightarrow> bool" where
  "headed P b \<longleftrightarrow> b \<noteq> [] \<and> P (hd b) \<and> (\<forall>x \<in> set (tl b). \<not> P x)"

lemma headed_rest: "headed P (c @ zs) \<Longrightarrow> c \<noteq> [] \<Longrightarrow> zs \<noteq> [] \<Longrightarrow> \<not> P (hd zs)"
  by (cases c; cases zs) (auto simp: headed_def)

lemma headed_append:
  assumes "b @ xs = c @ ys" "headed P b" "headed P c" "xs = [] \<or> P (hd xs)" "ys = [] \<or> P (hd ys)"
  shows "b = c"
proof -
  have ne: "b \<noteq> []" "c \<noteq> []" using assms(2,3) by (simp_all add: headed_def)
  from assms(1) consider zs where "b = c @ zs" "ys = zs @ xs" | zs where "c = b @ zs" "xs = zs @ ys"
    by (auto simp: append_eq_append_conv2)
  then show ?thesis
  proof cases
    case (1 zs)
    have "zs = []" by (rule ccontr) (use 1 ne assms(2,5) headed_rest [of P c zs] in auto)
    then show ?thesis using 1 by simp
  next
    case (2 zs)
    have "zs = []" by (rule ccontr) (use 2 ne assms(3,4) headed_rest [of P b zs] in auto)
    then show ?thesis using 2 by simp
  qed
qed

lemma headed_hd_concat: "\<forall>b \<in> set bs. headed P b \<Longrightarrow> concat bs = [] \<or> P (hd (concat bs))"
  by (cases bs) (auto simp: headed_def)

lemma headed_unique:
  "concat xs = concat ys \<Longrightarrow> \<forall>b \<in> set xs. headed P b \<Longrightarrow> \<forall>b \<in> set ys. headed P b \<Longrightarrow> xs = ys"
proof (induction xs arbitrary: ys)
  case Nil
  then show ?case by (cases ys) (auto simp: headed_def)
next
  case (Cons x xs)
  obtain y ys' where ys: "ys = y # ys'"
    using Cons.prems by (cases ys) (auto simp: headed_def)
  have "x = y"
    using Cons.prems ys headed_hd_concat [of xs P] headed_hd_concat [of ys' P]
    by (intro headed_append [of x "concat xs" y "concat ys'" P]) auto
  then have "xs = ys'" using Cons.prems ys by (intro Cons.IH) auto
  with \<open>x = y\<close> ys show ?case by simp
qed

lemma toolRound_not_user: "toolRound b \<Longrightarrow> x \<in> set b \<Longrightarrow> msgRole x \<noteq> ''user''"
  by (auto simp: toolRound_def callingMessage_def resultMessage_def)

lemma completeTurn_headed: "completeTurn t \<Longrightarrow> headed (\<lambda>x. msgRole x = ''user'') t"
proof -
  assume "completeTurn t"
  then obtain u bs where "t = u # concat bs" "userMessage u" "\<forall>b \<in> set bs. toolRound b"
    by (auto simp: completeTurn_def)
  moreover from this have "\<forall>x \<in> set (concat bs). msgRole x \<noteq> ''user''"
    using toolRound_not_user by auto
  ultimately show ?thesis by (simp add: headed_def userMessage_def)
qed

lemma answeredRound_not_user: "answeredRound b \<Longrightarrow> x \<in> set b \<Longrightarrow> msgRole x \<noteq> ''user''"
  by (auto simp: answeredRound_def)

lemma conversation_extended:
  assumes "goodMemory raw m" "conversationMessages m (memHistory m @ extra) = Inr c"
  shows "c = concat (memTurns m) @ extra"
proof -
  have "memSummary m \<noteq> [] \<Longrightarrow> trim_space (memSummary m) \<noteq> []"
    using assms(1) by (simp add: goodMemory_def trim_space_trimmed)
  then show ?thesis
    using assms(2)
    by (auto simp: conversationMessages_def memHistory_def buildHistory_def summaryMessage_def textMessage_def Let_def
        split: list.splits if_split_asm)
qed


text \<open>
  A turn that fails leaves no trace of itself in the memory: whatever failed and wherever, the stored turns
  are a suffix of the ones before (preparation may have evicted the oldest), so no partial history is ever kept,
  and the memory keeps its invariant.
\<close>

theorem failed_turn_leaves_no_trace:
  assumes "sessionRespond (agentSession raw r) cx words onDelta m s = Returned (Inl e, m', s')" "goodMemory raw m"
  shows "suffix (memTurns m') (memTurns m) \<and> goodMemory raw m'"
proof -
  have "m' = m \<or> (\<exists>p. memPrepare raw (cxPrepare cx) (trim_space words) m = (Inr p, m'))"
    by (rule mem.respond_failed [OF agentSession_fields(1,2) assms(1)])
  then have "suffix (memTurns m') (memTurns m)"
    using memPrepare_Inr by (force simp: suffix_def)
  with mem.respond_good [OF agentSession_fields(1,2) assms] show ?thesis by simp
qed

definition direct_server :: "message list \<Rightarrow> unit \<Rightarrow> transport" where
  "direct_server ms s = StreamBody [''data: B''] None"

definition direct_agent :: "unit agentRuntime" where
  "direct_agent = demo_agent\<lparr>agModel := llamaGenerator Suc demo_payload direct_server\<rparr>"

definition live_session :: "(ctx_point \<Rightarrow> go_error option) sessionContext" where
  "live_session = \<lparr>cxLook = (\<lambda>_. None), cxPrepare = liveMemory, cxUpdate = liveMemory\<rparr>"

lemma direct_agent_fields [simp]:
  "agMaxToolRounds direct_agent = 2" "agModel direct_agent = llamaGenerator Suc demo_payload direct_server" "agRegistry direct_agent = None"
  "ctxErr direct_agent s = (None, ())" "contextPersists direct_agent"
  by (simp_all add: direct_agent_def ctxErr_def contextPersists_def)

lemma direct_generate:
  "genGenerate (llamaGenerator Suc demo_payload direct_server) h i None () =
     Returned (Inr (''ok'', requestHistory h i @ [textMessage ''assistant'' ''ok'']), ())"
  by (simp add: llamaGenerator_def dropLog_def generate_def callLLM_def direct_server_def hasTools_def parseStreamWithDelta_def
      demo_payload_def noPartials_def trim_space_plain byte_val_def Let_def)

lemma direct_run:
  "\<exists>res. runAgent direct_agent \<lparr>rqInput = ''hi'', rqHistory = [demo_system]\<rparr> None () = Returned ((res, None), ()) \<and>
     resHistory res = [demo_system, textMessage ''user'' ''hi'', textMessage ''assistant'' ''ok'']"
  by (simp add: runAgent_def exposesTools_def Let_def, subst runLoop.simps,
      simp add: agentRound_def direct_generate pendingToolCalls_def textMessage_def requestHistory_def closeRound_def
        trim_space_plain byte_val_def Let_def)

lemma size_answered: "Measure Some [demo_system, textMessage ''user'' ''hi'', textMessage ''assistant'' ''ok''] = Inr 100"
  by code_simp

lemma direct_update:
  "\<exists>u m'. memUpdate Some liveMemory [demo_system, textMessage ''user'' ''hi'', textMessage ''assistant'' ''ok''] (demo_memory None) = (Inr u, m')"
proof -
  let ?t = "[textMessage ''user'' ''hi'', textMessage ''assistant'' ''ok'']"
  have "conversationMessages (demo_memory None) (demo_system # ?t) = Inr ?t"
    by (auto simp: conversationMessages_def demo_system_def textMessage_def)
  moreover have "splitTurns ?t = Inr [?t]"
    by (simp add: splitTurns_def textMessage_def finishTurn_def)
  ultimately show ?thesis
    using size_answered by (simp add: memUpdate_def liveMemory_def evictForHistory_def commitMemory_def demo_build Let_def)
qed

lemma direct_prepare:
  "\<exists>p. memPrepare Some liveMemory ''hi'' (demo_memory None) = (Inr p, demo_memory None) \<and> snHistory p = [demo_system]"
  using size_prompt by (simp add: memPrepare_def liveMemory_def memHistory_def demo_build)


theorem failed_turn_leaves_no_trace_witness:
  "\<exists>e m'. sessionRespond (agentSession Some direct_agent) (live_session\<lparr>cxLook := (\<lambda>_. Some Canceled)\<rparr>) ''hi'' None (demo_memory None) () =
       Returned (Inl e, m', ()) \<and> memTurns m' = []"
proof -
  obtain e m' where r: "sessionRespond (agentSession Some direct_agent) (live_session\<lparr>cxLook := (\<lambda>_. Some Canceled)\<rparr>) ''hi'' None
      (demo_memory None) () = Returned (Inl e, m', ())"
    by (simp add: sessionRespond_def)
  from failed_turn_leaves_no_trace [OF r demo_good] r show ?thesis by (auto simp: suffix_def)
qed

end
