(* ===== verification/File_Tree.thy ===== *)
theory File_Tree
  imports Tools "HOL-Library.List_Lexorder" "HOL-Library.Char_ord" "HOL-Library.Sublist"
begin

section \<open>The file system the tools work on\<close>

text \<open>
  The file system is a tree; an absolute, clean path is the list of its components.  The calls of \<^verbatim>\<open>os\<close> and
  \<^verbatim>\<open>path/filepath\<close> the tools use are written out on the tree, with the walk through symbolic links.
  Any of them may also fail for a reason of its own (permissions, I/O): that is the parameter \<open>faults\<close>.
  Nothing else changes the tree while a tool runs.
\<close>

subsection \<open>Trees and paths\<close>

type_synonym path = "string list"

datatype node =
    FileNode (fileData: string) (filePerm: nat)
  | DirNode "(string \<times> node) list"
  | LinkNode bool "string list"
  | OtherNode

datatype osError = ErrNotExist | ErrNotDir | ErrLoop | ErrExist | ErrNotEmpty | ErrOther go_error

fun look :: "node \<Rightarrow> path \<Rightarrow> node option" where
  "look n [] = Some n"
| "look (DirNode es) (c # cs) = (case map_of es c of None \<Rightarrow> None | Some m \<Rightarrow> look m cs)"
| "look n (c # cs) = None"

text \<open>The entries of a directory are kept in the order of their names.\<close>

fun putEntry :: "string \<Rightarrow> node \<Rightarrow> (string \<times> node) list \<Rightarrow> (string \<times> node) list" where
  "putEntry c n [] = [(c, n)]"
| "putEntry c n ((d, m) # es) = (if c = d then (c, n) # es else if c < d then (c, n) # (d, m) # es else (d, m) # putEntry c n es)"

definition dropEntry :: "string \<Rightarrow> (string \<times> node) list \<Rightarrow> (string \<times> node) list" where
  "dropEntry c es = filter (\<lambda>e. fst e \<noteq> c) es"

fun put :: "path \<Rightarrow> node \<Rightarrow> node \<Rightarrow> node" where
  "put [] x n = x"
| "put (c # cs) x (DirNode es) =
     (if cs = [] then DirNode (putEntry c x es)
      else case map_of es c of None \<Rightarrow> DirNode es | Some m \<Rightarrow> DirNode (putEntry c (put cs x m) es))"
| "put (c # cs) x n = n"

fun removeAt :: "path \<Rightarrow> node \<Rightarrow> node" where
  "removeAt [] n = n"
| "removeAt (c # cs) (DirNode es) =
     (if cs = [] then DirNode (dropEntry c es)
      else case map_of es c of None \<Rightarrow> DirNode es | Some m \<Rightarrow> DirNode (putEntry c (removeAt cs m) es))"
| "removeAt (c # cs) n = n"

definition isDir :: "node \<Rightarrow> bool" where
  "isDir n = (case n of DirNode es \<Rightarrow> True | _ \<Rightarrow> False)"

definition isRegular :: "node \<Rightarrow> bool" where
  "isRegular n = (case n of FileNode d p \<Rightarrow> True | _ \<Rightarrow> False)"

definition isLink :: "node \<Rightarrow> bool" where
  "isLink n = (case n of LinkNode a t \<Rightarrow> True | _ \<Rightarrow> False)"

text \<open>\<^verbatim>\<open>filepath.Clean\<close> on the components of an absolute path.\<close>

fun cleanFrom :: "path \<Rightarrow> string list \<Rightarrow> path" where
  "cleanFrom acc [] = acc"
| "cleanFrom acc (c # cs) =
     (if c = [] \<or> c = ''.'' then cleanFrom acc cs
      else if c = ''..'' then cleanFrom (butlast acc) cs
      else cleanFrom (acc @ [c]) cs)"

fun splitSlash :: "string \<Rightarrow> string list" where
  "splitSlash [] = [[]]"
| "splitSlash (c # cs) =
     (if c = CHR ''/'' then [] # splitSlash cs
      else case splitSlash cs of [] \<Rightarrow> [[c]] | p # ps \<Rightarrow> (c # p) # ps)"

definition IsAbs :: "string \<Rightarrow> bool" where
  "IsAbs s = (s \<noteq> [] \<and> hd s = CHR ''/'')"

definition pathString :: "path \<Rightarrow> string" where
  "pathString p = CHR ''/'' # joinWith ''/'' p"

text \<open>\<^verbatim>\<open>filepath.Rel\<close> of two absolute clean paths, as components: \<^verbatim>\<open>..\<close> for each one of the base that is left.\<close>

fun Rel :: "path \<Rightarrow> path \<Rightarrow> string list" where
  "Rel (b # bs) (t # ts) = (if b = t then Rel bs ts else map (\<lambda>_. ''..'') (b # bs) @ t # ts)"
| "Rel bs ts = map (\<lambda>_. ''..'') bs @ ts"

definition withinRoot :: "path \<Rightarrow> path \<Rightarrow> bool" where
  "withinRoot root candidate = (let relative = Rel root candidate in relative = [] \<or> hd relative \<noteq> ''..'')"

subsection \<open>Calls of the operating system\<close>

datatype osCall =
    CallLstat nat path | CallEval nat path | CallStat path | CallOpen path | CallFileStat path | CallRead path | CallMkdirAll path
  | CallCreateTemp path | CallChmod path | CallWrite path | CallSync path | CallCloseFile path | CallRename path | CallRemove path
  | CallWalk path

type_synonym faults = "osCall \<Rightarrow> go_error option"

text \<open>The walk through symbolic links; \<open>links\<close> bounds how many are followed.\<close>

function walk :: "node \<Rightarrow> nat \<Rightarrow> path \<Rightarrow> string list \<Rightarrow> osError + path" where
  "walk t links dest rest =
     (case rest of
        [] \<Rightarrow> Inr dest
      | c # cs \<Rightarrow>
          if c = [] \<or> c = ''.'' then walk t links dest cs
          else if c = ''..'' then walk t links (butlast dest) cs
          else (case look t (dest @ [c]) of
                  None \<Rightarrow> Inl ErrNotExist
                | Some (LinkNode isAbs target) \<Rightarrow>
                    if links = 0 then Inl ErrLoop
                    else walk t (links - 1) (if isAbs then [] else dest) (target @ cs)
                | Some (DirNode es) \<Rightarrow> walk t links (dest @ [c]) cs
                | Some n \<Rightarrow> if cs \<noteq> [] then Inl ErrNotDir else Inr (dest @ [c])))"
  by pat_completeness auto
termination
  by (relation "measures [\<lambda>(t, links, dest, rest). links, \<lambda>(t, links, dest, rest). length rest]") auto

declare walk.simps [simp del]

definition maxLinks :: nat where "maxLinks = 255"
definition kernelLinks :: nat where "kernelLinks = 40"

definition guarded :: "faults \<Rightarrow> osCall \<Rightarrow> (osError + 'a) \<Rightarrow> osError + 'a" where
  "guarded faults call r = (case faults call of Some e \<Rightarrow> Inl (ErrOther e) | None \<Rightarrow> r)"

definition EvalSymlinks :: "faults \<Rightarrow> nat \<Rightarrow> node \<Rightarrow> path \<Rightarrow> osError + path" where
  "EvalSymlinks faults ph t p = guarded faults (CallEval ph p) (walk t maxLinks [] p)"

text \<open>Where the kernel finds the last component of a path: its parent is walked, itself is not.\<close>

definition kernelPath :: "node \<Rightarrow> path \<Rightarrow> osError + path" where
  "kernelPath t p =
     (if p = [] then Inr []
      else case walk t kernelLinks [] (butlast p) of
        Inl e \<Rightarrow> Inl e
      | Inr d \<Rightarrow> (case look t d of Some (DirNode es) \<Rightarrow> Inr (d @ [last p]) | _ \<Rightarrow> Inl ErrNotDir))"

definition Lstat :: "faults \<Rightarrow> nat \<Rightarrow> node \<Rightarrow> path \<Rightarrow> osError + node" where
  "Lstat faults ph t p =
     guarded faults (CallLstat ph p)
       (case kernelPath t p of
          Inl e \<Rightarrow> Inl e
        | Inr q \<Rightarrow> (case look t q of None \<Rightarrow> Inl ErrNotExist | Some n \<Rightarrow> Inr n))"

definition follow :: "node \<Rightarrow> path \<Rightarrow> osError + node" where
  "follow t p =
     (case walk t kernelLinks [] p of
        Inl e \<Rightarrow> Inl e
      | Inr q \<Rightarrow> (case look t q of None \<Rightarrow> Inl ErrNotExist | Some n \<Rightarrow> Inr n))"

definition Stat :: "faults \<Rightarrow> node \<Rightarrow> path \<Rightarrow> osError + node" where
  "Stat faults t p = guarded faults (CallStat p) (follow t p)"

function mkdirAll :: "faults \<Rightarrow> node \<Rightarrow> path \<Rightarrow> osError option \<times> node" where
  "mkdirAll faults t p =
     (case follow t p of
        Inr n \<Rightarrow> if isDir n then (None, t) else (Some ErrNotDir, t)
      | Inl e \<Rightarrow>
          if p = [] then (Some e, t)
          else (case mkdirAll faults t (butlast p) of
                  (Some e, t1) \<Rightarrow> (Some e, t1)
                | (None, t1) \<Rightarrow>
                    (case guarded faults (CallMkdirAll p) (kernelPath t1 p) of
                       Inl e \<Rightarrow> (Some e, t1)
                     | Inr q \<Rightarrow> if look t1 q = None then (None, put q (DirNode []) t1) else (Some ErrExist, t1))))"
  by pat_completeness auto
termination
  by (relation "measure (\<lambda>(f, t, p). length p)") auto

declare mkdirAll.simps [simp del]

definition osRemove :: "faults \<Rightarrow> node \<Rightarrow> path \<Rightarrow> osError option \<times> node" where
  "osRemove faults t p =
     (case guarded faults (CallRemove p) (kernelPath t p) of
        Inl e \<Rightarrow> (Some e, t)
      | Inr q \<Rightarrow>
          (case look t q of
             None \<Rightarrow> (Some ErrNotExist, t)
           | Some n \<Rightarrow> if q = [] \<or> (isDir n \<and> n \<noteq> DirNode []) then (Some ErrNotEmpty, t) else (None, removeAt q t)))"

definition osRemoveAll :: "faults \<Rightarrow> node \<Rightarrow> path \<Rightarrow> osError option \<times> node" where
  "osRemoveAll faults t p =
     (case guarded faults (CallRemove p) (kernelPath t p) of
        Inl ErrNotExist \<Rightarrow> (None, t)
      | Inl e \<Rightarrow> (Some e, t)
      | Inr q \<Rightarrow> if q = [] then (Some ErrNotEmpty, t) else (None, removeAt q t))"

definition createTemp :: "faults \<Rightarrow> string \<Rightarrow> node \<Rightarrow> path \<Rightarrow> (osError + path) \<times> node" where
  "createTemp faults name t dir =
     (case guarded faults (CallCreateTemp dir) (kernelPath t (dir @ [name])) of
        Inl e \<Rightarrow> (Inl e, t)
      | Inr q \<Rightarrow> if look t q = None then (Inr (dir @ [name]), put q (FileNode [] 384) t) else (Inl ErrExist, t))"

text \<open>Writing to the open temporary file.\<close>

definition fillFile :: "node \<Rightarrow> path \<Rightarrow> string \<Rightarrow> nat \<Rightarrow> node" where
  "fillFile t p bytes perm = (case kernelPath t p of Inl e \<Rightarrow> t | Inr q \<Rightarrow> put q (FileNode bytes perm) t)"

definition osRename :: "faults \<Rightarrow> node \<Rightarrow> path \<Rightarrow> path \<Rightarrow> osError option \<times> node" where
  "osRename faults t old new =
     (case guarded faults (CallRename new) (kernelPath t old) of
        Inl e \<Rightarrow> (Some e, t)
      | Inr q \<Rightarrow>
          (case (look t q, kernelPath t new) of
             (None, _) \<Rightarrow> (Some ErrNotExist, t)
           | (_, Inl e) \<Rightarrow> (Some e, t)
           | (Some n, Inr d) \<Rightarrow>
               if (case look t d of None \<Rightarrow> False | Some m \<Rightarrow> isDir m) then (Some ErrExist, t) else (None, put d n (removeAt q t))))"

subsection \<open>Trees\<close>

lemma map_of_putEntry: "map_of (putEntry c n es) d = (if d = c then Some n else map_of es d)"
  by (induction c n es rule: putEntry.induct) auto

lemma map_of_dropEntry: "map_of (dropEntry c es) d = (if d = c then None else map_of es d)"
  by (induction es) (auto simp: dropEntry_def)

lemma look_append: "look t (p @ q) = (case look t p of None \<Rightarrow> None | Some n \<Rightarrow> look n q)"
  by (induction t p rule: look.induct) (auto split: option.split)

lemma look_dir:
  assumes "look t (p @ c # q) = Some n"
  obtains es m where "look t p = Some (DirNode es)" "map_of es c = Some m" "look m q = Some n"
proof -
  obtain x where x: "look t p = Some x" "look x (c # q) = Some n"
    using assms by (auto simp: look_append split: option.splits)
  with that show thesis by (cases x) (auto split: option.splits)
qed

lemma look_put_apart: "\<not> prefix p q \<Longrightarrow> \<not> prefix q p \<Longrightarrow> look (put p x t) q = look t q"
proof (induction p x t arbitrary: q rule: put.induct)
  case (2 c cs x es)
  then show ?case
    by (cases q) (auto simp: map_of_putEntry split: option.split)
qed (auto)

lemma look_removeAt_apart: "\<not> prefix p q \<Longrightarrow> \<not> prefix q p \<Longrightarrow> look (removeAt p t) q = look t q"
proof (induction p t arbitrary: q rule: removeAt.induct)
  case (2 c cs es)
  then show ?case
    by (cases q) (auto simp: map_of_putEntry map_of_dropEntry split: option.split)
qed (auto)

lemma look_put_at: "look t p = Some (DirNode es) \<Longrightarrow> look (put (p @ [c]) x t) (p @ [c]) = Some x"
proof (induction p arbitrary: t)
  case Nil
  then show ?case by (simp add: map_of_putEntry)
next
  case (Cons a p)
  then obtain ds m where "t = DirNode ds" "map_of ds a = Some m" "look m p = Some (DirNode es)"
    by (cases t) (auto split: option.splits)
  with Cons.IH [of m] show ?case by (simp add: map_of_putEntry)
qed

lemma look_put_below:
  assumes "look t p = None" "p \<noteq> []"
  shows "look (put p (DirNode []) t) (p @ c # q) = None"
  using assms
proof (induction p "DirNode []" t rule: put.induct)
  case (2 a cs es)
  then show ?case by (auto simp: map_of_putEntry split: option.splits)
qed auto

text \<open>A clean, existing path without links in it.\<close>

definition proper :: "string list \<Rightarrow> bool" where
  "proper cs \<longleftrightarrow> (\<forall>c \<in> set cs. c \<noteq> [] \<and> c \<noteq> ''.'' \<and> c \<noteq> ''..'')"

definition physical :: "node \<Rightarrow> path \<Rightarrow> bool" where
  "physical t p \<longleftrightarrow> proper p \<and> (\<exists>n. look t p = Some n \<and> \<not> isLink n)"

lemma proper_simps [simp]: "proper []" "proper (c # cs) \<longleftrightarrow> c \<noteq> [] \<and> c \<noteq> ''.'' \<and> c \<noteq> ''..'' \<and> proper cs"
  "proper (as @ bs) \<longleftrightarrow> proper as \<and> proper bs"
  by (auto simp: proper_def)

lemma proper_butlast: "proper p \<Longrightarrow> proper (butlast p)"
  by (auto simp: proper_def dest: in_set_butlastD)

lemma walk_self:
  "look t (dest @ rest) = Some n \<Longrightarrow> \<not> isLink n \<Longrightarrow> proper rest \<Longrightarrow> walk t k dest rest = Inr (dest @ rest)"
proof (induction rest arbitrary: dest)
  case Nil
  then show ?case by (simp add: walk.simps)
next
  case (Cons c cs)
  show ?case
  proof (cases "cs = []")
    case True
    with Cons.prems show ?thesis by (subst walk.simps) (auto simp: isLink_def walk.simps split: node.splits)
  next
    case False
    then obtain a as where "cs = a # as" by (cases cs) auto
    then obtain es where "look t (dest @ [c]) = Some (DirNode es)"
      using Cons.prems(1) look_dir [of t "dest @ [c]" a as n] by auto
    with Cons show ?thesis by (subst walk.simps) simp
  qed
qed

lemma walk_physical:
  assumes "walk t k dest rest = Inr q" "proper dest" "\<exists>es. look t dest = Some (DirNode es)" "isDir t"
  shows "physical t q"
  using assms
proof (induction t k dest rest rule: walk.induct)
  case (1 t k dest rest)
  show ?case
  proof (cases rest)
    case Nil
    with 1 show ?thesis by (auto simp: physical_def isLink_def walk.simps)
  next
    case (Cons c cs)
    have up: "proper (butlast dest) \<and> (\<exists>es. look t (butlast dest) = Some (DirNode es))"
    proof (cases "dest = []")
      case False
      then have "dest = butlast dest @ [last dest]" by simp
      with "1.prems"(3) look_dir [of t "butlast dest" "last dest" "[]"] show ?thesis
        using proper_butlast [OF "1.prems"(2)] by (metis)
    qed (use 1 in \<open>auto simp: isDir_def split: node.splits\<close>)
    have root: "\<exists>es. look t [] = Some (DirNode es)"
      using 1 by (auto simp: isDir_def split: node.splits)
    show ?thesis
    proof (cases "c = [] \<or> c = ''.'' \<or> c = ''..''")
      case True
      then show ?thesis
        using 1 Cons up by (auto simp: walk.simps [of t k dest "c # cs"])
    next
      case c: False
      then obtain n where n: "look t (dest @ [c]) = Some n"
        using 1(5) Cons by (auto simp: walk.simps [of t k dest "c # cs"] split: option.splits)
      show ?thesis
        using 1 Cons c n root
        by (cases n) (auto simp: walk.simps [of t k dest "c # cs"] physical_def isLink_def split: if_splits)
    qed
  qed
qed

lemma walk_more_links:
  "walk t k dest rest \<noteq> Inl ErrLoop \<Longrightarrow> k \<le> k' \<Longrightarrow> walk t k' dest rest = walk t k dest rest"
proof (induction t k dest rest arbitrary: k' rule: walk.induct)
  case (1 t k dest rest)
  show ?case
  proof (cases rest)
    case Nil
    then show ?thesis by (simp add: walk.simps)
  next
    case (Cons c cs)
    note w = walk.simps [of t k dest "c # cs"] walk.simps [of t k' dest "c # cs"]
    consider "c = [] \<or> c = ''.''" | "c = ''..''" | "c \<noteq> []" "c \<noteq> ''.''" "c \<noteq> ''..''" by blast
    then show ?thesis
    proof cases
      case 1
      then have e: "walk t k dest rest = walk t k dest cs" "walk t k' dest rest = walk t k' dest cs"
        by (auto simp: Cons w)
      show ?thesis using "1.IH"(1) [OF Cons 1, of k'] "1.prems" unfolding e by blast
    next
      case 2
      then have e: "walk t k dest rest = walk t k (butlast dest) cs" "walk t k' dest rest = walk t k' (butlast dest) cs"
        unfolding Cons w by simp_all
      show ?thesis using "1.IH"(2) [OF Cons _ 2, of k'] "1.prems" 2 unfolding e by simp
    next
      case c: 3
      show ?thesis
      proof (cases "look t (dest @ [c])")
        case None
        then show ?thesis using c Cons by (simp add: w)
      next
        case (Some n)
        show ?thesis
        proof (cases n)
          case (LinkNode isAbs target)
          have k: "k \<noteq> 0" using "1.prems"(1) c Cons Some LinkNode by (auto simp: w split: if_splits)
          then have e: "walk t k dest rest = walk t (k - 1) (if isAbs then [] else dest) (target @ cs)"
              "walk t k' dest rest = walk t (k' - 1) (if isAbs then [] else dest) (target @ cs)"
            using c Some LinkNode "1.prems"(2) by (simp_all add: Cons w)
          show ?thesis
            using "1.IH"(4) [OF Cons _ _ Some LinkNode k, of "k' - 1"] "1.prems" c unfolding e by simp
        next
          case (DirNode es)
          then have e: "walk t k dest rest = walk t k (dest @ [c]) cs" "walk t k' dest rest = walk t k' (dest @ [c]) cs"
            using c Some by (simp_all add: Cons w)
          show ?thesis
            using "1.IH"(3) [OF Cons _ _ Some DirNode, of k'] "1.prems" c unfolding e by simp
        qed (use c Cons Some in \<open>simp_all add: w\<close>)
      qed
    qed
  qed
qed

text \<open>Where a resolved path is: an existing part without links, and components that do not exist below it.\<close>

definition lands :: "node \<Rightarrow> path \<Rightarrow> bool" where
  "lands t p \<longleftrightarrow>
     (\<exists>d m. p = d @ m \<and> physical t d \<and> proper m \<and>
        (m = [] \<or> (\<exists>es. look t d = Some (DirNode es)) \<and> look t (d @ [hd m]) = None))"

lemma lands_physical: "physical t d \<Longrightarrow> lands t d"
  by (auto simp: lands_def intro: exI [of _ d] exI [of _ "[]"])

lemma lands_missing:
  "physical t d \<Longrightarrow> look t d = Some (DirNode es) \<Longrightarrow> look t (d @ [hd m]) = None \<Longrightarrow> proper m \<Longrightarrow> lands t (d @ m)"
  by (auto simp: lands_def)

lemma kernelPath_snoc:
  "kernelPath t (p @ [c]) =
     (case walk t kernelLinks [] p of Inl e \<Rightarrow> Inl e
      | Inr d \<Rightarrow> (case look t d of Some (DirNode es) \<Rightarrow> Inr (d @ [c]) | _ \<Rightarrow> Inl ErrNotDir))"
  by (simp add: kernelPath_def split: sum.split option.split node.split)

lemma kernelPath_below_dir:
  assumes "look t p = Some (DirNode es)" "proper p"
  shows "kernelPath t (p @ [c]) = Inr (p @ [c])"
  using walk_self [of t "[]" p _ kernelLinks] assms by (simp add: kernelPath_snoc isLink_def)

lemma kernelPath_physical: "physical t p \<Longrightarrow> kernelPath t p = Inr p"
proof (cases p rule: rev_cases)
  case (snoc q c)
  assume "physical t p"
  then obtain n where n: "look t (q @ [c]) = Some n" "proper q"
    using snoc by (auto simp: physical_def)
  then obtain es where "look t q = Some (DirNode es)"
    using look_dir [of t q c "[]" n] by auto
  with kernelPath_below_dir n(2) snoc show ?thesis by simp
qed (simp add: kernelPath_def)

lemma walk_missing:
  assumes "look t d = Some (DirNode es)" "proper d" "look t (d @ [c]) = None" "proper (c # m)"
  shows "walk t k [] (d @ c # m) = Inl ErrNotExist"
proof -
  have *: "walk t k dest (rest @ c # m) = Inl ErrNotExist" if "dest @ rest = d" "proper rest" for dest rest
    using that
  proof (induction rest arbitrary: dest)
    case Nil
    then show ?case using assms by (subst walk.simps) simp
  next
    case (Cons a as)
    have "\<exists>ds. look t (dest @ [a]) = Some (DirNode ds)"
    proof (cases as)
      case Nil
      then show ?thesis using Cons.prems(1) assms(1) by auto
    next
      case (Cons b bs)
      then show ?thesis using look_dir [of t "dest @ [a]" b bs] assms(1) \<open>dest @ a # as = d\<close> by (metis append.assoc append_Cons append_Nil)
    qed
    with Cons show ?case by (subst walk.simps) auto
  qed
  from * [of "[]" d] assms(2) show ?thesis by simp
qed

lemma kernelPath_lands:
  assumes "lands t p"
  shows "kernelPath t p = Inr p \<or> kernelPath t p = Inl ErrNotExist"
proof -
  obtain d m where p: "p = d @ m" "physical t d" "proper m" "m = [] \<or> (\<exists>es. look t d = Some (DirNode es)) \<and> look t (d @ [hd m]) = None"
    using assms by (auto simp: lands_def)
  show ?thesis
  proof (cases m rule: rev_cases)
    case Nil
    with p kernelPath_physical show ?thesis by simp
  next
    case (snoc m' c)
    show ?thesis
    proof (cases m')
      case Nil
      with snoc p kernelPath_below_dir [of t d _ c] show ?thesis by (auto simp: physical_def)
    next
      case (Cons a as)
      then have "walk t kernelLinks [] (d @ m') = Inl ErrNotExist"
        using p snoc walk_missing [of t d _ a as] by (auto simp: physical_def)
      then show ?thesis using p(1) snoc kernelPath_snoc [of t "d @ m'" c] by simp
    qed
  qed
qed

lemma Lstat_Inr: "Lstat f ph t p = Inr n \<Longrightarrow> \<exists>q. kernelPath t p = Inr q \<and> look t q = Some n"
  by (auto simp: Lstat_def guarded_def split: option.splits sum.splits)

lemma Lstat_missing:
  assumes "Lstat f ph t (p @ [c]) = Inl ErrNotExist" "walk t kernelLinks [] p \<noteq> Inl ErrNotExist"
  obtains d es where "walk t kernelLinks [] p = Inr d" "look t d = Some (DirNode es)" "look t (d @ [c]) = None"
  using assms by (auto simp: Lstat_def guarded_def kernelPath_snoc split: option.splits sum.splits node.splits)

lemma EvalSymlinks_Inr: "EvalSymlinks f ph t p = Inr d \<Longrightarrow> walk t maxLinks [] p = Inr d"
  by (auto simp: EvalSymlinks_def guarded_def split: option.splits)

lemma links_le: "kernelLinks \<le> maxLinks"
  by (simp add: kernelLinks_def maxLinks_def)

lemma proper_cleanFrom: "proper acc \<Longrightarrow> proper (cleanFrom acc cs)"
  by (induction acc cs rule: cleanFrom.induct) (auto simp: proper_butlast)

lemma withinRoot_iff: "proper q \<Longrightarrow> withinRoot root q \<longleftrightarrow> prefix root q"
proof -
  assume "proper q"
  then have "(Rel root q = [] \<or> hd (Rel root q) \<noteq> ''..'') \<longleftrightarrow> prefix root q"
  proof (induction root q rule: Rel.induct [case_names both noBase noTarget])
    case (noBase ts)
    then show ?case by (cases ts) auto
  next
    case (noTarget bs)
    then show ?case by (cases bs) auto
  qed auto
  then show ?thesis by (simp add: withinRoot_def Let_def)
qed

lemma lands_proper: "lands t p \<Longrightarrow> proper p"
  by (auto simp: lands_def physical_def)

subsection \<open>Confinement of the operations\<close>

text \<open>Everything apart from the path is as before.\<close>

definition sameApart :: "path \<Rightarrow> node \<Rightarrow> node \<Rightarrow> bool" where
  "sameApart p t t' \<longleftrightarrow> (\<forall>q. \<not> prefix p q \<longrightarrow> \<not> prefix q p \<longrightarrow> look t' q = look t q)"

lemma sameApart_refl [simp]: "sameApart p t t"
  by (simp add: sameApart_def)

lemma sameApart_trans: "sameApart p t t1 \<Longrightarrow> sameApart p t1 t2 \<Longrightarrow> sameApart p t t2"
  by (simp add: sameApart_def)

lemma sameApart_put: "sameApart p t (put p x t)" and sameApart_removeAt: "sameApart p t (removeAt p t)"
  by (simp_all add: sameApart_def look_put_apart look_removeAt_apart)

lemma sameApart_under: "prefix root p \<Longrightarrow> sameApart p t t' \<Longrightarrow> sameApart root t t'"
  unfolding sameApart_def by (meson prefix_order.trans prefix_same_cases)

lemma look_put_prefix:
  "look t q = Some (DirNode es) \<Longrightarrow> \<exists>es'. look (put (q @ c # p) x t) q = Some (DirNode es')"
proof (induction q arbitrary: t)
  case Nil
  then show ?case by (auto split: option.split)
next
  case (Cons a q)
  then obtain ds m where "t = DirNode ds" "map_of ds a = Some m" "look m q = Some (DirNode es)"
    by (cases t) (auto split: option.splits)
  with Cons.IH [of m] show ?case by (auto simp: map_of_putEntry)
qed

lemma look_removeAt_prefix:
  "look t q = Some (DirNode es) \<Longrightarrow> \<exists>es'. look (removeAt (q @ c # p) t) q = Some (DirNode es')"
proof (induction q arbitrary: t)
  case Nil
  then show ?case by (auto split: option.split)
next
  case (Cons a q)
  then obtain ds m where "t = DirNode ds" "map_of ds a = Some m" "look m q = Some (DirNode es)"
    by (cases t) (auto split: option.splits)
  with Cons.IH [of m] show ?case by (auto simp: map_of_putEntry)
qed

lemma look_put_nondir:
  "look t q = Some n \<Longrightarrow> \<not> isDir n \<Longrightarrow> look (put (q @ c # p) x t) q = Some n"
proof (induction q arbitrary: t)
  case Nil
  then show ?case by (cases n) (auto simp: isDir_def)
next
  case (Cons a q)
  then obtain ds m where "t = DirNode ds" "map_of ds a = Some m" "look m q = Some n"
    by (cases t) (auto split: option.splits)
  with Cons.IH [of m] Cons.prems(2) show ?case by (auto simp: map_of_putEntry)
qed

lemma look_beyond: "look t p = None \<Longrightarrow> look t (p @ q) = None"
  by (simp add: look_append)

text \<open>Making a directory where there is nothing.\<close>

lemma put_fresh:
  assumes "look t p = None"
  shows "\<not> prefix q p \<Longrightarrow> look (put p (DirNode []) t) q = look t q"
proof (cases "prefix p q")
  case True
  assume "\<not> prefix q p"
  then obtain c r where "q = p @ c # r" using True by (metis neq_Nil_conv append_Nil2 prefix_def prefix_order.refl)
  with assms look_put_below [of t p c r] look_beyond [of t p "c # r"] show ?thesis by (cases "p = []") auto
qed (simp add: look_put_apart)

lemma put_fresh_keeps:
  assumes "look t p = None" "look t q = Some n"
  shows "(\<not> isDir n \<longrightarrow> look (put p (DirNode []) t) q = Some n) \<and>
    (isDir n \<longrightarrow> (\<exists>es. look (put p (DirNode []) t) q = Some (DirNode es)))"
proof (cases "prefix q p")
  case True
  then obtain c r where p: "p = q @ c # r" using assms by (metis neq_Nil_conv append_Nil2 option.distinct(1) prefix_def)
  with assms look_put_nondir [of t q n c r] look_put_prefix [of t q _ c r] show ?thesis
    by (cases n) (auto simp: isDir_def)
next
  case False
  then show ?thesis using assms put_fresh [OF assms(1)] by (cases n) (auto simp: isDir_def)
qed

lemma look_empty: "look (DirNode []) q = Some n \<Longrightarrow> isDir n"
  by (cases q) (auto simp: isDir_def)

lemma isDir_DirNode: "isDir (DirNode es)"
  by (simp add: isDir_def)

lemma put_dir_files: "look (put p (DirNode []) t) q = Some n \<Longrightarrow> \<not> isDir n \<Longrightarrow> look t q = Some n"
proof (induction p "DirNode [] :: node" t arbitrary: q rule: put.induct)
  case (2 a cs es)
  then show ?case by (cases q) (auto simp: map_of_putEntry isDir_DirNode dest: look_empty split: option.splits if_splits)
qed (auto dest: look_empty)

lemma isDir_put: "isDir t \<Longrightarrow> p \<noteq> [] \<Longrightarrow> isDir (put p x t)"
  by (cases t; cases p) (auto simp: isDir_def split: option.split)

lemma isDir_removeAt: "isDir t \<Longrightarrow> isDir (removeAt p t)"
  by (cases t; cases p) (auto simp: isDir_def split: option.split)

lemma follow_lands:
  assumes "lands t p" "follow t p = Inr n"
  shows "look t p = Some n \<and> \<not> isLink n"
proof -
  obtain d m where p: "p = d @ m" "physical t d" "proper m" "m = [] \<or> (\<exists>es. look t d = Some (DirNode es)) \<and> look t (d @ [hd m]) = None"
    using assms by (auto simp: lands_def)
  have "m = []"
  proof (rule ccontr)
    assume "m \<noteq> []"
    then obtain c cs where m: "m = c # cs" by (cases m) auto
    with p walk_missing [of t d _ c cs kernelLinks] have "walk t kernelLinks [] p = Inl ErrNotExist"
      by (auto simp: physical_def)
    with assms(2) show False by (simp add: follow_def)
  qed
  with p walk_self [of t "[]" d _ kernelLinks] assms(2) show ?thesis
    by (auto simp: follow_def physical_def split: option.splits)
qed

lemma follow_physical: "physical t p \<Longrightarrow> \<exists>n. follow t p = Inr n"
  using walk_self [of t "[]" p _ kernelLinks] by (auto simp: follow_def physical_def)

text \<open>The tree a \<^verbatim>\<open>MkdirAll\<close> leaves: only prefixes of the path are new, and they are directories.\<close>

definition grown :: "path \<Rightarrow> node \<Rightarrow> node \<Rightarrow> bool" where
  "grown p t t' \<longleftrightarrow> isDir t' \<and> (\<forall>q. \<not> prefix q p \<longrightarrow> look t' q = look t q) \<and>
     (\<forall>q n. look t q = Some n \<longrightarrow> (\<not> isDir n \<longrightarrow> look t' q = Some n) \<and> (isDir n \<longrightarrow> (\<exists>es. look t' q = Some (DirNode es))))"

lemma grown_refl: "isDir t \<Longrightarrow> grown p t t"
  by (auto simp: grown_def isDir_def split: node.splits)

lemma grown_put:
  assumes "grown (butlast p) t t1" "look t1 p = None" "p \<noteq> []"
  shows "grown p t (put p (DirNode []) t1)"
proof -
  have q: "\<not> prefix q (butlast p)" if "\<not> prefix q p" for q
    using that assms(3) by (metis append_butlast_last_id prefix_prefix)
  have "look (put p (DirNode []) t1) q = look t q" if "\<not> prefix q p" for q
    using put_fresh [OF assms(2) that] q [OF that] assms(1) by (simp add: grown_def)
  moreover have "isDir (put p (DirNode []) t1)"
    using assms(1,3) by (simp add: grown_def isDir_put)
  moreover have "(\<not> isDir n \<longrightarrow> look (put p (DirNode []) t1) q = Some n) \<and> (isDir n \<longrightarrow> (\<exists>es. look (put p (DirNode []) t1) q = Some (DirNode es)))"
    if found: "look t q = Some n" for q n
  proof (cases "isDir n")
    case True
    then obtain es where "look t1 q = Some (DirNode es)" using found assms(1) unfolding grown_def by blast
    with put_fresh_keeps [OF assms(2), of q] True show ?thesis by (auto simp: isDir_def)
  next
    case False
    then have "look t1 q = Some n" using found assms(1) unfolding grown_def by blast
    with put_fresh_keeps [OF assms(2), of q] False show ?thesis by auto
  qed
  ultimately show ?thesis by (auto simp: grown_def)
qed

lemma lands_butlast:
  assumes "lands t p" "\<not> physical t p"
  shows "p \<noteq> []" "lands t (butlast p)"
proof -
  obtain d m where p: "p = d @ m" "physical t d" "proper m" "m = [] \<or> (\<exists>es. look t d = Some (DirNode es)) \<and> look t (d @ [hd m]) = None"
    using assms by (auto simp: lands_def)
  then obtain m' c where m: "m = m' @ [c]" using assms(2) by (cases m rule: rev_cases) auto
  then show "p \<noteq> []" using p by simp
  show "lands t (butlast p)"
  proof (cases m')
    case Nil
    then show ?thesis using p m by (simp add: lands_physical)
  next
    case (Cons a as)
    then show ?thesis using p m lands_missing [of t d _ m'] by (auto simp: butlast_append)
  qed
qed

lemma mkdirAll_grown:
  assumes "mkdirAll f t p = (r, t')" "lands t p" "isDir t"
  shows "grown p t t' \<and> (r = None \<longrightarrow> (\<exists>es. look t' p = Some (DirNode es)))"
  using assms
proof (induction f t p arbitrary: r t' rule: mkdirAll.induct)
  case (1 f t p)
  show ?case
  proof (cases "follow t p")
    case (Inr n)
    with follow_lands [OF "1.prems"(2) Inr] "1.prems" show ?thesis
      by (auto simp: mkdirAll.simps [of f t p] grown_refl isDir_def split: if_splits node.splits)
  next
    case (Inl e)
    then have np: "\<not> physical t p" using follow_physical by fastforce
    note b = lands_butlast [OF "1.prems"(2) np]
    obtain r1 t1 where m: "mkdirAll f t (butlast p) = (r1, t1)" by fastforce
    have ih: "grown (butlast p) t t1 \<and> (r1 = None \<longrightarrow> (\<exists>es. look t1 (butlast p) = Some (DirNode es)))"
      by (rule "1.IH" [OF Inl b(1) m b(2) "1.prems"(3)])
    have up: "grown p t t1"
      using ih b(1) unfolding grown_def by (metis append_butlast_last_id prefix_prefix)
    show ?thesis
    proof (cases r1)
      case (Some x)
      then show ?thesis using "1.prems"(1) Inl m b(1) up by (auto simp: mkdirAll.simps [of f t p])
    next
      case None
      then obtain es where es: "look t1 (butlast p) = Some (DirNode es)" using ih by auto
      have k: "kernelPath t1 p = Inr p"
        using kernelPath_below_dir [OF es, of "last p"] b lands_proper by simp
      show ?thesis
        using "1.prems"(1) Inl m b(1) None k up ih grown_put [of p t t1] look_put_at [OF es, of "last p"]
        by (auto simp: mkdirAll.simps [of f t p] guarded_def split: option.splits if_splits)
    qed
  qed
qed

lemma mkdirAll_files:
  "mkdirAll f t p = (r, t') \<Longrightarrow> look t' q = Some n \<Longrightarrow> \<not> isDir n \<Longrightarrow> look t q = Some n"
proof (induction f t p arbitrary: r t' rule: mkdirAll.induct)
  case (1 f t p)
  show ?case
  proof (cases "follow t p")
    case (Inr m)
    then show ?thesis using "1.prems" by (simp add: mkdirAll.simps [of f t p] split: if_splits)
  next
    case (Inl e)
    obtain r1 t1 where m: "mkdirAll f t (butlast p) = (r1, t1)" by fastforce
    from Inl m "1.prems" have "t' = t \<or> p \<noteq> [] \<and> (t' = t1 \<or> (\<exists>p'. t' = put p' (DirNode []) t1))"
      by (auto simp: mkdirAll.simps [of f t p] split: if_splits option.splits sum.splits)
    then show ?thesis using "1.IH" [OF Inl _ m] "1.prems"(2,3) put_dir_files by blast
  qed
qed

lemma grown_apart: "prefix root p \<Longrightarrow> grown p t t' \<Longrightarrow> sameApart root t t'"
  unfolding grown_def sameApart_def by (metis prefix_same_cases)

lemma kernel_effect:
  assumes "lands t p" "guarded f c (kernelPath t p) = Inr q"
  shows "q = p"
  using assms(2) kernelPath_lands [OF assms(1)] by (auto simp: guarded_def split: option.splits)

lemma osRemove_apart: "lands t p \<Longrightarrow> sameApart p t (snd (osRemove f t p))"
  using kernel_effect [of t p f "CallRemove p"]
  by (auto simp: osRemove_def sameApart_removeAt split: sum.split option.split)

lemma osRemoveAll_apart: "lands t p \<Longrightarrow> sameApart p t (snd (osRemoveAll f t p))"
  using kernel_effect [of t p f "CallRemove p"]
  by (auto simp: osRemoveAll_def sameApart_removeAt split: sum.split osError.split)

subsection \<open>The atomic write\<close>

text \<open>Files other than \<open>p\<close> are as before.\<close>

definition filesKept :: "path \<Rightarrow> node \<Rightarrow> node \<Rightarrow> bool" where
  "filesKept p t t' \<longleftrightarrow> (\<forall>q n. look t q = Some n \<longrightarrow> \<not> isDir n \<longrightarrow> q \<noteq> p \<longrightarrow> look t' q = Some n)"

lemma putEntry_dropEntry: "map_of es c = None \<Longrightarrow> map_of (dropEntry c (putEntry c n es)) = map_of es"
  by (rule ext) (simp add: map_of_dropEntry map_of_putEntry)

text \<open>A new file that is filled and removed again leaves every lookup as it was.\<close>

lemma look_put_below_file:
  assumes "look t p = None" "p \<noteq> []" "\<not> isDir x"
  shows "look (put p x t) (p @ c # q) = None"
  using assms
proof (induction p x t rule: put.induct)
  case (2 a cs x es)
  then show ?case by (cases x) (auto simp: map_of_putEntry isDir_def split: option.splits)
qed auto

lemma look_removeAt_at: "look (removeAt (p @ [c]) t) ((p @ [c]) @ q) = None"
proof (induction p arbitrary: t)
  case Nil
  then show ?case by (cases t) (auto simp: map_of_dropEntry)
next
  case (Cons a p)
  then show ?case by (cases t) (auto simp: map_of_putEntry split: option.split)
qed

lemma look_removeAt_nondir:
  "look t q = Some n \<Longrightarrow> \<not> isDir n \<Longrightarrow> look (removeAt (q @ c # p) t) q = Some n"
proof (induction q arbitrary: t)
  case Nil
  then show ?case by (cases n) (auto simp: isDir_def)
next
  case (Cons a q)
  then obtain ds m where "t = DirNode ds" "map_of ds a = Some m" "look m q = Some n"
    by (cases t) (auto split: option.splits)
  with Cons.IH [of m] Cons.prems(2) show ?case by (auto simp: map_of_putEntry)
qed

lemma filesKeptI:
  assumes "\<And>n. look t p = Some n \<Longrightarrow> \<not> isDir n"
    and "\<And>q c r n. p = q @ c # r \<Longrightarrow> look t q = Some n \<Longrightarrow> \<not> isDir n \<Longrightarrow> look t' q = Some n" "sameApart p t t'"
  shows "filesKept p t t'"
proof -
  have "look t' q = Some n" if n: "look t q = Some n" "\<not> isDir n" "q \<noteq> p" for q n
  proof -
    consider "prefix p q" | "\<not> prefix p q" "prefix q p" | "\<not> prefix p q" "\<not> prefix q p" by blast
    then show ?thesis
    proof cases
      case 1
      then obtain c r where "q = p @ c # r" using n(3) by (metis neq_Nil_conv append_Nil2 prefix_def)
      with n(1) obtain es where "look t p = Some (DirNode es)" using look_dir [of t p c r n] by auto
      with assms(1) show ?thesis by (auto simp: isDir_def)
    next
      case 2
      then obtain c r where "p = q @ c # r" using n(3) by (metis neq_Nil_conv append_Nil2 prefix_def)
      with n assms(2) show ?thesis by simp
    next
      case 3
      then show ?thesis using n(1) assms(3) by (simp add: sameApart_def)
    qed
  qed
  then show ?thesis by (simp add: filesKept_def)
qed

lemma filesKept_put: "(\<And>n. look t p = Some n \<Longrightarrow> \<not> isDir n) \<Longrightarrow> filesKept p t (put p x t)"
  by (rule filesKeptI) (simp_all add: look_put_nondir sameApart_put)

lemma filesKept_removeAt: "(\<And>n. look t p = Some n \<Longrightarrow> \<not> isDir n) \<Longrightarrow> filesKept p t (removeAt p t)"
  by (rule filesKeptI) (simp_all add: look_removeAt_nondir sameApart_removeAt)

lemma filesKept_refl [simp]: "filesKept p t t"
  by (simp add: filesKept_def)

lemma filesKept_trans: "filesKept p t t1 \<Longrightarrow> filesKept p t1 t2 \<Longrightarrow> filesKept p t t2"
  by (simp add: filesKept_def)

lemma createTemp_at:
  assumes "lands t p" "p \<noteq> []" "createTemp f name t (butlast p) = (Inr tmp, t1)"
  shows "tmp = butlast p @ [name]" "\<exists>es. look t (butlast p) = Some (DirNode es)" "proper (butlast p)" "look t tmp = None"
    "t1 = put tmp (FileNode [] 384) t"
proof -
  have pr: "proper (butlast p)" using lands_proper [OF assms(1)] by (rule proper_butlast)
  obtain q where q: "kernelPath t (butlast p @ [name]) = Inr q" "tmp = butlast p @ [name]" "look t q = None" "t1 = put q (FileNode [] 384) t"
    using assms(3) by (auto simp: createTemp_def guarded_def split: sum.splits option.splits if_splits)
  have dir: "\<exists>es. look t (butlast p) = Some (DirNode es)"
  proof (cases "physical t p")
    case True
    then obtain n where "look t (butlast p @ [last p]) = Some n" using assms(2) by (auto simp: physical_def)
    then show ?thesis using look_dir [of t "butlast p" "last p" "[]" n] by auto
  next
    case False
    from lands_butlast [OF assms(1) this] have l: "lands t (butlast p)" by simp
    obtain d where d: "walk t kernelLinks [] (butlast p) = Inr d" "\<exists>es. look t d = Some (DirNode es)"
      using q(1) by (auto simp: kernelPath_snoc split: sum.splits option.splits node.splits)
    then have "\<exists>n. follow t (butlast p) = Inr n" by (auto simp: follow_def)
    then obtain n where n: "look t (butlast p) = Some n" "\<not> isLink n" using follow_lands [OF l] by auto
    then have "walk t kernelLinks [] (butlast p) = Inr (butlast p)" using walk_self [of t "[]" "butlast p" n] pr by simp
    with d show ?thesis by simp
  qed
  from q dir pr kernelPath_below_dir [of t "butlast p" _ name]
  show "tmp = butlast p @ [name]" "\<exists>es. look t (butlast p) = Some (DirNode es)" "proper (butlast p)" "look t tmp = None"
    "t1 = put tmp (FileNode [] 384) t"
    by auto
qed

text \<open>Removing the temporary file in its directory.\<close>

lemma osRemove_file:
  assumes "look t d = Some (DirNode es)" "proper d" "\<And>n. look t (d @ [c]) = Some n \<Longrightarrow> \<not> isDir n"
  shows "sameApart (d @ [c]) t (snd (osRemove f t (d @ [c]))) \<and> filesKept (d @ [c]) t (snd (osRemove f t (d @ [c])))"
proof -
  have k: "kernelPath t (d @ [c]) = Inr (d @ [c])" by (rule kernelPath_below_dir [OF assms(1,2)])
  then show ?thesis
    using assms(3) filesKept_removeAt [of t "d @ [c]"]
    by (auto simp: osRemove_def guarded_def sameApart_removeAt split: option.split)
qed

lemma osRemove_gone: "look t (d @ [c]) = None \<Longrightarrow> look t d = Some (DirNode es) \<Longrightarrow> proper d \<Longrightarrow> snd (osRemove f t (d @ [c])) = t"
  using kernelPath_below_dir [of t d es c] by (auto simp: osRemove_def guarded_def split: option.split)

lemma siblings_apart: "a \<noteq> b \<Longrightarrow> \<not> prefix (d @ [a]) (d @ [b])"
  by simp

lemma filesKept_new: "filesKept p t t' \<Longrightarrow> look t p = None \<Longrightarrow> look t q = Some n \<Longrightarrow> \<not> isDir n \<Longrightarrow> look t' q = Some n"
  by (metis filesKept_def option.distinct(1))

text \<open>The rename of a filled temporary file over its sibling.\<close>

lemma osRename_sibling:
  assumes "look t d = Some (DirNode es)" "proper d" "look t (d @ [a]) = Some n" "\<not> isDir n" "a \<noteq> b"
  shows "case osRename f t (d @ [a]) (d @ [b]) of
      (Some e, t') \<Rightarrow> t' = t
    | (None, t') \<Rightarrow> look t' (d @ [b]) = Some n \<and> look t' (d @ [a]) = None \<and> (\<exists>es'. look t' d = Some (DirNode es')) \<and>
        (\<forall>q m. look t q = Some m \<longrightarrow> \<not> isDir m \<longrightarrow> q \<noteq> d @ [a] \<longrightarrow> q \<noteq> d @ [b] \<longrightarrow> look t' q = Some m) \<and>
        (\<forall>q. prefix q d \<longrightarrow> sameApart q t t')"
proof -
  define u where "u = removeAt (d @ [a]) t"
  define v where "v = put (d @ [b]) n u"
  obtain es1 where u_d: "look u d = Some (DirNode es1)" using look_removeAt_prefix [OF assms(1), of a "[]"] by (auto simp: u_def)
  obtain es2 where v_d: "look v d = Some (DirNode es2)" using look_put_prefix [OF u_d, of b "[]" n] by (auto simp: v_def)
  have u_b: "look u (d @ [b]) = look t (d @ [b])" using assms(5) by (simp add: u_def look_removeAt_apart)
  have v_a: "look v (d @ [a]) = None"
    using assms(5) look_removeAt_at [of d a t "[]"] by (simp add: v_def u_def look_put_apart)
  have v_b: "look v (d @ [b]) = Some n" using look_put_at [OF u_d] by (simp add: v_def)
  have ku: "filesKept (d @ [a]) t u" using assms(3,4) unfolding u_def by (intro filesKept_removeAt) auto
  have kv: "filesKept (d @ [b]) u v" if "\<And>m. look t (d @ [b]) = Some m \<Longrightarrow> \<not> isDir m"
    using that u_b unfolding v_def by (intro filesKept_put) auto
  have ap: "sameApart q t v" if "prefix q d" for q
    using sameApart_under [of q "d @ [a]" t u] sameApart_under [of q "d @ [b]" u v] that
    by (auto simp: u_def v_def sameApart_removeAt sameApart_put intro: sameApart_trans)
  have keep: "look v q = Some m"
    if "\<And>m. look t (d @ [b]) = Some m \<Longrightarrow> \<not> isDir m" "look t q = Some m" "\<not> isDir m" "q \<noteq> d @ [a]" "q \<noteq> d @ [b]" for q m
    using ku kv [OF that(1)] that unfolding filesKept_def by blast
  show ?thesis
    using kernelPath_below_dir [OF assms(1,2), of a] kernelPath_below_dir [OF assms(1,2), of b] assms(3) v_a v_b v_d ap keep
    by (auto simp: osRename_def guarded_def u_def [symmetric] v_def [symmetric] split: option.splits)
qed

text \<open>The tree \<open>u\<close> is \<open>t\<close> with the temporary file \<open>d @ [name]\<close>.\<close>

definition tempAt :: "path \<Rightarrow> string \<Rightarrow> node \<Rightarrow> node \<Rightarrow> string \<Rightarrow> nat \<Rightarrow> bool" where
  "tempAt d name t u bytes perm \<longleftrightarrow> proper d \<and> look t (d @ [name]) = None \<and> (\<exists>ds. look u d = Some (DirNode ds)) \<and>
     look u (d @ [name]) = Some (FileNode bytes perm) \<and> sameApart (d @ [name]) t u \<and> filesKept (d @ [name]) t u"

lemma tempAt_new:
  assumes "look t d = Some (DirNode es)" "proper d" "look t (d @ [name]) = None"
  shows "tempAt d name t (put (d @ [name]) (FileNode b m) t) b m"
  using look_put_prefix [OF assms(1), of name "[]"] look_put_at [OF assms(1)] filesKept_put [of t "d @ [name]"] assms
  by (auto simp: tempAt_def sameApart_put)

lemma tempAt_fill:
  assumes "tempAt d name t u b0 m0"
  shows "tempAt d name t (put (d @ [name]) (FileNode b m) u) b m"
proof -
  obtain ds where ds: "look u d = Some (DirNode ds)" using assms by (auto simp: tempAt_def)
  have "filesKept (d @ [name]) u (put (d @ [name]) (FileNode b m) u)"
    using assms by (intro filesKept_put) (auto simp: tempAt_def isDir_def)
  with look_put_prefix [OF ds, of name "[]"] look_put_at [OF ds] assms show ?thesis
    by (auto simp: tempAt_def sameApart_put intro: sameApart_trans filesKept_trans)
qed

lemma tempAt_removed:
  assumes "tempAt d name t u b m" "t' = snd (osRemove f u (d @ [name]))"
  shows "(\<forall>q. prefix q d \<longrightarrow> sameApart q t t') \<and> (\<forall>q n. look t q = Some n \<longrightarrow> \<not> isDir n \<longrightarrow> look t' q = Some n)"
proof -
  obtain ds where ds: "look u d = Some (DirNode ds)" using assms(1) by (auto simp: tempAt_def)
  have "sameApart (d @ [name]) u t' \<and> filesKept (d @ [name]) u t'"
    unfolding assms(2) using assms(1) by (intro osRemove_file [OF ds]) (auto simp: tempAt_def isDir_def)
  then have "sameApart (d @ [name]) t t'" "filesKept (d @ [name]) t t'" "look t (d @ [name]) = None"
    using assms(1) sameApart_trans filesKept_trans unfolding tempAt_def by blast+
  then show ?thesis
    using filesKept_new sameApart_under [of _ "d @ [name]" t t'] prefix_prefix by blast
qed

lemma tempAt_renamed:
  assumes "tempAt d name t u b m" "name \<noteq> c" "osRename f u (d @ [name]) (d @ [c]) = (None, v)"
  shows "snd (osRemove f v (d @ [name])) = v" "\<forall>q. prefix q d \<longrightarrow> sameApart q t v" "look v (d @ [c]) = Some (FileNode b m)"
    "filesKept (d @ [c]) t v"
proof -
  obtain ds where ds: "look u d = Some (DirNode ds)" using assms(1) by (auto simp: tempAt_def)
  have r: "look v (d @ [c]) = Some (FileNode b m) \<and> look v (d @ [name]) = None \<and> (\<exists>es'. look v d = Some (DirNode es')) \<and>
      (\<forall>q k. look u q = Some k \<longrightarrow> \<not> isDir k \<longrightarrow> q \<noteq> d @ [name] \<longrightarrow> q \<noteq> d @ [c] \<longrightarrow> look v q = Some k) \<and>
      (\<forall>q. prefix q d \<longrightarrow> sameApart q u v)"
    using osRename_sibling [OF ds, of name "FileNode b m" c f] assms by (auto simp: tempAt_def isDir_def)
  then show "snd (osRemove f v (d @ [name])) = v" "look v (d @ [c]) = Some (FileNode b m)"
    using osRemove_gone assms(1) by (auto simp: tempAt_def)
  show "\<forall>q. prefix q d \<longrightarrow> sameApart q t v"
    using r assms(1) sameApart_under [of _ "d @ [name]" t u] prefix_prefix sameApart_trans unfolding tempAt_def by blast
  show "filesKept (d @ [c]) t v"
    using r assms(1) unfolding filesKept_def tempAt_def by (metis option.distinct(1))
qed

lemma lands_parent: "lands t p \<Longrightarrow> isDir t \<Longrightarrow> lands t (butlast p)"
proof (cases "physical t p")
  case True
  assume "isDir t"
  show ?thesis
  proof (cases p rule: rev_cases)
    case Nil
    then show ?thesis using True by (simp add: lands_physical)
  next
    case (snoc q c)
    with True obtain n where "look t (q @ [c]) = Some n" by (auto simp: physical_def)
    then obtain es where "look t q = Some (DirNode es)" using look_dir [of t q c "[]" n] by auto
    then have "physical t q" using True snoc by (auto simp: physical_def isLink_def)
    then show ?thesis using snoc by (simp add: lands_physical)
  qed
qed (rule lands_butlast)

lemma walk_eval:
  "walk t k d [] = Inr d"
  "walk t k d (c # cs) =
     (if c = [] \<or> c = ''.'' then walk t k d cs
      else if c = ''..'' then walk t k (butlast d) cs
      else (case look t (d @ [c]) of
              None \<Rightarrow> Inl ErrNotExist
            | Some (LinkNode isAbs target) \<Rightarrow>
                if k = 0 then Inl ErrLoop else walk t (k - 1) (if isAbs then [] else d) (target @ cs)
            | Some (DirNode es) \<Rightarrow> walk t k (d @ [c]) cs
            | Some n \<Rightarrow> if cs \<noteq> [] then Inl ErrNotDir else Inr (d @ [c])))"
  by (simp_all add: walk.simps [of t k d])

end
