(* ===== verification/Sandbox.thy ===== *)
theory Sandbox
  imports File_Tree Agent_Runtime
begin

section \<open>The filesystem sandbox (\<^verbatim>\<open>internal/tools/filesystem.go\<close>)\<close>

text \<open>
  The sandbox of the filesystem tools and the six tools, on the tree of File_Tree.  A tool call takes the tree and
  returns its result and the tree it leaves.
\<close>

subsection \<open>The sandbox\<close>

datatype filesystemErrorCode =
    FilesystemInvalidRoot | FilesystemInvalidPath | FilesystemPathEscape | FilesystemRootProtected
  | FilesystemReadLimit | FilesystemWriteLimit

record filesystemError =
  feCode :: filesystemErrorCode
  fePath :: string
  feErr :: osError

record sandbox =
  sbRoot :: path
  maxReadBytes :: int
  maxWriteBytes :: int

definition defaultMaxBytes :: int where "defaultMaxBytes = 1048576"

definition fsError :: "filesystemErrorCode \<Rightarrow> string \<Rightarrow> string \<Rightarrow> filesystemError" where
  "fsError code p what = \<lparr>feCode = code, fePath = p, feErr = ErrOther (Message what)\<rparr>"

text \<open>\<open>cwd\<close> is the working directory; \<^verbatim>\<open>filepath.Abs\<close> fails when it is not known.\<close>

definition Abs :: "(go_error + path) \<Rightarrow> string \<Rightarrow> osError + path" where
  "Abs cwd root =
     (if IsAbs root then Inr (cleanFrom [] (splitSlash root))
      else case cwd of Inl e \<Rightarrow> Inl (ErrOther e) | Inr d \<Rightarrow> Inr (cleanFrom d (splitSlash root)))"

definition NewFilesystemSandbox ::
  "faults \<Rightarrow> node \<Rightarrow> (go_error + path) \<Rightarrow> string \<Rightarrow> int \<Rightarrow> int \<Rightarrow> filesystemError + sandbox"
where
  "NewFilesystemSandbox faults t cwd root maxRead maxWrite =
     (if trim_space root = [] then Inl (fsError FilesystemInvalidRoot root ''sandbox root is required'')
      else
      (case Abs cwd root of
         Inl e \<Rightarrow> Inl \<lparr>feCode = FilesystemInvalidRoot, fePath = root, feErr = e\<rparr>
       | Inr absolute \<Rightarrow>
         (case EvalSymlinks faults 0 t absolute of
            Inl e \<Rightarrow> Inl \<lparr>feCode = FilesystemInvalidRoot, fePath = root, feErr = e\<rparr>
          | Inr canonical \<Rightarrow>
            if canonical = [] then Inl (fsError FilesystemInvalidRoot root ''filesystem root cannot be used as sandbox'')
            else
            (case Stat faults t canonical of
               Inl e \<Rightarrow> Inl \<lparr>feCode = FilesystemInvalidRoot, fePath = root, feErr = e\<rparr>
             | Inr n \<Rightarrow>
                 if \<not> isDir n then Inl (fsError FilesystemInvalidRoot root ''sandbox root is not a directory'')
                 else Inr \<lparr>sbRoot = canonical, maxReadBytes = (if maxRead \<le> 0 then defaultMaxBytes else maxRead),
                           maxWriteBytes = (if maxWrite \<le> 0 then defaultMaxBytes else maxWrite)\<rparr>))))"

text \<open>The nearest existing ancestor, resolved, with the missing components appended.\<close>

function resolveUp :: "faults \<Rightarrow> nat \<Rightarrow> node \<Rightarrow> path \<Rightarrow> path \<Rightarrow> osError + path" where
  "resolveUp faults ph t current missing =
     (case Lstat faults ph t current of
        Inr n \<Rightarrow>
          (case EvalSymlinks faults ph t current of
             Inl e \<Rightarrow> Inl e
           | Inr resolved \<Rightarrow> Inr (resolved @ missing))
      | Inl ErrNotExist \<Rightarrow>
          if current = [] then Inl ErrNotExist else resolveUp faults ph t (butlast current) (last current # missing)
      | Inl e \<Rightarrow> Inl e)"
  by pat_completeness auto
termination
  by (relation "measure (\<lambda>(f, ph, t, c, m). length c)") auto

declare resolveUp.simps [simp del]

definition resolveExistingOrParent :: "faults \<Rightarrow> nat \<Rightarrow> node \<Rightarrow> path \<Rightarrow> osError + path" where
  "resolveExistingOrParent faults ph t candidate = resolveUp faults ph t candidate []"

definition candidatePath :: "path \<Rightarrow> string \<Rightarrow> path" where
  "candidatePath root s = (if IsAbs s then cleanFrom [] (splitSlash s) else cleanFrom root (splitSlash s))"

definition resolve :: "faults \<Rightarrow> nat \<Rightarrow> node \<Rightarrow> sandbox \<Rightarrow> string \<Rightarrow> bool \<Rightarrow> filesystemError + path" where
  "resolve faults ph t sb p mutation =
     (let s = trim_space p; candidate = candidatePath (sbRoot sb) s in
      if \<not> withinRoot (sbRoot sb) candidate then Inl (fsError FilesystemPathEscape p ''path escapes sandbox root'')
      else if mutation \<and> (s = [] \<or> candidate = sbRoot sb)
      then Inl (fsError FilesystemRootProtected p ''sandbox root cannot be mutated'')
      else
      (case resolveExistingOrParent faults ph t candidate of
         Inl e \<Rightarrow> Inl \<lparr>feCode = FilesystemInvalidPath, fePath = p, feErr = e\<rparr>
       | Inr resolved \<Rightarrow>
           if \<not> withinRoot (sbRoot sb) resolved
           then Inl (fsError FilesystemPathEscape p ''resolved path escapes sandbox root'')
           else if \<not> mutation then Inr resolved
           else
           (case Lstat faults (Suc ph) t candidate of
              Inr n \<Rightarrow>
                if isLink n then Inl (fsError FilesystemInvalidPath p ''mutating a symbolic link is not allowed'') else Inr resolved
            | Inl ErrNotExist \<Rightarrow> Inr resolved
            | Inl e \<Rightarrow> Inl \<lparr>feCode = FilesystemInvalidPath, fePath = p, feErr = e\<rparr>)))"

definition safePath :: "faults \<Rightarrow> node \<Rightarrow> (go_error + path) \<Rightarrow> string \<Rightarrow> string \<Rightarrow> filesystemError + path" where
  "safePath faults t cwd rootDir p =
     (case NewFilesystemSandbox faults t cwd rootDir defaultMaxBytes defaultMaxBytes of
        Inl e \<Rightarrow> Inl e
      | Inr sb \<Rightarrow> resolve faults 0 t sb p False)"

subsection \<open>The tools\<close>

text \<open>
  What a tool sees beside the tree: the faults, the answers of the context at its two checks, the quoting of
  paths and the text of an error, the decoder of its arguments, the name of a new temporary
  file, how modes and times are printed and the size reported for what is no regular file.
\<close>

record 'a toolEnv =
  envFaults :: faults
  envCtx :: "nat \<Rightarrow> go_error option"
  envQuote :: "string \<Rightarrow> string"
  envErr :: "osError \<Rightarrow> string"
  envFsErr :: "filesystemError \<Rightarrow> string"
  envDecode :: "string \<Rightarrow> go_error + 'a"
  envTemp :: string
  envStat :: "path \<Rightarrow> node \<Rightarrow> string \<times> string"
  envDirSize :: "path \<Rightarrow> nat"

text \<open>A tool's own sandbox, or one made from its root (\<^verbatim>\<open>sandboxFor\<close>).\<close>

record fsTool =
  tlRoot :: string
  tlMax :: int
  tlSandbox :: "sandbox option"
  tlCwd :: "go_error + path"

definition sandboxFor :: "'a toolEnv \<Rightarrow> node \<Rightarrow> fsTool \<Rightarrow> int \<Rightarrow> int \<Rightarrow> filesystemError + sandbox" where
  "sandboxFor env t cfg maxRead maxWrite =
     (case tlSandbox cfg of
        Some sb \<Rightarrow> Inr sb
      | None \<Rightarrow> NewFilesystemSandbox (envFaults env) t (tlCwd cfg) (tlRoot cfg) maxRead maxWrite)"

record readArgs =
  raPath :: string
  raMaxBytes :: int

record writeArgs =
  waPath :: string
  waContent :: string
  waAppend :: bool

record listArgs =
  laPath :: string
  laRecursive :: bool
  laMaxItems :: int

record deleteArgs =
  daPath :: string
  daRecursive :: bool

record pathArgs =
  paPath :: string

definition textResult :: "string \<Rightarrow> toolResult" where
  "textResult s = \<lparr>resContent = s, resIsError = False\<rparr>"

definition qpath :: "'a toolEnv \<Rightarrow> path \<Rightarrow> string" where
  "qpath env p = envQuote env (pathString p)"

text \<open>The common beginning: context, arguments, sandbox.\<close>

definition enterTool ::
  "'a toolEnv \<Rightarrow> string \<Rightarrow> (node \<Rightarrow> filesystemError + sandbox) \<Rightarrow> string \<Rightarrow> node \<Rightarrow>
     ('a \<Rightarrow> sandbox \<Rightarrow> toolResult \<times> node) \<Rightarrow> toolResult \<times> node"
where
  "enterTool env verb sandboxOf raw t body =
     (case envCtx env 0 of
        Some e \<Rightarrow> (Errorf (verb @ '' cancelled: '' @ errText e), t)
      | None \<Rightarrow>
        (case envDecode env raw of
           Inl e \<Rightarrow> (Errorf (''invalid args: '' @ errText e), t)
         | Inr args \<Rightarrow>
           (case sandboxOf t of
              Inl e \<Rightarrow> (Errorf (envFsErr env e), t)
            | Inr sb \<Rightarrow> body args sb)))"

definition readLimitText :: "int \<Rightarrow> int \<Rightarrow> string" where
  "readLimitText n limit = ''read limit exceeded: '' @ showInt n @ '' bytes exceeds '' @ showInt limit"

definition FSRead :: "readArgs toolEnv \<Rightarrow> fsTool \<Rightarrow> string \<Rightarrow> node \<Rightarrow> toolResult \<times> node" where
  "FSRead env cfg raw t =
     enterTool env ''read'' (\<lambda>t. sandboxFor env t cfg (tlMax cfg) defaultMaxBytes) raw t (\<lambda>args sb.
       (case resolve (envFaults env) 0 t sb (raPath args) False of
          Inl e \<Rightarrow> (Errorf (envFsErr env e), t)
        | Inr p \<Rightarrow>
          (case guarded (envFaults env) (CallOpen p) (follow t p) of
             Inl e \<Rightarrow> (Errorf (''open '' @ qpath env p @ '': '' @ envErr env e), t)
           | Inr n \<Rightarrow>
             (case guarded (envFaults env) (CallFileStat p) (Inr n) of
                Inl e \<Rightarrow> (Errorf (''stat '' @ qpath env p @ '': '' @ envErr env e), t)
              | Inr m \<Rightarrow>
                if \<not> isRegular n then (Errorf (''read '' @ qpath env p @ '': not a regular file''), t)
                else if maxReadBytes sb < int (length (fileData n))
                then (Errorf (readLimitText (int (length (fileData n))) (maxReadBytes sb)), t)
                else
                (case guarded (envFaults env) (CallRead p) (Inr (fileData n)) of
                   Inl e \<Rightarrow> (Errorf (''read '' @ qpath env p @ '': '' @ envErr env e), t)
                 | Inr bytes \<Rightarrow>
                   if 0 < raMaxBytes args \<and> raMaxBytes args < int (length bytes)
                   then (textResult (take (nat (raMaxBytes args)) bytes @ [CHR 0x0A] @ ''[truncated: '' @ showInt (raMaxBytes args) @ ''/'' @
                           showInt (int (length bytes)) @ '' bytes]''), t)
                   else (textResult bytes, t))))))"

definition firstFault :: "faults \<Rightarrow> osCall list \<Rightarrow> go_error option" where
  "firstFault faults calls = (case filter (\<lambda>c. faults c \<noteq> None) calls of [] \<Rightarrow> None | c # cs \<Rightarrow> faults c)"

text \<open>The temporary file is removed in every case; after the rename there is nothing left to remove.\<close>

definition atomicWriteFile ::
  "faults \<Rightarrow> string \<Rightarrow> node \<Rightarrow> path \<Rightarrow> string \<Rightarrow> nat \<Rightarrow> osError option \<times> node"
where
  "atomicWriteFile faults name t p bytes perm =
     (case createTemp faults name t (butlast p) of
        (Inl e, t1) \<Rightarrow> (Some e, t1)
      | (Inr tmp, t1) \<Rightarrow>
          (case firstFault faults [CallChmod tmp, CallWrite tmp, CallSync tmp, CallCloseFile tmp] of
             Some e \<Rightarrow> (Some (ErrOther e), snd (osRemove faults t1 tmp))
           | None \<Rightarrow>
               (case osRename faults (fillFile t1 tmp bytes perm) tmp p of
                  (Some e, t2) \<Rightarrow> (Some e, snd (osRemove faults t2 tmp))
                | (None, t2) \<Rightarrow> (None, snd (osRemove faults t2 tmp)))))"

text \<open>What is there already: the bytes to put first and the permissions to keep.\<close>

definition existingBytes ::
  "'a toolEnv \<Rightarrow> node \<Rightarrow> sandbox \<Rightarrow> path \<Rightarrow> bool \<Rightarrow> nat \<Rightarrow> string + string \<times> nat"
where
  "existingBytes env t sb p append' len =
     (case Stat (envFaults env) t p of
        Inr n \<Rightarrow>
          if \<not> isRegular n then Inl (''write '' @ qpath env p @ '': destination is not a regular file'')
          else if \<not> append' then Inr ([], filePerm n)
          else if maxWriteBytes sb < int (length (fileData n) + len)
          then Inl (''write limit exceeded: resulting file exceeds '' @ showInt (maxWriteBytes sb) @ '' bytes'')
          else (case guarded (envFaults env) (CallRead p) (Inr (fileData n)) of
                  Inl e \<Rightarrow> Inl (''read existing file: '' @ envErr env e)
                | Inr old \<Rightarrow> Inr (old, filePerm n))
      | Inl ErrNotExist \<Rightarrow> Inr ([], 420)
      | Inl e \<Rightarrow> Inl (''stat destination: '' @ envErr env e))"

definition writeInside :: "writeArgs toolEnv \<Rightarrow> node \<Rightarrow> writeArgs \<Rightarrow> sandbox \<Rightarrow> toolResult \<times> node" where
  "writeInside env t args sb =
     (if maxWriteBytes sb < int (length (waContent args))
      then (Errorf (''write limit exceeded: '' @ showInt (int (length (waContent args))) @ '' bytes exceeds '' @ showInt (maxWriteBytes sb)), t)
      else
      (case resolve (envFaults env) 0 t sb (waPath args) True of
         Inl e \<Rightarrow> (Errorf (envFsErr env e), t)
       | Inr p0 \<Rightarrow>
         (case mkdirAll (envFaults env) t (butlast p0) of
            (Some e, t1) \<Rightarrow> (Errorf (''mkdir: '' @ envErr env e), t1)
          | (None, t1) \<Rightarrow>
            (case resolve (envFaults env) 2 t1 sb (waPath args) True of
               Inl e \<Rightarrow> (Errorf (envFsErr env e), t1)
             | Inr p \<Rightarrow>
               (case existingBytes env t1 sb p (waAppend args) (length (waContent args)) of
                  Inl what \<Rightarrow> (Errorf what, t1)
                | Inr (old, perm) \<Rightarrow>
                  (case envCtx env 1 of
                     Some e \<Rightarrow> (Errorf (''write cancelled: '' @ errText e), t1)
                   | None \<Rightarrow>
                     (case atomicWriteFile (envFaults env) (envTemp env) t1 p (old @ waContent args) perm of
                        (Some e, t2) \<Rightarrow> (Errorf (''atomic write: '' @ envErr env e), t2)
                      | (None, t2) \<Rightarrow>
                          (textResult (''wrote '' @ showInt (int (length (waContent args))) @ '' bytes to '' @ qpath env p), t2))))))))"

definition FSWrite :: "writeArgs toolEnv \<Rightarrow> fsTool \<Rightarrow> string \<Rightarrow> node \<Rightarrow> toolResult \<times> node" where
  "FSWrite env cfg raw t =
     enterTool env ''write'' (\<lambda>t. sandboxFor env t cfg defaultMaxBytes (tlMax cfg)) raw t (writeInside env t)"

definition FSDelete :: "deleteArgs toolEnv \<Rightarrow> fsTool \<Rightarrow> string \<Rightarrow> node \<Rightarrow> toolResult \<times> node" where
  "FSDelete env cfg raw t =
     enterTool env ''delete'' (\<lambda>t. sandboxFor env t cfg defaultMaxBytes defaultMaxBytes) raw t (\<lambda>args sb.
       (case resolve (envFaults env) 0 t sb (daPath args) True of
          Inl e \<Rightarrow> (Errorf (envFsErr env e), t)
        | Inr p \<Rightarrow>
          (case (if daRecursive args then osRemoveAll (envFaults env) t p else osRemove (envFaults env) t p) of
             (Some e, t1) \<Rightarrow> (Errorf (''delete '' @ qpath env p @ '': '' @ envErr env e), t1)
           | (None, t1) \<Rightarrow> (textResult (''deleted '' @ qpath env p), t1))))"

definition FSMkdir :: "pathArgs toolEnv \<Rightarrow> fsTool \<Rightarrow> string \<Rightarrow> node \<Rightarrow> toolResult \<times> node" where
  "FSMkdir env cfg raw t =
     enterTool env ''mkdir'' (\<lambda>t. sandboxFor env t cfg defaultMaxBytes defaultMaxBytes) raw t (\<lambda>args sb.
       (case resolve (envFaults env) 0 t sb (paPath args) True of
          Inl e \<Rightarrow> (Errorf (envFsErr env e), t)
        | Inr p \<Rightarrow>
          (case mkdirAll (envFaults env) t p of
             (Some e, t1) \<Rightarrow> (Errorf (''mkdir '' @ qpath env p @ '': '' @ envErr env e), t1)
           | (None, t1) \<Rightarrow>
             (case resolve (envFaults env) 2 t1 sb (paPath args) True of
                Inl e \<Rightarrow> (Errorf (envFsErr env e), t1)
              | Inr q \<Rightarrow> (textResult (''created '' @ qpath env p), t1)))))"

text \<open>A number of tenths rounded half to even, as \<^verbatim>\<open>%.1f\<close> prints an exact quotient.\<close>

definition fixed1 :: "nat \<Rightarrow> nat \<Rightarrow> string" where
  "fixed1 b d =
     (let q = (10 * b) div d; r = (10 * b) mod d;
          q1 = (if d < 2 * r \<or> (2 * r = d \<and> odd q) then Suc q else q)
      in decimal (q1 div 10) @ ''.'' @ decimal (q1 mod 10))"

definition humanSize :: "nat \<Rightarrow> string" where
  "humanSize b =
     (if b < 1024 then decimal b @ '' B''
      else if b < 2 ^ 20 then fixed1 b 1024 @ '' KB''
      else if b < 2 ^ 30 then fixed1 b (2 ^ 20) @ '' MB''
      else fixed1 b (2 ^ 30) @ '' GB'')"

definition FSStat :: "pathArgs toolEnv \<Rightarrow> fsTool \<Rightarrow> string \<Rightarrow> node \<Rightarrow> toolResult \<times> node" where
  "FSStat env cfg raw t =
     enterTool env ''stat'' (\<lambda>t. sandboxFor env t cfg defaultMaxBytes defaultMaxBytes) raw t (\<lambda>args sb.
       (case resolve (envFaults env) 0 t sb (paPath args) False of
          Inl e \<Rightarrow> (Errorf (envFsErr env e), t)
        | Inr p \<Rightarrow>
          (case Stat (envFaults env) t p of
             Inl e \<Rightarrow> (Errorf (''stat '' @ qpath env p @ '': '' @ envErr env e), t)
           | Inr n \<Rightarrow>
               (textResult (''type: '' @ (if isDir n then ''directory'' else ''file'') @ [CHR 0x0A] @ ''size: '' @
                  humanSize (case n of FileNode bytes perm \<Rightarrow> length bytes | _ \<Rightarrow> envDirSize env p) @ [CHR 0x0A] @ ''mode: '' @ fst (envStat env p n) @
                  [CHR 0x0A] @ ''modified: '' @ snd (envStat env p n)), t))))"

text \<open>
  The walk of a directory, depth first in the order of the names.  \<open>k\<close> counts the visits, at each of which the
  context is asked; a failure to read a directory is reported by a second visit of it.
\<close>

datatype walkOut = WalkFailed string | WalkStopped "string list" | WalkOn nat "string list"

definition entryLine :: "listArgs toolEnv \<Rightarrow> path \<Rightarrow> path \<Rightarrow> node \<Rightarrow> string" where
  "entryLine env root rel n =
     joinWith ''/'' rel @ (if isDir n then ''/'' else []) @ [CHR 0x09] @
     (case n of
        FileNode bytes perm \<Rightarrow> if envFaults env (CallFileStat (root @ rel)) = None then humanSize (length bytes) else []
      | _ \<Rightarrow> [])"

fun walkEntries :: "listArgs toolEnv \<Rightarrow> path \<Rightarrow> bool \<Rightarrow> nat \<Rightarrow> path \<Rightarrow> (string \<times> node) list \<Rightarrow> nat \<Rightarrow> string list \<Rightarrow> walkOut" where
  "walkEntries env root recursive maxItems rel [] k ls = WalkOn k ls"
| "walkEntries env root recursive maxItems rel ((c, n) # es) k ls =
     (case envCtx env k of
        Some e \<Rightarrow> WalkFailed (errText e)
      | None \<Rightarrow>
          if maxItems \<le> length ls then WalkStopped ls
          else
            (let ls1 = ls @ [entryLine env root (rel @ [c]) n];
                 sub = (case n of
                     DirNode ds \<Rightarrow>
                       if \<not> recursive then WalkOn (Suc k) ls1
                       else (case envFaults env (CallWalk (root @ rel @ [c])) of
                               Some e \<Rightarrow> WalkFailed (envErr env (ErrOther e))
                             | None \<Rightarrow> walkEntries env root recursive maxItems (rel @ [c]) ds (Suc k) ls1)
                   | _ \<Rightarrow> WalkOn (Suc k) ls1)
             in (case sub of
                   WalkOn k2 ls2 \<Rightarrow> walkEntries env root recursive maxItems rel es k2 ls2
                 | stop \<Rightarrow> stop)))"

definition listing :: "int \<Rightarrow> string list \<Rightarrow> string" where
  "listing maxItems ls =
     (if ls = [] then ''(empty)''
      else joinWith [CHR 0x0A] ls @
        (if maxItems \<le> int (length ls) then [CHR 0x0A] @ ''[limited to '' @ showInt maxItems @ '' entries]'' else []))"

definition FSList :: "listArgs toolEnv \<Rightarrow> fsTool \<Rightarrow> string \<Rightarrow> node \<Rightarrow> toolResult \<times> node" where
  "FSList env cfg raw t =
     enterTool env ''list'' (\<lambda>t. sandboxFor env t cfg defaultMaxBytes defaultMaxBytes) raw t (\<lambda>args sb.
       let maxItems = (if laMaxItems args \<le> 0 then 200 else laMaxItems args) in
       (case resolve (envFaults env) 0 t sb (laPath args) False of
          Inl e \<Rightarrow> (Errorf (envFsErr env e), t)
        | Inr p \<Rightarrow>
          (case Stat (envFaults env) t p of
             Inl e \<Rightarrow> (Errorf (''stat '' @ qpath env p @ '': '' @ envErr env e), t)
           | Inr (DirNode es) \<Rightarrow>
             (case (case envCtx env 1 of
                      Some e \<Rightarrow> WalkFailed (errText e)
                    | None \<Rightarrow>
                      (case envFaults env (CallWalk p) of
                         Some e \<Rightarrow> WalkFailed (envErr env (ErrOther e))
                       | None \<Rightarrow> walkEntries env p (laRecursive args) (nat maxItems) [] es 2 [])) of
                WalkFailed what \<Rightarrow> (Errorf (''list '' @ qpath env p @ '': '' @ what), t)
              | WalkStopped ls \<Rightarrow> (textResult (listing maxItems ls), t)
              | WalkOn k ls \<Rightarrow> (textResult (listing maxItems ls), t))
           | Inr n \<Rightarrow> (Errorf (''list '' @ qpath env p @ '': not a directory''), t))))"

text \<open>Walking up: \<open>missing\<close> is what was found not to exist below \<open>current\<close>.\<close>

lemma resolveUp_lands:
  assumes "resolveUp f ph t current missing = Inr p" "isDir t" "proper (current @ missing)"
    and "missing = [] \<or> Lstat f ph t (current @ [hd missing]) = Inl ErrNotExist"
  shows "lands t p"
  using assms
proof (induction f ph t current missing rule: resolveUp.induct)
  case (1 f ph t current missing)
  show ?case
  proof (cases "Lstat f ph t current")
    case (Inr n)
    then obtain d where d: "EvalSymlinks f ph t current = Inr d" "p = d @ missing"
      using "1.prems"(1) by (auto simp: resolveUp.simps [of f ph t current] split: sum.splits)
    then have w: "walk t maxLinks [] current = Inr d" by (simp add: EvalSymlinks_Inr)
    have ph: "physical t d"
      using walk_physical [OF w _ _ "1.prems"(2)] "1.prems"(2) by (auto simp: isDir_def split: node.splits)
    show ?thesis
    proof (cases missing)
      case Nil
      with d ph show ?thesis by (simp add: lands_physical)
    next
      case (Cons c cs)
      have "walk t kernelLinks [] current \<noteq> Inl ErrNotExist"
        using walk_more_links [of t kernelLinks "[]" current maxLinks] links_le w by auto
      then obtain d' es where "walk t kernelLinks [] current = Inr d'" "look t d' = Some (DirNode es)" "look t (d' @ [c]) = None"
        using "1.prems"(4) Cons Lstat_missing [of f ph t current c] by auto
      moreover from this have "d' = d"
        using walk_more_links [of t kernelLinks "[]" current maxLinks] links_le w by simp
      ultimately show ?thesis
        using d ph Cons "1.prems"(3) lands_missing [of t d es missing] by auto
    qed
  next
    case (Inl e)
    then have e: "e = ErrNotExist" "current \<noteq> []" "resolveUp f ph t (butlast current) (last current # missing) = Inr p"
      using "1.prems"(1) by (cases e; auto simp: resolveUp.simps [of f ph t current] split: if_splits)+
    show ?thesis
      using "1.IH" [OF Inl e(1,2,3) "1.prems"(2)] "1.prems"(3) Inl e by (metis append.assoc append_Cons append_Nil append_butlast_last_id list.sel(1))
  qed
qed

lemma proper_candidatePath: "proper root \<Longrightarrow> proper (candidatePath root s)"
  by (simp add: candidatePath_def proper_cleanFrom)

text \<open>What a resolved path is worth: it lies under the root and is reached without a link.\<close>

lemma resolve_Inr:
  assumes "resolve f ph t sb s mutation = Inr p" "isDir t" "proper (sbRoot sb)"
  shows "lands t p \<and> prefix (sbRoot sb) p"
proof -
  define c where "c = candidatePath (sbRoot sb) (trim_space s)"
  have "resolveExistingOrParent f ph t c = Inr p" "withinRoot (sbRoot sb) p"
    using assms(1) by (auto simp: resolve_def Let_def c_def split: if_splits sum.splits osError.splits)
  moreover from this have "lands t p"
    using resolveUp_lands [of f ph t c "[]" p] assms(2) proper_candidatePath [OF assms(3)] by (simp add: resolveExistingOrParent_def c_def)
  ultimately show ?thesis using withinRoot_iff lands_proper by blast
qed

lemma atomicWriteFile_effect:
  assumes "lands t p" "p \<noteq> []" "atomicWriteFile f name t p bytes perm = (r, t')" "name \<noteq> last p \<or> look t p \<noteq> None"
  shows "(\<forall>q. prefix q (butlast p) \<longrightarrow> sameApart q t t') \<and>
    (r \<noteq> None \<longrightarrow> (\<forall>q n. look t q = Some n \<longrightarrow> \<not> isDir n \<longrightarrow> look t' q = Some n)) \<and>
    (r = None \<longrightarrow> look t' p = Some (FileNode bytes perm) \<and> filesKept p t t')"
proof (cases "createTemp f name t (butlast p)")
  case (Pair x t1)
  define d where "d = butlast p"
  have p: "p = d @ [last p]" using assms(2) by (simp add: d_def)
  show ?thesis
  proof (cases x)
    case (Inl e)
    then have "t1 = t" using Pair by (auto simp: createTemp_def split: sum.splits if_splits)
    with Inl Pair assms(3) show ?thesis by (auto simp: atomicWriteFile_def)
  next
    case (Inr tmp)
    note c = createTemp_at [OF assms(1,2) Pair [unfolded Inr], folded d_def]
    have name: "name \<noteq> last p" using c(1,4) assms(4) p by auto
    have t1: "tempAt d name t t1 [] 384" using c tempAt_new [of t d _ name "[]" 384] by auto
    then obtain ds where "look t1 d = Some (DirNode ds)" by (auto simp: tempAt_def)
    then have fill: "fillFile t1 (d @ [name]) bytes perm = put (d @ [name]) (FileNode bytes perm) t1"
      using kernelPath_below_dir c(3) by (simp add: fillFile_def)
    note t2 = tempAt_fill [OF t1, of bytes perm]
    show ?thesis
    proof (cases "firstFault f [CallChmod tmp, CallWrite tmp, CallSync tmp, CallCloseFile tmp]")
      case (Some e)
      then have "r \<noteq> None" "t' = snd (osRemove f t1 (d @ [name]))"
        using assms(3) Pair Inr c(1) by (auto simp: atomicWriteFile_def d_def)
      with tempAt_removed [OF t1 this(2)] show ?thesis by (auto simp: d_def)
    next
      case None
      obtain r2 v where v: "osRename f (put (d @ [name]) (FileNode bytes perm) t1) (d @ [name]) p = (r2, v)" by fastforce
      then have r: "r = r2" "t' = snd (osRemove f v (d @ [name]))"
        using assms(3) Pair Inr c(1) None fill by (auto simp: atomicWriteFile_def d_def split: option.splits)
      show ?thesis
      proof (cases r2)
        case None
        with v p tempAt_renamed [OF t2 name, of f v] r show ?thesis by (simp add: d_def)
      next
        case (Some e)
        have "v = put (d @ [name]) (FileNode bytes perm) t1"
          using v Some osRename_sibling [of "put (d @ [name]) (FileNode bytes perm) t1" d _ name "FileNode bytes perm" "last p" f] t2 name p
          by (auto simp: tempAt_def isDir_def)
        with tempAt_removed [OF t2, of t' f] r Some show ?thesis by (auto simp: d_def)
      qed
    qed
  qed
qed

subsection \<open>Confinement of the tools\<close>

definition rootOK :: "node \<Rightarrow> sandbox \<Rightarrow> bool" where
  "rootOK t sb \<longleftrightarrow> sbRoot sb \<noteq> [] \<and> proper (sbRoot sb) \<and> isDir t \<and> (\<exists>es. look t (sbRoot sb) = Some (DirNode es))"

text \<open>A sandbox that was made is on a directory and its root has no link in it.\<close>

lemma NewFilesystemSandbox_ok:
  assumes "NewFilesystemSandbox f t cwd root a b = Inr sb" "isDir t"
  shows "rootOK t sb"
proof -
  obtain abs n where w: "walk t maxLinks [] abs = Inr (sbRoot sb)" "sbRoot sb \<noteq> []" "follow t (sbRoot sb) = Inr n" "isDir n"
    using assms(1)
    by (auto simp: NewFilesystemSandbox_def Stat_def guarded_def dest!: EvalSymlinks_Inr split: if_splits sum.splits option.splits)
  have "physical t (sbRoot sb)"
    using walk_physical [OF w(1)] assms(2) by (auto simp: isDir_def split: node.splits)
  moreover from this have "look t (sbRoot sb) = Some n"
    using follow_lands [OF lands_physical w(3)] by simp
  ultimately show ?thesis
    using w assms(2) by (auto simp: rootOK_def physical_def isDir_def split: node.splits)
qed

lemma resolveUp_last:
  "resolveUp f ph t current missing = Inr p \<Longrightarrow> missing \<noteq> [] \<Longrightarrow> last p = last missing"
proof (induction f ph t current missing rule: resolveUp.induct)
  case (1 f ph t current missing)
  then show ?case
    by (auto simp: resolveUp.simps [of f ph t current] split: sum.splits osError.splits if_splits)
qed

lemma resolve_last:
  assumes "resolve f ph t sb s mutation = Inr p" "isDir t" "proper (sbRoot sb)"
  shows "look t p \<noteq> None \<or> last p = last (candidatePath (sbRoot sb) (trim_space s))"
proof -
  define c where "c = candidatePath (sbRoot sb) (trim_space s)"
  have r: "resolveUp f ph t c [] = Inr p"
    using assms(1) by (auto simp: resolve_def resolveExistingOrParent_def Let_def c_def split: if_splits sum.splits osError.splits)
  show ?thesis
  proof (cases "Lstat f ph t c")
    case (Inr n)
    with r have "walk t maxLinks [] c = Inr p"
      by (auto simp: resolveUp.simps [of f ph t c] EvalSymlinks_Inr split: sum.splits)
    then show ?thesis
      using walk_physical [of t maxLinks "[]" c p] assms(2) by (auto simp: physical_def isDir_def split: node.splits)
  next
    case (Inl e)
    with r have "resolveUp f ph t (butlast c) [last c] = Inr p"
      by (cases e) (auto simp: resolveUp.simps [of f ph t c] split: if_splits)
    then show ?thesis using resolveUp_last [of f ph t "butlast c" "[last c]" p] by (simp add: c_def)
  qed
qed

lemma existingBytes_Inr:
  assumes "existingBytes env t sb p app len = Inr (old, perm)" "lands t p"
  shows "(\<exists>b m. look t p = Some (FileNode b m) \<and> old = (if app then b else []) \<and> (app \<longrightarrow> int (length old + len) \<le> maxWriteBytes sb)) \<or> old = [] \<and>
    (\<forall>es. look t p \<noteq> Some (DirNode es))"
proof (cases "Stat (envFaults env) t p")
  case (Inr n)
  then have n: "look t p = Some n" using follow_lands [OF assms(2)] by (auto simp: Stat_def guarded_def split: option.splits)
  with Inr assms(1) show ?thesis
    by (cases n) (auto simp: existingBytes_def isRegular_def guarded_def split: if_splits option.splits)
next
  case (Inl e)
  then have e: "e = ErrNotExist" "old = []" using assms(1) by (cases e; auto simp: existingBytes_def)+
  have "look t p \<noteq> Some (DirNode es)" for es
  proof
    assume "look t p = Some (DirNode es)"
    then have "physical t p" using lands_proper [OF assms(2)] by (simp add: physical_def isLink_def)
    then have "follow t p = Inr (DirNode es)"
      using walk_self [of t "[]" p "DirNode es" kernelLinks] \<open>look t p = _\<close> by (simp add: follow_def physical_def isLink_def)
    with Inl e show False by (auto simp: Stat_def guarded_def split: option.splits)
  qed
  with e show ?thesis by blast
qed

lemma resIsError_simps [simp]: "resIsError (Errorf s)" "\<not> resIsError (textResult s)"
  by (simp_all add: Errorf_def textResult_def)

text \<open>The three stages of a write: nothing or new directories, the checks, the atomic write.\<close>

lemma writeInside_cases:
  assumes "writeInside env t args sb = (res, t')" "rootOK t sb"
  obtains (early) p where "resIsError res" "grown p t t'" "sameApart (sbRoot sb) t t'"
  | (late) p0 t1 p old perm r where "grown (butlast p0) t t1" "sameApart (sbRoot sb) t t1" "lands t1 p" "prefix (sbRoot sb) p" "p \<noteq> sbRoot sb"
      "resolve (envFaults env) 2 t1 sb (waPath args) True = Inr p" "isDir t1"
      "existingBytes env t1 sb p (waAppend args) (length (waContent args)) = Inr (old, perm)"
      "int (length (waContent args)) \<le> maxWriteBytes sb"
      "atomicWriteFile (envFaults env) (envTemp env) t1 p (old @ waContent args) perm = (r, t')" "resIsError res \<longleftrightarrow> r \<noteq> None"
      "\<And>q n. look t1 q = Some n \<Longrightarrow> \<not> isDir n \<Longrightarrow> look t q = Some n"
proof -
  have root: "proper (sbRoot sb)" "isDir t" "\<exists>es. look t (sbRoot sb) = Some (DirNode es)" "sbRoot sb \<noteq> []"
    using assms(2) by (auto simp: rootOK_def)
  consider (same) "resIsError res" "t' = t"
    | (found) p0 where "resolve (envFaults env) 0 t sb (waPath args) True = Inr p0" "int (length (waContent args)) \<le> maxWriteBytes sb"
    using assms(1) by (auto simp: writeInside_def split: if_splits sum.splits)
  then show thesis
  proof cases
    case same
    then show thesis using early [of "[]"] root grown_refl by simp
  next
    case found
    obtain r1 t1 where "mkdirAll (envFaults env) t (butlast p0) = (r1, t1)" by fastforce
    note made = found(1) this found(2)
    note l0 = resolve_Inr [OF made(1) root(2,1)]
    have g: "grown (butlast p0) t t1"
      using mkdirAll_grown [OF made(2) lands_parent root(2)] l0 root(2) by blast
    have ap: "sameApart (sbRoot sb) t t1"
    proof (cases "p0 = sbRoot sb")
      case True
      then obtain es where "look t (butlast p0) = Some (DirNode es)"
        using root(3,4) look_dir [of t "butlast p0" "last p0" "[]"] by (metis append_butlast_last_id)
      moreover have "proper (butlast p0)" using root(1) True by (simp add: proper_butlast)
      ultimately have "follow t (butlast p0) = Inr (DirNode es)"
        using walk_self [of t "[]" "butlast p0" "DirNode es" kernelLinks] by (simp add: follow_def isLink_def)
      then have "t1 = t" using made(2) by (simp add: mkdirAll.simps [of _ t] isDir_def)
      then show ?thesis by simp
    next
      case False
      then have "prefix (sbRoot sb) (butlast p0)"
        using l0 by (metis append_butlast_last_id prefix_snoc butlast.simps(1) prefix_Nil)
      with g show ?thesis by (rule grown_apart [rotated])
    qed
    have d1: "isDir t1" "\<exists>es. look t1 (sbRoot sb) = Some (DirNode es)"
      using g root(3) unfolding grown_def by (auto simp: isDir_def)
    have stop: thesis if "resIsError res" "t' = t1"
      using early [of "butlast p0"] that g ap by simp
    show thesis
    proof (cases "r1 = None \<and> envCtx env 1 = None \<and> (\<exists>p old perm. resolve (envFaults env) 2 t1 sb (waPath args) True = Inr p \<and>
        existingBytes env t1 sb p (waAppend args) (length (waContent args)) = Inr (old, perm))")
      case True
      then obtain p old perm where p: "r1 = None" "envCtx env 1 = None" "resolve (envFaults env) 2 t1 sb (waPath args) True = Inr p"
          "existingBytes env t1 sb p (waAppend args) (length (waContent args)) = Inr (old, perm)" by auto
      note l = resolve_Inr [OF p(3) d1(1) root(1)]
      have "p \<noteq> sbRoot sb" using existingBytes_Inr [OF p(4)] l d1(2) by auto
      moreover obtain r where "atomicWriteFile (envFaults env) (envTemp env) t1 p (old @ waContent args) perm = (r, t')" "resIsError res \<longleftrightarrow> r \<noteq> None"
        using assms(1) made p by (auto simp: writeInside_def split: prod.splits option.splits)
      ultimately show thesis using late [OF g ap] l p d1(1) made(3) mkdirAll_files [OF made(2)] by blast
    next
      case False
      then show thesis
        using stop assms(1) made
        by (auto simp: writeInside_def split: option.splits sum.splits prod.splits)
    qed
  qed
qed

lemma enterTool_cases:
  assumes "enterTool env verb sandboxOf raw t body = (res, t')"
  obtains "resIsError res" "t' = t" | args sb where "envDecode env raw = Inr args" "sandboxOf t = Inr sb" "body args sb = (res, t')"
  using assms by (auto simp: enterTool_def split: option.splits sum.splits)

definition tempApart :: "writeArgs toolEnv \<Rightarrow> sandbox \<Rightarrow> string \<Rightarrow> bool" where
  "tempApart env sb raw =
     (case envDecode env raw of
        Inl e \<Rightarrow> True
      | Inr args \<Rightarrow> last (candidatePath (sbRoot sb) (trim_space (waPath args))) \<noteq> envTemp env)"

text \<open>The calls a model can make of the filesystem tools.\<close>

datatype fsCall =
    CallFsRead "readArgs toolEnv" string
  | CallFsWrite "writeArgs toolEnv" string
  | CallFsList "listArgs toolEnv" string
  | CallFsDelete "deleteArgs toolEnv" string
  | CallFsStat "pathArgs toolEnv" string
  | CallFsMkdir "pathArgs toolEnv" string

fun runFs :: "fsTool \<Rightarrow> fsCall \<Rightarrow> node \<Rightarrow> toolResult \<times> node" where
  "runFs cfg (CallFsRead env raw) t = FSRead env cfg raw t"
| "runFs cfg (CallFsWrite env raw) t = FSWrite env cfg raw t"
| "runFs cfg (CallFsList env raw) t = FSList env cfg raw t"
| "runFs cfg (CallFsDelete env raw) t = FSDelete env cfg raw t"
| "runFs cfg (CallFsStat env raw) t = FSStat env cfg raw t"
| "runFs cfg (CallFsMkdir env raw) t = FSMkdir env cfg raw t"

fun tempOK :: "sandbox \<Rightarrow> fsCall \<Rightarrow> bool" where
  "tempOK sb (CallFsWrite env raw) = tempApart env sb raw"
| "tempOK sb call = True"

lemma sandboxFor_own: "tlSandbox cfg = Some sb \<Longrightarrow> sandboxFor env t cfg a b = Inr sb"
  by (simp add: sandboxFor_def)

lemma FSRead_same: "snd (FSRead env cfg raw t) = t"
  by (auto simp: FSRead_def enterTool_def split: option.split sum.split)

lemma FSStat_same: "snd (FSStat env cfg raw t) = t"
  by (auto simp: FSStat_def enterTool_def split: option.split sum.split)

lemma FSList_same: "snd (FSList env cfg raw t) = t"
  by (auto simp: FSList_def enterTool_def Let_def split: option.split sum.split node.split walkOut.split)

lemma writeInside_apart:
  assumes "writeInside env t args sb = (res, t')" "rootOK t sb"
    and "last (candidatePath (sbRoot sb) (trim_space (waPath args))) \<noteq> envTemp env"
  shows "sameApart (sbRoot sb) t t'"
proof (cases rule: writeInside_cases [OF assms(1,2), case_names early late])
  case (late p0 t1 p old perm r)
  have "p \<noteq> []" "prefix (sbRoot sb) (butlast p)"
    using late(4,5) assms(2) by (auto simp: rootOK_def) (metis append_butlast_last_id prefix_snoc butlast.simps(1))
  moreover have "envTemp env \<noteq> last p \<or> look t1 p \<noteq> None"
    using resolve_last [OF late(6,7)] assms(2,3) by (auto simp: rootOK_def)
  ultimately show ?thesis
    using atomicWriteFile_effect [OF late(3) _ late(10)] late(2) sameApart_trans by blast
qed

lemma FSDelete_apart:
  assumes "FSDelete env cfg raw t = (res, t')" "rootOK t sb" "tlSandbox cfg = Some sb"
  shows "sameApart (sbRoot sb) t t'"
  using assms(1) unfolding FSDelete_def
proof (cases rule: enterTool_cases)
  case (2 args sb')
  have sb: "sb' = sb" using 2(2) assms(3) by (simp add: sandboxFor_own)
  show ?thesis
  proof (cases "resolve (envFaults env) 0 t sb (daPath args) True")
    case (Inr p)
    with resolve_Inr [OF Inr] assms(2) have l: "lands t p" "prefix (sbRoot sb) p" by (auto simp: rootOK_def)
    have "t' = snd (osRemoveAll (envFaults env) t p) \<or> t' = snd (osRemove (envFaults env) t p)"
      using 2(3) Inr sb by (auto split: if_splits prod.splits option.splits)
    then show ?thesis
      using osRemoveAll_apart [OF l(1)] osRemove_apart [OF l(1)] sameApart_under [OF l(2)] by blast
  qed (use 2 sb in auto)
qed simp

lemma FSMkdir_apart:
  assumes "FSMkdir env cfg raw t = (res, t')" "rootOK t sb" "tlSandbox cfg = Some sb"
  shows "sameApart (sbRoot sb) t t'"
  using assms(1) unfolding FSMkdir_def
proof (cases rule: enterTool_cases)
  case (2 args sb')
  have sb: "sb' = sb" using 2(2) assms(3) by (simp add: sandboxFor_own)
  show ?thesis
  proof (cases "resolve (envFaults env) 0 t sb (paPath args) True")
    case (Inr p)
    with resolve_Inr [OF Inr] assms(2) have l: "lands t p" "prefix (sbRoot sb) p" by (auto simp: rootOK_def)
    obtain r1 t1 where m: "mkdirAll (envFaults env) t p = (r1, t1)" by fastforce
    then have "t' = t1" using 2(3) Inr sb by (auto split: option.splits sum.splits)
    then show ?thesis using mkdirAll_grown [OF m l(1)] grown_apart [OF l(2)] assms(2) by (auto simp: rootOK_def)
  qed (use 2 sb in auto)
qed simp

text \<open>
  C8. The filesystem tools are confined to their sandbox: whatever path, arguments and links the model uses and whatever
  fails, a call of any of the six tools leaves everything that is neither under the root nor on the way
  to it as it was.
\<close>

theorem sandbox_confines_tools:
  assumes "runFs cfg call t = (res, t')" "tlSandbox cfg = Some sb" "rootOK t sb" "tempOK sb call"
    and "\<not> prefix (sbRoot sb) q" "\<not> prefix q (sbRoot sb)"
  shows "look t' q = look t q"
proof -
  have "sameApart (sbRoot sb) t t'"
  proof (cases call)
    case (CallFsWrite env raw)
    then have "FSWrite env cfg raw t = (res, t')" using assms(1) by simp
    then show ?thesis
      unfolding FSWrite_def
    proof (cases rule: enterTool_cases)
      case (2 args sb')
      then have "sb' = sb" using assms(2) by (simp add: sandboxFor_own)
      with 2 writeInside_apart [of env t args sb res t'] assms(3,4) CallFsWrite show ?thesis by (simp add: tempApart_def)
    qed simp
  qed (use assms FSRead_same FSStat_same FSList_same FSDelete_apart FSMkdir_apart in \<open>auto dest: arg_cong [of _ _ snd]\<close>)
  with assms(5,6) show ?thesis by (simp add: sameApart_def)
qed



fun walked :: "walkOut \<Rightarrow> string list" where
  "walked (WalkFailed e) = []"
| "walked (WalkStopped ls) = ls"
| "walked (WalkOn k ls) = ls"

lemma walkEntries_bounded: "length ls \<le> m \<Longrightarrow> length (walked (walkEntries env root rc m rel es k ls)) \<le> m"
proof (induction env root rc m rel es k ls rule: walkEntries.induct)
  case (2 env root rc m rel c n es k ls)
  show ?case
  proof (cases "envCtx env k = None \<and> length ls < m")
    case True
    define ls1 where "ls1 = ls @ [entryLine env root (rel @ [c]) n]"
    define sub where "sub = (case n of
         DirNode ds \<Rightarrow>
           if \<not> rc then WalkOn (Suc k) ls1
           else (case envFaults env (CallWalk (root @ rel @ [c])) of
                   Some e \<Rightarrow> WalkFailed (envErr env (ErrOther e))
                 | None \<Rightarrow> walkEntries env root rc m (rel @ [c]) ds (Suc k) ls1)
       | _ \<Rightarrow> WalkOn (Suc k) ls1)"
    have "length ls1 \<le> m" using True by (simp add: ls1_def)
    then have l: "length (walked sub) \<le> m"
      using True 2(1) [OF _ _ ls1_def] by (auto simp: sub_def split: node.splits option.splits)
    have "walkEntries env root rc m rel ((c, n) # es) k ls =
        (case sub of WalkOn k2 ls2 \<Rightarrow> walkEntries env root rc m rel es k2 ls2 | stop \<Rightarrow> stop)"
      using True unfolding sub_def ls1_def by (simp add: Let_def)
    moreover have "length (walked (walkEntries env root rc m rel es k2 ls2)) \<le> m" if "sub = WalkOn k2 ls2" for k2 ls2
      using 2(2) [OF _ _ ls1_def sub_def that] True l that by simp
    ultimately show ?thesis using l by (auto split: walkOut.splits)
  qed (use 2(3) in \<open>auto split: option.splits\<close>)
qed simp

text \<open>
  A read gives nothing away from outside: the text of a successful \<^verbatim>\<open>fs_read\<close> is the content of a regular file under the
  sandbox root that is within the read limit, or its first \<^verbatim>\<open>max_bytes\<close> bytes with the note that it was cut, and
  the tree is unchanged.
\<close>

theorem fs_read_stays_inside:
  assumes "FSRead env cfg raw t = (res, t')" "tlSandbox cfg = Some sb" "rootOK t sb" "\<not> resIsError res"
  shows "t' = t \<and> (\<exists>args p bytes perm. envDecode env raw = Inr args \<and> prefix (sbRoot sb) p \<and>
      look t p = Some (FileNode bytes perm) \<and> int (length bytes) \<le> maxReadBytes sb \<and>
      (resContent res = bytes \<or>
       0 < raMaxBytes args \<and> raMaxBytes args < int (length bytes) \<and>
         resContent res = take (nat (raMaxBytes args)) bytes @ [CHR 0x0A] @ ''[truncated: '' @ showInt (raMaxBytes args) @ ''/'' @
           showInt (int (length bytes)) @ '' bytes]''))"
  using assms(1) unfolding FSRead_def
proof (cases rule: enterTool_cases)
  case (2 args sb')
  have sb: "sb' = sb" using 2(2) assms(2) by (simp add: sandboxFor_own)
  have root: "isDir t" "proper (sbRoot sb)" using assms(3) by (auto simp: rootOK_def)
  obtain p where p: "resolve (envFaults env) 0 t sb (raPath args) False = Inr p"
    using 2(3) assms(4) sb by (auto split: sum.splits)
  note l = resolve_Inr [OF p root]
  obtain n where n: "follow t p = Inr n" "isRegular n" "int (length (fileData n)) \<le> maxReadBytes sb"
    using 2(3) assms(4) p unfolding sb guarded_def by (auto split: sum.splits option.splits if_splits)
  then obtain bytes perm where f: "n = FileNode bytes perm" by (cases n) (auto simp: isRegular_def)
  with l n follow_lands [of t p n] have "look t p = Some (FileNode bytes perm)" by simp
  with 2 p n f l assms(4) show ?thesis
    unfolding sb guarded_def by (auto simp: textResult_def isRegular_def split: sum.splits option.splits if_splits)
qed (use assms(4) in simp)

subsection \<open>A small tree\<close>

text \<open>
  The sandbox \<^verbatim>\<open>/r\<close> holds a file and a link to \<^verbatim>\<open>/\<close>, which a user may have made; a file is outside of it.
\<close>

definition demoTree :: node where
  "demoTree = DirNode [(''etc'', DirNode [(''pw'', FileNode ''s'' 384)]),
     (''r'', DirNode [(''a'', FileNode ''hi'' 420), (''l'', LinkNode True [])])]"

definition demoSandbox :: sandbox where
  "demoSandbox = \<lparr>sbRoot = [''r''], maxReadBytes = 8, maxWriteBytes = 8\<rparr>"

definition demoTool :: fsTool where
  "demoTool = \<lparr>tlRoot = [], tlMax = 8, tlSandbox = Some demoSandbox, tlCwd = Inr []\<rparr>"

definition demoEnv :: "'a \<Rightarrow> 'a toolEnv" where
  "demoEnv args = \<lparr>envFaults = (\<lambda>_. None), envCtx = (\<lambda>_. None), envQuote = id, envErr = (\<lambda>_. ''error''), envFsErr = (\<lambda>_. ''error''),
     envDecode = (\<lambda>_. Inr args), envTemp = ''.t'', envStat = (\<lambda>_ _. ([], [])), envDirSize = (\<lambda>_. 0)\<rparr>"

lemmas demo_defs = demoTree_def demoSandbox_def demoTool_def demoEnv_def enterTool_def sandboxFor_def resolve_def
  candidatePath_def IsAbs_def withinRoot_def resolveExistingOrParent_def Lstat_def guarded_def EvalSymlinks_def kernelPath_def
  kernelLinks_def maxLinks_def trim_space_plain byte_val_def Let_def follow_def Stat_def isLink_def isDir_def isRegular_def

lemma demo_rootOK: "rootOK demoTree demoSandbox"
  by (simp add: rootOK_def demoTree_def demoSandbox_def isDir_def)

text \<open>
  The protection of the root is by name only: through a link that leads above the root, a path other than the root's
  resolves to the root, and a recursive delete of it removes the whole sandbox.
\<close>

theorem root_removed_through_link:
  "FSDelete (demoEnv \<lparr>daPath = ''l/r'', daRecursive = True\<rparr>) demoTool [] demoTree =
     (textResult ''deleted /r'', DirNode [(''etc'', DirNode [(''pw'', FileNode ''s'' 384)])])"
  by (simp add: FSDelete_def demo_defs walk_eval resolveUp.simps osRemoveAll_def qpath_def pathString_def dropEntry_def)

definition demoWrite :: "writeArgs toolEnv" where
  "demoWrite = demoEnv \<lparr>waPath = ''a'', waContent = ''!'', waAppend = True\<rparr>"

lemma decimal_small: "decimal (Suc 0) = ''1''" "decimal 2 = ''2''"
  by (simp_all add: decimal.simps char_of_def bit_simps)

lemma demo_tempApart: "tempApart demoWrite demoSandbox []"
  by (simp add: tempApart_def demoWrite_def demo_defs)

lemma demo_write: "FSWrite demoWrite demoTool [] demoTree =
    (textResult ''wrote 1 bytes to /r/a'',
     DirNode [(''etc'', DirNode [(''pw'', FileNode ''s'' 384)]),
       (''r'', DirNode [(''a'', FileNode ''hi!'' 420), (''l'', LinkNode True [])])])"
  by (simp add: demoWrite_def FSWrite_def writeInside_def demo_defs walk_eval resolveUp.simps mkdirAll.simps existingBytes_def
      atomicWriteFile_def createTemp_def firstFault_def fillFile_def osRename_def osRemove_def qpath_def pathString_def dropEntry_def
      list_less_def lexordp_simps less_char_def showInt_def decimal_small)

theorem sandbox_confines_tools_witness:
  "look (snd (runFs demoTool (CallFsWrite demoWrite []) demoTree)) [''etc'', ''pw''] = Some (FileNode ''s'' 384)"
  using sandbox_confines_tools [of demoTool "CallFsWrite demoWrite []" demoTree _ _ demoSandbox "[''etc'', ''pw'']", OF prod.collapse [symmetric]]
    demo_rootOK demo_tempApart
  by (simp add: demoTool_def) (simp add: demoSandbox_def demoTree_def)


definition demoRead :: "readArgs toolEnv" where
  "demoRead = demoEnv \<lparr>raPath = ''/r/l/r/a'', raMaxBytes = 1\<rparr>"

lemma demo_read: "FSRead demoRead demoTool [] demoTree = (textResult (''h'' @ [CHR 0x0A] @ ''[truncated: 1/2 bytes]''), demoTree)"
  by (simp add: demoRead_def FSRead_def demo_defs walk_eval resolveUp.simps showInt_def decimal_small)

theorem fs_read_stays_inside_witness:
  "snd (FSRead demoRead demoTool [] demoTree) = demoTree \<and>
   (\<exists>args p bytes perm. envDecode demoRead [] = Inr args \<and> prefix [''r''] p \<and> look demoTree p = Some (FileNode bytes perm) \<and>
      int (length bytes) \<le> 8)"
proof -
  have f: "tlSandbox demoTool = Some demoSandbox" "\<not> resIsError (textResult (''h'' @ [CHR 0x0A] @ ''[truncated: 1/2 bytes]''))"
    by (simp_all add: demoTool_def)
  from fs_read_stays_inside [OF demo_read f(1) demo_rootOK f(2)] show ?thesis
    unfolding demo_read demoSandbox_def sandbox.simps by auto
qed

end
