(* ===== verification/Server_Manager.thy ===== *)
theory Server_Manager
  imports Go_Text "HOL-Library.Sublist"
begin

section \<open>The model server process (\<^verbatim>\<open>internal/llm/server_manager.go\<close>)\<close>

text \<open>
  The manager starts at most one \<^verbatim>\<open>llama-server\<close>, waits until it is healthy and stops it.  Its goroutines are the one that
  waits for the process, the first call of \<^verbatim>\<open>Stop\<close> and any number of calls of \<^verbatim>\<open>WaitReady\<close>; each has a program
  counter, and a step of one of them is what it does between two places where another may run.  The process, the
  clock, the contexts and the health endpoint are the environment: their answers are in the actions.
\<close>

subsection \<open>Configuration\<close>

datatype lifecycleErrorCode =
    LifecycleInvalidConfig | LifecycleStartFailed | LifecycleEarlyExit | LifecycleStartupTimeout
  | LifecycleCancelled | LifecycleShutdownFailed

text \<open>The causes of a joined error are a list.\<close>

record lifecycleError =
  lcCode :: lifecycleErrorCode
  lcOp :: string
  lcErr :: "go_error list"

record serverConfig =
  scMode :: string
  scBinary :: string
  scArgs :: "string list"
  scHealthURL :: string
  scStartupTimeout :: duration
  scShutdownTimeout :: duration
  scHealthInterval :: duration

definition lifecycle :: "lifecycleErrorCode \<Rightarrow> string \<Rightarrow> go_error \<Rightarrow> lifecycleError" where
  "lifecycle code op err = \<lparr>lcCode = code, lcOp = op, lcErr = [err]\<rparr>"

definition validateHealthURL :: "(string \<Rightarrow> go_error + url) \<Rightarrow> string \<Rightarrow> go_error option" where
  "validateHealthURL parse raw =
     (case parse (trim_space raw) of
        Inl e \<Rightarrow> Some (Wrapped ''parse health URL'' e)
      | Inr u \<Rightarrow>
          if urlScheme u \<noteq> ''http'' \<and> urlScheme u \<noteq> ''https'' then Some (Message ''health URL scheme must be http or https'')
          else if urlHost u = [] then Some (Message ''health URL host is required'')
          else if urlUser u then Some (Message ''health URL userinfo is not allowed'')
          else None)"

datatype serverState = ServerNew | ServerStarted | ServerReady | ServerExited | ServerStopped

text \<open>
  The goroutines.  \<open>WaiterGot\<close>: the process has been waited for, the channel is not closed yet.  The counters of \<^verbatim>\<open>stop\<close> and
  \<^verbatim>\<open>WaitReady\<close> name what comes next.
\<close>

datatype waiterPc = WaiterNone | WaiterWaiting | WaiterGot | WaiterDone

datatype stopPc =
    StopIdle | StopBegun | StopLooked bool serverState | StopSignalled "go_error option" | StopKilled | StopMark
  | StopDone "lifecycleError option"

datatype readyPc =
    ReadyIdle | ReadyLoop | ReadyProbing | ReadyProbed | ReadyCommit | ReadySelect
  | ReadyStopping lifecycleError | ReadyDone "lifecycleError option" "lifecycleError option"

datatype procCall = ProcStart | ProcWait | ProcSignal | ProcKill

record server =
  svCfg :: serverConfig
  svState :: serverState
  svProcess :: bool
  svWaitDone :: bool
  svWaitErr :: "go_error option"
  svWaiter :: waiterPc
  svStopper :: stopPc
  svReady :: "nat \<Rightarrow> readyPc"
  svCalls :: "procCall list"
  svAlive :: bool
  svStatus :: "go_error option"
  svProbed :: bool
  svRaced :: bool

definition managed :: "server \<Rightarrow> bool" where
  "managed m \<longleftrightarrow> scMode (svCfg m) \<noteq> ''external''"

definition newServer :: "serverConfig \<Rightarrow> server" where
  "newServer cfg = \<lparr>svCfg = cfg, svState = ServerNew, svProcess = False, svWaitDone = False, svWaitErr = None,
     svWaiter = WaiterNone, svStopper = StopIdle, svReady = (\<lambda>_. ReadyIdle), svCalls = [], svAlive = False, svStatus = None,
     svProbed = False, svRaced = False\<rparr>"

definition NewServerManager :: "(string \<Rightarrow> go_error + url) \<Rightarrow> serverConfig \<Rightarrow> lifecycleError + server" where
  "NewServerManager parse cfg0 =
     (let cfg = (if scMode cfg0 = [] then cfg0\<lparr>scMode := ''managed''\<rparr> else cfg0);
          invalid = (\<lambda>what. Inl (lifecycle LifecycleInvalidConfig ''configure'' (Message what))) in
      if scMode cfg \<noteq> ''managed'' \<and> scMode cfg \<noteq> ''external'' then invalid ''mode must be managed or external''
      else if scMode cfg = ''managed'' \<and> trim_space (scBinary cfg) = [] then invalid ''binary is required in managed mode''
      else if scStartupTimeout cfg \<le> 0 then invalid ''startup timeout must be greater than zero''
      else if scShutdownTimeout cfg \<le> 0 then invalid ''shutdown timeout must be greater than zero''
      else if scHealthInterval cfg \<le> 0 then invalid ''health interval must be greater than zero''
      else (case validateHealthURL parse (scHealthURL cfg) of
              Some e \<Rightarrow> Inl (lifecycle LifecycleInvalidConfig ''configure'' e)
            | None \<Rightarrow> Inr (newServer cfg)))"

subsection \<open>Start and the waiting goroutine\<close>

text \<open>
  \<open>ctxErr\<close> is the answer of the context, \<open>made\<close> whether the factory made a process, \<open>startErr\<close> what starting it said.  The
  flag \<open>svRaced\<close> is not in the code: it remembers that a start came while a stop had already looked.
\<close>

definition looked :: "stopPc \<Rightarrow> bool" where
  "looked pc = (case pc of StopIdle \<Rightarrow> False | StopBegun \<Rightarrow> False | _ \<Rightarrow> True)"

definition serverStart ::
  "go_error option \<Rightarrow> bool \<Rightarrow> go_error option \<Rightarrow> server \<Rightarrow> lifecycleError option \<times> server"
where
  "serverStart ctxErr made startErr m =
     (case ctxErr of
        Some e \<Rightarrow> (Some (lifecycle LifecycleCancelled ''start'' e), m)
      | None \<Rightarrow>
          if svState m \<noteq> ServerNew then (Some (lifecycle LifecycleInvalidConfig ''start'' (Message ''invalid state'')), m)
          else if \<not> managed m then (None, m\<lparr>svState := ServerStarted\<rparr>)
          else if \<not> made then (Some (lifecycle LifecycleStartFailed ''start'' (Message ''process factory returned nil'')), m)
          else (case startErr of
                  Some e \<Rightarrow> (Some (lifecycle LifecycleStartFailed ''start'' e), m\<lparr>svState := ServerStopped\<rparr>)
                | None \<Rightarrow>
                    (None, m\<lparr>svProcess := True, svState := ServerStarted, svWaiter := WaiterWaiting, svAlive := True,
                        svCalls := svCalls m @ [ProcStart, ProcWait], svRaced := svRaced m \<or> looked (svStopper m)\<rparr>)))"

text \<open>\<^verbatim>\<open>waitProcess\<close> once the process has ended: what it does under the lock, and the close of the channel.\<close>

definition waiterRecord :: "server \<Rightarrow> server" where
  "waiterRecord m = m\<lparr>svWaitErr := svStatus m, svWaiter := WaiterGot,
     svState := (if svState m \<noteq> ServerStopped then ServerExited else svState m)\<rparr>"

definition waiterClose :: "server \<Rightarrow> server" where
  "waiterClose m = m\<lparr>svWaitDone := True, svWaiter := WaiterDone\<rparr>"

text \<open>\<^verbatim>\<open>Wait\<close>: \<open>None\<close> while it blocks.\<close>

definition serverWait :: "server \<Rightarrow> (lifecycleError + go_error option) option" where
  "serverWait m =
     (if \<not> managed m then Some (Inr None)
      else if svState m = ServerNew then Some (Inl (lifecycle LifecycleInvalidConfig ''wait'' (Message ''server has not been started'')))
      else if svWaitDone m then Some (Inr (svWaitErr m)) else None)"

subsection \<open>Stop\<close>

definition stopLook :: "server \<Rightarrow> server" where
  "stopLook m =
     (if \<not> managed m then m\<lparr>svState := ServerStopped, svStopper := StopDone None\<rparr>
      else m\<lparr>svStopper := StopLooked (svProcess m) (svState m)\<rparr>)"

definition stopSignal :: "bool \<Rightarrow> serverState \<Rightarrow> go_error option \<Rightarrow> server \<Rightarrow> server" where
  "stopSignal process state signalErr m =
     (if \<not> process \<or> state = ServerNew \<or> state = ServerStopped then m\<lparr>svStopper := StopMark\<rparr>
      else if svWaitDone m then m\<lparr>svStopper := StopMark\<rparr>
      else m\<lparr>svStopper := StopSignalled signalErr, svCalls := svCalls m @ [ProcSignal]\<rparr>)"

definition shutdownFailed :: "go_error list \<Rightarrow> lifecycleError" where
  "shutdownFailed es = \<lparr>lcCode = LifecycleShutdownFailed, lcOp = ''stop'', lcErr = es\<rparr>"

definition errList :: "go_error option \<Rightarrow> go_error list" where
  "errList e = (case e of None \<Rightarrow> [] | Some x \<Rightarrow> [x])"

text \<open>The wait for the channel: \<open>timeUp\<close> when the timer or the context was chosen; it is only left without it when the channel is closed.\<close>

definition stopKill :: "go_error option \<Rightarrow> go_error option \<Rightarrow> server \<Rightarrow> server" where
  "stopKill signalErr killErr m =
     (let m1 = m\<lparr>svCalls := svCalls m @ [ProcKill]\<rparr> in
      case killErr of
        Some e \<Rightarrow>
          if svWaitDone m then m1\<lparr>svStopper := StopMark\<rparr>
          else m1\<lparr>svStopper := StopDone (Some (shutdownFailed (errList signalErr @ [e])))\<rparr>
      | None \<Rightarrow> m1\<lparr>svStopper := StopKilled\<rparr>)"

definition markStopped :: "server \<Rightarrow> server" where
  "markStopped m = m\<lparr>svState := ServerStopped, svStopper := StopDone None\<rparr>"

text \<open>\<^verbatim>\<open>Stop\<close> calls \<^verbatim>\<open>stop\<close> once.\<close>

definition stopOnce :: "server \<Rightarrow> server" where
  "stopOnce m = (if svStopper m = StopIdle then m\<lparr>svStopper := StopBegun\<rparr> else m)"

subsection \<open>WaitReady\<close>

definition setReady :: "nat \<Rightarrow> readyPc \<Rightarrow> server \<Rightarrow> server" where
  "setReady i pc m = m\<lparr>svReady := (svReady m)(i := pc)\<rparr>"

definition readyReturn :: "nat \<Rightarrow> lifecycleError option \<Rightarrow> server \<Rightarrow> server" where
  "readyReturn i e = setReady i (ReadyDone e None)"

definition earlyExitError :: "server \<Rightarrow> lifecycleError" where
  "earlyExitError m = lifecycle LifecycleEarlyExit ''wait-ready''
     (case svWaitErr m of None \<Rightarrow> Message ''process exited before health became ready'' | Some e \<Rightarrow> e)"

definition readyCall :: "nat \<Rightarrow> server \<Rightarrow> server" where
  "readyCall i m =
     (if svState m = ServerReady then readyReturn i None m
      else if svState m \<noteq> ServerStarted
      then readyReturn i (Some (lifecycle LifecycleInvalidConfig ''wait-ready'' (Message ''server has not been started''))) m
      else setReady i ReadyLoop m)"

definition readyTop :: "nat \<Rightarrow> server \<Rightarrow> server" where
  "readyTop i m =
     (if managed m \<and> svWaitDone m then readyReturn i (Some (earlyExitError m)) m else setReady i ReadyProbing m)"

definition readyProbe :: "nat \<Rightarrow> bool \<Rightarrow> server \<Rightarrow> server" where
  "readyProbe i healthy m = (if healthy then setReady i ReadyProbed (m\<lparr>svProbed := True\<rparr>) else setReady i ReadySelect m)"

definition readyRecheck :: "nat \<Rightarrow> server \<Rightarrow> server" where
  "readyRecheck i m =
     (if managed m \<and> svWaitDone m then readyReturn i (Some (earlyExitError m)) m else setReady i ReadyCommit m)"

definition readyCommit :: "nat \<Rightarrow> server \<Rightarrow> server" where
  "readyCommit i m =
     (if svState m \<noteq> ServerStarted then readyReturn i (Some (earlyExitError m)) m
      else readyReturn i None (m\<lparr>svState := ServerReady\<rparr>))"

text \<open>The startup context has ended; \<open>ctxErr\<close> is the error of the caller's.\<close>

definition readinessError :: "go_error option \<Rightarrow> lifecycleError" where
  "readinessError ctxErr =
     (case ctxErr of
        Some e \<Rightarrow> lifecycle LifecycleCancelled ''wait-ready'' e
      | None \<Rightarrow> lifecycle LifecycleStartupTimeout ''wait-ready'' DeadlineExceeded)"

definition readyExpired :: "nat \<Rightarrow> go_error option \<Rightarrow> server \<Rightarrow> server" where
  "readyExpired i ctxErr m =
     (let e = readinessError ctxErr in
      if \<not> managed m then readyReturn i (Some e) m else setReady i (ReadyStopping e) (stopOnce m))"

subsection \<open>The steps\<close>

datatype svAction =
    ActStart "go_error option" bool "go_error option"
  | ActExit "go_error option"
  | ActWaiter
  | ActStop
  | ActStopper "go_error option" bool
  | ActReadyCall nat
  | ActReady nat bool
  | ActReadyExpired nat "go_error option"

text \<open>
  One step; \<open>None\<close> when the action is not possible.  For \<^verbatim>\<open>stop\<close> the arguments are the error of the signal or the kill and
  whether the wait was given up, for \<^verbatim>\<open>WaitReady\<close> whether the probe said healthy, or the ticker was chosen.
\<close>

fun stopStep :: "go_error option \<Rightarrow> bool \<Rightarrow> server \<Rightarrow> server option" where
  "stopStep err timeUp m =
     (case svStopper m of
        StopBegun \<Rightarrow> Some (stopLook m)
      | StopLooked process state \<Rightarrow> Some (stopSignal process state err m)
      | StopSignalled signalErr \<Rightarrow>
          if timeUp then Some (stopKill signalErr err m)
          else if svWaitDone m then Some (m\<lparr>svStopper := StopMark\<rparr>) else None
      | StopKilled \<Rightarrow>
          if timeUp then Some (m\<lparr>svStopper := StopDone (Some (shutdownFailed [Message ''process did not exit after kill'']))\<rparr>)
          else if svWaitDone m then Some (m\<lparr>svStopper := StopMark\<rparr>) else None
      | StopMark \<Rightarrow> Some (markStopped m)
      | _ \<Rightarrow> None)"

fun readyStep :: "nat \<Rightarrow> bool \<Rightarrow> server \<Rightarrow> server option" where
  "readyStep i yes m =
     (case svReady m i of
        ReadyLoop \<Rightarrow> Some (readyTop i m)
      | ReadyProbing \<Rightarrow> Some (readyProbe i yes m)
      | ReadyProbed \<Rightarrow> Some (readyRecheck i m)
      | ReadyCommit \<Rightarrow> Some (readyCommit i m)
      | ReadySelect \<Rightarrow>
          if yes then Some (setReady i ReadyLoop m)
          else if svWaitDone m \<and> managed m then Some (readyReturn i (Some (earlyExitError m)) m) else None
      | ReadyStopping e \<Rightarrow>
          (case svStopper m of StopDone r \<Rightarrow> Some (setReady i (ReadyDone (Some e) r) m) | _ \<Rightarrow> None)
      | _ \<Rightarrow> None)"

fun svStep :: "svAction \<Rightarrow> server \<Rightarrow> server option" where
  "svStep (ActStart ctxErr made startErr) m = Some (snd (serverStart ctxErr made startErr m))"
| "svStep (ActExit status) m = (if svAlive m then Some (m\<lparr>svAlive := False, svStatus := status\<rparr>) else None)"
| "svStep ActWaiter m =
     (case svWaiter m of
        WaiterWaiting \<Rightarrow> if svAlive m then None else Some (waiterRecord m)
      | WaiterGot \<Rightarrow> Some (waiterClose m)
      | _ \<Rightarrow> None)"
| "svStep ActStop m = Some (stopOnce m)"
| "svStep (ActStopper err timeUp) m = stopStep err timeUp m"
| "svStep (ActReadyCall i) m = (if svReady m i = ReadyIdle then Some (readyCall i m) else None)"
| "svStep (ActReady i yes) m = readyStep i yes m"
| "svStep (ActReadyExpired i ctxErr) m = (if svReady m i = ReadySelect then Some (readyExpired i ctxErr m) else None)"

fun svRun :: "svAction list \<Rightarrow> server \<Rightarrow> server option" where
  "svRun [] m = Some m"
| "svRun (a # as) m = (case svStep a m of None \<Rightarrow> None | Some m' \<Rightarrow> svRun as m')"

text \<open>\<^verbatim>\<open>HTTPHealthProbe.Check\<close> on what the transport answers: an error, nothing, or the errors of reading and closing the body and the status.\<close>

datatype healthAnswer = HealthRequestFailed go_error | HealthDoFailed go_error | HealthNoBody | HealthAnswer "go_error list" int

definition probeCheck :: "healthAnswer \<Rightarrow> go_error option" where
  "probeCheck a =
     (case a of
        HealthRequestFailed e \<Rightarrow> Some (Wrapped ''create health request'' e)
      | HealthDoFailed e \<Rightarrow> Some (Wrapped ''health request'' e)
      | HealthNoBody \<Rightarrow> Some (Message ''health response has no body'')
      | HealthAnswer es status \<Rightarrow>
          (case es of
             e # _ \<Rightarrow> Some (Wrapped ''close health response'' e)
           | [] \<Rightarrow> if status \<noteq> 200 then Some (Message ''health status'') else None))"

subsection \<open>The invariant\<close>

text \<open>What the process has been asked for at each place of \<^verbatim>\<open>stop\<close>.\<close>

definition procCalls :: "procCall list list" where
  "procCalls = [[], [ProcStart, ProcWait], [ProcStart, ProcWait, ProcSignal], [ProcStart, ProcWait, ProcSignal, ProcKill]]"

fun callsAt :: "stopPc \<Rightarrow> procCall list \<Rightarrow> bool" where
  "callsAt (StopSignalled e) cs \<longleftrightarrow> cs = [ProcStart, ProcWait, ProcSignal]"
| "callsAt StopKilled cs \<longleftrightarrow> cs = [ProcStart, ProcWait, ProcSignal, ProcKill]"
| "callsAt StopMark cs \<longleftrightarrow> cs \<in> set procCalls"
| "callsAt (StopDone r) cs \<longleftrightarrow> cs \<in> set procCalls"
| "callsAt pc cs \<longleftrightarrow> cs = [] \<or> cs = [ProcStart, ProcWait]"

definition processInv :: "server \<Rightarrow> bool" where
  "processInv m \<longleftrightarrow>
     svProcess m = (svWaiter m \<noteq> WaiterNone) \<and> svProcess m = (svCalls m \<noteq> []) \<and>
     svWaitDone m = (svWaiter m = WaiterDone) \<and>
     (svProcess m \<longrightarrow> managed m \<and> svState m \<noteq> ServerNew) \<and>
     (svAlive m \<longrightarrow> svWaiter m = WaiterWaiting) \<and>
     (managed m \<and> svState m \<in> {ServerStarted, ServerReady, ServerExited} \<longrightarrow> svProcess m) \<and>
     (svWaiter m \<in> {WaiterGot, WaiterDone} \<longrightarrow> svState m \<in> {ServerExited, ServerStopped})"

fun stopAt :: "stopPc \<Rightarrow> bool \<Rightarrow> bool \<Rightarrow> bool \<Rightarrow> bool \<Rightarrow> bool" where
  "stopAt (StopLooked p s) process reaped raced stopped =
     (if p then process \<and> s \<noteq> ServerNew \<and> s \<noteq> ServerStopped else \<not> process \<or> raced)"
| "stopAt (StopSignalled e) process reaped raced stopped = process"
| "stopAt StopKilled process reaped raced stopped = process"
| "stopAt StopMark process reaped raced stopped = (raced \<or> \<not> process \<or> reaped)"
| "stopAt (StopDone None) process reaped raced stopped = (stopped \<and> (raced \<or> \<not> process \<or> reaped))"
| "stopAt (StopDone (Some e)) process reaped raced stopped = process"
| "stopAt pc process reaped raced stopped = True"

lemma stopAt_done: "stopAt (StopDone r) p q ra st = (if r = None then st \<and> (ra \<or> \<not> p \<or> q) else p)"
  by (cases r) simp_all

lemma stopAt_reaped: "stopAt pc p q ra st \<Longrightarrow> stopAt pc p True ra st"
  by (cases pc) (simp_all add: stopAt_done split: if_splits)

definition stopInv :: "server \<Rightarrow> bool" where
  "stopInv m \<longleftrightarrow>
     callsAt (svStopper m) (svCalls m) \<and>
     (svState m = ServerStopped \<and> svProcess m \<longrightarrow> svStopper m \<in> range StopDone) \<and>
     stopAt (svStopper m) (svProcess m) (svWaitDone m) (svRaced m) (svState m = ServerStopped)"

fun readyAt :: "readyPc \<Rightarrow> bool \<Rightarrow> bool \<Rightarrow> stopPc \<Rightarrow> bool" where
  "readyAt ReadyProbed probed mg pc = probed"
| "readyAt ReadyCommit probed mg pc = probed"
| "readyAt (ReadyStopping e) probed mg pc = (mg \<and> pc \<noteq> StopIdle)"
| "readyAt (ReadyDone None r) probed mg pc = probed"
| "readyAt (ReadyDone (Some e) r) probed mg pc =
     (mg \<and> lcCode e \<in> {LifecycleCancelled, LifecycleStartupTimeout} \<longrightarrow> pc = StopDone r)"
| "readyAt rpc probed mg pc = True"

definition readyInv :: "server \<Rightarrow> bool" where
  "readyInv m \<longleftrightarrow>
     (svState m = ServerReady \<longrightarrow> svProbed m) \<and> (\<forall>i. readyAt (svReady m i) (svProbed m) (managed m) (svStopper m))"

lemmas server_handlers = serverStart_def waiterRecord_def waiterClose_def stopLook_def stopSignal_def stopKill_def markStopped_def stopOnce_def
  readyReturn_def earlyExitError_def readyCall_def readyTop_def readyProbe_def readyRecheck_def readyCommit_def
  readyExpired_def readinessError_def lifecycle_def looked_def Let_def

lemma processInv_setReady [simp]: "processInv (setReady i pc m) = processInv m" "processInv (m\<lparr>svProbed := b\<rparr>) = processInv m"
  "processInv (m\<lparr>svStopper := p\<rparr>) = processInv m"
  by (simp_all add: processInv_def setReady_def managed_def)

lemma stopInv_setReady [simp]: "stopInv (setReady i pc m) = stopInv m" "stopInv (m\<lparr>svProbed := b\<rparr>) = stopInv m"
  by (simp_all add: stopInv_def setReady_def)

lemma setReady_fields [simp]: "svState (setReady i pc m) = svState m" "svStopper (setReady i pc m) = svStopper m"
  "svProbed (setReady i pc m) = svProbed m" "managed (setReady i pc m) = managed m" "svReady (setReady i pc m) = (svReady m)(i := pc)"
  by (simp_all add: setReady_def managed_def)

text \<open>A start: nothing, a failure, an external server, or a process.\<close>

lemma serverStart_cases:
  obtains "snd (serverStart c f e m) = m"
  | "svState m = ServerNew" "managed m" "snd (serverStart c f e m) = m\<lparr>svState := ServerStopped\<rparr>"
  | "svState m = ServerNew" "\<not> managed m" "snd (serverStart c f e m) = m\<lparr>svState := ServerStarted\<rparr>"
  | "svState m = ServerNew" "managed m"
    "snd (serverStart c f e m) = m\<lparr>svProcess := True, svState := ServerStarted, svWaiter := WaiterWaiting, svAlive := True,
       svCalls := svCalls m @ [ProcStart, ProcWait], svRaced := svRaced m \<or> looked (svStopper m)\<rparr>"
proof -
  have "snd (serverStart c f e m) = m \<or>
      svState m = ServerNew \<and> managed m \<and> snd (serverStart c f e m) = m\<lparr>svState := ServerStopped\<rparr> \<or>
      svState m = ServerNew \<and> \<not> managed m \<and> snd (serverStart c f e m) = m\<lparr>svState := ServerStarted\<rparr> \<or>
      svState m = ServerNew \<and> managed m \<and>
        snd (serverStart c f e m) = m\<lparr>svProcess := True, svState := ServerStarted, svWaiter := WaiterWaiting, svAlive := True,
          svCalls := svCalls m @ [ProcStart, ProcWait], svRaced := svRaced m \<or> looked (svStopper m)\<rparr>"
    by (cases c; cases e) (simp_all add: serverStart_def)
  with that show thesis by blast
qed


lemma svStep_cases:
  assumes "svStep a m = Some m'"
  obtains (start) c f e where "m' = snd (serverStart c f e m)"
  | (exit) st where "svAlive m" "m' = m\<lparr>svAlive := False, svStatus := st\<rparr>"
  | (waited) "svWaiter m = WaiterWaiting" "\<not> svAlive m" "m' = waiterRecord m"
  | (closed) "svWaiter m = WaiterGot" "m' = waiterClose m"
  | (stop) "m' = stopOnce m"
  | (stopper) e b where "stopStep e b m = Some m'"
  | (call) i where "svReady m i = ReadyIdle" "m' = readyCall i m"
  | (ready) i b where "readyStep i b m = Some m'"
  | (expired) i c where "svReady m i = ReadySelect" "m' = readyExpired i c m"
proof (cases a)
  case ActWaiter
  then show thesis using assms waited closed by (cases "svWaiter m") (auto split: if_splits)
next
  case (ActReadyCall i)
  then show thesis using assms call by (cases "svReady m i = ReadyIdle") auto
next
  case (ActReadyExpired i c)
  then show thesis using assms expired by (cases "svReady m i = ReadySelect") auto
next
  case (ActExit st)
  then show thesis using assms exit by (cases "svAlive m") auto
next
  case (ActStopper e b)
  then show thesis using assms stopper [of e b] by simp
next
  case (ActReady i b)
  then show thesis using assms ready [of i b] by simp
next
  case (ActStart c f e)
  then show thesis using assms start [of c f e] by simp
qed (use assms stop in simp)

lemma stopStep_cases:
  assumes "stopStep e b m = Some m'"
  obtains (look) "svStopper m = StopBegun" "m' = stopLook m"
  | (signal) p s where "svStopper m = StopLooked p s" "m' = stopSignal p s e m"
  | (kill) e0 where "svStopper m = StopSignalled e0" "m' = stopKill e0 e m"
  | (ended) e0 where "svStopper m = StopSignalled e0 \<or> svStopper m = StopKilled" "svWaitDone m" "m' = m\<lparr>svStopper := StopMark\<rparr>"
  | (late) x where "svStopper m = StopKilled" "m' = m\<lparr>svStopper := StopDone (Some x)\<rparr>"
  | (mark) "svStopper m = StopMark" "m' = markStopped m"
proof (cases "svStopper m")
  case StopBegun
  then show thesis using assms look by simp
next
  case (StopLooked p s)
  then show thesis using assms signal by simp
next
  case (StopSignalled e0)
  then show thesis using assms kill ended by (cases b) (auto split: if_splits)
next
  case StopKilled
  then show thesis using assms late ended by (cases b) (auto split: if_splits)
next
  case StopMark
  then show thesis using assms mark by simp
qed (use assms in simp_all)

lemma readyStep_cases:
  assumes "readyStep i b m = Some m'"
  obtains (top) "svReady m i = ReadyLoop" "m' = readyTop i m"
  | (probe) "svReady m i = ReadyProbing" "m' = readyProbe i b m"
  | (recheck) "svReady m i = ReadyProbed" "m' = readyRecheck i m"
  | (commit) "svReady m i = ReadyCommit" "m' = readyCommit i m"
  | (tick) "svReady m i = ReadySelect" "m' = setReady i ReadyLoop m"
  | (early) "svReady m i = ReadySelect" "m' = readyReturn i (Some (earlyExitError m)) m"
  | (cleaned) e r where "svReady m i = ReadyStopping e" "svStopper m = StopDone r" "m' = setReady i (ReadyDone (Some e) r) m"
proof (cases "svReady m i")
  case ReadySelect
  then show thesis using assms tick early by (cases b) (auto split: if_splits)
next
  case (ReadyStopping e)
  then show thesis using assms cleaned by (cases "svStopper m") auto
qed (use assms top probe recheck commit in simp_all)

declare stopStep.simps [simp del] readyStep.simps [simp del]

lemma processInv_stop:
  assumes "stopStep e b m = Some m'" "stopInv m" "processInv m"
  shows "processInv m'"
  using assms(1)
proof (cases rule: stopStep_cases)
  case look
  then show ?thesis using assms(3) by (auto simp: stopLook_def processInv_def managed_def)
next
  case (signal p s)
  then show ?thesis using assms(2,3) by (auto simp: stopSignal_def processInv_def managed_def stopInv_def)
next
  case (kill e0)
  then show ?thesis using assms(2,3) by (auto simp: stopKill_def processInv_def managed_def stopInv_def Let_def split: option.split)
next
  case mark
  then show ?thesis using assms(3) by (auto simp: markStopped_def processInv_def managed_def)
qed (use assms(3) in simp_all)

lemma stopInv_stop:
  assumes "stopStep e b m = Some m'" "processInv m" "stopInv m"
  shows "stopInv m'"
  using assms(1)
proof (cases rule: stopStep_cases)
  case look
  then show ?thesis using assms(2,3)
    by (cases "managed m") (auto simp: stopLook_def processInv_def stopInv_def procCalls_def)
next
  case (signal p s)
  then show ?thesis using assms(2,3)
    by (auto simp: stopSignal_def processInv_def stopInv_def procCalls_def)
next
  case (kill e0)
  then show ?thesis using assms(2,3)
    by (auto simp: stopKill_def processInv_def stopInv_def procCalls_def Let_def split: option.split)
next
  case (ended e0)
  then show ?thesis using assms(2,3) by (auto simp: stopInv_def procCalls_def)
next
  case (late x)
  then show ?thesis using assms(2,3) by (auto simp: stopInv_def procCalls_def)
next
  case mark
  then show ?thesis using assms(2,3) by (auto simp: markStopped_def stopInv_def procCalls_def)
qed

lemma processInv_step:
  assumes "svStep a m = Some m'" "stopInv m" "processInv m"
  shows "processInv m'"
  using assms(1)
proof (cases rule: svStep_cases)
  case (stopper e b)
  then show ?thesis using processInv_stop assms(2,3) by blast
next
  case (ready i b)
  then show ?thesis
  proof (cases rule: readyStep_cases)
    case commit
    then show ?thesis using assms(3) by (auto simp: readyCommit_def readyReturn_def) (auto simp: processInv_def managed_def)
  qed (use assms(3) in \<open>simp_all add: readyTop_def readyProbe_def readyRecheck_def readyReturn_def\<close>)
next
  case (start c f e)
  show ?thesis
    by (rule serverStart_cases [of c f e m]) (use assms(3) start in \<open>auto simp: processInv_def managed_def\<close>)
next
  case waited
  then show ?thesis using assms(3) by (cases "svState m") (auto simp: processInv_def waiterRecord_def managed_def)
next
  case closed
  then show ?thesis using assms(3) by (auto simp: processInv_def waiterClose_def managed_def)
next
  case (call i)
  then show ?thesis using assms(3) by (simp add: readyCall_def readyReturn_def)
next
  case (expired i c)
  then show ?thesis using assms(3) by (simp add: readyExpired_def readyReturn_def stopOnce_def Let_def)
next
  case stop
  then show ?thesis using assms(3) by (simp add: stopOnce_def)
qed (use assms(3) in \<open>auto simp: processInv_def managed_def\<close>)

lemma unstarted: "svState m = ServerNew \<Longrightarrow> processInv m \<Longrightarrow> \<not> svProcess m \<and> svCalls m = [] \<and> \<not> svWaitDone m"
  by (auto simp: processInv_def)

lemma stopInv_start:
  assumes "svState m = ServerNew" "processInv m" "stopInv m"
  shows "stopInv (m\<lparr>svState := ServerStarted\<rparr>)" "stopInv (m\<lparr>svState := ServerStopped\<rparr>)"
    "stopInv (m\<lparr>svProcess := True, svState := ServerStarted, svWaiter := WaiterWaiting, svAlive := True,
       svCalls := svCalls m @ [ProcStart, ProcWait], svRaced := svRaced m \<or> looked (svStopper m)\<rparr>)"
proof -
  have s: "callsAt (svStopper m) []" "stopAt (svStopper m) False False (svRaced m) False" "\<not> svProcess m" "svCalls m = []" "\<not> svWaitDone m"
    using unstarted [OF assms(1,2)] assms(1,3) by (auto simp: stopInv_def)
  show "stopInv (m\<lparr>svState := ServerStarted\<rparr>)" "stopInv (m\<lparr>svState := ServerStopped\<rparr>)"
    using s by (cases "svStopper m"; simp add: stopInv_def stopAt_done split: if_splits)+
  show "stopInv (m\<lparr>svProcess := True, svState := ServerStarted, svWaiter := WaiterWaiting, svAlive := True,
       svCalls := svCalls m @ [ProcStart, ProcWait], svRaced := svRaced m \<or> looked (svStopper m)\<rparr>)"
    using s by (cases "svStopper m") (simp_all add: stopInv_def stopAt_done looked_def procCalls_def split: if_splits)
qed

lemma stopInv_ready: "svState m = ServerStarted \<Longrightarrow> stopInv m \<Longrightarrow> stopInv (m\<lparr>svState := ServerReady\<rparr>)"
  by (auto simp: stopInv_def)

lemma stopInv_once: "stopInv m \<Longrightarrow> stopInv (stopOnce m)"
  by (auto simp: stopOnce_def stopInv_def)

lemma stopInv_step:
  assumes "svStep a m = Some m'" "processInv m" "stopInv m"
  shows "stopInv m'"
  using assms(1)
proof (cases rule: svStep_cases)
  case (stopper e b)
  then show ?thesis using stopInv_stop assms(2,3) by blast
next
  case (ready i b)
  then show ?thesis
  proof (cases rule: readyStep_cases)
    case commit
    then show ?thesis using assms(3) stopInv_ready by (auto simp: readyCommit_def readyReturn_def)
  qed (use assms(3) in \<open>simp_all add: readyTop_def readyProbe_def readyRecheck_def readyReturn_def\<close>)
next
  case (start c f e)
  show ?thesis
    by (rule serverStart_cases [of c f e m]) (use assms(2,3) start stopInv_start in simp_all)
next
  case waited
  with assms(2,3) show ?thesis by (auto simp: processInv_def stopInv_def waiterRecord_def)
next
  case closed
  with assms(3) show ?thesis using stopAt_reaped by (simp add: stopInv_def waiterClose_def) blast
next
  case (call i)
  then show ?thesis using assms(3) by (simp add: readyCall_def readyReturn_def)
next
  case (expired i c)
  then show ?thesis using assms(3) stopInv_once by (simp add: readyExpired_def readyReturn_def Let_def)
next
  case stop
  then show ?thesis using assms(3) stopInv_once by simp
qed (use assms(3) in \<open>auto simp: stopInv_def\<close>)

text \<open>What a step may do to the counters the calls of \<^verbatim>\<open>WaitReady\<close> depend on.\<close>

lemma readyAt_mono:
  "readyAt x p mg pc \<Longrightarrow> (p \<longrightarrow> p') \<Longrightarrow> (pc \<noteq> StopIdle \<longrightarrow> pc' \<noteq> StopIdle) \<Longrightarrow> (\<forall>r. pc = StopDone r \<longrightarrow> pc' = pc) \<Longrightarrow> readyAt x p' mg pc'"
  by (cases "(x, p, mg, pc)" rule: readyAt.cases) auto

lemma readyInv_mono:
  assumes "readyInv m" "svReady m' = svReady m" "managed m' = managed m" "svProbed m \<longrightarrow> svProbed m'"
    "svStopper m \<noteq> StopIdle \<longrightarrow> svStopper m' \<noteq> StopIdle" "\<forall>r. svStopper m = StopDone r \<longrightarrow> svStopper m' = svStopper m"
    "svState m' = ServerReady \<longrightarrow> svState m = ServerReady"
  shows "readyInv m'"
proof -
  have "readyAt (svReady m' i) (svProbed m') (managed m') (svStopper m')" for i
    using assms(1) readyAt_mono [of "svReady m i" "svProbed m" "managed m" "svStopper m"] assms(2-6)
    by (auto simp: readyInv_def)
  with assms show ?thesis by (auto simp: readyInv_def)
qed

lemma readyInv_set:
  "readyInv m \<Longrightarrow> readyAt pc (svProbed m) (managed m) (svStopper m) \<Longrightarrow> readyInv (setReady i pc m)"
  by (simp add: readyInv_def)

lemma readyInv_stopOnce: "readyInv m \<Longrightarrow> readyInv (stopOnce m)"
  by (erule readyInv_mono) (auto simp: stopOnce_def managed_def)

lemma readyInv_step:
  assumes "svStep a m = Some m'" "readyInv m"
  shows "readyInv m'"
  using assms(1)
proof (cases rule: svStep_cases)
  case (stopper e b)
  then show ?thesis
  proof (cases rule: stopStep_cases)
    case look
    show ?thesis by (rule readyInv_mono [OF assms(2)]) (use look in \<open>auto simp: stopLook_def managed_def\<close>)
  next
    case (signal p s)
    show ?thesis by (rule readyInv_mono [OF assms(2)]) (use signal in \<open>auto simp: stopSignal_def managed_def\<close>)
  next
    case (kill e0)
    show ?thesis
      by (rule readyInv_mono [OF assms(2)]) (use kill in \<open>auto simp: stopKill_def managed_def Let_def split: option.split\<close>)
  next
    case (ended e0)
    show ?thesis by (rule readyInv_mono [OF assms(2)]) (use ended in \<open>auto simp: managed_def\<close>)
  next
    case (late x)
    show ?thesis by (rule readyInv_mono [OF assms(2)]) (use late in \<open>auto simp: managed_def\<close>)
  next
    case mark
    show ?thesis by (rule readyInv_mono [OF assms(2)]) (use mark in \<open>auto simp: markStopped_def managed_def\<close>)
  qed
next
  case (ready i b)
  have at: "readyAt (svReady m i) (svProbed m) (managed m) (svStopper m)" using assms(2) by (simp add: readyInv_def)
  from ready show ?thesis
  proof (cases rule: readyStep_cases)
    case top
    then show ?thesis using assms(2) by (auto simp: readyTop_def readyReturn_def earlyExitError_def lifecycle_def intro!: readyInv_set)
  next
    case probe
    have "readyInv (m\<lparr>svProbed := True\<rparr>)" by (rule readyInv_mono [OF assms(2)]) (auto simp: managed_def)
    then show ?thesis using probe assms(2) by (auto simp: readyProbe_def intro!: readyInv_set)
  next
    case recheck
    then show ?thesis using assms(2) at by (auto simp: readyRecheck_def readyReturn_def earlyExitError_def lifecycle_def intro!: readyInv_set)
  next
    case commit
    then have "readyInv (m\<lparr>svState := ServerReady\<rparr>)" using assms(2) at by (simp add: readyInv_def managed_def)
    then show ?thesis using commit assms(2) at
      by (auto simp: readyCommit_def readyReturn_def earlyExitError_def lifecycle_def intro!: readyInv_set)
  next
    case early
    then show ?thesis using assms(2) by (auto simp: readyReturn_def earlyExitError_def lifecycle_def intro!: readyInv_set)
  qed (use assms(2) at in \<open>auto intro!: readyInv_set\<close>)
next
  case (start c f e)
  show ?thesis
    by (rule serverStart_cases [of c f e m]; rule readyInv_mono [OF assms(2)]) (use start in \<open>auto simp: managed_def\<close>)
next
  case (call i)
  then show ?thesis using assms(2) by (auto simp: readyCall_def readyReturn_def lifecycle_def readyInv_def)
next
  case (expired i c)
  have "readyInv (stopOnce m)" "svStopper (stopOnce m) \<noteq> StopIdle" "managed (stopOnce m) = managed m"
    using assms(2) readyInv_stopOnce by (auto simp: stopOnce_def managed_def)
  then show ?thesis using expired assms(2) by (auto simp: readyExpired_def readyReturn_def Let_def intro!: readyInv_set)
next
  case stop
  then show ?thesis using assms(2) readyInv_stopOnce by simp
next
  case waited
  show ?thesis by (rule readyInv_mono [OF assms(2)]) (use waited in \<open>auto simp: waiterRecord_def managed_def\<close>)
next
  case closed
  show ?thesis by (rule readyInv_mono [OF assms(2)]) (use closed in \<open>auto simp: waiterClose_def managed_def\<close>)
next
  case (exit st)
  show ?thesis by (rule readyInv_mono [OF assms(2)]) (use exit in \<open>auto simp: managed_def\<close>)
qed

lemma server_invariants:
  assumes "svRun as m = Some m'" "processInv m" "stopInv m" "readyInv m"
  shows "processInv m' \<and> stopInv m' \<and> readyInv m'"
  using assms
proof (induction as m rule: svRun.induct)
  case (2 a as m)
  then show ?case using processInv_step stopInv_step readyInv_step by (auto split: option.splits)
qed simp

lemma newServer_invariants: "processInv (newServer cfg) \<and> stopInv (newServer cfg) \<and> readyInv (newServer cfg)"
  by (simp add: newServer_def processInv_def stopInv_def readyInv_def)

lemma NewServerManager_new:
  "NewServerManager parse cfg = Inr m \<Longrightarrow> \<exists>c. m = newServer c \<and> (managed m \<longleftrightarrow> scMode cfg \<noteq> ''external'')"
  by (auto simp: NewServerManager_def Let_def newServer_def managed_def split: if_splits option.splits)

lemma svStep_cfg: "svStep a m = Some m' \<Longrightarrow> svCfg m' = svCfg m"
  by (erule svStep_cases; (erule stopStep_cases readyStep_cases)?)
    (simp_all add: server_handlers setReady_def split: option.split)

lemma svRun_cfg: "svRun as m = Some m' \<Longrightarrow> svCfg m' = svCfg m"
  by (induction as m rule: svRun.induct) (auto dest: svStep_cfg split: option.splits)

lemma server_reachable:
  assumes "NewServerManager parse cfg = Inr m0" "svRun as m0 = Some m"
  shows "processInv m \<and> stopInv m \<and> readyInv m \<and> (managed m \<longleftrightarrow> scMode cfg \<noteq> ''external'')"
proof -
  obtain c where c: "m0 = newServer c" "managed m0 \<longleftrightarrow> scMode cfg \<noteq> ''external''"
    using NewServerManager_new [OF assms(1)] by blast
  have "managed m = managed m0" using svRun_cfg [OF assms(2)] by (simp add: managed_def)
  with c server_invariants [OF assms(2)] newServer_invariants show ?thesis by simp
qed

subsection \<open>Properties\<close>

lemma callsAt_procCalls: "callsAt pc cs \<Longrightarrow> cs \<in> set procCalls"
  by (cases pc) (auto simp: procCalls_def)

text \<open>
  C21. One process, owned: however starts, stops, waits for readiness and the end of the process interleave, at most one
  process is started, it is waited for once and asked to end at most by one signal and then one kill;
  an external server gets no process at all.
\<close>

theorem server_process_owned:
  assumes "NewServerManager parse cfg = Inr m0" "svRun as m0 = Some m"
  shows "prefix (svCalls m) [ProcStart, ProcWait, ProcSignal, ProcKill] \<and> svCalls m \<noteq> [ProcStart] \<and>
    (scMode cfg = ''external'' \<longrightarrow> svCalls m = []) \<and> (svAlive m \<longrightarrow> svCalls m \<noteq> [])"
proof -
  note r = server_reachable [OF assms]
  have "svCalls m \<in> set procCalls"
    using r callsAt_procCalls unfolding stopInv_def by blast
  then have "prefix (svCalls m) [ProcStart, ProcWait, ProcSignal, ProcKill] \<and> svCalls m \<noteq> [ProcStart]"
    by (auto simp: procCalls_def)
  with r show ?thesis unfolding processInv_def by auto
qed

text \<open>
  C22. A stop reaps: when \<^verbatim>\<open>Stop\<close> has returned without an error the server is stopped, and unless a start came in after the stop had
  looked, no process was started or it has ended and been waited for.  A \<^verbatim>\<open>WaitReady\<close> that
  gave up on a managed server has been through the whole stop.
\<close>

theorem server_stop_reaps:
  assumes "NewServerManager parse cfg = Inr m0" "svRun as m0 = Some m"
  shows "(svStopper m = StopDone None \<longrightarrow> svState m = ServerStopped \<and> (svRaced m \<or> svCalls m = [] \<or> svWaitDone m \<and> \<not> svAlive m)) \<and>
    (\<forall>i e r. svReady m i = ReadyDone (Some e) r \<and> scMode cfg \<noteq> ''external'' \<and> lcCode e \<in> {LifecycleCancelled, LifecycleStartupTimeout} \<longrightarrow>
       svStopper m = StopDone r)"
proof -
  note r = server_reachable [OF assms]
  have "svReady m i = ReadyDone (Some e) r' \<Longrightarrow> managed m \<Longrightarrow> lcCode e \<in> {LifecycleCancelled, LifecycleStartupTimeout} \<Longrightarrow> svStopper m = StopDone r'"
    for i e r' using r by (auto simp: readyInv_def dest!: spec [of _ i])
  moreover have "svStopper m = StopDone None \<Longrightarrow> svState m = ServerStopped \<and> (svRaced m \<or> svCalls m = [] \<or> svWaitDone m \<and> \<not> svAlive m)"
    using r by (auto simp: stopInv_def processInv_def)
  ultimately show ?thesis using r by auto
qed

fun serverRank :: "serverState \<Rightarrow> nat" where
  "serverRank ServerNew = 0"
| "serverRank ServerStarted = 1"
| "serverRank ServerReady = 2"
| "serverRank ServerExited = 3"
| "serverRank ServerStopped = 4"

lemma serverRank_le: "serverRank s \<le> 4"
  by (cases s) simp_all

lemma serverRank_step:
  assumes "svStep a m = Some m'"
  shows "serverRank (svState m) \<le> serverRank (svState m')"
  using assms
proof (cases rule: svStep_cases)
  case (start c f e)
  show ?thesis by (rule serverStart_cases [of c f e m]) (use start in simp_all)
next
  case waited
  then show ?thesis by (cases "svState m") (simp_all add: waiterRecord_def)
next
  case (stopper e b)
  then show ?thesis
    by (cases rule: stopStep_cases)
      (simp_all add: stopLook_def stopSignal_def stopKill_def markStopped_def Let_def serverRank_le split: option.split)
next
  case (ready i b)
  then show ?thesis
    by (cases rule: readyStep_cases)
      (simp_all add: readyTop_def readyProbe_def readyRecheck_def readyCommit_def readyReturn_def)
qed (simp_all add: waiterClose_def stopOnce_def readyCall_def readyReturn_def readyExpired_def Let_def)

lemma serverRank_run: "svRun as m = Some m' \<Longrightarrow> serverRank (svState m) \<le> serverRank (svState m')"
proof (induction as m rule: svRun.induct)
  case (2 a as m)
  then show ?case using serverRank_step [of a m] by (auto split: option.splits intro: order_trans)
qed simp

text \<open>
  Ready means healthy: \<^verbatim>\<open>WaitReady\<close> returns nil only after the health probe has succeeded, and the state of the server only
  moves forward, from new over started, ready and exited to stopped.
\<close>

theorem server_ready_is_probed:
  assumes "NewServerManager parse cfg = Inr m0" "svRun as m0 = Some m" "svRun bs m = Some m'"
  shows "(svReady m i = ReadyDone None r \<longrightarrow> svProbed m) \<and> (svState m = ServerReady \<longrightarrow> svProbed m) \<and>
    serverRank (svState m) \<le> serverRank (svState m')"
  using server_reachable [OF assms(1,2)] serverRank_run [OF assms(3)]
  by (auto simp: readyInv_def dest!: spec [of _ i])

text \<open>How far \<^verbatim>\<open>stop\<close> has got: every step of it moves on, and none waits longer than its timer.\<close>

fun stopLeft :: "stopPc \<Rightarrow> nat" where
  "stopLeft StopBegun = 5"
| "stopLeft (StopLooked p s) = 4"
| "stopLeft (StopSignalled e) = 3"
| "stopLeft StopKilled = 2"
| "stopLeft StopMark = 1"
| "stopLeft pc = 0"

lemma stopStep_moves: "stopStep e b m = Some m' \<Longrightarrow> stopLeft (svStopper m') < stopLeft (svStopper m)"
  by (erule stopStep_cases)
    (auto simp: stopLook_def stopSignal_def stopKill_def markStopped_def Let_def split: option.split)

lemma stopStep_timeUp: "0 < stopLeft (svStopper m) \<Longrightarrow> \<exists>m'. stopStep e True m = Some m'"
  by (cases "svStopper m") (simp_all add: stopStep.simps)

text \<open>The calls of \<^verbatim>\<open>stop\<close> one after the other, each wait given up by its timer.\<close>

fun stopTimedOut :: "(nat \<Rightarrow> go_error option) \<Rightarrow> nat \<Rightarrow> server \<Rightarrow> server" where
  "stopTimedOut errs 0 m = m"
| "stopTimedOut errs (Suc n) m = (case stopStep (errs n) True m of None \<Rightarrow> m | Some m' \<Rightarrow> stopTimedOut errs n m')"

text \<open>
  A stop returns: whatever the process does, once begun every step of \<^verbatim>\<open>stop\<close> brings it closer to its end and none blocks beyond
  its timer, so after five steps it is done; the process has then been signalled and killed if it was there and had not ended.
\<close>

theorem server_stop_returns:
  assumes "svStopper m = StopBegun"
  shows "(\<exists>r. svStopper (stopTimedOut errs 5 m) = StopDone r) \<and> (stopStep e b m' = Some m'' \<longrightarrow> stopLeft (svStopper m'') < stopLeft (svStopper m'))"
proof -
  have "stopLeft (svStopper (stopTimedOut errs n m)) = 0 \<and> svStopper (stopTimedOut errs n m) \<noteq> StopIdle"
    if "stopLeft (svStopper m) \<le> n" "svStopper m \<noteq> StopIdle" for n m
    using that
  proof (induction n arbitrary: m)
    case (Suc n)
    show ?case
    proof (cases "stopStep (errs n) True m")
      case None
      then show ?thesis using stopStep_timeUp [of m "errs n"] Suc.prems by auto
    next
      case (Some m1)
      have "svStopper m1 \<noteq> StopIdle"
        using Some by (rule stopStep_cases)
          (auto simp: stopLook_def stopSignal_def stopKill_def markStopped_def Let_def split: option.split)
      then show ?thesis using Suc.IH [of m1] stopStep_moves [OF Some] Suc.prems(1) Some by simp
    qed
  qed simp
  from this [of m 5] have "stopLeft (svStopper (stopTimedOut errs 5 m)) = 0" "svStopper (stopTimedOut errs 5 m) \<noteq> StopIdle"
    using assms by simp_all
  then have "\<exists>r. svStopper (stopTimedOut errs 5 m) = StopDone r" by (cases "svStopper (stopTimedOut errs 5 m)") simp_all
  then show ?thesis using stopStep_moves by blast
qed

lemma stopped_step:
  assumes "svStep a m = Some m'" "svStopper m = StopDone r" "svState m = ServerStopped"
  shows "svStopper m' = StopDone r \<and> svState m' = ServerStopped \<and> svCalls m' = svCalls m"
  using assms(1)
proof (cases rule: svStep_cases)
  case (start c f e)
  show ?thesis by (rule serverStart_cases [of c f e m]) (use start assms(2,3) in simp_all)
next
  case (stopper e b)
  then show ?thesis using assms(2) by (simp add: stopStep.simps)
next
  case (ready i b)
  then show ?thesis
    by (cases rule: readyStep_cases)
      (use assms(2,3) in \<open>simp_all add: readyTop_def readyProbe_def readyRecheck_def readyCommit_def readyReturn_def setReady_def\<close>)
qed (use assms(2,3) in \<open>simp_all add: waiterRecord_def waiterClose_def stopOnce_def readyCall_def readyReturn_def readyExpired_def setReady_def Let_def\<close>)

lemma stopped_run:
  "svRun as m = Some m' \<Longrightarrow> svStopper m = StopDone r \<Longrightarrow> svState m = ServerStopped \<Longrightarrow>
    svStopper m' = StopDone r \<and> svState m' = ServerStopped \<and> svCalls m' = svCalls m"
  by (induction as m rule: svRun.induct) (auto dest!: stopped_step split: option.splits)

subsection \<open>Runs\<close>

definition demoConfig :: serverConfig where
  "demoConfig = \<lparr>scMode = ''managed'', scBinary = ''llama-server'', scArgs = [], scHealthURL = ''http://h'', scStartupTimeout = 1,
     scShutdownTimeout = 1, scHealthInterval = 1\<rparr>"

definition demoParse :: "string \<Rightarrow> go_error + url" where
  "demoParse s = Inr \<lparr>urlScheme = ''http'', urlOpaque = [], urlHost = ''h'', urlHostname = ''h'', urlPort = [], urlPath = [], urlQuery = [], urlFragment = [], urlUser = False\<rparr>"

lemma server_demo_new: "NewServerManager demoParse demoConfig = Inr (newServer demoConfig)"
  by (simp add: NewServerManager_def demoConfig_def demoParse_def validateHealthURL_def trim_space_plain byte_val_def Let_def)

text \<open>Started, healthy, ready, stopped by the signal; a second call gives up when its time is over and finds the stop done.\<close>

definition demoActions :: "svAction list" where
  "demoActions = [ActStart None True None, ActReadyCall 0, ActReadyCall 1, ActReady 1 False, ActReady 1 False, ActReady 0 False, ActReady 0 True,
     ActReady 0 False, ActReady 0 False, ActReadyExpired 1 None, ActStopper None False, ActStopper None False, ActExit None, ActWaiter, ActWaiter,
     ActStopper None False, ActStopper None False, ActReady 1 False]"

lemmas demo_run = svRun.simps svStep.simps stopStep.simps readyStep.simps server_handlers setReady_def newServer_def demoConfig_def managed_def

text \<open>
  A start during a stop leaks the process: when \<^verbatim>\<open>Start\<close> runs after \<^verbatim>\<open>stop\<close> has found nothing to stop and before it marks the
  server as stopped, \<^verbatim>\<open>Stop\<close> returns without an error, the process runs, and nothing that happens later ever signals it.
\<close>

theorem start_during_stop_leaks:
  "\<exists>m. svRun [ActStop, ActStopper None False, ActStopper None False, ActStart None True None, ActStopper None False] (newServer demoConfig) = Some m \<and>
     svStopper m = StopDone None \<and> svState m = ServerStopped \<and> svAlive m \<and>
     (\<forall>as. case svRun as m of None \<Rightarrow> True | Some m' \<Rightarrow> svStopper m' = StopDone None \<and> svCalls m' = [ProcStart, ProcWait])"
proof -
  obtain m where m: "svRun [ActStop, ActStopper None False, ActStopper None False, ActStart None True None, ActStopper None False] (newServer demoConfig) = Some m"
      "svStopper m = StopDone None" "svState m = ServerStopped" "svAlive m" "svCalls m = [ProcStart, ProcWait]"
    by (simp add: demo_run)
  moreover have "case svRun as m of None \<Rightarrow> True | Some m' \<Rightarrow> svStopper m' = StopDone None \<and> svCalls m' = [ProcStart, ProcWait]" for as
    using stopped_run [of as m _ None] m by (auto split: option.split)
  ultimately show ?thesis by blast
qed

lemma demo_run_ends: "\<exists>m. svRun demoActions (newServer demoConfig) = Some m \<and> svCalls m = [ProcStart, ProcWait, ProcSignal] \<and>
    svReady m 0 = ReadyDone None None \<and> svStopper m = StopDone None \<and> \<not> svRaced m \<and> svWaitDone m \<and>
    svReady m 1 = ReadyDone (Some (readinessError None)) None"
  by (simp add: demo_run demoActions_def)

theorem server_process_owned_witness:
  "\<exists>m. svRun demoActions (newServer demoConfig) = Some m \<and> prefix (svCalls m) [ProcStart, ProcWait, ProcSignal, ProcKill]"
  using server_process_owned [OF server_demo_new] demo_run_ends by blast

theorem server_stop_reaps_witness:
  "\<exists>m. svRun demoActions (newServer demoConfig) = Some m \<and> svCalls m \<noteq> [] \<and> svWaitDone m \<and> \<not> svAlive m \<and>
     svReady m 1 = ReadyDone (Some (readinessError None)) (None)"
proof -
  obtain m where m: "svRun demoActions (newServer demoConfig) = Some m" "svCalls m \<noteq> []" "svStopper m = StopDone None" "\<not> svRaced m"
      "svReady m 1 = ReadyDone (Some (readinessError None)) None"
    using demo_run_ends by auto
  with server_stop_reaps [OF server_demo_new m(1)] show ?thesis by blast
qed

theorem server_ready_is_probed_witness:
  "\<exists>m. svRun demoActions (newServer demoConfig) = Some m \<and> svReady m 0 = ReadyDone None None \<and> svProbed m \<and>
     serverRank (svState (newServer demoConfig)) \<le> serverRank (svState m)"
proof -
  obtain m where m: "svRun demoActions (newServer demoConfig) = Some m" "svReady m 0 = ReadyDone None None"
    using demo_run_ends by auto
  have "svRun [] (newServer demoConfig) = Some (newServer demoConfig)" by simp
  with m server_ready_is_probed [OF server_demo_new m(1), of "[]" m 0 None] server_ready_is_probed [OF server_demo_new _ m(1), of "[]"] show ?thesis
    by simp
qed

definition stubbornServer :: server where
  "stubbornServer = (newServer demoConfig)\<lparr>svState := ServerReady, svProcess := True, svWaiter := WaiterWaiting, svAlive := True,
     svCalls := [ProcStart, ProcWait], svStopper := StopBegun\<rparr>"

theorem server_stop_returns_witness:
  "\<exists>r. svStopper (stopTimedOut (\<lambda>_. None) 5 stubbornServer) = StopDone r"
proof -
  have "svStopper stubbornServer = StopBegun" by (simp add: stubbornServer_def)
  from server_stop_returns [OF this, of "\<lambda>_. None" None True stubbornServer stubbornServer] show ?thesis by blast
qed

end
