(* ===== verification/Inference.thy ===== *)
theory Inference
  imports Audio_Format Llm_Client
begin

section \<open>The inference worker (\<^verbatim>\<open>internal/inference/protocol.go\<close>, \<^verbatim>\<open>worker.go\<close>)\<close>

text \<open>
  A subprocess transcribes and synthesizes.  A request is a line of JSON and raw bytes after it, and so is a reply.  What
  the process writes is a list of bytes with what the reader reports after them; the JSON coding, the result of each write,
  the answers of the context and the largest slice that can be made are parameters.
\<close>

type_synonym bytes = "8 word list"

record frameHeader =
  fhID :: "64 word"
  fhOp :: string
  fhOK :: bool
  fhError :: string
  fhPayload :: int
  fhText :: string
  fhRate :: int
  fhChannels :: int
  fhRequested :: string
  fhResolved :: string
  fhFallback :: string

definition noHeader :: frameHeader where
  "noHeader = \<lparr>fhID = 0, fhOp = [], fhOK = False, fhError = [], fhPayload = 0, fhText = [], fhRate = 0, fhChannels = 0,
     fhRequested = [], fhResolved = [], fhFallback = []\<rparr>"

record health =
  hlRequested :: string
  hlResolved :: string
  hlFallback :: string

text \<open>\<open>wireWrite k n\<close>: what the \<open>k\<close>-th write says when given \<open>n\<close> bytes; \<open>wireCtx\<close>: the answers of the context, in order.\<close>

record wire =
  wireEncode :: "frameHeader \<Rightarrow> go_error + bytes"
  wireDecode :: "bytes \<Rightarrow> go_error + frameHeader"
  wireWrite :: "nat \<Rightarrow> nat \<Rightarrow> int \<times> go_error option"
  wireCtx :: "nat \<Rightarrow> go_error option"
  wireMax :: int
  wireBits :: "real \<Rightarrow> 32 word"
  wireUnbits :: "32 word \<Rightarrow> real"

text \<open>\<open>clCloser\<close>: none when the writer cannot be closed, else what closing it says.\<close>

record client =
  clBytes :: bytes
  clEnd :: go_error
  clNext :: "64 word"
  clWrites :: nat
  clSent :: bytes
  clCloser :: "go_error option option"
  clClosed :: bool

definition newClient :: "bytes \<Rightarrow> go_error \<Rightarrow> go_error option option \<Rightarrow> client" where
  "newClient out' err closer = \<lparr>clBytes = out', clEnd = err, clNext = 0, clWrites = 0, clSent = [], clCloser = closer, clClosed = False\<rparr>"

subsection \<open>Bytes\<close>

text \<open>A \<^verbatim>\<open>float32\<close> is its 32 bits here, the least significant byte first on the wire.\<close>

definition putUint32 :: "32 word \<Rightarrow> bytes" where
  "putUint32 v = [ucast v, ucast (drop_bit 8 v), ucast (drop_bit 16 v), ucast (drop_bit 24 v)]"

definition getUint32 :: "8 word \<Rightarrow> 8 word \<Rightarrow> 8 word \<Rightarrow> 8 word \<Rightarrow> 32 word" where
  "getUint32 a b c d = ucast a OR push_bit 8 (ucast b) OR push_bit 16 (ucast c) OR push_bit 24 (ucast d)"

definition marshalFloat32 :: "32 word list \<Rightarrow> bytes" where
  "marshalFloat32 samples = concat (map putUint32 samples)"

fun readFloats :: "bytes \<Rightarrow> 32 word list" where
  "readFloats (a # b # c # d # rest) = getUint32 a b c d # readFloats rest"
| "readFloats rest = []"

definition unmarshalFloat32 :: "bytes \<Rightarrow> go_error + 32 word list" where
  "unmarshalFloat32 payload =
     (if length payload mod 4 \<noteq> 0 then Inl (Message ''float32 payload length is not divisible by 4'')
      else Inr (readFloats payload))"

function writeAll :: "wire \<Rightarrow> bytes \<Rightarrow> client \<Rightarrow> (go_error option \<times> client) panicking" where
  "writeAll w payload c =
     (if payload = [] then Returned (None, c)
      else
        (let (n, err) = wireWrite w (clWrites c) (length payload);
             c1 = c\<lparr>clWrites := Suc (clWrites c), clSent := clSent c @ take (nat n) payload\<rparr>
         in (case err of
               Some e \<Rightarrow> Returned (Some e, c1)
             | None \<Rightarrow>
                 if n \<le> 0 then Returned (Some ShortWrite, c1)
                 else if int (length payload) < n then Panic
                 else writeAll w (drop (nat n) payload) c1)))"
  by pat_completeness auto
termination
  by (relation "measure (\<lambda>(w, payload, c). length payload)") auto

declare writeAll.simps [simp del]

text \<open>\<^verbatim>\<open>bufio.Reader.ReadBytes\<close> up to and with the newline, and \<^verbatim>\<open>io.ReadFull\<close>.\<close>

fun splitLine :: "bytes \<Rightarrow> (bytes \<times> bytes) option" where
  "splitLine [] = None"
| "splitLine (b # bs) =
     (if b = 10 then Some ([b], bs)
      else (case splitLine bs of None \<Rightarrow> None | Some (line, rest) \<Rightarrow> Some (b # line, rest)))"

definition readLine :: "client \<Rightarrow> (go_error + bytes) \<times> client" where
  "readLine c =
     (case splitLine (clBytes c) of
        None \<Rightarrow> (Inl (clEnd c), c\<lparr>clBytes := []\<rparr>)
      | Some (line, rest) \<Rightarrow> (Inr line, c\<lparr>clBytes := rest\<rparr>))"

definition readFull :: "nat \<Rightarrow> client \<Rightarrow> (go_error + bytes) \<times> client" where
  "readFull n c =
     (if n \<le> length (clBytes c) then (Inr (take n (clBytes c)), c\<lparr>clBytes := drop n (clBytes c)\<rparr>)
      else (Inl (if clBytes c \<noteq> [] \<and> clEnd c = EOF then UnexpectedEOF else clEnd c), c\<lparr>clBytes := []\<rparr>))"

subsection \<open>The calls of the client\<close>

definition wrapErr :: "string \<Rightarrow> go_error \<Rightarrow> go_error + 'a" where
  "wrapErr what e = Inl (Wrapped what e)"

definition readReply :: "wire \<Rightarrow> 64 word \<Rightarrow> client \<Rightarrow> ((go_error + frameHeader \<times> bytes) \<times> client) panicking" where
  "readReply w request c =
     (case readLine c of
        (Inl e, c1) \<Rightarrow> Returned (wrapErr ''read inference header'' e, c1)
      | (Inr line, c1) \<Rightarrow>
        (case wireDecode w line of
           Inl e \<Rightarrow> Returned (wrapErr ''decode inference response'' e, c1)
         | Inr response \<Rightarrow>
             if fhID response \<noteq> request then Returned (Inl (Message ''stale inference response''), c1)
             else if \<not> fhOK response
             then Returned (Inl (Message (if fhError response = [] then ''worker request failed'' else fhError response)), c1)
             else if fhPayload response < 0 then Returned (Inl (Message ''negative inference payload length''), c1)
             else if wireMax w < fhPayload response then Panic
             else
             (case readFull (nat (fhPayload response)) c1 of
                (Inl e, c2) \<Rightarrow> Returned (wrapErr ''read inference payload'' e, c2)
              | (Inr payload, c2) \<Rightarrow>
                  (case wireCtx w 2 of
                     Some e \<Rightarrow> Returned (Inl e, c2)
                   | None \<Rightarrow> Returned (Inr (response, payload), c2)))))"

definition inferCall :: "wire \<Rightarrow> frameHeader \<Rightarrow> bytes \<Rightarrow> client \<Rightarrow> ((go_error + frameHeader \<times> bytes) \<times> client) panicking" where
  "inferCall w request payload c =
     (case wireCtx w 0 of
        Some e \<Rightarrow> Returned (Inl e, c)
      | None \<Rightarrow>
        (case wireCtx w 1 of
           Some e \<Rightarrow> Returned (Inl e, c)
         | None \<Rightarrow>
           (let c1 = c\<lparr>clNext := clNext c + 1\<rparr> in
            case wireEncode w (request\<lparr>fhID := clNext c1, fhPayload := int (length payload)\<rparr>) of
              Inl e \<Rightarrow> Returned (wrapErr ''encode inference request'' e, c1)
            | Inr line \<Rightarrow>
              (case writeAll w (line @ [10]) c1 of
                 Panic \<Rightarrow> Panic
               | Returned (Some e, c2) \<Rightarrow> Returned (wrapErr ''write inference header'' e, c2)
               | Returned (None, c2) \<Rightarrow>
                 (case writeAll w payload c2 of
                    Panic \<Rightarrow> Panic
                  | Returned (Some e, c3) \<Rightarrow> Returned (wrapErr ''write inference payload'' e, c3)
                  | Returned (None, c3) \<Rightarrow> readReply w (clNext c1) c3)))))"

definition inferClose :: "client \<Rightarrow> go_error option \<times> client" where
  "inferClose c = ((case clCloser c of None \<Rightarrow> None | Some r \<Rightarrow> r), c\<lparr>clClosed := True\<rparr>)"

text \<open>The result of a call, mapped.\<close>

definition answered ::
  "((go_error + frameHeader \<times> bytes) \<times> client) panicking \<Rightarrow> (frameHeader \<Rightarrow> bytes \<Rightarrow> go_error + 'a) \<Rightarrow> ((go_error + 'a) \<times> client) panicking"
where
  "answered r f =
     (case r of
        Panic \<Rightarrow> Panic
      | Returned (Inl e, c) \<Rightarrow> Returned (Inl e, c)
      | Returned (Inr (h, payload), c) \<Rightarrow> Returned (f h payload, c))"

definition inferHealth :: "wire \<Rightarrow> client \<Rightarrow> ((go_error + health) \<times> client) panicking" where
  "inferHealth w c = answered (inferCall w (noHeader\<lparr>fhOp := ''health''\<rparr>) [] c)
     (\<lambda>h payload. Inr \<lparr>hlRequested = fhRequested h, hlResolved = fhResolved h, hlFallback = fhFallback h\<rparr>)"

definition inferTranscribe :: "wire \<Rightarrow> buffer \<Rightarrow> client \<Rightarrow> ((go_error + string) \<times> client) panicking" where
  "inferTranscribe w b c =
     (case Validate b of
        Some e \<Rightarrow> Returned (Inl e, c)
      | None \<Rightarrow>
          if SampleRate b \<noteq> 16000 then Returned (Inl (Message ''OpenVINO STT requires 16000 Hz audio''), c)
          else answered (inferCall w (noHeader\<lparr>fhOp := ''transcribe'', fhRate := SampleRate b, fhChannels := Channels b\<rparr>)
                 (marshalFloat32 (map (wireBits w) (Samples b))) c)
               (\<lambda>h payload. Inr (trim_space (fhText h))))"

definition synthesized :: "wire \<Rightarrow> frameHeader \<Rightarrow> bytes \<Rightarrow> go_error + buffer" where
  "synthesized w h payload =
     (if fhRate h \<le> 0 then Inl (Message ''inference synthesis response missing sample rate'')
      else if fhChannels h \<noteq> 1 then Inl (Message ''inference synthesis returned channels, want mono'')
      else (case unmarshalFloat32 payload of
              Inl e \<Rightarrow> Inl e
            | Inr samples \<Rightarrow> Inr \<lparr>Samples = map (wireUnbits w) samples, SampleRate = fhRate h, Channels = 1\<rparr>))"

definition inferSynthesize :: "wire \<Rightarrow> string \<Rightarrow> client \<Rightarrow> ((go_error + buffer) \<times> client) panicking" where
  "inferSynthesize w words c =
     (let t = trim_space words in
      if t = [] then Returned (Inr no_buffer, c)
      else answered (inferCall w (noHeader\<lparr>fhOp := ''synthesize'', fhText := t\<rparr>) [] c) (synthesized w))"

subsection \<open>The worker\<close>

record workerConfig =
  wcPython :: string
  wcScript :: string
  wcMode :: string
  wcModelDir :: string
  wcVoiceFile :: string
  wcLanguage :: string
  wcDevice :: string
  wcFallback :: string
  wcCacheDir :: string
  wcEnv :: "string list"
  wcShutdown :: duration

definition workerConfig_ok :: "workerConfig \<Rightarrow> go_error + workerConfig" where
  "workerConfig_ok cfg0 =
     (let cfg = cfg0\<lparr>wcPython := trim_space (wcPython cfg0), wcScript := trim_space (wcScript cfg0), wcMode := trim_space (wcMode cfg0),
            wcDevice := trim_space (wcDevice cfg0), wcFallback := trim_space (wcFallback cfg0)\<rparr> in
      if wcPython cfg = [] then Inl (Message ''inference worker python is required'')
      else if wcScript cfg = [] then Inl (Message ''inference worker script is required'')
      else if wcMode cfg \<noteq> ''stt'' \<and> wcMode cfg \<noteq> ''tts'' then Inl (Message ''inference worker mode must be stt or tts'')
      else Inr (cfg\<lparr>wcDevice := (if wcDevice cfg = [] then ''CPU'' else wcDevice cfg),
                   wcFallback := (if wcFallback cfg = [] then ''CPU'' else wcFallback cfg),
                   wcShutdown := (if wcShutdown cfg \<le> 0 then 2000000000 else wcShutdown cfg)\<rparr>))"

definition workerArgs :: "workerConfig \<Rightarrow> string list" where
  "workerArgs cfg =
     (let opt = (\<lambda>name value. if value \<noteq> [] then [name, value] else []) in
      [wcScript cfg, ''--mode'', wcMode cfg, ''--device'', wcDevice cfg, ''--fallback-device'', wcFallback cfg] @
      opt ''--model-dir'' (wcModelDir cfg) @ opt ''--voice-file'' (wcVoiceFile cfg) @ opt ''--language'' (wcLanguage cfg) @
      opt ''--cache-dir'' (wcCacheDir cfg))"

text \<open>The processes are numbered; the log has what was done to them.\<close>

datatype procEvent = ProcSpawned nat | ProcClosed nat | ProcKilled nat | ProcReaped nat

record worker =
  wkCfg :: workerConfig
  wkClient :: "client option"
  wkLive :: bool
  wkClosed :: bool
  wkOnce :: bool
  wkCount :: nat
  wkLog :: "procEvent list"

datatype startOutcome = StdinFailed go_error | StdoutFailed go_error | ExecFailed go_error | Spawned client

text \<open>
  The environment of one operation: the context at the two looks, the start of a process, whether the context ended
  before the call did, whether the process has ended when it is looked at, and whether it ended in time after
  its input was closed and after the second kill.
\<close>

record workerEnv =
  weCtx :: "nat \<Rightarrow> go_error option"
  weStart :: startOutcome
  weCancel :: "go_error option"
  weExited :: bool
  weEnds :: bool
  weEndsKilled :: bool

definition current :: "worker \<Rightarrow> nat" where
  "current w = wkCount w - 1"

definition logged :: "procEvent list \<Rightarrow> worker \<Rightarrow> worker" where
  "logged es w = w\<lparr>wkLog := wkLog w @ es\<rparr>"

definition startLocked :: "workerEnv \<Rightarrow> worker \<Rightarrow> go_error option \<times> worker" where
  "startLocked env w =
     (case weStart env of
        StdinFailed e \<Rightarrow> (Some (Wrapped ''inference worker stdin'' e), w)
      | StdoutFailed e \<Rightarrow> (Some (Wrapped ''inference worker stdout'' e), w)
      | ExecFailed e \<Rightarrow> (Some (Wrapped ''start inference worker'' e), w)
      | Spawned c \<Rightarrow> (None, logged [ProcSpawned (wkCount w)] (w\<lparr>wkClient := Some c, wkLive := True, wkCount := Suc (wkCount w)\<rparr>)))"

definition ensureStarted :: "workerEnv \<Rightarrow> worker \<Rightarrow> go_error option \<times> worker" where
  "ensureStarted env w =
     (case weCtx env 1 of
        Some e \<Rightarrow> (Some e, w)
      | None \<Rightarrow>
          if wkClosed w then (Some (Message ''inference worker is closed''), w)
          else if wkLive w \<and> wkClient w \<noteq> None then (None, w)
          else startLocked env w)"

definition reapIfExited :: "workerEnv \<Rightarrow> worker \<Rightarrow> worker" where
  "reapIfExited env w =
     (if \<not> wkLive w \<or> \<not> weExited env then w
      else logged [ProcReaped (current w), ProcClosed (current w)] (w\<lparr>wkClient := None, wkLive := False\<rparr>))"

definition stopLocked :: "workerEnv \<Rightarrow> bool \<Rightarrow> worker \<Rightarrow> worker" where
  "stopLocked env force w =
     (if \<not> wkLive w then w
      else logged ((if wkClient w \<noteq> None then [ProcClosed (current w)] else []) @ (if force then [ProcKilled (current w)] else []) @
             (if weEnds env then [ProcReaped (current w)]
              else ProcKilled (current w) # (if weEndsKilled env then [ProcReaped (current w)] else [])))
           (w\<lparr>wkClient := None, wkLive := False\<rparr>))"

text \<open>A call that was overtaken by the end of its context goes on alone, on a client nobody else has any more.\<close>

definition runWorkerCall ::
  "workerEnv \<Rightarrow> (client \<Rightarrow> ((go_error + 'a) \<times> client) panicking) \<Rightarrow> worker \<Rightarrow> ((go_error + 'a) \<times> worker) panicking"
where
  "runWorkerCall env call w =
     (case weCtx env 0 of
        Some e \<Rightarrow> Returned (Inl e, w)
      | None \<Rightarrow>
        (case ensureStarted env w of
           (Some e, w1) \<Rightarrow> Returned (Inl e, w1)
         | (None, w1) \<Rightarrow>
           (case wkClient w1 of
              None \<Rightarrow> Returned (Inl (Message ''inference worker client is unavailable''), w1)
            | Some c \<Rightarrow>
              (case weCancel env of
                 Some e \<Rightarrow> Returned (Inl e, stopLocked env True w1)
               | None \<Rightarrow>
                 (case call c of
                    Panic \<Rightarrow> Panic
                  | Returned (Inl e, c1) \<Rightarrow> Returned (Inl e, reapIfExited env (w1\<lparr>wkClient := Some c1\<rparr>))
                  | Returned (Inr x, c1) \<Rightarrow> Returned (Inr x, w1\<lparr>wkClient := Some c1\<rparr>))))))"

definition WorkerClose :: "workerEnv \<Rightarrow> worker \<Rightarrow> worker" where
  "WorkerClose env w = (if wkOnce w then w else stopLocked env False (w\<lparr>wkOnce := True, wkClosed := True\<rparr>))"

definition WorkerHealth :: "workerEnv \<Rightarrow> wire \<Rightarrow> worker \<Rightarrow> ((go_error + health) \<times> worker) panicking" where
  "WorkerHealth env wi = runWorkerCall env (inferHealth wi)"

definition WorkerTranscribe :: "workerEnv \<Rightarrow> wire \<Rightarrow> buffer \<Rightarrow> worker \<Rightarrow> ((go_error + string) \<times> worker) panicking" where
  "WorkerTranscribe env wi b = runWorkerCall env (inferTranscribe wi b)"

definition WorkerSynthesize :: "workerEnv \<Rightarrow> wire \<Rightarrow> string \<Rightarrow> worker \<Rightarrow> ((go_error + buffer) \<times> worker) panicking" where
  "WorkerSynthesize env wi words = runWorkerCall env (inferSynthesize wi words)"

definition newWorker :: "workerConfig \<Rightarrow> worker" where
  "newWorker cfg = \<lparr>wkCfg = cfg, wkClient = None, wkLive = False, wkClosed = False, wkOnce = False, wkCount = 0, wkLog = []\<rparr>"

text \<open>The worker is returned also when the start fails, to see what became of its process.\<close>

definition StartWorker :: "workerEnv \<Rightarrow> workerEnv \<Rightarrow> wire \<Rightarrow> workerConfig \<Rightarrow> (go_error option \<times> worker) panicking" where
  "StartWorker env0 env wi cfg0 =
     (case workerConfig_ok cfg0 of
        Inl e \<Rightarrow> Returned (Some e, newWorker cfg0)
      | Inr cfg \<Rightarrow>
        (case ensureStarted env0 (newWorker cfg) of
           (Some e, w) \<Rightarrow> Returned (Some e, w)
         | (None, w) \<Rightarrow>
           (case WorkerHealth env wi w of
              Panic \<Rightarrow> Panic
            | Returned (Inl e, w1) \<Rightarrow> Returned (Some (Wrapped ''inference worker readiness'' e), WorkerClose env w1)
            | Returned (Inr h, w1) \<Rightarrow> Returned (None, w1))))"

subsection \<open>Bytes on the wire\<close>

lemma beyond_byte: "8 \<le> k \<Longrightarrow> \<not> bit (x :: 8 word) k"
  using bit_imp_le_length [of x k] by auto

lemma getUint32_putUint32: "getUint32 (ucast v) (ucast (drop_bit 8 v)) (ucast (drop_bit 16 v)) (ucast (drop_bit 24 v)) = (v :: 32 word)"
  unfolding getUint32_def
proof (rule bit_word_eqI)
  fix n
  assume n: "n < LENGTH(32)"
  then consider "n < 8" | "8 \<le> n" "n < 16" | "16 \<le> n" "n < 24" | "24 \<le> n" by linarith
  then show "bit (ucast (ucast v :: 8 word) OR push_bit 8 (ucast (ucast (drop_bit 8 v) :: 8 word)) OR
      push_bit 16 (ucast (ucast (drop_bit 16 v) :: 8 word)) OR push_bit 24 (ucast (ucast (drop_bit 24 v) :: 8 word)) :: 32 word) n = bit v n"
    using n by cases (auto simp: bit_simps)
qed

lemma putUint32_getUint32: "putUint32 (getUint32 a b c d) = [a, b, c, d]"
  unfolding getUint32_def putUint32_def
  by (auto intro!: bit_word_eqI simp: bit_simps beyond_byte)

lemma readFloats_marshal: "readFloats (marshalFloat32 xs) = xs"
  by (induction xs) (simp_all add: marshalFloat32_def putUint32_def getUint32_putUint32)

lemma marshal_readFloats: "length p mod 4 = 0 \<Longrightarrow> marshalFloat32 (readFloats p) = p"
  by (induction p rule: readFloats.induct) (auto simp: marshalFloat32_def putUint32_getUint32)

lemma length_marshal: "length (marshalFloat32 xs) = 4 * length xs"
  by (induction xs) (simp_all add: marshalFloat32_def putUint32_def)

text \<open>
  C38. Samples survive the wire: the payload of a list of 32-bit samples has four bytes for each and decodes to exactly
  these samples, and a payload that decodes is the payload of the samples it decodes to.
\<close>

theorem float_payload_round_trip:
  "unmarshalFloat32 (marshalFloat32 xs) = Inr xs \<and> length (marshalFloat32 xs) = 4 * length xs \<and>
   (case unmarshalFloat32 p of Inl e \<Rightarrow> length p mod 4 \<noteq> 0 | Inr ys \<Rightarrow> marshalFloat32 ys = p)"
  by (simp add: unmarshalFloat32_def readFloats_marshal length_marshal marshal_readFloats)

text \<open>A writer that keeps its word: what it does not report as an error it has taken, in part at least.\<close>

lemma writeAll_prefix:
  "writeAll w payload c = Returned (e, c') \<Longrightarrow>
     (\<exists>n. clSent c' = clSent c @ take n payload \<and> (e = None \<longrightarrow> length payload \<le> n)) \<and>
     clBytes c' = clBytes c \<and> clEnd c' = clEnd c \<and> clNext c' = clNext c"
proof (induction w payload c rule: writeAll.induct)
  case (1 w payload c)
  obtain n err where wr: "wireWrite w (clWrites c) (length payload) = (n, err)" by fastforce
  define c1 where "c1 = c\<lparr>clWrites := Suc (clWrites c), clSent := clSent c @ take (nat n) payload\<rparr>"
  show ?case
  proof (cases "payload = []")
    case True
    then show ?thesis using "1.prems" by (simp add: writeAll.simps)
  next
    case False
    show ?thesis
    proof (cases "err = None \<and> 0 < n")
      case True
      then have n: "n \<le> int (length payload)" and rest: "writeAll w (drop (nat n) payload) c1 = Returned (e, c')"
        using "1.prems" False wr by (simp_all add: writeAll.simps [of w payload] c1_def split: if_splits)
      from "1.IH" [OF False wr [symmetric] refl c1_def _ _ _ rest] True n
      obtain k where k: "clSent c' = clSent c1 @ take k (drop (nat n) payload)" "e = None \<longrightarrow> length payload - nat n \<le> k"
          "clBytes c' = clBytes c1" "clEnd c' = clEnd c1" "clNext c' = clNext c1"
        by fastforce
      have "take (nat n) payload @ take k (drop (nat n) payload) = take (nat n + k) payload" by (simp add: take_add)
      with k show ?thesis by (auto simp: c1_def intro!: exI [of _ "nat n + k"])
    next
      case other: False
      then have "c' = c1 \<and> e \<noteq> None"
        using "1.prems" False wr by (auto simp: writeAll.simps [of w payload] Let_def c1_def split: option.splits)
      then show ?thesis by (auto simp: c1_def)
    qed
  qed
qed

lemma writeAll_sent:
  assumes "writeAll w payload c = Returned (e, c')"
  shows "e = None \<longrightarrow> clSent c' = clSent c @ payload" "clBytes c' = clBytes c \<and> clEnd c' = clEnd c \<and> clNext c' = clNext c"
  using writeAll_prefix [OF assms] by auto

lemma splitLine_line: "10 \<notin> set line \<Longrightarrow> splitLine (line @ 10 # rest) = Some (line @ [10], rest)"
  by (induction line) auto

lemma splitLine_append: "splitLine bs = Some (line, rest) \<Longrightarrow> bs = line @ rest"
  by (induction bs arbitrary: line) (auto split: if_splits option.splits)

subsection \<open>Requests and replies\<close>

text \<open>
  C23. An answer belongs to its request: a call that succeeds has sent its header and its payload whole, and has read one line and
  as many bytes as it announces, in which the worker said yes under the number of this very request; the next call reads what
  follows them.
\<close>

theorem inference_answer_belongs_to_request:
  assumes "inferCall w request payload c = Returned (Inr (response, out'), c')"
  shows "\<exists>sent line. wireEncode w (request\<lparr>fhID := clNext c + 1, fhPayload := int (length payload)\<rparr>) = Inr sent \<and>
      clSent c' = clSent c @ sent @ [10] @ payload \<and> clBytes c = line @ out' @ clBytes c' \<and> wireDecode w line = Inr response \<and>
      fhID response = clNext c + 1 \<and> clNext c' = clNext c + 1 \<and> fhOK response \<and> int (length out') = fhPayload response"
proof -
  define c1 where "c1 = c\<lparr>clNext := clNext c + 1\<rparr>"
  obtain sent c2 c3 where s: "wireEncode w (request\<lparr>fhID := clNext c + 1, fhPayload := int (length payload)\<rparr>) = Inr sent"
      "writeAll w (sent @ [10]) c1 = Returned (None, c2)" "writeAll w payload c2 = Returned (None, c3)"
      "readReply w (clNext c + 1) c3 = Returned (Inr (response, out'), c')"
    using assms unfolding inferCall_def wrapErr_def c1_def
    by (auto simp: Let_def split: option.splits sum.splits panicking.splits prod.splits)
  have sent: "clSent c3 = clSent c @ sent @ [10] @ payload" "clBytes c3 = clBytes c" "clNext c3 = clNext c + 1"
    using writeAll_sent [OF s(2)] writeAll_sent [OF s(3)] by (auto simp: c1_def)
  from s(4) show ?thesis
    unfolding readReply_def wrapErr_def readLine_def readFull_def
    using s(1) sent
    by (auto simp: splitLine_append split: option.splits sum.splits if_splits prod.splits dest!: splitLine_append)
qed

text \<open>A worker that keeps the protocol: for each request a frame under its number; an answer that says no has no payload.\<close>

type_synonym reply = "frameHeader \<times> bytes"

definition numbered :: "64 word \<Rightarrow> reply \<Rightarrow> frameHeader" where
  "numbered n r = (fst r)\<lparr>fhID := n, fhPayload := int (length (snd r))\<rparr>"

definition frame :: "(frameHeader \<Rightarrow> bytes) \<Rightarrow> 64 word \<Rightarrow> reply \<Rightarrow> bytes" where
  "frame line n r = line (numbered n r) @ [10] @ snd r"

fun frames :: "(frameHeader \<Rightarrow> bytes) \<Rightarrow> 64 word \<Rightarrow> reply list \<Rightarrow> bytes" where
  "frames line n [] = []"
| "frames line n (r # rs) = frame line (n + 1) r @ frames line (n + 1) rs"

text \<open>The coder of the worker makes a line without a newline in it, which decodes to the header.\<close>

definition lineOK :: "wire \<Rightarrow> (frameHeader \<Rightarrow> bytes) \<Rightarrow> frameHeader \<Rightarrow> bool" where
  "lineOK w line h \<longleftrightarrow> 10 \<notin> set (line h) \<and> wireDecode w (line h @ [10]) = Inr h"

definition replyOK :: "wire \<Rightarrow> (frameHeader \<Rightarrow> bytes) \<Rightarrow> 64 word \<Rightarrow> reply \<Rightarrow> bool" where
  "replyOK w line n r \<longleftrightarrow> lineOK w line (numbered n r) \<and> int (length (snd r)) \<le> wireMax w \<and> (\<not> fhOK (fst r) \<longrightarrow> snd r = [])"

fun repliesOK :: "wire \<Rightarrow> (frameHeader \<Rightarrow> bytes) \<Rightarrow> 64 word \<Rightarrow> reply list \<Rightarrow> bool" where
  "repliesOK w line n [] = True"
| "repliesOK w line n (r # rs) = (replyOK w line (n + 1) r \<and> repliesOK w line (n + 1) rs)"

definition verdict :: "64 word \<Rightarrow> reply \<Rightarrow> go_error + frameHeader \<times> bytes" where
  "verdict n r =
     (if \<not> fhOK (fst r) then Inl (Message (if fhError (fst r) = [] then ''worker request failed'' else fhError (fst r)))
      else Inr (numbered n r, snd r))"

text \<open>A writer and a context that do not fail, and requests that can be coded.\<close>

definition calmWire :: "wire \<Rightarrow> bool" where
  "calmWire w \<longleftrightarrow> (\<forall>k n. wireWrite w k n = (int n, None)) \<and> (\<forall>k. wireCtx w k = None) \<and> (\<forall>h. \<exists>l. wireEncode w h = Inr l)"

fun callAll :: "wire \<Rightarrow> (frameHeader \<times> bytes) list \<Rightarrow> client \<Rightarrow> ((go_error + frameHeader \<times> bytes) list \<times> client) panicking" where
  "callAll w [] c = Returned ([], c)"
| "callAll w ((h, p) # qs) c =
     (case inferCall w h p c of
        Panic \<Rightarrow> Panic
      | Returned (r, c1) \<Rightarrow> (case callAll w qs c1 of Panic \<Rightarrow> Panic | Returned (rs, c2) \<Rightarrow> Returned (r # rs, c2)))"

fun verdicts :: "64 word \<Rightarrow> reply list \<Rightarrow> (go_error + frameHeader \<times> bytes) list" where
  "verdicts n [] = []"
| "verdicts n (r # rs) = verdict (n + 1) r # verdicts (n + 1) rs"

lemma writeAll_calm:
  "calmWire w \<Longrightarrow> \<exists>c'. writeAll w payload c = Returned (None, c') \<and> clBytes c' = clBytes c \<and> clNext c' = clNext c"
proof -
  assume "calmWire w"
  then have "writeAll w payload c \<noteq> Panic \<and> (\<forall>e c'. writeAll w payload c = Returned (e, c') \<longrightarrow> e = None)"
    by (cases "payload = []") (simp_all add: writeAll.simps [of w payload] writeAll.simps [of w "[]"] calmWire_def)
  then obtain c' where r: "writeAll w payload c = Returned (None, c')" by (cases "writeAll w payload c") auto
  with writeAll_sent [OF r] show ?thesis by auto
qed

lemma inferCall_frame:
  assumes "calmWire w" "replyOK w line (clNext c + 1) r" "clBytes c = frame line (clNext c + 1) r @ rest"
  shows "\<exists>c'. inferCall w h p c = Returned (verdict (clNext c + 1) r, c') \<and> clBytes c' = rest \<and> clNext c' = clNext c + 1"
proof -
  define h' where "h' = numbered (clNext c + 1) r"
  define c1 where "c1 = c\<lparr>clNext := clNext c + 1\<rparr>"
  obtain sent where sent: "wireEncode w (h\<lparr>fhID := clNext c + 1, fhPayload := int (length p)\<rparr>) = Inr sent"
    using assms(1) unfolding calmWire_def by blast
  obtain c2 where c2: "writeAll w (sent @ [10]) c1 = Returned (None, c2)" "clBytes c2 = clBytes c" "clNext c2 = clNext c + 1"
    using writeAll_calm [OF assms(1), of "sent @ [10]" c1] by (auto simp: c1_def)
  obtain c3 where c3: "writeAll w p c2 = Returned (None, c3)" "clBytes c3 = clBytes c" "clNext c3 = clNext c + 1"
    using writeAll_calm [OF assms(1), of p c2] c2 by auto
  have split: "splitLine (clBytes c3) = Some (line h' @ [10], snd r @ rest)" and dec: "wireDecode w (line h' @ [10]) = Inr h'"
    using assms(2,3) splitLine_line [of "line h'" "snd r @ rest"] c3(2) by (auto simp: frame_def h'_def replyOK_def lineOK_def)
  have ctx: "wireCtx w k = None" for k using assms(1) by (simp add: calmWire_def)
  have "\<exists>c'. readReply w (clNext c + 1) c3 = Returned (verdict (clNext c + 1) r, c') \<and> clBytes c' = rest \<and> clNext c' = clNext c + 1"
    using assms(2) split dec c3(3)
    by (cases "fhOK (fst r)")
      (simp_all add: readReply_def readLine_def readFull_def verdict_def replyOK_def ctx h'_def numbered_def)
  then show ?thesis
    using sent c2 c3 by (simp add: inferCall_def ctx Let_def c1_def)
qed

text \<open>
  Requests and replies stay in step: with a worker that answers every request by one frame, any sequence of calls gets exactly
  the answers to its requests in order, also after requests the worker refused.
\<close>

theorem replies_stay_in_step:
  assumes "calmWire w" "repliesOK w line (clNext c) rs" "length qs = length rs"
    and "clBytes c = frames line (clNext c) rs @ rest"
  shows "\<exists>c'. callAll w qs c = Returned (verdicts (clNext c) rs, c') \<and> clBytes c' = rest"
  using assms(2-4)
proof (induction rs arbitrary: qs c)
  case (Cons r rs)
  then obtain h p qs' where qs: "qs = (h, p) # qs'" "length qs' = length rs" by (cases qs) auto
  obtain c1 where c1: "inferCall w h p c = Returned (verdict (clNext c + 1) r, c1)" "clBytes c1 = frames line (clNext c + 1) rs @ rest"
      "clNext c1 = clNext c + 1"
    using inferCall_frame [OF assms(1), of line c r "frames line (clNext c + 1) rs @ rest" h p] Cons.prems by auto
  with Cons.IH [OF _ qs(2), of c1] Cons.prems(1) qs(1) show ?case by auto
qed simp

text \<open>
  The payload a reply announces is not bounded: whatever the limit of an allocation is, a line that announces more makes
  the client panic instead of returning an error.
\<close>

theorem oversized_payload_panics:
  assumes "calmWire w" "lineOK w line h" "fhOK h" "fhID h = clNext c + 1" "0 \<le> wireMax w" "wireMax w < fhPayload h"
    and "clBytes c = line h @ [10] @ rest"
  shows "inferCall w q p c = Panic"
proof -
  define c1 where "c1 = c\<lparr>clNext := clNext c + 1\<rparr>"
  obtain sent where sent: "wireEncode w (q\<lparr>fhID := clNext c + 1, fhPayload := int (length p)\<rparr>) = Inr sent"
    using assms(1) unfolding calmWire_def by blast
  obtain c2 where c2: "writeAll w (sent @ [10]) c1 = Returned (None, c2)" "clBytes c2 = clBytes c"
    using writeAll_calm [OF assms(1), of "sent @ [10]" c1] by (auto simp: c1_def)
  obtain c3 where c3: "writeAll w p c2 = Returned (None, c3)" "clBytes c3 = clBytes c"
    using writeAll_calm [OF assms(1), of p c2] c2 by auto
  have ctx: "wireCtx w k = None" for k using assms(1) by (simp add: calmWire_def)
  have "splitLine (clBytes c3) = Some (line h @ [10], rest)" "wireDecode w (line h @ [10]) = Inr h"
    using splitLine_line [of "line h" rest] assms(2,7) c3(2) by (auto simp: lineOK_def)
  then have "readReply w (clNext c + 1) c3 = Panic"
    using assms(3-6) by (simp add: readReply_def readLine_def)
  then show ?thesis using sent c2 c3 by (simp add: inferCall_def ctx Let_def c1_def)
qed

subsection \<open>The worker's processes\<close>

definition settled :: "worker \<Rightarrow> nat \<Rightarrow> bool" where
  "settled w n \<longleftrightarrow> ProcKilled n \<in> set (wkLog w) \<or> ProcReaped n \<in> set (wkLog w)"

definition workerInv :: "worker \<Rightarrow> bool" where
  "workerInv w \<longleftrightarrow>
     (wkLive w \<longleftrightarrow> wkClient w \<noteq> None) \<and> (wkLive w \<longrightarrow> 0 < wkCount w) \<and> (wkClosed w \<longrightarrow> \<not> wkLive w) \<and> (wkOnce w \<longleftrightarrow> wkClosed w) \<and>
     (\<forall>n < wkCount w. settled w n \<or> wkLive w \<and> n = current w) \<and>
     (\<forall>n. ProcSpawned n \<in> set (wkLog w) \<longleftrightarrow> n < wkCount w)"

lemma workerInv_new: "workerInv (newWorker cfg)"
  by (simp add: workerInv_def newWorker_def)

lemma workerInv_ensureStarted: "ensureStarted env w = (e, w') \<Longrightarrow> workerInv w \<Longrightarrow> workerInv w' \<and> (e = None \<longrightarrow> wkLive w')"
  by (auto simp: ensureStarted_def startLocked_def workerInv_def logged_def settled_def current_def less_Suc_eq
      split: option.splits if_splits startOutcome.splits)

text \<open>The process goes: its number is in the log as killed or waited for.\<close>

lemma workerInv_retired:
  assumes "workerInv w" "ProcKilled (current w) \<in> set es \<or> ProcReaped (current w) \<in> set es" "\<forall>n. ProcSpawned n \<notin> set es"
  shows "workerInv (logged es (w\<lparr>wkClient := None, wkLive := False\<rparr>))"
proof -
  have "settled (logged es (w\<lparr>wkClient := None, wkLive := False\<rparr>)) n" if "n < wkCount w" for n
    using assms(1,2) that unfolding workerInv_def settled_def logged_def by auto
  with assms(1,3) show ?thesis unfolding workerInv_def logged_def by auto
qed

lemma workerInv_stop: "workerInv w \<Longrightarrow> workerInv (stopLocked env force w) \<and> \<not> wkLive (stopLocked env force w)"
  unfolding stopLocked_def
  by (cases "wkLive w"; cases "weEnds env") (simp_all add: workerInv_retired, simp_all add: logged_def)

lemma workerInv_reap: "workerInv w \<Longrightarrow> workerInv (reapIfExited env w)"
  by (simp add: reapIfExited_def workerInv_retired)

lemma workerInv_client: "workerInv w \<Longrightarrow> wkLive w \<Longrightarrow> workerInv (w\<lparr>wkClient := Some c\<rparr>)"
  by (simp add: workerInv_def settled_def current_def)

lemma workerInv_call:
  assumes "runWorkerCall env call w = Returned (r, w')" "workerInv w"
  shows "workerInv w'"
proof -
  obtain e w1 where s: "ensureStarted env w = (e, w1)" by fastforce
  note i = workerInv_ensureStarted [OF s assms(2)]
  show ?thesis
    using assms s i workerInv_stop workerInv_reap workerInv_client
    by (auto simp: runWorkerCall_def split: option.splits panicking.splits sum.splits)
qed

lemma workerInv_close:
  assumes "workerInv w"
  shows "workerInv (WorkerClose env w) \<and> \<not> wkLive (WorkerClose env w)"
proof (cases "wkOnce w")
  case True
  then show ?thesis using assms by (auto simp: WorkerClose_def workerInv_def)
next
  case False
  have e: "WorkerClose env w = (stopLocked env False w)\<lparr>wkOnce := True, wkClosed := True\<rparr>"
    using False by (simp add: WorkerClose_def stopLocked_def logged_def current_def)
  from workerInv_stop [OF assms, of env False] show ?thesis unfolding e workerInv_def settled_def current_def by auto
qed

datatype workerOp = OpHealth workerEnv wire | OpTranscribe workerEnv wire buffer | OpSynthesize workerEnv wire string | OpClose workerEnv

definition stateOf :: "((go_error + 'a) \<times> worker) panicking \<Rightarrow> worker option" where
  "stateOf r = (case r of Panic \<Rightarrow> None | Returned x \<Rightarrow> Some (snd x))"

fun workerRun :: "workerOp list \<Rightarrow> worker \<Rightarrow> worker option" where
  "workerRun [] w = Some w"
| "workerRun (OpHealth env wi # ops) w = (case stateOf (WorkerHealth env wi w) of None \<Rightarrow> None | Some w1 \<Rightarrow> workerRun ops w1)"
| "workerRun (OpTranscribe env wi b # ops) w = (case stateOf (WorkerTranscribe env wi b w) of None \<Rightarrow> None | Some w1 \<Rightarrow> workerRun ops w1)"
| "workerRun (OpSynthesize env wi s # ops) w = (case stateOf (WorkerSynthesize env wi s w) of None \<Rightarrow> None | Some w1 \<Rightarrow> workerRun ops w1)"
| "workerRun (OpClose env # ops) w = workerRun ops (WorkerClose env w)"

lemma workerInv_run: "workerRun ops w = Some w' \<Longrightarrow> workerInv w \<Longrightarrow> workerInv w'"
proof (induction ops w rule: workerRun.induct)
  case (5 env ops w)
  then show ?case using workerInv_close by simp
qed (auto simp: WorkerHealth_def WorkerTranscribe_def WorkerSynthesize_def stateOf_def
    split: option.splits panicking.splits dest: workerInv_call)

lemma StartWorker_inv: "StartWorker env0 env wi cfg = Returned (e, w) \<Longrightarrow> workerInv w \<and> (e \<noteq> None \<longrightarrow> \<not> wkLive w)"
proof -
  assume r: "StartWorker env0 env wi cfg = Returned (e, w)"
  show ?thesis
  proof (cases "workerConfig_ok cfg")
    case (Inl e)
    then show ?thesis using r workerInv_new by (auto simp: StartWorker_def newWorker_def)
  next
    case (Inr c)
    obtain e1 w1 where s: "ensureStarted env0 (newWorker c) = (e1, w1)" by fastforce
    note i = workerInv_ensureStarted [OF s workerInv_new]
    show ?thesis
    proof (cases e1)
      case None
      then obtain h w2 where h: "WorkerHealth env wi w1 = Returned (h, w2)" "(e, w) = (case h of
            Inl x \<Rightarrow> (Some (Wrapped ''inference worker readiness'' x), WorkerClose env w2) | Inr y \<Rightarrow> (None, w2))"
        using r Inr s by (auto simp: StartWorker_def split: panicking.splits sum.splits)
      have "workerInv w2" using workerInv_call [OF h(1) [unfolded WorkerHealth_def]] i by simp
      with h(2) show ?thesis using workerInv_close by (auto split: sum.splits)
    next
      case (Some x)
      have "\<not> wkLive w1"
        using s Some by (auto simp: ensureStarted_def startLocked_def newWorker_def split: option.splits startOutcome.splits)
      then show ?thesis using r Inr s i Some by (auto simp: StartWorker_def)
    qed
  qed
qed

text \<open>
  The worker's processes are accounted for: after any sequence of calls and closes, however they end, every process ever
  started has been waited for or killed, but the one that is live; a closed worker and a worker whose start failed have none.
\<close>

theorem worker_processes_accounted:
  assumes "StartWorker env0 env wi cfg = Returned (e, w0)" "workerRun ops w0 = Some w" "ProcSpawned n \<in> set (wkLog w)"
  shows "(ProcKilled n \<in> set (wkLog w) \<or> ProcReaped n \<in> set (wkLog w) \<or> wkLive w \<and> n = wkCount w - 1) \<and>
    (wkClosed w \<longrightarrow> \<not> wkLive w) \<and> (e \<noteq> None \<longrightarrow> \<not> wkLive w0)"
  using StartWorker_inv [OF assms(1)] workerInv_run [OF assms(2)] assms(3)
  by (auto simp: workerInv_def settled_def current_def)

text \<open>
  A cancelled call leaves nothing behind: the call returns the error of its context, its process is killed and its client dropped, so a
  later call that succeeds has started a process of its own and read only from that one.
\<close>

theorem cancelled_call_isolated:
  assumes "runWorkerCall env call1 w = Returned (r1, w1)" "workerInv w" "weCancel env = Some e" "wkLive w \<or> wkCount w < wkCount w1"
    and "weCtx env 0 = None" "weCtx env 1 = None"
    and "runWorkerCall env2 call2 w1 = Returned (Inr x, w2)"
  shows "r1 = Inl e \<and> wkClient w1 = None \<and> ProcKilled (current w1) \<in> set (wkLog w1) \<and>
    (\<exists>c c'. weStart env2 = Spawned c \<and> call2 c = Returned (Inr x, c') \<and> wkClient w2 = Some c' \<and> wkCount w2 = Suc (wkCount w1))"
proof -
  obtain e1 w0 where s: "ensureStarted env w = (e1, w0)" by fastforce
  note i = workerInv_ensureStarted [OF s assms(2)]
  have e1: "e1 = None"
  proof (rule ccontr)
    assume "e1 \<noteq> None"
    then have "w1 = w" "\<not> wkLive w"
      using assms(1,2,5,6) s by (auto simp: runWorkerCall_def ensureStarted_def startLocked_def workerInv_def split: option.splits if_splits startOutcome.splits)
    then show False using assms(4) by simp
  qed
  have r: "r1 = Inl e" "w1 = stopLocked env True w0"
    using assms(1,3,5) s e1 i by (auto simp: runWorkerCall_def workerInv_def split: option.splits)
  have k: "wkClient w1 = None" "\<not> wkLive w1" "ProcKilled (current w1) \<in> set (wkLog w1)"
    using i e1 by (auto simp: r stopLocked_def logged_def current_def workerInv_def)
  have "\<exists>c c'. weStart env2 = Spawned c \<and> call2 c = Returned (Inr x, c') \<and> wkClient w2 = Some c' \<and> wkCount w2 = Suc (wkCount w1)"
    using assms(7) k(2)
    by (auto simp: runWorkerCall_def ensureStarted_def startLocked_def logged_def
        split: option.splits if_splits startOutcome.splits panicking.splits sum.splits)
  with r k show ?thesis by simp
qed

subsection \<open>A small worker\<close>

definition demoReplies :: "reply list" where
  "demoReplies = [(noHeader\<lparr>fhOK := True\<rparr>, [7, 8]), (noHeader\<lparr>fhError := ''no''\<rparr>, [])]"

definition demoWire :: wire where
  "demoWire = \<lparr>wireEncode = (\<lambda>h. Inr [ucast (fhID h)]),
     wireDecode = (\<lambda>bs. if bs = [1, 10] then Inr (noHeader\<lparr>fhID := 1, fhOK := True, fhPayload := 2\<rparr>)
                       else if bs = [2, 10] then Inr (noHeader\<lparr>fhID := 2, fhError := ''no''\<rparr>)
                       else if bs = [3, 10] then Inr (noHeader\<lparr>fhID := 1, fhOK := True, fhPayload := 9\<rparr>) else Inl (Message ''json'')),
     wireWrite = (\<lambda>k n. (int n, None)), wireCtx = (\<lambda>k. None), wireMax = 8, wireBits = (\<lambda>x. 0), wireUnbits = (\<lambda>v. 0)\<rparr>"

definition demoLine :: "frameHeader \<Rightarrow> bytes" where
  "demoLine h = [if fhPayload h = 9 then 3 else ucast (fhID h)]"

definition demoClient :: client where
  "demoClient = newClient [1, 10, 7, 8, 2, 10] EOF (Some None)"

lemma demo_calm: "calmWire demoWire"
  by (simp add: calmWire_def demoWire_def)

lemma demo_replies: "repliesOK demoWire demoLine (clNext demoClient) demoReplies"
  "clBytes demoClient = frames demoLine (clNext demoClient) demoReplies @ []"
  by (simp_all add: demoReplies_def replyOK_def lineOK_def numbered_def demoLine_def demoWire_def demoClient_def newClient_def noHeader_def frame_def)

theorem replies_stay_in_step_witness:
  "\<exists>c'. callAll demoWire [(noHeader, []), (noHeader, [5])] demoClient =
     Returned ([Inr (noHeader\<lparr>fhID := 1, fhOK := True, fhPayload := 2\<rparr>, [7, 8]), Inl (Message ''no'')], c')"
  using replies_stay_in_step [OF demo_calm demo_replies(1) _ demo_replies(2), of "[(noHeader, []), (noHeader, [5])]"]
  by (auto simp: demoReplies_def demoClient_def newClient_def verdict_def numbered_def noHeader_def)

lemma demo_call: "\<exists>c'. inferCall demoWire noHeader [] demoClient = Returned (Inr (noHeader\<lparr>fhID := 1, fhOK := True, fhPayload := 2\<rparr>, [7, 8]), c')"
  by (simp add: inferCall_def readReply_def readLine_def readFull_def writeAll.simps demoWire_def demoClient_def newClient_def noHeader_def Let_def)

theorem inference_answer_belongs_to_request_witness:
  "\<exists>c' sent. inferCall demoWire noHeader [] demoClient = Returned (Inr (noHeader\<lparr>fhID := 1, fhOK := True, fhPayload := 2\<rparr>, [7, 8]), c') \<and>
     clSent c' = clSent demoClient @ sent @ [10]"
proof -
  obtain c' where c: "inferCall demoWire noHeader [] demoClient = Returned (Inr (noHeader\<lparr>fhID := 1, fhOK := True, fhPayload := 2\<rparr>, [7, 8]), c')"
    using demo_call by blast
  from inference_answer_belongs_to_request [OF c] c show ?thesis by auto
qed

theorem oversized_payload_panics_witness:
  "inferCall demoWire noHeader [] (newClient [3, 10] EOF None) = Panic"
  by (rule oversized_payload_panics [OF demo_calm, of demoLine "noHeader\<lparr>fhID := 1, fhOK := True, fhPayload := 9\<rparr>" _ "[]"])
    (simp_all add: lineOK_def demoLine_def demoWire_def newClient_def noHeader_def)

definition demoWorkerConfig :: workerConfig where
  "demoWorkerConfig = \<lparr>wcPython = ''python3'', wcScript = ''w.py'', wcMode = ''stt'', wcModelDir = [], wcVoiceFile = [], wcLanguage = [],
     wcDevice = [], wcFallback = [], wcCacheDir = [], wcEnv = [], wcShutdown = 0\<rparr>"

text \<open>One environment in which nothing goes wrong, and one in which the context ends and the process does not.\<close>

definition demoWorkerEnv :: "go_error option \<Rightarrow> workerEnv" where
  "demoWorkerEnv cancel = \<lparr>weCtx = (\<lambda>k. None), weStart = Spawned demoClient, weCancel = cancel, weExited = False, weEnds = False, weEndsKilled = False\<rparr>"

lemma demo_health: "\<exists>c h. inferHealth demoWire demoClient = Returned (Inr h, c)"
  by (simp add: inferHealth_def answered_def inferCall_def readReply_def readLine_def readFull_def writeAll.simps demoWire_def demoClient_def
      newClient_def noHeader_def Let_def)

lemma demo_started: "\<exists>w. StartWorker (demoWorkerEnv None) (demoWorkerEnv None) demoWire demoWorkerConfig = Returned (None, w) \<and>
    wkLive w \<and> wkCount w = 1 \<and> wkLog w = [ProcSpawned 0] \<and> \<not> wkClosed w"
proof -
  obtain c h where "inferHealth demoWire demoClient = Returned (Inr h, c)" using demo_health by blast
  moreover have "workerConfig_ok demoWorkerConfig = Inr (demoWorkerConfig\<lparr>wcDevice := ''CPU'', wcFallback := ''CPU'', wcShutdown := 2000000000\<rparr>)"
    by (simp add: workerConfig_ok_def demoWorkerConfig_def trim_space_plain byte_val_def Let_def)
  ultimately show ?thesis
    by (simp add: StartWorker_def WorkerHealth_def runWorkerCall_def ensureStarted_def startLocked_def newWorker_def logged_def demoWorkerEnv_def)
qed

theorem worker_processes_accounted_witness:
  "\<exists>w0 w. StartWorker (demoWorkerEnv None) (demoWorkerEnv None) demoWire demoWorkerConfig = Returned (None, w0) \<and>
     workerRun [OpHealth (demoWorkerEnv (Some Canceled)) demoWire] w0 = Some w \<and> ProcKilled 0 \<in> set (wkLog w)"
proof -
  obtain w0 where w0: "StartWorker (demoWorkerEnv None) (demoWorkerEnv None) demoWire demoWorkerConfig = Returned (None, w0)"
      "wkLive w0" "wkCount w0 = 1" "wkLog w0 = [ProcSpawned 0]" "\<not> wkClosed w0" using demo_started by blast
  moreover obtain y where "wkClient w0 = Some y" using StartWorker_inv [OF w0(1)] w0(2) by (auto simp: workerInv_def)
  ultimately obtain w where w: "workerRun [OpHealth (demoWorkerEnv (Some Canceled)) demoWire] w0 = Some w" "ProcSpawned 0 \<in> set (wkLog w)" "\<not> wkLive w"
      "ProcReaped 0 \<notin> set (wkLog w)"
    by (simp add: WorkerHealth_def stateOf_def runWorkerCall_def ensureStarted_def stopLocked_def logged_def current_def demoWorkerEnv_def)
  with worker_processes_accounted [OF w0(1) w(1,2)] w0(1) show ?thesis by blast
qed

theorem cancelled_call_isolated_witness:
  "\<exists>w w1 w2 h. runWorkerCall (demoWorkerEnv (Some Canceled)) (inferHealth demoWire) w = Returned (Inl Canceled, w1) \<and>
     runWorkerCall (demoWorkerEnv None) (inferHealth demoWire) w1 = Returned (Inr h, w2) \<and> wkCount w2 = Suc (wkCount w1)"
proof -
  obtain w0 where w0: "StartWorker (demoWorkerEnv None) (demoWorkerEnv None) demoWire demoWorkerConfig = Returned (None, w0)"
      "wkLive w0" "wkCount w0 = 1" "wkLog w0 = [ProcSpawned 0]" "\<not> wkClosed w0" using demo_started by blast
  have inv: "workerInv w0" using StartWorker_inv [OF w0(1)] by simp
  obtain c h where h: "inferHealth demoWire demoClient = Returned (Inr h, c)" using demo_health by blast
  obtain y where "wkClient w0 = Some y" using inv w0(2) by (auto simp: workerInv_def)
  then obtain w1 where w1: "runWorkerCall (demoWorkerEnv (Some Canceled)) (inferHealth demoWire) w0 = Returned (Inl Canceled, w1)"
      "\<not> wkLive w1" "\<not> wkClosed w1"
    using w0 by (simp add: runWorkerCall_def ensureStarted_def stopLocked_def logged_def current_def demoWorkerEnv_def)
  then obtain w2 where w2: "runWorkerCall (demoWorkerEnv None) (inferHealth demoWire) w1 = Returned (Inr h, w2)"
    using h by (simp add: runWorkerCall_def ensureStarted_def startLocked_def logged_def demoWorkerEnv_def)
  from cancelled_call_isolated [OF w1(1) inv _ _ _ _ w2, of Canceled] w0(2) w1(1) w2 show ?thesis
    by (auto simp: demoWorkerEnv_def)
qed

end
