(* ===== verification/Web_Client.thy ===== *)
theory Web_Client
  imports Go_Text Tools "HOL-Library.Word" "HOL-Library.Sublist"
begin

text \<open>
  The HTTP client of the web tools: the policy on addresses against a block list, which addresses are dialled, how a
  response is bounded, and what happens to credentials across redirects.
\<close>

unbundle bit_operations_syntax

section \<open>The HTTP client of the web tools (\<^verbatim>\<open>internal/tools/safe_http.go\<close>)\<close>

text \<open>
  The client lets the tools reach the public network only.  Parsing of URLs and addresses, media types and the
  lower case of letters are the library's and parameters here; \<^verbatim>\<open>http.Client\<close> is written out as far as it calls the
  client back: for each request it asks for a connection, unless it has one, and before it follows a redirect it asks
  whether it may.
\<close>

subsection \<open>Addresses\<close>

type_synonym ip = "8 word list"

definition mapped :: "ip \<Rightarrow> ip" where
  "mapped v4 = replicate 10 0 @ [0xFF, 0xFF] @ v4"

definition To4 :: "ip \<Rightarrow> ip option" where
  "To4 a =
     (if length a = 4 then Some a
      else if length a = 16 \<and> take 12 a = replicate 10 0 @ [0xFF, 0xFF] then Some (drop 12 a)
      else None)"

definition ipEqual :: "ip \<Rightarrow> ip \<Rightarrow> bool" where
  "ipEqual a b =
     (if length a = length b then a = b
      else if length a = 4 \<and> length b = 16 then b = mapped a
      else if length a = 16 \<and> length b = 4 then a = mapped b
      else False)"

definition IsUnspecified :: "ip \<Rightarrow> bool" where
  "IsUnspecified a \<longleftrightarrow> ipEqual a (mapped [0, 0, 0, 0]) \<or> ipEqual a (replicate 16 0)"

definition IsLoopback :: "ip \<Rightarrow> bool" where
  "IsLoopback a = (case To4 a of Some v \<Rightarrow> v ! 0 = 127 | None \<Rightarrow> ipEqual a (replicate 15 0 @ [1]))"

definition IsPrivate :: "ip \<Rightarrow> bool" where
  "IsPrivate a =
     (case To4 a of
        Some v \<Rightarrow> v ! 0 = 10 \<or> (v ! 0 = 172 \<and> v ! 1 AND 0xF0 = 16) \<or> (v ! 0 = 192 \<and> v ! 1 = 168)
      | None \<Rightarrow> length a = 16 \<and> a ! 0 AND 0xFE = 0xFC)"

definition IsMulticast :: "ip \<Rightarrow> bool" where
  "IsMulticast a = (case To4 a of Some v \<Rightarrow> v ! 0 AND 0xF0 = 0xE0 | None \<Rightarrow> length a = 16 \<and> a ! 0 = 0xFF)"

definition IsLinkLocalUnicast :: "ip \<Rightarrow> bool" where
  "IsLinkLocalUnicast a =
     (case To4 a of
        Some v \<Rightarrow> v ! 0 = 169 \<and> v ! 1 = 254
      | None \<Rightarrow> length a = 16 \<and> a ! 0 = 0xFE \<and> a ! 1 AND 0xC0 = 0x80)"

definition IsGlobalUnicast :: "ip \<Rightarrow> bool" where
  "IsGlobalUnicast a \<longleftrightarrow>
     (length a = 4 \<or> length a = 16) \<and> \<not> ipEqual a (mapped [255, 255, 255, 255]) \<and> \<not> IsUnspecified a \<and> \<not> IsLoopback a \<and>
     \<not> IsMulticast a \<and> \<not> IsLinkLocalUnicast a"

text \<open>\<^verbatim>\<open>ipInCIDR\<close> on the parsed network: its number and mask.\<close>

definition ipInCIDR :: "ip \<Rightarrow> ip \<Rightarrow> ip \<Rightarrow> bool" where
  "ipInCIDR a number netmask =
     (let b = (case To4 a of Some v \<Rightarrow> v | None \<Rightarrow> a) in
      length b = length number \<and> map2 (AND) number netmask = map2 (AND) b netmask)"

definition metadataAddresses :: "ip list" where
  "metadataAddresses =
     [mapped [169, 254, 169, 254], mapped [169, 254, 170, 2], mapped [100, 100, 100, 200], mapped [192, 0, 0, 192],
      [0xFD, 0, 0x0E, 0xC2, 0, 0, 0, 0, 0, 0, 0, 0, 0, 0, 0x02, 0x54]]"

definition blockedOutboundIPReason :: "ip \<Rightarrow> string" where
  "blockedOutboundIPReason a0 =
     (if a0 = [] then ''invalid address''
      else
      (let a = (case To4 a0 of Some v \<Rightarrow> v | None \<Rightarrow> a0) in
       if \<not> IsGlobalUnicast a then ''address is not global unicast''
       else if IsPrivate a then ''private address''
       else if ipInCIDR a [100, 64, 0, 0] [0xFF, 0xC0, 0, 0] then ''carrier-grade NAT address''
       else if list_ex (ipEqual a) metadataAddresses then ''metadata service address''
       else []))"

subsection \<open>Errors and the library\<close>

datatype httpErrorCode =
    HTTPPolicyViolation | HTTPNetworkFailure | HTTPContextCancelled | HTTPTimeout | HTTPRedirectLimit
  | HTTPStatusFailure | HTTPBodyLimitExceeded | HTTPContentTypeDenied

record httpError =
  heCode :: httpErrorCode
  heURL :: string
  heStatus :: int
  heErr :: "go_error list"

text \<open>An error that has an \<^verbatim>\<open>HTTPError\<close> in its chain, or none.\<close>

datatype webError = TypedError httpError | PlainError go_error

record httpConfig =
  hcTimeout :: duration
  hcMaxBody :: int
  hcMaxRedirects :: int
  hcUserAgent :: string

type_synonym headers = "string \<Rightarrow> string option"

record webLib =
  wlParse :: "string \<Rightarrow> go_error + url"
  wlShow :: "url \<Rightarrow> string"
  wlLower :: "string \<Rightarrow> string"
  wlEqualFold :: "string \<Rightarrow> string \<Rightarrow> bool"
  wlParseIP :: "string \<Rightarrow> ip option"
  wlShowIP :: "ip \<Rightarrow> string"
  wlAddr :: "url \<Rightarrow> string"
  wlSplit :: "string \<Rightarrow> go_error + string \<times> string"
  wlJoin :: "string \<Rightarrow> string \<Rightarrow> string"
  wlMedia :: "string \<Rightarrow> go_error + string"
  wlDetect :: "string \<Rightarrow> string"
  wlForward :: "url \<Rightarrow> url \<Rightarrow> headers \<Rightarrow> headers"

definition httpFail :: "httpErrorCode \<Rightarrow> string \<Rightarrow> go_error \<Rightarrow> httpError" where
  "httpFail code u e = \<lparr>heCode = code, heURL = u, heStatus = 0, heErr = [e]\<rparr>"

definition violation :: "string \<Rightarrow> string \<Rightarrow> httpError + 'a" where
  "violation u what = Inl (httpFail HTTPPolicyViolation u (Message what))"

definition is_opt :: "go_error option \<Rightarrow> go_error \<Rightarrow> bool" where
  "is_opt e target = (case e of None \<Rightarrow> False | Some x \<Rightarrow> errors_is x target)"

definition classifyHTTPClientError :: "go_error option \<Rightarrow> string \<Rightarrow> webError \<Rightarrow> httpError" where
  "classifyHTTPClientError ctxErr u err =
     (case err of
        TypedError e \<Rightarrow> e
      | PlainError e \<Rightarrow>
          if errors_is e Canceled \<or> is_opt ctxErr Canceled then httpFail HTTPContextCancelled u Canceled
          else if errors_is e DeadlineExceeded \<or> is_opt ctxErr DeadlineExceeded then httpFail HTTPTimeout u DeadlineExceeded
          else httpFail HTTPNetworkFailure u e)"

definition NewSafeHTTPConfig :: "httpConfig \<Rightarrow> bool \<Rightarrow> bool \<Rightarrow> go_error + httpConfig" where
  "NewSafeHTTPConfig c hasResolver hasDial =
     (if hcTimeout c \<le> 0 then Inl (Message ''HTTP timeout must be greater than zero'')
      else if hcMaxBody c \<le> 0 then Inl (Message ''HTTP max body bytes must be greater than zero'')
      else if hcMaxRedirects c < 0 then Inl (Message ''HTTP max redirects must not be negative'')
      else if \<not> hasResolver then Inl (Message ''HTTP resolver is nil'')
      else if \<not> hasDial then Inl (Message ''HTTP dialer is nil'')
      else Inr (if trim_space (hcUserAgent c) = [] then c\<lparr>hcUserAgent := ''Xarlatan/0.2''\<rparr> else c))"

definition DefaultSafeHTTPConfig :: httpConfig where
  "DefaultSafeHTTPConfig = \<lparr>hcTimeout = 15000000000, hcMaxBody = 524288, hcMaxRedirects = 5, hcUserAgent = ''Xarlatan/0.2''\<rparr>"

subsection \<open>The URL\<close>

fun digitsValue :: "int \<Rightarrow> string \<Rightarrow> int option" where
  "digitsValue n [] = Some n"
| "digitsValue n (c # cs) =
     (let b = byte_val c in if 48 \<le> b \<and> b \<le> 57 then digitsValue (10 * n + int (b - 48)) cs else None)"

text \<open>\<^verbatim>\<open>strconv.Atoi\<close>: a sign, digits, and a value of 64 bits.\<close>

definition Atoi :: "string \<Rightarrow> int option" where
  "Atoi s =
     (let (neg, ds) = (case s of c # cs \<Rightarrow> if c = CHR ''-'' then (True, cs) else if c = CHR ''+'' then (False, cs) else (False, s) | [] \<Rightarrow> (False, s)) in
      if ds = [] then None
      else (case digitsValue 0 ds of
              None \<Rightarrow> None
            | Some n \<Rightarrow> let v = (if neg then - n else n) in if - (2 ^ 63) \<le> v \<and> v < 2 ^ 63 then Some v else None))"

definition trimDot :: "string \<Rightarrow> string" where
  "trimDot s = (if s \<noteq> [] \<and> last s = CHR ''.'' then butlast s else s)"

definition goodPort :: "string \<Rightarrow> bool" where
  "goodPort p = (p = [] \<or> (case Atoi p of None \<Rightarrow> False | Some v \<Rightarrow> 1 \<le> v \<and> v \<le> 65535))"

definition validateOutboundURL :: "webLib \<Rightarrow> string \<Rightarrow> httpError + url" where
  "validateOutboundURL lib raw =
     (let t = trim_space raw in
      if t = [] then violation raw ''URL is empty''
      else
      (case wlParse lib t of
         Inl e \<Rightarrow> Inl (httpFail HTTPPolicyViolation raw e)
       | Inr u0 \<Rightarrow>
         (if urlOpaque u0 \<noteq> [] \<or> urlScheme u0 = [] \<or> urlHost u0 = [] then violation raw ''URL must be absolute and include a host''
          else
          (let u = u0\<lparr>urlScheme := wlLower lib (urlScheme u0)\<rparr>; hostname = trimDot (wlLower lib (urlHostname u)) in
           if urlScheme u \<noteq> ''http'' \<and> urlScheme u \<noteq> ''https'' then violation raw ''unsupported URL scheme''
           else if urlUser u then violation raw ''embedded URL credentials are not allowed''
           else if hostname = [] then violation raw ''URL host is empty''
           else if CHR ''%'' \<in> set hostname then violation raw ''IPv6 zones are not allowed''
           else if hostname = ''localhost'' \<or> suffix ''.localhost'' hostname then violation raw ''localhost is blocked''
           else if \<not> goodPort (urlPort u) then violation raw ''invalid port''
           else
           (case wlParseIP lib hostname of
              Some a \<Rightarrow> if blockedOutboundIPReason a \<noteq> [] then violation raw (''blocked IP: '' @ blockedOutboundIPReason a) else Inr u
            | None \<Rightarrow> Inr u)))))"

subsection \<open>Connecting\<close>

text \<open>
  The environment of one request: whether a connection is reused, the answer of the resolver, the attempts to dial and the
  context after each (and after the lookup), and what came back.
\<close>

datatype hopResult = HopFailed go_error | HopRedirect url | HopFinal int string string "go_error option"

record hop =
  hpReuse :: bool
  hpLookup :: "go_error + ip list"
  hpCtxLookup :: "go_error option"
  hpDial :: "nat \<Rightarrow> go_error option"
  hpCtx :: "nat \<Rightarrow> go_error option"
  hpResult :: hopResult

fun allowedAddresses :: "webLib \<Rightarrow> string \<Rightarrow> string list \<Rightarrow> ip list \<Rightarrow> httpError + ip list" where
  "allowedAddresses lib hostname seen [] = Inr []"
| "allowedAddresses lib hostname seen (a # as) =
     (if blockedOutboundIPReason a \<noteq> [] then violation hostname (''DNS resolved to blocked IP: '' @ blockedOutboundIPReason a)
      else if wlShowIP lib a \<in> set seen then allowedAddresses lib hostname seen as
      else (case allowedAddresses lib hostname (wlShowIP lib a # seen) as of Inl e \<Rightarrow> Inl e | Inr rest \<Rightarrow> Inr (a # rest)))"

definition resolveAllowedIPs :: "webLib \<Rightarrow> hop \<Rightarrow> string \<Rightarrow> httpError + ip list" where
  "resolveAllowedIPs lib h hostname =
     (case wlParseIP lib hostname of
        Some a \<Rightarrow> if blockedOutboundIPReason a \<noteq> [] then violation hostname (''blocked IP: '' @ blockedOutboundIPReason a) else Inr [a]
      | None \<Rightarrow>
        (case hpLookup h of
           Inl e \<Rightarrow> Inl (classifyHTTPClientError (hpCtxLookup h) hostname (PlainError e))
         | Inr as \<Rightarrow>
             if as = [] then Inl (httpFail HTTPNetworkFailure hostname (Message ''DNS returned no addresses''))
             else allowedAddresses lib hostname [] as))"

text \<open>The addresses dialled, and the error if no attempt succeeded.\<close>

fun dialLoop :: "webLib \<Rightarrow> hop \<Rightarrow> string \<Rightarrow> string \<Rightarrow> nat \<Rightarrow> go_error list \<Rightarrow> ip list \<Rightarrow> httpError option \<times> string list" where
  "dialLoop lib h address port k failures [] =
     (Some \<lparr>heCode = HTTPNetworkFailure, heURL = address, heStatus = 0, heErr = failures\<rparr>, [])"
| "dialLoop lib h address port k failures (a # as) =
     (let target = wlJoin lib (wlShowIP lib a) port in
      case hpDial h k of
        None \<Rightarrow> (None, [target])
      | Some e \<Rightarrow>
          if hpCtx h k \<noteq> None then (Some (classifyHTTPClientError (hpCtx h k) address (PlainError e)), [target])
          else (let (r, ds) = dialLoop lib h address port (Suc k) (failures @ [e]) as in (r, target # ds)))"

definition dialContext :: "webLib \<Rightarrow> hop \<Rightarrow> string \<Rightarrow> httpError option \<times> string list" where
  "dialContext lib h address =
     (case wlSplit lib address of
        Inl e \<Rightarrow> (Some (httpFail HTTPPolicyViolation address e), [])
      | Inr (hostname, port) \<Rightarrow>
        (case resolveAllowedIPs lib h hostname of
           Inl e \<Rightarrow> (Some e, [])
         | Inr as \<Rightarrow> dialLoop lib h address port 0 [] as))"

definition effectivePort :: "webLib \<Rightarrow> url \<Rightarrow> string" where
  "effectivePort lib u =
     (if urlPort u \<noteq> [] then urlPort u
      else if wlEqualFold lib (urlScheme u) ''https'' then ''443''
      else if wlEqualFold lib (urlScheme u) ''http'' then ''80'' else [])"

definition sameAuthority :: "webLib \<Rightarrow> url \<Rightarrow> url \<Rightarrow> bool" where
  "sameAuthority lib l r \<longleftrightarrow> wlEqualFold lib (urlHostname l) (urlHostname r) \<and> effectivePort lib l = effectivePort lib r"

definition credentialHeaders :: "string list" where
  "credentialHeaders = [''Authorization'', ''Proxy-Authorization'', ''Cookie'', ''X-Subscription-Token'', ''X-Api-Key'', ''Api-Key'']"

definition checkRedirect :: "webLib \<Rightarrow> httpConfig \<Rightarrow> url list \<Rightarrow> url \<Rightarrow> headers \<Rightarrow> httpError + headers" where
  "checkRedirect lib cfg via u hs =
     (if hcMaxRedirects cfg < int (length via)
      then Inl (httpFail HTTPRedirectLimit (wlShow lib u) (Message ''maximum redirects exceeded''))
      else
      (case validateOutboundURL lib (wlShow lib u) of
         Inl e \<Rightarrow> Inl e
       | Inr v \<Rightarrow>
           if via \<noteq> [] \<and> \<not> sameAuthority lib (last via) u
           then Inr (\<lambda>name. if name \<in> set credentialHeaders then None else hs name) else Inr hs))"

subsection \<open>The request\<close>

text \<open>
  \<^verbatim>\<open>http.Client.Do\<close>: the requests \<open>via\<close> come before \<open>u\<close>; a redirected request gets the headers of the first one, as the library
  forwards them.  \<open>None\<close> while no answer has come.  With the result are the addresses dialled and the requests sent.
\<close>

fun doHops ::
  "webLib \<Rightarrow> httpConfig \<Rightarrow> headers \<Rightarrow> url list \<Rightarrow> url \<Rightarrow> headers \<Rightarrow> hop list \<Rightarrow>
     ((webError + url \<times> int \<times> string \<times> string \<times> go_error option) \<times> string list \<times> (url \<times> headers) list) option"
where
  "doHops lib cfg hs0 via u hs [] = None"
| "doHops lib cfg hs0 via u hs (h # rest) =
     (case (if hpReuse h then (None, []) else dialContext lib h (wlAddr lib u)) of
        (Some e, ds) \<Rightarrow> Some (Inl (TypedError e), ds, [])
      | (None, ds) \<Rightarrow>
        (case hpResult h of
           HopFailed e \<Rightarrow> Some (Inl (PlainError e), ds, [(u, hs)])
         | HopFinal status contentType body err \<Rightarrow> Some (Inr (u, status, contentType, body, err), ds, [(u, hs)])
         | HopRedirect v \<Rightarrow>
           (case checkRedirect lib cfg (via @ [u]) v (wlForward lib (hd (via @ [u])) v hs0) of
              Inl e \<Rightarrow> Some (Inl (TypedError e), ds, [(u, hs)])
            | Inr hs1 \<Rightarrow>
              (case doHops lib cfg hs0 (via @ [u]) v hs1 rest of
                 None \<Rightarrow> None
               | Some (r, ds1, rs) \<Rightarrow> Some (r, ds @ ds1, (u, hs) # rs)))))"

definition allowedMedia :: "string \<Rightarrow> bool" where
  "allowedMedia m \<longleftrightarrow>
     prefix ''text/'' m \<or>
     m \<in> {''application/json'', ''application/xml'', ''application/xhtml+xml'', ''application/javascript'', ''application/x-ndjson''} \<or>
     suffix ''+json'' m \<or> suffix ''+xml'' m"

definition allowedResponseContentType :: "webLib \<Rightarrow> string \<Rightarrow> string \<Rightarrow> go_error + string" where
  "allowedResponseContentType lib raw0 body =
     (let raw = (if trim_space raw0 = [] then wlDetect lib body else raw0) in
      case wlMedia lib raw of
        Inl e \<Rightarrow> Inl (Wrapped ''invalid content type'' e)
      | Inr m0 \<Rightarrow> let m = wlLower lib m0 in if allowedMedia m then Inr m else Inl (Message ''content type is not allowed''))"

record safeResponse =
  shBody :: string
  shStatus :: int
  shType :: string
  shURL :: string
  shTruncated :: bool

definition firstHeaders :: "httpConfig \<Rightarrow> (string \<times> string) list \<Rightarrow> headers" where
  "firstHeaders cfg extra = foldl (\<lambda>hs (name, v). hs(name \<mapsto> v))
     [''User-Agent'' \<mapsto> hcUserAgent cfg, ''Accept'' \<mapsto> ''text/html,text/plain,application/json,application/xml;q=0.9''] extra"

definition readBody :: "int \<Rightarrow> string \<Rightarrow> go_error option \<Rightarrow> go_error + string" where
  "readBody limit body err =
     (if limit + 1 \<le> int (length body) then Inr (take (nat (limit + 1)) body)
      else case err of Some e \<Rightarrow> Inl e | None \<Rightarrow> Inr body)"

definition finishGet :: "webLib \<Rightarrow> go_error option \<Rightarrow> int \<Rightarrow> url \<times> int \<times> string \<times> string \<times> go_error option \<Rightarrow> httpError + safeResponse" where
  "finishGet lib ctxErr limit r =
     (case r of (u, status, contentType, body, err) \<Rightarrow>
        if 400 \<le> status then Inl \<lparr>heCode = HTTPStatusFailure, heURL = wlShow lib u, heStatus = status, heErr = [Message ''unexpected HTTP status'']\<rparr>
        else
        (case readBody limit body err of
           Inl e \<Rightarrow> Inl (classifyHTTPClientError ctxErr (wlShow lib u) (PlainError e))
         | Inr bytes \<Rightarrow>
           (let truncated = limit < int (length bytes); kept = (if truncated then take (nat limit) bytes else bytes) in
            case allowedResponseContentType lib contentType kept of
              Inl e \<Rightarrow> Inl (httpFail HTTPContentTypeDenied (wlShow lib u) e)
            | Inr m \<Rightarrow> Inr \<lparr>shBody = kept, shStatus = status, shType = m, shURL = wlShow lib u, shTruncated = truncated\<rparr>)))"

definition bodyLimit :: "httpConfig \<Rightarrow> int \<Rightarrow> int" where
  "bodyLimit cfg maxBytes = (if maxBytes \<le> 0 \<or> hcMaxBody cfg < maxBytes then hcMaxBody cfg else maxBytes)"

text \<open>\<open>reparse\<close> is the answer of \<^verbatim>\<open>http.NewRequestWithContext\<close> for the text of the URL, \<open>ctxErr\<close> the context when an error is classified.\<close>

definition Get ::
  "webLib \<Rightarrow> httpConfig \<Rightarrow> (string \<Rightarrow> go_error + url) \<Rightarrow> go_error option \<Rightarrow> string \<Rightarrow> (string \<times> string) list \<Rightarrow> int \<Rightarrow> hop list \<Rightarrow>
     ((httpError + safeResponse) \<times> string list \<times> (url \<times> headers) list) option"
where
  "Get lib cfg reparse ctxErr raw extra maxBytes hops =
     (case validateOutboundURL lib raw of
        Inl e \<Rightarrow> Some (Inl e, [], [])
      | Inr parsed \<Rightarrow>
        (case reparse (wlShow lib parsed) of
           Inl e \<Rightarrow> Some (Inl (httpFail HTTPPolicyViolation raw e), [], [])
         | Inr u \<Rightarrow>
           (let hs = firstHeaders cfg extra in
            case doHops lib cfg hs [] u hs hops of
              None \<Rightarrow> None
            | Some (Inl e, ds, rs) \<Rightarrow> Some (Inl (classifyHTTPClientError ctxErr raw e), ds, rs)
            | Some (Inr r, ds, rs) \<Rightarrow> Some (finishGet lib ctxErr (bodyLimit cfg maxBytes) r, ds, rs))))"

subsection \<open>The policy on addresses\<close>

text \<open>The reference: an IPv4 address as a number, in a block of the registries.\<close>

definition addressNumber :: "8 word \<Rightarrow> 8 word \<Rightarrow> 8 word \<Rightarrow> 8 word \<Rightarrow> nat" where
  "addressNumber a b c d = ((unat a * 256 + unat b) * 256 + unat c) * 256 + unat d"

definition inBlock :: "nat \<Rightarrow> nat \<times> nat \<Rightarrow> bool" where
  "inBlock n blk \<longleftrightarrow> n div 2 ^ (32 - snd blk) = fst blk div 2 ^ (32 - snd blk)"

text \<open>Network and length of the blocks that must not be reached.\<close>

definition closedBlocks :: "(nat \<times> nat) list" where
  "closedBlocks =
     [(0x00000000, 32), (0xFFFFFFFF, 32), (0x7F000000, 8), (0xE0000000, 4), (0xA9FE0000, 16),
      (0x0A000000, 8), (0xAC100000, 12), (0xC0A80000, 16), (0x64400000, 10), (0xC00000C0, 32)]"

lemma clear_low: "unat (x AND NOT (mask n)) = unat (x :: 8 word) div 2 ^ n * 2 ^ n"
proof -
  have e: "x AND NOT (mask n) = push_bit n (drop_bit n x)"
    by (rule bit_eqI) (auto simp: bit_simps)
  have u: "unat x < 256" using unsigned_less [of x] by simp
  then have l: "unat x div 2 ^ n * 2 ^ n < 256"
    using div_times_less_eq_dividend [of "unat x" "2 ^ n"] by (rule order.strict_trans1 [rotated])
  have "unat (push_bit n (drop_bit n x)) = unat x div 2 ^ n * 2 ^ n mod 256"
    using u by (simp add: unsigned_push_bit_eq unsigned_drop_bit_eq) (simp add: push_bit_eq_mult drop_bit_eq_div take_bit_eq_mod)
  then show ?thesis using l by (simp only: e mod_less)
qed

lemma byte_masks:
  "((x :: 8 word) AND 0xF0 = 16) = (unat x div 16 = 1)"
  "((x :: 8 word) AND 0xF0 = 0xE0) = (unat x div 16 = 14)"
  "((x :: 8 word) AND 0xC0 = 64) = (unat x div 64 = 1)"
proof -
  have m: "NOT (mask 4) = (0xF0 :: 8 word)" "NOT (mask 6) = (0xC0 :: 8 word)" by (simp_all add: mask_eq_exp_minus_1)
  have "unat (x AND 0xF0) = unat x div 16 * 16" "unat (x AND 0xC0) = unat x div 64 * 64"
    using clear_low [of x 4] clear_low [of x 6] unfolding m by simp_all
  then show "(x AND 0xF0 = 16) = (unat x div 16 = 1)" "(x AND 0xF0 = 0xE0) = (unat x div 16 = 14)" "(x AND 0xC0 = 64) = (unat x div 64 = 1)"
    by (simp_all add: word_unat_eq_iff)
qed

lemma four_bytes: "length a = 4 \<longleftrightarrow> (\<exists>p q r s. a = [p, q, r, s])"
  by (cases a) (auto simp: length_Suc_conv numeral_eq_Suc)

lemma replicates: "replicate 10 x = [x, x, x, x, x, x, x, x, x, x]" "replicate 16 x = [x, x, x, x, x, x, x, x, x, x, x, x, x, x, x, x]"
  "replicate 15 x = [x, x, x, x, x, x, x, x, x, x, x, x, x, x, x]"
  by (simp_all add: numeral_eq_Suc)

lemma ipEqual_four:
  "ipEqual [a, b, c, d] (mapped [e, f, g, h]) \<longleftrightarrow> a = e \<and> b = f \<and> c = g \<and> d = h"
  "\<not> ipEqual [a, b, c, d] (replicate 16 0)" "\<not> ipEqual [a, b, c, d] [0xFD, 0, 0x0E, 0xC2, 0, 0, 0, 0, 0, 0, 0, 0, 0, 0, 0x02, 0x54]"
  by (auto simp: ipEqual_def mapped_def replicates)

lemma To4_four [simp]: "To4 [a, b, c, d] = Some [a, b, c, d]"
  by (simp add: To4_def)

lemma global_four: "IsGlobalUnicast [a, b, c, d] \<longleftrightarrow>
    \<not> (a = 255 \<and> b = 255 \<and> c = 255 \<and> d = 255) \<and> \<not> (a = 0 \<and> b = 0 \<and> c = 0 \<and> d = 0) \<and> a \<noteq> 127 \<and>
    a AND 0xF0 \<noteq> 0xE0 \<and> \<not> (a = 169 \<and> b = 254)"
  by (simp add: IsGlobalUnicast_def IsUnspecified_def IsLoopback_def IsMulticast_def IsLinkLocalUnicast_def ipEqual_four)

lemma metadata_four: "list_ex (ipEqual [a, b, c, d]) metadataAddresses \<longleftrightarrow>
    (a = 169 \<and> b = 254 \<and> c = 169 \<and> d = 254) \<or> (a = 169 \<and> b = 254 \<and> c = 170 \<and> d = 2) \<or>
    (a = 100 \<and> b = 100 \<and> c = 100 \<and> d = 200) \<or> (a = 192 \<and> b = 0 \<and> c = 0 \<and> d = 192)"
  by (simp add: metadataAddresses_def ipEqual_four)

lemma cgn_four: "ipInCIDR [a, b, c, d] [100, 64, 0, 0] [0xFF, 0xC0, 0, 0] \<longleftrightarrow> a = 100 \<and> b AND 0xC0 = 64"
proof -
  have "(255 :: 8 word) = - 1" by simp
  then have "x AND 255 = x" for x :: "8 word" by (metis and.right_neutral)
  then show ?thesis by (auto simp: ipInCIDR_def)
qed

lemma blocked_four:
  "blockedOutboundIPReason [a, b, c, d] = [] \<longleftrightarrow>
     IsGlobalUnicast [a, b, c, d] \<and> \<not> IsPrivate [a, b, c, d] \<and> \<not> (a = 100 \<and> b AND 0xC0 = 64) \<and>
     \<not> list_ex (ipEqual [a, b, c, d]) metadataAddresses"
  by (simp add: blockedOutboundIPReason_def cgn_four Let_def)

lemma digit_eq: "y < m \<Longrightarrow> v < m \<Longrightarrow> x * m + y = u * m + v \<longleftrightarrow> x = u \<and> y = (v :: nat)"
proof
  assume a: "y < m" "v < m" "x * m + y = u * m + v"
  have "(x * m + y) div m = x" "(u * m + v) div m = u" "(x * m + y) mod m = y" "(u * m + v) mod m = v" using a(1,2) by simp_all
  with a(3) show "x = u \<and> y = v" by metis
qed simp

lemma number_eq:
  assumes "B < 256" "C < 256" "D < 256" "q < 256" "r < 256" "s < 256"
  shows "((A * 256 + B) * 256 + C) * 256 + D = ((p * 256 + q) * 256 + r) * 256 + (s :: nat) \<longleftrightarrow> A = p \<and> B = q \<and> C = r \<and> D = s"
  using assms by (simp only: digit_eq) blast

lemma number_div:
  assumes "n = ((A * 256 + B) * 256 + C) * 256 + (D :: nat)" "B < 256" "C < 256" "D < 256"
  shows "n div 2 ^ 24 = A" "n div 2 ^ 28 = A div 16" "n div 2 ^ 16 = A * 256 + B" "n div 2 ^ 20 = A * 16 + B div 16" "n div 2 ^ 22 = A * 4 + B div 64"
proof -
  have m: "n div 2 ^ 16 = A * 256 + B" "n div 2 ^ 24 = A" using assms by simp_all
  show "n div 2 ^ 16 = A * 256 + B" "n div 2 ^ 24 = A" by (rule m)+
  have "n div 2 ^ 28 = n div 2 ^ 24 div 16" "n div 2 ^ 20 = n div 2 ^ 16 div 16" "n div 2 ^ 22 = n div 2 ^ 16 div 64"
    by (simp_all add: div_mult2_eq [symmetric])
  then show "n div 2 ^ 28 = A div 16" "n div 2 ^ 20 = A * 16 + B div 16" "n div 2 ^ 22 = A * 4 + B div 64"
    unfolding m by simp_all
qed

lemma blocked_mapped: "blockedOutboundIPReason (mapped [a, b, c, d]) = blockedOutboundIPReason [a, b, c, d]"
proof -
  have "To4 (mapped [a, b, c, d]) = Some [a, b, c, d]" "mapped [a, b, c, d] \<noteq> []"
    by (simp_all add: To4_def mapped_def replicates)
  then show ?thesis by (simp add: blockedOutboundIPReason_def)
qed

lemma policy_numbers:
  "blockedOutboundIPReason [a, b, c, d] = [] \<longleftrightarrow>
      \<not> (unat a = 255 \<and> unat b = 255 \<and> unat c = 255 \<and> unat d = 255) \<and> \<not> (unat a = 0 \<and> unat b = 0 \<and> unat c = 0 \<and> unat d = 0) \<and> unat a \<noteq> 127 \<and> unat a div 16 \<noteq> 14 \<and>
      \<not> (unat a = 169 \<and> unat b = 254) \<and> unat a \<noteq> 10 \<and> \<not> (unat a = 172 \<and> unat b div 16 = 1) \<and> \<not> (unat a = 192 \<and> unat b = 168) \<and> \<not> (unat a = 100 \<and> unat b div 64 = 1) \<and>
      \<not> (unat a = 192 \<and> unat b = 0 \<and> unat c = 0 \<and> unat d = 192)"
proof -
  have w: "x = 0 \<longleftrightarrow> unat x = 0" "x = numeral k \<longleftrightarrow> unat x = unat (numeral k :: 8 word)" for x :: "8 word" and k by (simp add: unat_eq_0) (rule word_unat_eq_iff)
  have meta: "list_ex (ipEqual [a, b, c, d]) metadataAddresses \<longleftrightarrow> (unat a = 169 \<and> unat b = 254 \<and> unat c = 169 \<and> unat d = 254) \<or>
      (unat a = 169 \<and> unat b = 254 \<and> unat c = 170 \<and> unat d = 2) \<or> (unat a = 100 \<and> unat b = 100 \<and> unat c = 100 \<and> unat d = 200) \<or> (unat a = 192 \<and> unat b = 0 \<and> unat c = 0 \<and> unat d = 192)"
    unfolding metadata_four w by simp
  have glob: "IsGlobalUnicast [a, b, c, d] \<longleftrightarrow> \<not> (unat a = 255 \<and> unat b = 255 \<and> unat c = 255 \<and> unat d = 255) \<and>
      \<not> (unat a = 0 \<and> unat b = 0 \<and> unat c = 0 \<and> unat d = 0) \<and> unat a \<noteq> 127 \<and> unat a div 16 \<noteq> 14 \<and> \<not> (unat a = 169 \<and> unat b = 254)"
    unfolding global_four byte_masks unfolding w by simp
  have priv: "IsPrivate [a, b, c, d] \<longleftrightarrow> unat a = 10 \<or> (unat a = 172 \<and> unat b div 16 = 1) \<or> (unat a = 192 \<and> unat b = 168)"
    unfolding IsPrivate_def by (simp add: byte_masks) (simp add: w)
  have cgn: "a = 100 \<and> b AND 0xC0 = 64 \<longleftrightarrow> unat a = 100 \<and> unat b div 64 = 1" unfolding byte_masks by (simp add: w)
  have "unat b = 100 \<longrightarrow> unat b div 64 = 1" by simp
  then show ?thesis unfolding blocked_four meta glob priv cgn by satx
qed

text \<open>
  C30. The IPv4 policy is the block list: an IPv4 address, written in four bytes or in sixteen, may be reached exactly when it is in none of the
  ten blocks (unspecified, broadcast, loopback, multicast, link-local, the three private ones, carrier-grade NAT and
  the metadata service).
\<close>

theorem ipv4_policy_is_block_list:
  "(blockedOutboundIPReason [a, b, c, d] = [] \<longleftrightarrow> \<not> list_ex (inBlock (addressNumber a b c d)) closedBlocks) \<and>
   blockedOutboundIPReason (mapped [a, b, c, d]) = blockedOutboundIPReason [a, b, c, d]"
proof -
  define A B C D where n: "A = unat a" "B = unat b" "C = unat c" "D = unat d"
  have lt: "A < 256" "B < 256" "C < 256" "D < 256" using unsigned_less [of a] unsigned_less [of b] unsigned_less [of c] unsigned_less [of d] by (simp_all add: n)
  have e: "x = numeral k \<longleftrightarrow> unat x = unat (numeral k :: 8 word)" "x = 0 \<longleftrightarrow> unat x = 0" for x :: "8 word" and k
    by (rule word_unat_eq_iff) (simp add: unat_eq_0)
  have num: "addressNumber a b c d = ((A * 256 + B) * 256 + C) * 256 + D" by (simp add: addressNumber_def n)
  note div = number_div [OF num lt(2-4)]
  have blk: "list_ex (inBlock (addressNumber a b c d)) closedBlocks \<longleftrightarrow>
      addressNumber a b c d = 0 \<or> addressNumber a b c d = 0xFFFFFFFF \<or> A = 127 \<or> A div 16 = 14 \<or> A * 256 + B = 169 * 256 + 254 \<or> A = 10 \<or>
      A * 16 + B div 16 = 172 * 16 + 1 \<or> A * 256 + B = 192 * 256 + 168 \<or> A * 4 + B div 64 = 100 * 4 + 1 \<or> addressNumber a b c d = 0xC00000C0"
    unfolding closedBlocks_def inBlock_def using div by simp
  have pair: "A * 256 + B = 169 * 256 + 254 \<longleftrightarrow> A = 169 \<and> B = 254" "A * 256 + B = 192 * 256 + 168 \<longleftrightarrow> A = 192 \<and> B = 168"
      "A * 16 + B div 16 = 172 * 16 + 1 \<longleftrightarrow> A = 172 \<and> B div 16 = 1" "A * 4 + B div 64 = 100 * 4 + 1 \<longleftrightarrow> A = 100 \<and> B div 64 = 1"
    using lt digit_eq [of B 256 254 A 169] digit_eq [of B 256 168 A 192] digit_eq [of "B div 16" 16 1 A 172] digit_eq [of "B div 64" 4 1 A 100]
    by simp_all
  have whole: "addressNumber a b c d = 0 \<longleftrightarrow> A = 0 \<and> B = 0 \<and> C = 0 \<and> D = 0"
      "addressNumber a b c d = 0xFFFFFFFF \<longleftrightarrow> A = 255 \<and> B = 255 \<and> C = 255 \<and> D = 255"
      "addressNumber a b c d = 0xC00000C0 \<longleftrightarrow> A = 192 \<and> B = 0 \<and> C = 0 \<and> D = 192"
    using number_eq [OF lt(2-4), of 0 0 0 A 0] number_eq [OF lt(2-4), of 255 255 255 A 255] number_eq [OF lt(2-4), of 0 0 192 A 192]
    by (simp_all add: num)
  note pol = policy_numbers [of a b c d, folded n]
  have "blockedOutboundIPReason [a, b, c, d] = [] \<longleftrightarrow> \<not> list_ex (inBlock (addressNumber a b c d)) closedBlocks"
    unfolding blk pair whole pol by satx
  then show ?thesis using blocked_mapped by simp
qed

text \<open>
  Addresses that carry an IPv4 address inside are not looked into: whatever the IPv4 address, loopback and metadata service
  included, its NAT64 form \<^verbatim>\<open>64:ff9b::/96\<close> and its 6to4 form \<^verbatim>\<open>2002::/16\<close> pass the policy.
\<close>

theorem translated_addresses_pass:
  "blockedOutboundIPReason ([0, 0x64, 0xFF, 0x9B, 0, 0, 0, 0, 0, 0, 0, 0] @ [a, b, c, d]) = [] \<and>
   blockedOutboundIPReason ([0x20, 0x02] @ [a, b, c, d] @ [0, 0, 0, 0, 0, 0, 0, 0, 0, 0]) = []"
  by (simp add: blockedOutboundIPReason_def To4_def replicates IsGlobalUnicast_def IsUnspecified_def IsLoopback_def
      IsMulticast_def IsLinkLocalUnicast_def IsPrivate_def ipInCIDR_def metadataAddresses_def ipEqual_def mapped_def)

subsection \<open>Where requests go\<close>

text \<open>The addresses that may be dialled.\<close>

definition openTargets :: "webLib \<Rightarrow> string set" where
  "openTargets lib = {wlJoin lib (wlShowIP lib a) port | a port. blockedOutboundIPReason a = []}"

lemma allowedAddresses_open:
  "allowedAddresses lib hostname seen as = Inr bs \<Longrightarrow> a \<in> set bs \<Longrightarrow> blockedOutboundIPReason a = []"
  by (induction lib hostname seen as arbitrary: bs rule: allowedAddresses.induct)
     (auto simp: violation_def split: if_splits sum.splits)

lemma resolveAllowedIPs_open:
  "resolveAllowedIPs lib h hostname = Inr as \<Longrightarrow> a \<in> set as \<Longrightarrow> blockedOutboundIPReason a = []"
  by (auto simp: resolveAllowedIPs_def violation_def dest: allowedAddresses_open split: if_splits option.splits sum.splits)

lemma dialLoop_open:
  "\<forall>a \<in> set as. blockedOutboundIPReason a = [] \<Longrightarrow> set (snd (dialLoop lib h address port k failures as)) \<subseteq> openTargets lib"
proof (induction as arbitrary: k failures)
  case (Cons a as)
  then have "wlJoin lib (wlShowIP lib a) port \<in> openTargets lib" by (auto simp: openTargets_def)
  moreover have "set (snd (dialLoop lib h address port (Suc k) (failures @ [e]) as)) \<subseteq> openTargets lib" for e
    using Cons by simp
  ultimately show ?case by (auto simp: Let_def split: option.splits prod.splits) (metis snd_conv subsetD)
qed simp

lemma dialContext_open: "set (snd (dialContext lib h address)) \<subseteq> openTargets lib"
  using dialLoop_open resolveAllowedIPs_open
  by (auto simp: dialContext_def dest!: subsetD split: sum.splits prod.splits)

lemma checkRedirect_Inr:
  "checkRedirect lib cfg via u hs = Inr hs1 \<Longrightarrow> int (length via) \<le> hcMaxRedirects cfg \<and> (\<exists>v. validateOutboundURL lib (wlShow lib u) = Inr v)"
  by (auto simp: checkRedirect_def split: if_splits sum.splits)

lemma doHops_targets:
  "doHops lib cfg hs0 via u hs hops = Some (r, dialed, requests) \<Longrightarrow> set dialed \<subseteq> openTargets lib"
proof (induction lib cfg hs0 via u hs hops arbitrary: r dialed requests rule: doHops.induct)
  case (2 lib cfg hs0 via u hs h rest)
  obtain e ds where d: "(if hpReuse h then (None, []) else dialContext lib h (wlAddr lib u)) = (e, ds)" by (meson surj_pair)
  have ds: "set ds \<subseteq> openTargets lib"
    using dialContext_open [of lib h "wlAddr lib u"] d by (auto split: if_splits dest: arg_cong [of _ _ snd])
  show ?case using 2(2) ds 2(1) [OF d [symmetric]]
    by (auto simp: d split: option.splits hopResult.splits sum.splits) blast+
qed simp

lemma doHops_requests:
  "doHops lib cfg hs0 via u hs hops = Some (r, dialed, requests) \<Longrightarrow>
   int (length via) \<le> hcMaxRedirects cfg \<Longrightarrow>
   int (length via + length requests) \<le> hcMaxRedirects cfg + 1 \<and>
   (\<forall>(v, hs) \<in> set (tl requests). \<exists>w. validateOutboundURL lib (wlShow lib v) = Inr w) \<and>
   (\<forall>x. r = Inr x \<longrightarrow> requests \<noteq> [] \<and> fst x = fst (last requests))"
proof (induction lib cfg hs0 via u hs hops arbitrary: r dialed requests rule: doHops.induct)
  case (2 lib cfg hs0 via u hs h rest)
  obtain e ds where d: "(if hpReuse h then (None, []) else dialContext lib h (wlAddr lib u)) = (e, ds)" by (meson surj_pair)
  show ?case
  proof (cases "\<exists>v hs1 r1 ds1 rs1. e = None \<and> hpResult h = HopRedirect v \<and>
      checkRedirect lib cfg (via @ [u]) v (wlForward lib (hd (via @ [u])) v hs0) = Inr hs1 \<and>
      doHops lib cfg hs0 (via @ [u]) v hs1 rest = Some (r1, ds1, rs1)")
    case True
    then obtain v hs1 r1 ds1 rs1 where t: "e = None" "hpResult h = HopRedirect v"
        "checkRedirect lib cfg (via @ [u]) v (wlForward lib (hd (via @ [u])) v hs0) = Inr hs1"
        "doHops lib cfg hs0 (via @ [u]) v hs1 rest = Some (r1, ds1, rs1)" by blast
    have r: "r = r1" "requests = (u, hs) # rs1" using 2(2) by (simp_all add: d t)
    note c = checkRedirect_Inr [OF t(3)]
    have ih: "int (length (via @ [u]) + length rs1) \<le> hcMaxRedirects cfg + 1 \<and>
        (\<forall>(v, hs) \<in> set (tl rs1). \<exists>w. validateOutboundURL lib (wlShow lib v) = Inr w) \<and>
        (\<forall>x. r1 = Inr x \<longrightarrow> rs1 \<noteq> [] \<and> fst x = fst (last rs1))"
      using 2(1) [OF d [symmetric] t(1,2,3,4)] c by simp
    have f: "rs1 = [] \<or> fst (hd rs1) = v"
      using t(4) by (cases rest) (auto split: prod.splits option.splits hopResult.splits sum.splits)
    show ?thesis using ih f c by (cases rs1) (auto simp: r)
  qed (use 2(2,3) in \<open>auto simp: d split: option.splits hopResult.splits sum.splits\<close>)
qed simp

lemma Get_run:
  assumes "Get lib cfg reparse ctxErr raw extra maxBytes hops = Some (r, dialed, requests)"
  obtains (refused) e where "dialed = []" "requests = []" "r = Inl e"
  | (ran) hs u x where "doHops lib cfg hs [] u hs hops = Some (x, dialed, requests)"
      "r = (case x of Inl e \<Rightarrow> Inl (classifyHTTPClientError ctxErr raw e) | Inr y \<Rightarrow> finishGet lib ctxErr (bodyLimit cfg maxBytes) y)"
proof (cases "validateOutboundURL lib raw")
  case (Inr p)
  show ?thesis
  proof (cases "reparse (wlShow lib p)")
    case (Inr u)
    obtain x where "doHops lib cfg (firstHeaders cfg extra) [] u (firstHeaders cfg extra) hops = Some (x, dialed, requests)"
        "r = (case x of Inl e \<Rightarrow> Inl (classifyHTTPClientError ctxErr raw e) | Inr y \<Rightarrow> finishGet lib ctxErr (bodyLimit cfg maxBytes) y)"
      using assms \<open>validateOutboundURL lib raw = Inr p\<close> Inr
      by (cases "doHops lib cfg (firstHeaders cfg extra) [] u (firstHeaders cfg extra) hops")
         (auto simp: Get_def Let_def split: sum.splits)
    then show ?thesis by (rule ran)
  qed (use assms Inr refused in \<open>auto simp: Get_def\<close>)
qed (use assms refused in \<open>auto simp: Get_def\<close>)

text \<open>
  C17. The tools reach the public network only: whatever URL a tool is given, whatever DNS answers and wherever the server
  redirects, and whether the request succeeds or fails, every address that is dialled is one the policy lets through;
  every request after the first goes to a URL that was validated; and no more requests are sent than the redirects allow.
\<close>

theorem dialed_addresses_allowed:
  assumes "Get lib cfg reparse ctxErr raw extra maxBytes hops = Some (r, dialed, requests)" and "0 \<le> hcMaxRedirects cfg"
  shows "set dialed \<subseteq> {wlJoin lib (wlShowIP lib a) port | a port. blockedOutboundIPReason a = []} \<and>
    (\<forall>(v, hs) \<in> set (tl requests). \<exists>w. validateOutboundURL lib (wlShow lib v) = Inr w) \<and>
    int (length requests) \<le> hcMaxRedirects cfg + 1"
proof -
  have "set dialed \<subseteq> openTargets lib \<and> (\<forall>(v, hs) \<in> set (tl requests). \<exists>w. validateOutboundURL lib (wlShow lib v) = Inr w) \<and>
      int (length requests) \<le> hcMaxRedirects cfg + 1"
    using assms(1)
  proof (cases rule: Get_run)
    case (ran hs u x)
    show ?thesis using doHops_targets [OF ran(1)] doHops_requests [OF ran(1)] assms(2) by simp
  qed (use assms(2) in simp)
  then show ?thesis unfolding openTargets_def .
qed


lemma doHops_answer:
  "doHops lib cfg hs0 via u hs hops = Some (Inr (v, status, contentType, body, err), dialed, requests) \<Longrightarrow>
   requests \<noteq> [] \<and> fst (last requests) = v \<and> (\<exists>h \<in> set hops. hpResult h = HopFinal status contentType body err)"
proof (induction hops arbitrary: via u hs dialed requests)
  case (Cons h rest)
  show ?case using Cons(2)
    by (auto split: option.splits prod.splits hopResult.splits sum.splits dest!: Cons(1))
qed simp

lemma readBody_Inr: "readBody limit body err = Inr bytes \<Longrightarrow> 0 \<le> limit \<Longrightarrow>
    (limit < int (length bytes)) = (limit < int (length body)) \<and> take (nat limit) bytes = take (nat limit) body \<and>
    (\<not> limit < int (length body) \<longrightarrow> bytes = body \<and> err = None)"
  by (auto simp: readBody_def min_def split: if_splits option.splits)

lemma finishGet_Inr:
  assumes "finishGet lib ctxErr limit (v, status, contentType, body, err) = Inr resp" "0 \<le> limit"
  shows "shStatus resp = status" "status < 400" "shURL resp = wlShow lib v" "allowedMedia (shType resp)"
    "shTruncated resp \<longleftrightarrow> limit < int (length body)" "shBody resp = take (nat limit) body" "shTruncated resp \<or> err = None"
  using assms by (auto simp: finishGet_def Let_def allowedResponseContentType_def dest!: readBody_Inr split: if_splits sum.splits)

lemma get_answer:
  assumes "Get lib cfg reparse ctxErr raw extra maxBytes hops = Some (Inr resp, dialed, requests)"
  obtains hs u v status contentType body err where
    "doHops lib cfg hs [] u hs hops = Some (Inr (v, status, contentType, body, err), dialed, requests)"
    "finishGet lib ctxErr (bodyLimit cfg maxBytes) (v, status, contentType, body, err) = Inr resp"
  using assms by (cases rule: Get_run) (auto split: sum.splits)

lemma get_body_bounded:
  assumes "Get lib cfg reparse ctxErr raw extra maxBytes hops = Some (Inr resp, dialed, requests)" "0 < hcMaxBody cfg"
  shows "int (length (shBody resp)) \<le> bodyLimit cfg maxBytes"
proof -
  have limit: "0 \<le> bodyLimit cfg maxBytes" using assms(2) by (simp add: bodyLimit_def)
  from assms(1) show ?thesis
  proof (rule get_answer)
    fix hs u v status contentType body err
    assume "finishGet lib ctxErr (bodyLimit cfg maxBytes) (v, status, contentType, body, err) = Inr resp"
    from finishGet_Inr(6) [OF this limit] limit show ?thesis by simp
  qed
qed

text \<open>
  C29. A response is bounded and the server's: it has the status, at most the asked and never more than the configured number
  of bytes, of what the last request was answered with, from the first byte on; it is marked as truncated exactly when the
  server sent more, and otherwise the body was read to its end without an error; its media type is an allowed one, its
  status no error, its URL that of the last request.
\<close>

theorem response_bounded:
  assumes "Get lib cfg reparse ctxErr raw extra maxBytes hops = Some (Inr resp, dialed, requests)" and "0 < hcMaxBody cfg"
  shows "int (length (shBody resp)) \<le> bodyLimit cfg maxBytes \<and>
    bodyLimit cfg maxBytes = (if maxBytes \<le> 0 then hcMaxBody cfg else min maxBytes (hcMaxBody cfg)) \<and>
    shStatus resp < 400 \<and> allowedMedia (shType resp) \<and> shURL resp = wlShow lib (fst (last requests)) \<and>
    (\<exists>h contentType body err. h \<in> set hops \<and> hpResult h = HopFinal (shStatus resp) contentType body err \<and>
           shBody resp = take (nat (bodyLimit cfg maxBytes)) body \<and>
           shTruncated resp = (bodyLimit cfg maxBytes < int (length body)) \<and> (shTruncated resp \<or> err = None))"
proof -
  have limit: "0 \<le> bodyLimit cfg maxBytes" using assms(2) by (simp add: bodyLimit_def)
  from assms(1) obtain hs u v status contentType body err where
      d: "doHops lib cfg hs [] u hs hops = Some (Inr (v, status, contentType, body, err), dialed, requests)" and
      f: "finishGet lib ctxErr (bodyLimit cfg maxBytes) (v, status, contentType, body, err) = Inr resp"
    by (rule get_answer)
  note fin = finishGet_Inr [OF f limit] and ans = doHops_answer [OF d]
  have "int (length (shBody resp)) \<le> bodyLimit cfg maxBytes" using assms by (rule get_body_bounded)
  moreover have "bodyLimit cfg maxBytes = (if maxBytes \<le> 0 then hcMaxBody cfg else min maxBytes (hcMaxBody cfg))" by (auto simp: bodyLimit_def)
  moreover have "shStatus resp < 400" "allowedMedia (shType resp)" "shURL resp = wlShow lib (fst (last requests))" using fin ans by simp_all
  moreover have "\<exists>h contentType body err. h \<in> set hops \<and> hpResult h = HopFinal (shStatus resp) contentType body err \<and>
           shBody resp = take (nat (bodyLimit cfg maxBytes)) body \<and>
           shTruncated resp = (bodyLimit cfg maxBytes < int (length body)) \<and> (shTruncated resp \<or> err = None)"
    using fin ans by blast
  ultimately show ?thesis by blast
qed

subsection \<open>Credentials across redirects\<close>

text \<open>
  A token dropped at the first foreign host comes back at the second redirect: the library gives every redirected
  request the headers of the first one (of those named here it drops only the ones it knows), and the redirect check compares
  with the previous request only, so a redirect within the foreign host is sent the \<^verbatim>\<open>X-Subscription-Token\<close> of the user.
\<close>

theorem redirect_token_returns:
  assumes "\<forall>first v hs. wlForward lib first v hs ''X-Subscription-Token'' = hs ''X-Subscription-Token''"
    and "validateOutboundURL lib (wlShow lib v1) = Inr w1" and "validateOutboundURL lib (wlShow lib v2) = Inr w2"
    and "\<not> sameAuthority lib u v1" and "sameAuthority lib v1 v2" and "2 \<le> hcMaxRedirects cfg"
    and "hpReuse h0" and "hpReuse h1" and "hpReuse h2"
    and "hpResult h0 = HopRedirect v1" and "hpResult h1 = HopRedirect v2" and "hpResult h2 = HopFinal status contentType body err"
  shows "\<exists>hs1 hs2. doHops lib cfg hs [] u hs [h0, h1, h2] =
      Some (Inr (v2, status, contentType, body, err), [], [(u, hs), (v1, hs1), (v2, hs2)]) \<and>
      hs1 ''X-Subscription-Token'' = None \<and> hs2 ''X-Subscription-Token'' = hs ''X-Subscription-Token''"
  using assms by (simp add: checkRedirect_def credentialHeaders_def)

subsection \<open>An instance\<close>

definition plainUrl :: "string \<Rightarrow> url" where
  "plainUrl host = \<lparr>urlScheme = ''http'', urlOpaque = [], urlHost = host, urlHostname = host, urlPort = [], urlPath = ''/'', urlQuery = [], urlFragment = [], urlUser = False\<rparr>"

definition plainLib :: webLib where
  "plainLib = \<lparr>
     wlParse = (\<lambda>s. if take 7 s = ''http://'' then Inr (plainUrl (drop 7 s)) else Inl (Message ''missing protocol scheme'')),
     wlShow = (\<lambda>u. ''http://'' @ urlHost u), wlLower = (\<lambda>s. s), wlEqualFold = (=), wlParseIP = (\<lambda>_. None),
     wlShowIP = map (\<lambda>b. CHR ''x''), wlAddr = urlHost, wlSplit = (\<lambda>s. Inr (s, ''80'')), wlJoin = (\<lambda>h p. h @ '':'' @ p),
     wlMedia = Inr, wlDetect = (\<lambda>_. ''text/plain''), wlForward = (\<lambda>_ _ hs. hs)\<rparr>"

definition answered :: "hopResult \<Rightarrow> hop" where
  "answered r = \<lparr>hpReuse = False, hpLookup = Inr [[8, 8, 8, 8]], hpCtxLookup = None, hpDial = (\<lambda>_. None), hpCtx = (\<lambda>_. None), hpResult = r\<rparr>"

lemma plain_valid:
  "validateOutboundURL plainLib ''http://a.org'' = Inr (plainUrl ''a.org'')" "validateOutboundURL plainLib ''http://b.org'' = Inr (plainUrl ''b.org'')"
  by (simp_all add: validateOutboundURL_def plainLib_def plainUrl_def trim_space_plain byte_val_def trimDot_def goodPort_def suffix_def Let_def)

lemma plain_open: "blockedOutboundIPReason [8, 8, 8, 8] = []"
  by (simp add: policy_numbers)

definition plainAnswers :: "hop list" where
  "plainAnswers = [answered (HopRedirect (plainUrl ''b.org'')), answered (HopFinal 200 ''text/html'' ''hello'' None)]"

lemma plain_run:
  "\<exists>resp dialed requests. Get plainLib DefaultSafeHTTPConfig (wlParse plainLib) None ''http://a.org'' extra 3 plainAnswers =
     Some (Inr resp, dialed, requests) \<and> dialed = [''xxxx:80'', ''xxxx:80''] \<and> length requests = 2 \<and> shBody resp = ''hel'' \<and>
     shTruncated resp \<and> shStatus resp = 200"
proof -
  have dial: "dialContext plainLib (answered r) s = (None, [''xxxx:80''])" for r s
    by (simp add: dialContext_def plainLib_def answered_def resolveAllowedIPs_def plain_open)
  have b: "validateOutboundURL plainLib (wlShow plainLib (plainUrl ''b.org'')) = Inr (plainUrl ''b.org'')"
    using plain_valid(2) by (simp add: plainLib_def plainUrl_def)
  have parse: "wlParse plainLib (wlShow plainLib (plainUrl ''a.org'')) = Inr (plainUrl ''a.org'')" by (simp add: plainLib_def plainUrl_def)
  have reuse: "hpReuse (answered r) = False" "hpResult (answered r) = r" for r by (simp_all add: answered_def)
  have check: "\<exists>hs1. checkRedirect plainLib DefaultSafeHTTPConfig [u] (plainUrl ''b.org'') hs = Inr hs1" for u hs
    by (simp add: checkRedirect_def b DefaultSafeHTTPConfig_def)
  have m: "allowedResponseContentType plainLib ''text/html'' s = Inr ''text/html''" for s
    by (simp add: allowedResponseContentType_def trim_space_plain byte_val_def plainLib_def allowedMedia_def)
  obtain hs1 where "checkRedirect plainLib DefaultSafeHTTPConfig [plainUrl ''a.org''] (plainUrl ''b.org'')
      (wlForward plainLib (plainUrl ''a.org'') (plainUrl ''b.org'') (firstHeaders DefaultSafeHTTPConfig extra)) = Inr hs1" using check by blast
  then show ?thesis
    by (simp add: Get_def plain_valid parse plainAnswers_def dial reuse finishGet_def bodyLimit_def DefaultSafeHTTPConfig_def readBody_def m Let_def)
qed

theorem dialed_addresses_allowed_witness:
  "{''xxxx:80''} \<subseteq> {wlJoin plainLib (wlShowIP plainLib a) port | a port. blockedOutboundIPReason a = []} \<and> (2 :: int) \<le> 6"
proof -
  obtain r dialed requests where g: "Get plainLib DefaultSafeHTTPConfig (wlParse plainLib) None ''http://a.org'' [] 3 plainAnswers =
      Some (Inr r, dialed, requests)" "dialed = [''xxxx:80'', ''xxxx:80'']" "length requests = 2" using plain_run by blast
  have m: "0 \<le> hcMaxRedirects DefaultSafeHTTPConfig" by (simp add: DefaultSafeHTTPConfig_def)
  show ?thesis using dialed_addresses_allowed [OF g(1) m] g by (simp add: DefaultSafeHTTPConfig_def)
qed

theorem response_bounded_witness:
  "\<exists>resp dialed requests. Get plainLib DefaultSafeHTTPConfig (wlParse plainLib) None ''http://a.org'' [] 3 plainAnswers =
     Some (Inr resp, dialed, requests) \<and> shBody resp = ''hel'' \<and> int (length (shBody resp)) \<le> 3 \<and> shTruncated resp \<and> allowedMedia (shType resp)"
proof -
  obtain resp dialed requests where g: "Get plainLib DefaultSafeHTTPConfig (wlParse plainLib) None ''http://a.org'' [] 3 plainAnswers =
      Some (Inr resp, dialed, requests)" "shBody resp = ''hel''" "shTruncated resp" using plain_run by blast
  have m: "0 < hcMaxBody DefaultSafeHTTPConfig" by (simp add: DefaultSafeHTTPConfig_def)
  show ?thesis using response_bounded [OF g(1) m] g by (auto simp: bodyLimit_def DefaultSafeHTTPConfig_def)
qed

theorem redirect_token_returns_witness:
  "\<exists>hs1 hs2. doHops plainLib DefaultSafeHTTPConfig [''X-Subscription-Token'' \<mapsto> ''secret''] [] (plainUrl ''c.org'')
       [''X-Subscription-Token'' \<mapsto> ''secret'']
       [(answered (HopRedirect (plainUrl ''a.org'')))\<lparr>hpReuse := True\<rparr>, (answered (HopRedirect (plainUrl ''a.org'')))\<lparr>hpReuse := True\<rparr>,
        (answered (HopFinal 200 ''text/html'' ''hello'' None))\<lparr>hpReuse := True\<rparr>] =
     Some (Inr (plainUrl ''a.org'', 200, ''text/html'', ''hello'', None), [],
       [(plainUrl ''c.org'', [''X-Subscription-Token'' \<mapsto> ''secret'']), (plainUrl ''a.org'', hs1), (plainUrl ''a.org'', hs2)]) \<and>
     hs1 ''X-Subscription-Token'' = None \<and> hs2 ''X-Subscription-Token'' = Some ''secret''"
proof -
  have v: "validateOutboundURL plainLib (wlShow plainLib (plainUrl ''a.org'')) = Inr (plainUrl ''a.org'')"
    using plain_valid(1) by (simp add: plainLib_def plainUrl_def)
  have f: "\<forall>first v hs. wlForward plainLib first v hs ''X-Subscription-Token'' = hs ''X-Subscription-Token''" by (simp add: plainLib_def)
  have a: "\<not> sameAuthority plainLib (plainUrl ''c.org'') (plainUrl ''a.org'')" "sameAuthority plainLib (plainUrl ''a.org'') (plainUrl ''a.org'')"
      "2 \<le> hcMaxRedirects DefaultSafeHTTPConfig"
    by (simp_all add: sameAuthority_def plainLib_def plainUrl_def DefaultSafeHTTPConfig_def)
  show ?thesis
    using redirect_token_returns [OF f v v a, of "(answered (HopRedirect (plainUrl ''a.org'')))\<lparr>hpReuse := True\<rparr>"
        "(answered (HopRedirect (plainUrl ''a.org'')))\<lparr>hpReuse := True\<rparr>" "(answered (HopFinal 200 ''text/html'' ''hello'' None))\<lparr>hpReuse := True\<rparr>"
        200 "''text/html''" "''hello''" None "[''X-Subscription-Token'' \<mapsto> ''secret'']"]
    by (simp add: answered_def)
qed

end
