(* ===== verification/Web_Tools.thy ===== *)
theory Web_Tools
  imports Web_Client Sandbox
begin

text \<open>
  The two web tools over the client: searching with one of three services and fetching a page, with the HTML stripped.
\<close>

section \<open>The web tools (\<^verbatim>\<open>internal/tools/websearch.go\<close>)\<close>

text \<open>
  Both tools go through the client of Web_Client.  The JSON of the arguments and of the search services, the escaping of a
  query and the way errors and numbers are printed are parameters; the HTML stripping is written out.
\<close>

subsection \<open>Stripping HTML\<close>

text \<open>
  A letter of a pattern that ignores case: \<^verbatim>\<open>s\<close> also matches the long s, which is two bytes.
\<close>

definition sameFold :: "char \<Rightarrow> char \<Rightarrow> bool" where
  "sameFold p c =
     (let a = byte_val p; b = byte_val c in a = b \<or> (97 \<le> a \<and> a \<le> 122 \<and> b + 32 = a))"

fun matchFold :: "string \<Rightarrow> string \<Rightarrow> string option" where
  "matchFold [] s = Some s"
| "matchFold (p # ps) [] = None"
| "matchFold (p # ps) (c # cs) =
     (if sameFold p c then matchFold ps cs
      else if p = CHR ''s'' \<and> byte_val c = 0xC5 \<and> cs \<noteq> [] \<and> byte_val (hd cs) = 0xBF then matchFold ps (tl cs)
      else None)"

text \<open>The shortest text up to a closing pattern, and what follows it.\<close>

fun afterFold :: "string \<Rightarrow> string \<Rightarrow> string option" where
  "afterFold pat [] = matchFold pat []"
| "afterFold pat (c # cs) = (case matchFold pat (c # cs) of Some r \<Rightarrow> Some r | None \<Rightarrow> afterFold pat cs)"

text \<open>An element with its content: \<^verbatim>\<open><name[^>]*>.*?</name>\<close>.\<close>

definition skipElement :: "string \<Rightarrow> string \<Rightarrow> string option" where
  "skipElement name s =
     (case matchFold (''<'' @ name) s of
        None \<Rightarrow> None
      | Some r \<Rightarrow>
          (case dropWhile (\<lambda>c. c \<noteq> CHR ''>'') r of
             [] \<Rightarrow> None
           | c # rest \<Rightarrow> afterFold (''</'' @ name @ ''>'') rest))"

text \<open>A tag: \<^verbatim>\<open><[^>]+>\<close>.\<close>

definition skipTag :: "string \<Rightarrow> string option" where
  "skipTag s =
     (case s of
        [] \<Rightarrow> None
      | c # cs \<Rightarrow>
          if c \<noteq> CHR ''<'' \<or> cs = [] \<or> hd cs = CHR ''>'' then None
          else (case dropWhile (\<lambda>c. c \<noteq> CHR ''>'') cs of [] \<Rightarrow> None | d # rest \<Rightarrow> Some rest))"

text \<open>A run of at least \<open>n\<close> bytes of a set, as long as it goes.\<close>

definition skipRun :: "nat \<Rightarrow> string \<Rightarrow> string \<Rightarrow> string option" where
  "skipRun n bytes s =
     (if n \<le> length (takeWhile (\<lambda>c. c \<in> set bytes) s) then Some (dropWhile (\<lambda>c. c \<in> set bytes) s) else None)"

text \<open>\<^verbatim>\<open>ReplaceAllString\<close> from left to right; a match that would not be shorter than its text is no match of these patterns.\<close>

function replaceAll :: "(string \<Rightarrow> string option) \<Rightarrow> string \<Rightarrow> string \<Rightarrow> string" where
  "replaceAll skip repl s =
     (case s of
        [] \<Rightarrow> []
      | c # cs \<Rightarrow>
          (case skip s of
             Some rest \<Rightarrow> if length rest < length s then repl @ replaceAll skip repl rest else c # replaceAll skip repl cs
           | None \<Rightarrow> c # replaceAll skip repl cs))"
  by pat_completeness auto
termination
  by (relation "measure (\<lambda>(skip, repl, s). length s)") auto

declare replaceAll.simps [simp del]

definition entities :: "(string \<times> string) list" where
  "entities = [(''&amp;'', ''&''), (''&lt;'', ''<''), (''&gt;'', ''>''), (''&quot;'', [CHR 0x22]), (''&#39;'', [CHR 0x27]), (''&nbsp;'', '' '')]"

text \<open>\<^verbatim>\<open>strings.NewReplacer\<close>: at each place the entity that starts there, once.\<close>

fun decodeEntities :: "string \<Rightarrow> string" where
  "decodeEntities [] = []"
| "decodeEntities (c # cs) =
     (case find (\<lambda>e. prefix (fst e) (c # cs)) entities of
        Some e \<Rightarrow> snd e @ decodeEntities (drop (length (fst e) - 1) cs)
      | None \<Rightarrow> c # decodeEntities cs)"

definition stripHTML :: "string \<Rightarrow> string" where
  "stripHTML s0 =
     (let s1 = replaceAll (skipElement ''script'') '' '' s0;
          s2 = replaceAll (skipElement ''style'') '' '' s1;
          s3 = replaceAll skipTag '' '' s2;
          s4 = decodeEntities s3;
          s5 = replaceAll (skipRun 2 [CHR '' '', CHR 0x09]) '' '' s4;
          s6 = replaceAll (skipRun 3 [CHR 0x0A]) [CHR 0x0A, CHR 0x0A] s5 in
      trim_space s6)"

subsection \<open>The tools\<close>

record searchArgs =
  saQuery :: string
  saNum :: int

record fetchArgs =
  faURL :: string
  faMax :: int

record searchHit =
  shTitle :: string
  shLink :: string
  shText :: string

record ddgAnswer =
  ddAnswer :: string
  ddAbstract :: string
  ddAbstractURL :: string
  ddTopics :: "(string \<times> string) list"

record webSearch =
  wsProvider :: string
  wsKey :: string
  wsBase :: string

text \<open>What the tools take from outside: the decoders, the escaping of a query and how an error is printed.\<close>

record webNeeds =
  wnSearchArgs :: "string \<Rightarrow> go_error + searchArgs"
  wnFetchArgs :: "string \<Rightarrow> go_error + fetchArgs"
  wnEscape :: "string \<Rightarrow> string"
  wnDDG :: "string \<Rightarrow> go_error + ddgAnswer"
  wnBrave :: "string \<Rightarrow> go_error + searchHit list"
  wnSearx :: "string \<Rightarrow> go_error + searchHit list"
  wnErr :: "httpError \<Rightarrow> string"

text \<open>A client: what \<^verbatim>\<open>Get\<close> answers for a URL, headers and a limit.\<close>

type_synonym getter = "string \<Rightarrow> (string \<times> string) list \<Rightarrow> int \<Rightarrow> httpError + safeResponse"

definition httpGet :: "httpConfig \<Rightarrow> getter \<Rightarrow> string \<Rightarrow> (string \<times> string) list \<Rightarrow> httpError + string" where
  "httpGet cfg get u hs =
     (case get u hs 0 of
        Inl e \<Rightarrow> Inl e
      | Inr r \<Rightarrow>
          if shTruncated r
          then Inl \<lparr>heCode = HTTPBodyLimitExceeded, heURL = shURL r, heStatus = 0,
                    heErr = [Message (''structured response exceeded '' @ showInt (hcMaxBody cfg) @ '' bytes'')]\<rparr>
          else Inr (shBody r))"

definition newline :: string where "newline = [CHR 0x0A]"

text \<open>The topics until the count is reached.\<close>

fun ddgTopics :: "int \<Rightarrow> int \<Rightarrow> (string \<times> string) list \<Rightarrow> int \<times> string" where
  "ddgTopics n k0 [] = (k0, [])"
| "ddgTopics n k0 ((t, u) # ts) =
     (if n \<le> k0 then (k0, [])
      else if t \<noteq> []
      then (let (k, s) = ddgTopics n (k0 + 1) ts in (k, ''- '' @ t @ newline @ ''  '' @ u @ newline @ newline @ s))
      else ddgTopics n k0 ts)"

definition duckduckgo :: "webNeeds \<Rightarrow> httpConfig \<Rightarrow> getter \<Rightarrow> string \<Rightarrow> int \<Rightarrow> toolResult" where
  "duckduckgo wn cfg get query n =
     (case httpGet cfg get (''https://api.duckduckgo.com/?q='' @ wnEscape wn query @ ''&format=json&no_html=1&skip_disambig=1'') [] of
        Inl e \<Rightarrow> Errorf (''DDG: '' @ wnErr wn e)
      | Inr body \<Rightarrow>
        (case wnDDG wn body of
           Inl e \<Rightarrow> Errorf (''DDG parse: '' @ errText e)
         | Inr d \<Rightarrow>
           (let (c1, s1) = (if ddAnswer d \<noteq> [] then (1, ''Answer: '' @ ddAnswer d @ newline @ newline) else (0, []));
                (c2, s2) = (if ddAbstract d \<noteq> [] then (c1 + 1, s1 @ ddAbstract d @ newline @ ddAbstractURL d @ newline @ newline) else (c1, s1));
                (c3, s3) = ddgTopics n c2 (ddTopics d) in
            textResult (if c3 = 0 then ''No instant results'' @ dash @ ''try web_fetch with a direct URL.'' else s2 @ s3))))"

fun numberedHits :: "nat \<Rightarrow> searchHit list \<Rightarrow> string" where
  "numberedHits i [] = []"
| "numberedHits i (h # hs) =
     decimal (Suc i) @ ''. '' @ shTitle h @ newline @ ''   '' @ shText h @ newline @ ''   '' @ shLink h @ newline @ newline @ numberedHits (Suc i) hs"

definition hitList :: "searchHit list \<Rightarrow> toolResult" where
  "hitList hs = textResult (if hs = [] then ''No results.'' else numberedHits 0 hs)"

definition brave :: "webNeeds \<Rightarrow> httpConfig \<Rightarrow> getter \<Rightarrow> string \<Rightarrow> string \<Rightarrow> int \<Rightarrow> toolResult" where
  "brave wn cfg get key query n =
     (if key = [] then Errorf ''Brave requires api_key in config.yaml tools.web_search.api_key''
      else
      (case httpGet cfg get (''https://api.search.brave.com/res/v1/web/search?q='' @ wnEscape wn query @ ''&count='' @ showInt n @ ''&text_decorations=false'')
              [(''X-Subscription-Token'', key)] of
         Inl e \<Rightarrow> Errorf (''Brave: '' @ wnErr wn e)
       | Inr body \<Rightarrow> (case wnBrave wn body of Inl e \<Rightarrow> Errorf (''parse: '' @ errText e) | Inr hits \<Rightarrow> hitList hits)))"

definition trimRightSlash :: "string \<Rightarrow> string" where
  "trimRightSlash s = rev (dropWhile (\<lambda>c. c = CHR ''/'') (rev s))"

definition searxng :: "webNeeds \<Rightarrow> httpConfig \<Rightarrow> getter \<Rightarrow> string \<Rightarrow> string \<Rightarrow> int \<Rightarrow> toolResult" where
  "searxng wn cfg get base query n =
     (if base = [] then Errorf ''SearXNG requires base_url in config.yaml tools.web_search.base_url''
      else
      (case httpGet cfg get (trimRightSlash base @ ''/search?q='' @ wnEscape wn query @ ''&format=json'') [] of
         Inl e \<Rightarrow> Errorf (''SearXNG: '' @ wnErr wn e)
       | Inr body \<Rightarrow> (case wnSearx wn body of Inl e \<Rightarrow> Errorf (''parse: '' @ errText e) | Inr hits \<Rightarrow> hitList (take (nat n) hits))))"

definition resultCount :: "int \<Rightarrow> int" where
  "resultCount n = (if n \<le> 0 \<or> 10 < n then 5 else n)"

definition searchExecute :: "webNeeds \<Rightarrow> httpConfig \<Rightarrow> getter \<Rightarrow> webSearch \<Rightarrow> string \<Rightarrow> toolResult" where
  "searchExecute wn cfg get t input =
     (case wnSearchArgs wn input of
        Inl e \<Rightarrow> Errorf (''invalid args: '' @ errText e)
      | Inr a \<Rightarrow>
        (let n = resultCount (saNum a) in
         if wsProvider t = ''brave'' then brave wn cfg get (wsKey t) (saQuery a) n
         else if wsProvider t = ''searxng'' then searxng wn cfg get (wsBase t) (saQuery a) n
         else duckduckgo wn cfg get (saQuery a) n))"

definition fetchExecute :: "webNeeds \<Rightarrow> getter \<Rightarrow> string \<Rightarrow> toolResult" where
  "fetchExecute wn get input =
     (case wnFetchArgs wn input of
        Inl e \<Rightarrow> Errorf (''invalid args: '' @ errText e)
      | Inr a \<Rightarrow>
        (let limit = (if faMax a \<le> 0 then 16384 else faMax a) in
         case get (faURL a) [(''Accept'', ''text/html,text/plain,application/json,application/xml;q=0.9'')] limit of
           Inl e \<Rightarrow> Errorf (wnErr wn e)
         | Inr r \<Rightarrow>
             textResult (''Content from '' @ shURL r @ '':'' @ newline @ newline @ stripHTML (shBody r) @
               (if shTruncated r then newline @ ''[truncated]'' else []))))"

subsection \<open>Properties\<close>

lemma matchFold_length: "matchFold pat s = Some r \<Longrightarrow> length r + (if pat = [] then 0 else 1) \<le> length s"
proof (induction pat s rule: matchFold.induct)
  case (3 p ps c cs)
  have "length (tl cs) \<le> length cs" by simp
  with 3 show ?case by (fastforce split: if_splits)
qed simp_all

lemma afterFold_length: "afterFold pat s = Some r \<Longrightarrow> length r \<le> length s"
  by (induction pat s rule: afterFold.induct) (fastforce dest: matchFold_length split: option.splits if_splits)+

lemma skipElement_length: "skipElement name s = Some r \<Longrightarrow> length r < length s"
proof -
  assume s: "skipElement name s = Some r"
  then obtain r1 c rest where m: "matchFold (''<'' @ name) s = Some r1" "dropWhile (\<lambda>c. c \<noteq> CHR ''>'') r1 = c # rest"
      "afterFold (''</'' @ name @ ''>'') rest = Some r"
    by (auto simp: skipElement_def split: option.splits list.splits)
  have "length (c # rest) \<le> length r1" using m(2) length_dropWhile_le [of "\<lambda>c. c \<noteq> CHR ''>''" r1] by simp
  with matchFold_length [OF m(1)] afterFold_length [OF m(3)] show ?thesis by simp
qed

lemma skipTag_length: "skipTag s = Some r \<Longrightarrow> length r < length s"
proof (cases s)
  case (Cons c cs)
  assume "skipTag s = Some r"
  then obtain d where "dropWhile (\<lambda>c. c \<noteq> CHR ''>'') cs = d # r"
    by (auto simp: skipTag_def Cons split: if_splits list.splits)
  with length_dropWhile_le [of "\<lambda>c. c \<noteq> CHR ''>''" cs] show ?thesis by (simp add: Cons)
qed (simp add: skipTag_def)

lemma skipRun_length: "skipRun n bytes s = Some r \<Longrightarrow> n + length r \<le> length s"
proof -
  assume "skipRun n bytes s = Some r"
  then have "n \<le> length (takeWhile (\<lambda>c. c \<in> set bytes) s)" "r = dropWhile (\<lambda>c. c \<in> set bytes) s"
    by (simp_all add: skipRun_def split: if_splits)
  moreover have "length (takeWhile (\<lambda>c. c \<in> set bytes) s) + length (dropWhile (\<lambda>c. c \<in> set bytes) s) = length s"
    by (metis length_append takeWhile_dropWhile_id)
  ultimately show ?thesis by simp
qed

lemma replaceAll_length:
  assumes "\<And>s r. skip s = Some r \<Longrightarrow> length repl + length r \<le> length s"
  shows "length (replaceAll skip repl s) \<le> length s"
proof (induction "length s" arbitrary: s rule: less_induct)
  case less
  show ?case
  proof (cases s)
    case (Cons c cs)
    have "length (replaceAll skip repl cs) \<le> length cs" using less [of cs] Cons by simp
    moreover have "length repl + length (replaceAll skip repl r) \<le> length s" if "skip s = Some r" "length r < length s" for r
      using less [of r] assms [OF that(1)] that(2) by simp
    ultimately show ?thesis
      by (simp add: Cons replaceAll.simps [of skip repl "c # cs"] split: option.split)
  qed (simp add: replaceAll.simps)
qed

lemma decodeEntities_length: "length (decodeEntities s) \<le> length s"
proof (induction s rule: decodeEntities.induct)
  case (2 c cs)
  show ?case
  proof (cases "find (\<lambda>e. prefix (fst e) (c # cs)) entities")
    case (Some e)
    then have "e \<in> set entities" "prefix (fst e) (c # cs)" by (auto simp: find_Some_iff)
    moreover from this have "length (snd e) \<le> length (fst e) - 1" "length (fst e) \<noteq> 0" by (auto simp: entities_def)
    moreover have "length (fst e) \<le> Suc (length cs)" using calculation(2) prefix_length_le by fastforce
    ultimately show ?thesis using 2(2) [OF Some] by (simp add: Some)
  qed (use 2 in simp)
qed simp

lemma stripHTML_length: "length (stripHTML s) \<le> length s"
proof -
  have e: "length (replaceAll (skipElement n) '' '' x) \<le> length x" for n x
    by (rule replaceAll_length) (use skipElement_length in fastforce)
  have t: "length (replaceAll skipTag '' '' x) \<le> length x" for x
    by (rule replaceAll_length) (use skipTag_length in fastforce)
  have r: "length (replaceAll (skipRun 2 bs) '' '' x) \<le> length x" "length (replaceAll (skipRun 3 bs) [CHR 0x0A, CHR 0x0A] x) \<le> length x" for bs x
    by (rule replaceAll_length, use skipRun_length in fastforce)+
  show ?thesis
    unfolding stripHTML_def Let_def
    using length_trim_space r e t decodeEntities_length by (meson order_trans)
qed

text \<open>A getter that is a client: each of its answers is one that \<^verbatim>\<open>Get\<close> gives.\<close>

definition servedBy :: "webLib \<Rightarrow> httpConfig \<Rightarrow> getter \<Rightarrow> bool" where
  "servedBy lib cfg get \<longleftrightarrow>
     (\<forall>u hs k. \<exists>reparse ctxErr hops dialed requests. Get lib cfg reparse ctxErr u hs k hops = Some (get u hs k, dialed, requests))"

lemma served_bounded:
  assumes "servedBy lib cfg get" "0 < hcMaxBody cfg" "get u hs k = Inr resp"
  shows "int (length (shBody resp)) \<le> bodyLimit cfg k"
proof -
  obtain reparse ctxErr hops dialed requests where g: "Get lib cfg reparse ctxErr u hs k hops = Some (get u hs k, dialed, requests)"
    using assms(1) unfolding servedBy_def by blast
  then show ?thesis using get_body_bounded [OF g [unfolded assms(3)] assms(2)] by simp
qed

text \<open>
  What \<^verbatim>\<open>web_fetch\<close> tells the model is bounded: a result that is no error is the final URL and a text of at most the
  bytes that were asked for (16384 by default) and at most the bytes the client is configured for, whatever the server
  sends and however it is marked up.
\<close>

theorem web_fetch_bounded:
  assumes "servedBy lib cfg get" "0 < hcMaxBody cfg" "\<not> resIsError (fetchExecute wn get input)"
  shows "\<exists>a u text' suffix'. wnFetchArgs wn input = Inr a \<and>
    resContent (fetchExecute wn get input) = ''Content from '' @ u @ '':'' @ newline @ newline @ text' @ suffix' \<and>
    int (length text') \<le> (if faMax a \<le> 0 then 16384 else faMax a) \<and> int (length text') \<le> hcMaxBody cfg \<and>
    suffix' \<in> {[], newline @ ''[truncated]''}"
proof -
  obtain a resp where a: "wnFetchArgs wn input = Inr a" and
      r: "get (faURL a) [(''Accept'', ''text/html,text/plain,application/json,application/xml;q=0.9'')] (if faMax a \<le> 0 then 16384 else faMax a) = Inr resp"
    using assms(3) by (auto simp: fetchExecute_def Let_def split: sum.splits)
  have "int (length (stripHTML (shBody resp))) \<le> bodyLimit cfg (if faMax a \<le> 0 then 16384 else faMax a)"
    using served_bounded [OF assms(1,2) r] stripHTML_length [of "shBody resp"] by simp
  then have l: "int (length (stripHTML (shBody resp))) \<le> (if faMax a \<le> 0 then 16384 else faMax a)"
      "int (length (stripHTML (shBody resp))) \<le> hcMaxBody cfg"
    by (auto simp: bodyLimit_def split: if_splits)
  have c: "resContent (fetchExecute wn get input) = ''Content from '' @ shURL resp @ '':'' @ newline @ newline @ stripHTML (shBody resp) @
      (if shTruncated resp then newline @ ''[truncated]'' else [])"
    by (simp add: fetchExecute_def a r textResult_def)
  show ?thesis
    by (intro exI conjI) (rule a, rule c, rule l, rule l, simp)
qed

subsection \<open>An instance\<close>

definition plainGetter :: getter where
  "plainGetter u hs k = (case Get plainLib DefaultSafeHTTPConfig (wlParse plainLib) None u hs k plainAnswers of
     None \<Rightarrow> Inl (httpFail HTTPNetworkFailure u EOF) | Some (r, ds, rs) \<Rightarrow> r)"

lemma plain_answers: "\<exists>x. doHops lib cfg hs0 via u hs plainAnswers = Some x"
  by (auto simp: plainAnswers_def answered_def split: prod.split option.split sum.split)

lemma plainGetter_served: "servedBy plainLib DefaultSafeHTTPConfig plainGetter"
proof -
  have "\<exists>x. Get plainLib DefaultSafeHTTPConfig (wlParse plainLib) None u hs k plainAnswers = Some x" for u hs k
  proof (cases "validateOutboundURL plainLib u")
    case (Inr p)
    show ?thesis
    proof (cases "wlParse plainLib (wlShow plainLib p)")
      case (Inr v)
      obtain r ds rs where "doHops plainLib DefaultSafeHTTPConfig (firstHeaders DefaultSafeHTTPConfig hs) [] v (firstHeaders DefaultSafeHTTPConfig hs)
          plainAnswers = Some (r, ds, rs)" using plain_answers by (metis prod_cases3)
      with Inr \<open>validateOutboundURL plainLib u = Inr p\<close> show ?thesis by (cases r) (simp_all add: Get_def Let_def)
    qed (simp add: Get_def Inr)
  qed (simp add: Get_def)
  then have "\<exists>ds rs. Get plainLib DefaultSafeHTTPConfig (wlParse plainLib) None u hs k plainAnswers = Some (plainGetter u hs k, ds, rs)" for u hs k
    by (auto simp: plainGetter_def split: option.split)
  then show ?thesis unfolding servedBy_def by blast
qed

definition plainNeeds :: webNeeds where
  "plainNeeds = \<lparr>wnSearchArgs = (\<lambda>_. Inl EOF), wnFetchArgs = (\<lambda>s. Inr \<lparr>faURL = ''http://a.org'', faMax = 3\<rparr>), wnEscape = (\<lambda>s. s),
     wnDDG = (\<lambda>_. Inl EOF), wnBrave = (\<lambda>_. Inl EOF), wnSearx = (\<lambda>_. Inl EOF), wnErr = (\<lambda>_. [])\<rparr>"

theorem web_fetch_bounded_witness:
  "\<exists>u text' suffix'. resContent (fetchExecute plainNeeds plainGetter []) = ''Content from '' @ u @ '':'' @ newline @ newline @ text' @ suffix' \<and>
     int (length text') \<le> 3"
proof -
  obtain resp where g: "plainGetter ''http://a.org'' [(''Accept'', ''text/html,text/plain,application/json,application/xml;q=0.9'')] 3 = Inr resp"
    using plain_run [of "[(''Accept'', ''text/html,text/plain,application/json,application/xml;q=0.9'')]"] by (auto simp: plainGetter_def)
  then have "\<not> resIsError (fetchExecute plainNeeds plainGetter [])"
    by (simp add: fetchExecute_def plainNeeds_def textResult_def)
  from web_fetch_bounded [OF plainGetter_served _ this] show ?thesis
    by (auto simp: plainNeeds_def DefaultSafeHTTPConfig_def)
qed

end
