(* ===== verification/Config.thy ===== *)
theory Config
  imports Sandbox Server_Manager Complex_Main
begin

section \<open>Configuration (\<^verbatim>\<open>internal/config\<close>)\<close>

text \<open>
  The configuration is decoded from YAML, completed with defaults and validated against the file system.  The YAML decoder,
  the environment variables, the search path and the URL parser are parameters; the document tree in which the code looks for
  settings, the file system and the widths of Go's integers and floating-point numbers are written out.
\<close>

subsection \<open>Numbers\<close>

text \<open>Floating-point numbers, as far as they are compared: YAML can also say \<^verbatim>\<open>.nan\<close> and \<^verbatim>\<open>.inf\<close>.\<close>

datatype float64 = Finite real | Infinite bool | NaN

fun float_less :: "float64 \<Rightarrow> float64 \<Rightarrow> bool" where
  "float_less (Finite x) (Finite y) = (x < y)"
| "float_less (Finite x) (Infinite p) = p"
| "float_less (Infinite p) (Finite y) = (\<not> p)"
| "float_less (Infinite p) (Infinite q) = (\<not> p \<and> q)"
| "float_less NaN y = False"
| "float_less x NaN = False"

definition float_le :: "float64 \<Rightarrow> float64 \<Rightarrow> bool" where
  "float_le x y = (float_less x y \<or> (x = y \<and> x \<noteq> NaN))"

text \<open>A product of 64-bit integers wraps.\<close>

definition wrap64 :: "int \<Rightarrow> int" where
  "wrap64 x = (x + 2 ^ 63) mod 2 ^ 64 - 2 ^ 63"

definition milliseconds :: "int \<Rightarrow> duration" where
  "milliseconds n = wrap64 (n * 1000000)"

definition seconds :: "int \<Rightarrow> duration" where
  "seconds n = wrap64 (n * 1000000000)"

subsection \<open>The configuration\<close>

record audioConfig =
  auSampleRate :: int
  auChannels :: int
  auSilenceThreshold :: float64
  auSilenceDurationMS :: int
  auMaxDurationS :: int
  auDevice :: string

record sttConfig =
  stEncoder :: string
  stDecoder :: string
  stTokens :: string
  stLanguage :: string
  stTranslate :: bool

record llmConfig =
  lmMode :: string
  lmServerBinary :: string
  lmModel :: string
  lmHost :: string
  lmPort :: int
  lmContextSize :: int
  lmNGPULayers :: int
  lmThreads :: int
  lmTemperature :: float64
  lmTopP :: float64
  lmMaxTokens :: int
  lmSystemPrompt :: string
  lmStartupTimeoutMS :: int
  lmShutdownTimeoutMS :: int
  lmHealthIntervalMS :: int

record ttsConfig =
  ttModel :: string
  ttTokens :: string
  ttDataDir :: string
  ttSpeakerID :: int
  ttLengthScale :: float64
  ttNoiseScale :: float64
  ttNoiseW :: float64

record filesystemConfig =
  fcEnabled :: bool
  fcRoot :: string
  fcAllowMutations :: bool
  fcMaxReadBytes :: int
  fcMaxWriteBytes :: int

record webSearchConfig =
  wcProvider :: string
  wcAPIKey :: string
  wcBaseURL :: string

record acpConfig =
  acBinary :: string
  acArgs :: "string list"
  acCWD :: string

record agentConfig =
  agMode :: string
  agACP :: acpConfig

record voiceInferenceConfig =
  viPython :: string
  viModelDir :: string
  viVoiceFile :: string
  viLanguage :: string
  viDevice :: string
  viFallbackDevice :: string
  viCacheDir :: string

record voiceConfig =
  vcPython :: string
  vcScript :: string
  vcVADModel :: string
  vcSTT :: voiceInferenceConfig
  vcTTS :: voiceInferenceConfig

record config =
  cfAudio :: audioConfig
  cfSTT :: sttConfig
  cfLLM :: llmConfig
  cfTTS :: ttsConfig
  cfFilesystem :: filesystemConfig
  cfWebSearch :: webSearchConfig
  cfAgent :: agentConfig
  cfVoice :: voiceConfig
  cfLogLevel :: string

definition SilenceDuration :: "audioConfig \<Rightarrow> duration" where
  "SilenceDuration a = milliseconds (auSilenceDurationMS a)"

definition MaxDuration :: "audioConfig \<Rightarrow> duration" where
  "MaxDuration a = seconds (auMaxDurationS a)"

definition BaseURL :: "llmConfig \<Rightarrow> string" where
  "BaseURL l = ''http://'' @ lmHost l @ '':'' @ showInt (lmPort l)"

definition StartupTimeout :: "llmConfig \<Rightarrow> duration" where
  "StartupTimeout l = milliseconds (lmStartupTimeoutMS l)"

definition ShutdownTimeout :: "llmConfig \<Rightarrow> duration" where
  "ShutdownTimeout l = milliseconds (lmShutdownTimeoutMS l)"

definition HealthInterval :: "llmConfig \<Rightarrow> duration" where
  "HealthInterval l = milliseconds (lmHealthIntervalMS l)"

subsection \<open>Defaults\<close>

text \<open>A node of the YAML document: the content of a mapping is its keys and values in order; an alias names an anchor.\<close>

datatype yamlNode =
    YDocument "yamlNode list"
  | YMapping "(yamlNode \<times> yamlNode) list"
  | YSequence "yamlNode list"
  | YScalar string
  | YAlias string yamlNode

fun nodeValue :: "yamlNode \<Rightarrow> string" where
  "nodeValue (YScalar s) = s"
| "nodeValue (YAlias s n) = s"
| "nodeValue n = []"

fun yamlDescend :: "yamlNode \<Rightarrow> string list \<Rightarrow> bool" where
  "yamlDescend node [] = True"
| "yamlDescend (YMapping es) (segment # path) =
     (case find (\<lambda>e. nodeValue (fst e) = segment) es of
        None \<Rightarrow> False
      | Some e \<Rightarrow> yamlDescend (snd e) path)"
| "yamlDescend node (segment # path) = False"

definition hasYAMLPath :: "yamlNode option \<Rightarrow> string list \<Rightarrow> bool" where
  "hasYAMLPath document path =
     (case document of
        None \<Rightarrow> False
      | Some node \<Rightarrow>
          if path = [] then False
          else (case node of
                  YDocument [] \<Rightarrow> False
                | YDocument (n # ns) \<Rightarrow> yamlDescend n path
                | _ \<Rightarrow> yamlDescend node path))"

definition ifBlank :: "string \<Rightarrow> string \<Rightarrow> string" where
  "ifBlank s d = (if s = [] then d else s)"

definition applyVoiceDefaults :: "voiceConfig \<Rightarrow> voiceConfig" where
  "applyVoiceDefaults v =
     (let fill = (\<lambda>i. i\<lparr>viLanguage := ifBlank (viLanguage i) ''es'', viDevice := ifBlank (viDevice i) ''GPU'',
                        viFallbackDevice := ifBlank (viFallbackDevice i) ''CPU''\<rparr>) in
      v\<lparr>vcSTT := fill (vcSTT v), vcTTS := fill (vcTTS v)\<rparr>)"

definition defaultAudio :: "(string \<Rightarrow> bool) \<Rightarrow> audioConfig \<Rightarrow> audioConfig" where
  "defaultAudio has a =
     a\<lparr>auSampleRate := (if has ''sample_rate'' then auSampleRate a else 16000),
       auChannels := (if has ''channels'' then auChannels a else 1),
       auSilenceThreshold := (if has ''silence_threshold'' then auSilenceThreshold a else Finite (15 / 1000)),
       auSilenceDurationMS := (if has ''silence_duration_ms'' then auSilenceDurationMS a else 1500),
       auMaxDurationS := (if has ''max_duration_s'' then auMaxDurationS a else 30),
       auDevice := ifBlank (auDevice a) ''default''\<rparr>"

definition defaultLLM :: "(string \<Rightarrow> bool) \<Rightarrow> llmConfig \<Rightarrow> llmConfig" where
  "defaultLLM has l =
     l\<lparr>lmMode := ifBlank (lmMode l) ''managed'',
       lmHost := ifBlank (lmHost l) ''127.0.0.1'',
       lmPort := (if has ''port'' then lmPort l else 8080),
       lmContextSize := (if has ''context_size'' then lmContextSize l else 4096),
       lmThreads := (if has ''threads'' then lmThreads l else 4),
       lmTemperature := (if has ''temperature'' then lmTemperature l else Finite (7 / 10)),
       lmTopP := (if has ''top_p'' then lmTopP l else Finite (9 / 10)),
       lmMaxTokens := (if has ''max_tokens'' then lmMaxTokens l else 512),
       lmStartupTimeoutMS := (if has ''startup_timeout_ms'' then lmStartupTimeoutMS l else 60000),
       lmShutdownTimeoutMS := (if has ''shutdown_timeout_ms'' then lmShutdownTimeoutMS l else 5000),
       lmHealthIntervalMS := (if has ''health_interval_ms'' then lmHealthIntervalMS l else 250)\<rparr>"

definition defaultTTS :: "(string \<Rightarrow> bool) \<Rightarrow> ttsConfig \<Rightarrow> ttsConfig" where
  "defaultTTS has t =
     t\<lparr>ttLengthScale := (if has ''length_scale'' then ttLengthScale t else Finite 1),
       ttNoiseScale := (if has ''noise_scale'' then ttNoiseScale t else Finite (667 / 1000)),
       ttNoiseW := (if has ''noise_w'' then ttNoiseW t else Finite (8 / 10))\<rparr>"

definition defaultFilesystem :: "(string \<Rightarrow> bool) \<Rightarrow> filesystemConfig \<Rightarrow> filesystemConfig" where
  "defaultFilesystem has f =
     f\<lparr>fcMaxReadBytes := (if has ''max_read_bytes'' then fcMaxReadBytes f else 1048576),
       fcMaxWriteBytes := (if has ''max_write_bytes'' then fcMaxWriteBytes f else 1048576)\<rparr>"

definition applyDefaults :: "yamlNode option \<Rightarrow> config \<Rightarrow> config" where
  "applyDefaults document c =
     c\<lparr>cfAgent := (cfAgent c)\<lparr>agMode := ifBlank (agMode (cfAgent c)) ''legacy_native''\<rparr>,
       cfVoice := applyVoiceDefaults (cfVoice c),
       cfWebSearch := (cfWebSearch c)\<lparr>wcProvider := ifBlank (wcProvider (cfWebSearch c)) ''duckduckgo''\<rparr>,
       cfFilesystem := defaultFilesystem (\<lambda>k. hasYAMLPath document [''tools'', ''filesystem'', k]) (cfFilesystem c),
       cfSTT := (cfSTT c)\<lparr>stLanguage := ifBlank (stLanguage (cfSTT c)) ''auto''\<rparr>,
       cfAudio := defaultAudio (\<lambda>k. hasYAMLPath document [''audio'', k]) (cfAudio c),
       cfLLM := defaultLLM (\<lambda>k. hasYAMLPath document [''llm'', k]) (cfLLM c),
       cfTTS := defaultTTS (\<lambda>k. hasYAMLPath document [''tts'', k]) (cfTTS c),
       cfLogLevel := ifBlank (cfLogLevel c) ''info''\<rparr>"

subsection \<open>Loading\<close>

datatype trailing = TrailingEOF | TrailingFailed go_error | TrailingDocument

text \<open>What loading reads: the variable \<^verbatim>\<open>ASSISTANT_CONFIG\<close>, files, and the answers of the YAML decoder.\<close>

record loader =
  ldEnv :: string
  ldRead :: "string \<Rightarrow> go_error + string"
  ldDecode :: "string \<Rightarrow> go_error + config"
  ldTrailing :: "string \<Rightarrow> trailing"
  ldDocument :: "string \<Rightarrow> go_error + yamlNode"

definition Load :: "loader \<Rightarrow> string \<Rightarrow> go_error + config" where
  "Load ld path0 =
     (let path1 = (if ldEnv ld \<noteq> [] then ldEnv ld else path0); path = (if path1 = [] then ''config.yaml'' else path1) in
      case ldRead ld path of
        Inl e \<Rightarrow> Inl (Wrapped ''reading config'' e)
      | Inr bytes \<Rightarrow>
        (case ldDecode ld bytes of
           Inl e \<Rightarrow> Inl (Wrapped ''parsing config'' e)
         | Inr c \<Rightarrow>
           (case ldTrailing ld bytes of
              TrailingFailed e \<Rightarrow> Inl (Wrapped ''parsing trailing config document'' e)
            | TrailingDocument \<Rightarrow> Inl (Message ''parsing config: multiple YAML documents are not supported'')
            | TrailingEOF \<Rightarrow>
              (case ldDocument ld bytes of
                 Inl e \<Rightarrow> Inl (Wrapped ''reading config field presence'' e)
               | Inr document \<Rightarrow> Inr (applyDefaults (Some document) c)))))"

subsection \<open>Validation\<close>

text \<open>
  What validation reads: the file tree and its faults, the working directory, the search path of executables,
  the URL parser and the variable \<^verbatim>\<open>XARLATAN_VAD_MODEL\<close>; and how paths and errors are printed.
\<close>

record world =
  wTree :: node
  wFaults :: faults
  wCwd :: path
  wLookPath :: "string \<Rightarrow> go_error option"
  wParse :: "string \<Rightarrow> go_error + url"
  wVADModel :: string
  wQuote :: "string \<Rightarrow> string"
  wError :: "osError \<Rightarrow> go_error"

text \<open>\<^verbatim>\<open>os.Stat\<close> of a path as it is written: the kernel walks it from the root or the working directory.\<close>

definition osStat :: "world \<Rightarrow> string \<Rightarrow> osError + node" where
  "osStat w p =
     (let start = (if IsAbs p then [] else wCwd w) in
      guarded (wFaults w) (CallStat (start @ splitSlash p))
        (case walk (wTree w) kernelLinks start (splitSlash p) of
           Inl e \<Rightarrow> Inl e
         | Inr q \<Rightarrow> (case look (wTree w) q of None \<Rightarrow> Inl ErrNotExist | Some n \<Rightarrow> Inr n)))"

text \<open>The checks run in order and stop at the first error.\<close>

fun firstError :: "go_error option list \<Rightarrow> go_error option" where
  "firstError [] = None"
| "firstError (Some e # es) = Some e"
| "firstError (None # es) = firstError es"

definition require :: "bool \<Rightarrow> string \<Rightarrow> go_error option" where
  "require ok what = (if ok then None else Some (Message what))"

definition statFailure :: "world \<Rightarrow> string \<Rightarrow> string \<Rightarrow> osError \<Rightarrow> go_error" where
  "statFailure w name p e = Wrapped (name @ '' '' @ wQuote w p) (wError w e)"

definition validateRegularFile :: "world \<Rightarrow> string \<Rightarrow> string \<Rightarrow> go_error option" where
  "validateRegularFile w name p =
     (if trim_space p = [] then Some (Message (name @ '' is required''))
      else (case osStat w p of
              Inl e \<Rightarrow> Some (statFailure w name p e)
            | Inr n \<Rightarrow> require (isRegular n) (name @ '' '' @ wQuote w p @ '' is not a regular file'')))"

definition validateDirectory :: "world \<Rightarrow> string \<Rightarrow> string \<Rightarrow> go_error option" where
  "validateDirectory w name p =
     (if trim_space p = [] then Some (Message (name @ '' is required''))
      else (case osStat w p of
              Inl e \<Rightarrow> Some (statFailure w name p e)
            | Inr n \<Rightarrow> require (isDir n) (name @ '' '' @ wQuote w p @ '' is not a directory'')))"

text \<open>Some execute bit of the permissions: \<^verbatim>\<open>Perm() & 0o111\<close>.\<close>

definition executableFile :: "node \<Rightarrow> bool" where
  "executableFile n = (case n of FileNode bytes p \<Rightarrow> odd (p div 64) \<or> odd (p div 8) \<or> odd p | _ \<Rightarrow> False)"

definition validateExecutable :: "world \<Rightarrow> string \<Rightarrow> string \<Rightarrow> go_error option" where
  "validateExecutable w name p =
     (if trim_space p = [] then Some (Message (name @ '' is required''))
      else if CHR ''/'' \<notin> set p
      then (case wLookPath w p of Some e \<Rightarrow> Some (Wrapped (name @ '' '' @ wQuote w p) e) | None \<Rightarrow> None)
      else (case osStat w p of
              Inl e \<Rightarrow> Some (statFailure w name p e)
            | Inr n \<Rightarrow>
                if \<not> isRegular n then Some (Message (name @ '' '' @ wQuote w p @ '' is not a regular file''))
                else require (executableFile n) (name @ '' '' @ wQuote w p @ '' is not executable'')))"

fun blankArg :: "nat \<Rightarrow> string list \<Rightarrow> nat option" where
  "blankArg i [] = None"
| "blankArg i (a # as) = (if trim_space a = [] then Some i else blankArg (Suc i) as)"

definition validateAgent :: "world \<Rightarrow> agentConfig \<Rightarrow> go_error + string" where
  "validateAgent w cfg =
     (let t = trim_space (agMode cfg); mode = (if t = [] then ''legacy_native'' else t) in
      if mode = ''legacy_native'' then Inr mode
      else if mode = ''voice_gateway''
      then
       (case validateExecutable w ''agent.acp.binary'' (acBinary (agACP cfg)) of
          Some e \<Rightarrow> Inl e
        | None \<Rightarrow>
          (case blankArg 0 (acArgs (agACP cfg)) of
             Some i \<Rightarrow> Inl (Message (''agent.acp.args['' @ decimal i @ ''] must not be blank''))
           | None \<Rightarrow>
             (let cwd = trim_space (acCWD (agACP cfg)) in
              if cwd = [] then Inl (Message ''agent.acp.cwd is required'')
              else if \<not> IsAbs cwd then Inl (Message ''agent.acp.cwd must be an absolute path'')
              else (case validateDirectory w ''agent.acp.cwd'' cwd of Some e \<Rightarrow> Inl e | None \<Rightarrow> Inr mode))))
      else Inl (Message ''agent.mode must be legacy_native or voice_gateway''))"

definition validateLLM :: "world \<Rightarrow> llmConfig \<Rightarrow> go_error option" where
  "validateLLM w l = firstError
     [require (lmMode l = ''managed'' \<or> lmMode l = ''external'') ''llm.mode must be managed or external'',
      require (trim_space (lmHost l) \<noteq> []) ''llm.host is required'',
      require (1 \<le> lmPort l \<and> lmPort l \<le> 65535) ''llm.port must be between 1 and 65535'',
      require (0 < lmContextSize l) ''llm.context_size must be greater than zero'',
      require (0 < lmThreads l) ''llm.threads must be greater than zero'',
      require (0 \<le> lmNGPULayers l) ''llm.n_gpu_layers must not be negative'',
      require (\<not> float_less (lmTemperature l) (Finite 0) \<and> \<not> float_less (Finite 2) (lmTemperature l)) ''llm.temperature must be between 0 and 2'',
      require (\<not> float_le (lmTopP l) (Finite 0) \<and> \<not> float_less (Finite 1) (lmTopP l)) ''llm.top_p must be greater than 0 and at most 1'',
      require (0 < lmMaxTokens l) ''llm.max_tokens must be greater than zero'',
      require (0 < lmStartupTimeoutMS l) ''llm.startup_timeout_ms must be greater than zero'',
      require (0 < lmShutdownTimeoutMS l) ''llm.shutdown_timeout_ms must be greater than zero'',
      require (0 < lmHealthIntervalMS l) ''llm.health_interval_ms must be greater than zero'',
      if lmMode l = ''external'' then None
      else firstError [validateRegularFile w ''llm.model'' (lmModel l), validateExecutable w ''llm.server_binary'' (lmServerBinary l)]]"

definition validateFilesystem :: "world \<Rightarrow> filesystemConfig \<Rightarrow> go_error option" where
  "validateFilesystem w f =
     (if \<not> fcEnabled f
      then require (\<not> fcAllowMutations f) ''tools.filesystem.allow_mutations requires tools.filesystem.enabled''
      else if fcMaxReadBytes f \<le> 0 then Some (Message ''tools.filesystem.max_read_bytes must be greater than zero'')
      else if fcMaxWriteBytes f \<le> 0 then Some (Message ''tools.filesystem.max_write_bytes must be greater than zero'')
      else if trim_space (fcRoot f) = [] then Some (Message ''tools.filesystem.root is required when filesystem tools are enabled'')
      else if \<not> IsAbs (fcRoot f) then Some (Message ''tools.filesystem.root must be an absolute path'')
      else (case EvalSymlinks (wFaults w) 0 (wTree w) (cleanFrom [] (splitSlash (fcRoot f))) of
              Inl e \<Rightarrow> Some (statFailure w ''tools.filesystem.root'' (fcRoot f) e)
            | Inr dir \<Rightarrow>
                if dir = [] then Some (Message ''tools.filesystem.root must not be the filesystem root'')
                else (case Stat (wFaults w) (wTree w) dir of
                        Inl e \<Rightarrow> Some (statFailure w ''tools.filesystem.root'' (pathString dir) e)
                      | Inr n \<Rightarrow> require (isDir n) (''tools.filesystem.root '' @ wQuote w (pathString dir) @ '' is not a directory''))))"

definition validateWebSearch :: "world \<Rightarrow> webSearchConfig \<Rightarrow> go_error option" where
  "validateWebSearch w s =
     (if wcProvider s = ''duckduckgo'' then None
      else if wcProvider s = ''brave''
      then require (trim_space (wcAPIKey s) \<noteq> []) ''tools.web_search.api_key is required for provider brave''
      else if wcProvider s = ''searxng''
      then (if trim_space (wcBaseURL s) = [] then Some (Message ''tools.web_search.base_url is required for provider searxng'')
            else (case wParse w (wcBaseURL s) of
                    Inl e \<Rightarrow> Some (Message ''tools.web_search.base_url must be a valid HTTP(S) URL'')
                  | Inr u \<Rightarrow> require (urlHost u \<noteq> [] \<and> (urlScheme u = ''http'' \<or> urlScheme u = ''https''))
                      ''tools.web_search.base_url must be a valid HTTP(S) URL''))
      else Some (Message ''tools.web_search.provider must be duckduckgo, brave, or searxng''))"

definition validateLogLevel :: "string \<Rightarrow> go_error option" where
  "validateLogLevel level =
     require (level \<in> {''debug'', ''info'', ''warn'', ''error''}) ''log.level must be debug, info, warn, or error''"

definition validateVoiceInference :: "world \<Rightarrow> string \<Rightarrow> string \<Rightarrow> voiceInferenceConfig \<Rightarrow> bool \<Rightarrow> go_error option" where
  "validateVoiceInference w name defaultPython i requireVoice =
     (let specific = trim_space (viPython i); python = (if specific = [] then trim_space defaultPython else specific);
          cache = trim_space (viCacheDir i) in
      firstError
       [validateExecutable w (name @ ''.python'') python,
        validateDirectory w (name @ ''.model_dir'') (viModelDir i),
        if requireVoice then validateRegularFile w (name @ ''.voice_file'') (viVoiceFile i) else None,
        require (trim_space (viLanguage i) \<noteq> []) (name @ ''.language is required''),
        require (trim_space (viDevice i) \<noteq> []) (name @ ''.device is required''),
        require (trim_space (viFallbackDevice i) \<noteq> []) (name @ ''.fallback_device is required''),
        require (cache = [] \<or> IsAbs cache) (name @ ''.cache_dir must be absolute when set'')])"

definition validateVoiceGateway :: "world \<Rightarrow> voiceConfig \<Rightarrow> go_error option" where
  "validateVoiceGateway w v = firstError
     [validateRegularFile w ''voice.worker.script'' (vcScript v),
      validateRegularFile w ''voice.vad.model'' (vcVADModel v),
      validateVoiceInference w ''voice.stt'' (vcPython v) (vcSTT v) False,
      validateVoiceInference w ''voice.tts'' (vcPython v) (vcTTS v) True]"

definition validateAudio :: "audioConfig \<Rightarrow> go_error option" where
  "validateAudio a = firstError
     [require (0 < auSampleRate a) ''audio.sample_rate must be greater than zero'',
      require (auChannels a = 1) ''audio.channels must be 1; multichannel capture is not supported'',
      require (\<not> float_less (auSilenceThreshold a) (Finite 0) \<and> \<not> float_less (Finite 1) (auSilenceThreshold a))
        ''audio.silence_threshold must be between 0 and 1'',
      require (0 < auSilenceDurationMS a) ''audio.silence_duration_ms must be greater than zero'',
      require (0 < auMaxDurationS a) ''audio.max_duration_s must be greater than zero'',
      require (trim_space (auDevice a) \<noteq> []) ''audio.device is required'']"

definition Validate :: "world \<Rightarrow> config \<Rightarrow> go_error option" where
  "Validate w c =
     (case validateAudio (cfAudio c) of
        Some e \<Rightarrow> Some e
      | None \<Rightarrow>
        (case validateAgent w (cfAgent c) of
           Inl e \<Rightarrow> Some e
         | Inr mode \<Rightarrow>
           (case validateLogLevel (cfLogLevel c) of
              Some e \<Rightarrow> Some e
            | None \<Rightarrow>
              if mode = ''voice_gateway'' then validateVoiceGateway w (cfVoice c)
              else firstError
               [validateLLM w (cfLLM c),
                validateFilesystem w (cfFilesystem c),
                validateWebSearch w (cfWebSearch c),
                require (\<not> float_le (ttLengthScale (cfTTS c)) (Finite 0)) ''tts.length_scale must be greater than zero'',
                require (\<not> float_less (ttNoiseScale (cfTTS c)) (Finite 0)) ''tts.noise_scale must not be negative'',
                require (\<not> float_less (ttNoiseW (cfTTS c)) (Finite 0)) ''tts.noise_w must not be negative'',
                validateRegularFile w ''stt.encoder'' (stEncoder (cfSTT c)),
                validateRegularFile w ''stt.decoder'' (stDecoder (cfSTT c)),
                validateRegularFile w ''stt.tokens'' (stTokens (cfSTT c)),
                validateRegularFile w ''tts.model'' (ttModel (cfTTS c)),
                validateRegularFile w ''tts.tokens'' (ttTokens (cfTTS c)),
                validateDirectory w ''tts.data_dir'' (ttDataDir (cfTTS c))])))"

subsection \<open>The voice activity detector\<close>

record vadRuntime =
  vrModel :: string
  vrThreshold :: float64
  vrMinSilence :: duration
  vrMinSpeech :: duration
  vrMaxSpeech :: duration
  vrSampleRate :: int
  vrNumThreads :: int
  vrProvider :: string
  vrWindowSize :: int
  vrBufferSize :: duration

text \<open>\<^verbatim>\<open>filepath.Clean\<close>, \<^verbatim>\<open>Dir\<close> and \<^verbatim>\<open>Join\<close> on the text of a path.\<close>

fun cleanRelative :: "string list \<Rightarrow> string list \<Rightarrow> string list" where
  "cleanRelative acc [] = acc"
| "cleanRelative acc (c # cs) =
     (if c = [] \<or> c = ''.'' then cleanRelative acc cs
      else if c = ''..'' \<and> acc \<noteq> [] \<and> last acc \<noteq> ''..'' then cleanRelative (butlast acc) cs
      else cleanRelative (acc @ [c]) cs)"

definition cleanText :: "string \<Rightarrow> string" where
  "cleanText s =
     (if s = [] then ''.''
      else if IsAbs s then pathString (cleanFrom [] (splitSlash s))
      else (case cleanRelative [] (splitSlash s) of [] \<Rightarrow> ''.'' | cs \<Rightarrow> joinWith ''/'' cs))"

definition dirText :: "string \<Rightarrow> string" where
  "dirText s = cleanText (rev (dropWhile (\<lambda>c. c \<noteq> CHR ''/'') (rev s)))"

definition inferVADModelPath :: "string \<Rightarrow> string" where
  "inferVADModelPath sttEncoder = cleanText (dirText (dirText (dirText (cleanText sttEncoder))) @ ''/vad/silero_vad.onnx'')"

definition SileroVADConfig :: "world \<Rightarrow> config \<Rightarrow> go_error + vadRuntime" where
  "SileroVADConfig w c =
     (if auSampleRate (cfAudio c) \<noteq> 16000 then Inl (Message ''silero VAD requires audio.sample_rate=16000'')
      else
      (let model1 = trim_space (wVADModel w);
           model2 = (if model1 = [] then trim_space (vcVADModel (cfVoice c)) else model1);
           model = (if model2 = [] then inferVADModelPath (stEncoder (cfSTT c)) else model2) in
       case validateRegularFile w ''vad.model'' model of
         Some e \<Rightarrow> Inl e
       | None \<Rightarrow>
           Inr \<lparr>vrModel = model, vrThreshold = Finite (1 / 2), vrMinSilence = SilenceDuration (cfAudio c), vrMinSpeech = 250000000,
                vrMaxSpeech = MaxDuration (cfAudio c), vrSampleRate = auSampleRate (cfAudio c), vrNumThreads = 1, vrProvider = ''cpu'',
                vrWindowSize = 512, vrBufferSize = wrap64 (MaxDuration (cfAudio c) + 5000000000)\<rparr>))"

subsection \<open>Properties\<close>

lemma firstError_Cons: "firstError (e # es) = None \<longleftrightarrow> e = None \<and> firstError es = None"
  by (cases e) simp_all

lemma firstError_skip: "firstError (e # es) = (case e of Some x \<Rightarrow> Some x | None \<Rightarrow> firstError es)"
  by (cases e) simp_all

lemma require_None [simp]: "require ok what = None \<longleftrightarrow> ok" "require True what = None"
  by (simp_all add: require_def)

lemmas firstError_None = firstError_Cons firstError.simps(1) require_None

lemma validateLLM_None:
  "validateLLM w l = None \<longleftrightarrow>
     (lmMode l = ''managed'' \<or> lmMode l = ''external'') \<and> trim_space (lmHost l) \<noteq> [] \<and> 1 \<le> lmPort l \<and> lmPort l \<le> 65535 \<and>
     0 < lmContextSize l \<and> 0 < lmThreads l \<and> 0 \<le> lmNGPULayers l \<and>
     \<not> float_less (lmTemperature l) (Finite 0) \<and> \<not> float_less (Finite 2) (lmTemperature l) \<and>
     \<not> float_le (lmTopP l) (Finite 0) \<and> \<not> float_less (Finite 1) (lmTopP l) \<and> 0 < lmMaxTokens l \<and>
     0 < lmStartupTimeoutMS l \<and> 0 < lmShutdownTimeoutMS l \<and> 0 < lmHealthIntervalMS l \<and>
     (lmMode l = ''external'' \<or>
      validateRegularFile w ''llm.model'' (lmModel l) = None \<and> validateExecutable w ''llm.server_binary'' (lmServerBinary l) = None)"
  by (auto simp: validateLLM_def firstError_None)

text \<open>
  Only the files must be given: when the document sets nothing under \<^verbatim>\<open>audio\<close>, \<^verbatim>\<open>llm\<close>, \<^verbatim>\<open>tts\<close> and \<^verbatim>\<open>tools.filesystem\<close> and the
  decoder left the texts empty, the defaults pass every check of validation, so that what it reports is the first model,
  token or program file that is missing and nothing else.
\<close>

theorem defaults_leave_only_files:
  assumes "\<forall>k. \<not> hasYAMLPath document [''audio'', k] \<and> \<not> hasYAMLPath document [''llm'', k] \<and> \<not> hasYAMLPath document [''tts'', k]"
    and "auDevice (cfAudio c) = []" "lmMode (cfLLM c) = []" "lmHost (cfLLM c) = []" "lmNGPULayers (cfLLM c) = 0"
    and "agMode (cfAgent c) = []" "cfLogLevel c = []" "wcProvider (cfWebSearch c) = []"
    and "\<not> fcEnabled (cfFilesystem c)" "\<not> fcAllowMutations (cfFilesystem c)"
  shows "Validate w (applyDefaults document c) = firstError
    [validateRegularFile w ''llm.model'' (lmModel (cfLLM c)), validateExecutable w ''llm.server_binary'' (lmServerBinary (cfLLM c)),
     validateRegularFile w ''stt.encoder'' (stEncoder (cfSTT c)), validateRegularFile w ''stt.decoder'' (stDecoder (cfSTT c)),
     validateRegularFile w ''stt.tokens'' (stTokens (cfSTT c)), validateRegularFile w ''tts.model'' (ttModel (cfTTS c)),
     validateRegularFile w ''tts.tokens'' (ttTokens (cfTTS c)), validateDirectory w ''tts.data_dir'' (ttDataDir (cfTTS c))]"
proof -
  let ?c = "applyDefaults document c"
  have plain: "trim_space ''default'' = ''default''" "trim_space ''127.0.0.1'' = ''127.0.0.1''" "trim_space ''legacy_native'' = ''legacy_native''"
    by (simp_all add: trim_space_plain byte_val_def)
  have "validateAudio (cfAudio ?c) = None"
    using assms(1,2) by (simp add: validateAudio_def firstError_None applyDefaults_def defaultAudio_def ifBlank_def plain)
  moreover have "validateAgent w (cfAgent ?c) = Inr ''legacy_native''" "validateLogLevel (cfLogLevel ?c) = None"
    using assms by (simp_all add: validateAgent_def validateLogLevel_def applyDefaults_def ifBlank_def plain Let_def)
  moreover have "validateLLM w (cfLLM ?c) = firstError
      [validateRegularFile w ''llm.model'' (lmModel (cfLLM c)), validateExecutable w ''llm.server_binary'' (lmServerBinary (cfLLM c))]"
    using assms(1,3,4,5) by (simp add: validateLLM_def firstError_skip applyDefaults_def defaultLLM_def ifBlank_def plain float_le_def split: option.split)
  moreover have "validateFilesystem w (cfFilesystem ?c) = None" "validateWebSearch w (cfWebSearch ?c) = None"
    using assms by (simp_all add: validateFilesystem_def validateWebSearch_def applyDefaults_def defaultFilesystem_def ifBlank_def)
  moreover have "cfSTT ?c = (cfSTT c)\<lparr>stLanguage := ifBlank (stLanguage (cfSTT c)) ''auto''\<rparr>"
      "cfTTS ?c = (cfTTS c)\<lparr>ttLengthScale := Finite 1, ttNoiseScale := Finite (667 / 1000), ttNoiseW := Finite (8 / 10)\<rparr>"
    using assms(1) by (simp_all add: applyDefaults_def defaultTTS_def)
  ultimately show ?thesis
    by (simp add: Validate_def float_le_def firstError_skip split: option.split)
qed

text \<open>
  Settings that come through an alias or a merge key are lost: the defaults look for a setting in the document as it is
  written, and do not follow an alias there; a port that the decoder took from an anchor is put back to 8080.
\<close>

theorem aliased_settings_overwritten:
  "lmPort (cfLLM (applyDefaults (Some (YDocument [YMapping ((YScalar ''llm'', YAlias anchor settings) # rest)])) c)) = 8080 \<and>
   lmPort (cfLLM (applyDefaults (Some (YDocument [YMapping ((YScalar ''llm'', YMapping [(YScalar ''<<'', YAlias anchor settings)]) # rest)])) c)) = 8080"
  by (simp add: applyDefaults_def defaultLLM_def hasYAMLPath_def)

lemma milliseconds_exact: "0 < n \<Longrightarrow> n \<le> 9223372036854 \<Longrightarrow> milliseconds n = n * 1000000"
  by (simp add: milliseconds_def wrap64_def)

text \<open>
  The timeouts of a validated configuration are what they say, and positive, as long as none is above 9223372036854
  milliseconds (292 years); the next value wraps around and is negative, and validation does not look at it.
\<close>

theorem timeouts_exact_in_bounds:
  assumes "validateLLM w l = None"
    and "lmStartupTimeoutMS l \<le> 9223372036854" "lmShutdownTimeoutMS l \<le> 9223372036854" "lmHealthIntervalMS l \<le> 9223372036854"
  shows "StartupTimeout l = lmStartupTimeoutMS l * 1000000 \<and> 0 < StartupTimeout l \<and>
    ShutdownTimeout l = lmShutdownTimeoutMS l * 1000000 \<and> 0 < ShutdownTimeout l \<and>
    HealthInterval l = lmHealthIntervalMS l * 1000000 \<and> 0 < HealthInterval l \<and>
    StartupTimeout (l\<lparr>lmStartupTimeoutMS := 9223372036855\<rparr>) < 0 \<and>
    validateLLM w (l\<lparr>lmStartupTimeoutMS := 9223372036855\<rparr>) = None"
  using assms
  by (simp add: validateLLM_None StartupTimeout_def ShutdownTimeout_def HealthInterval_def milliseconds_exact)
     (simp add: milliseconds_def wrap64_def)

text \<open>
  A temperature that is not a number is accepted: every comparison with it is false, so a validated configuration stays
  valid when the temperature and the nucleus are \<^verbatim>\<open>.nan\<close>.
\<close>

theorem nan_temperature_accepted:
  assumes "validateLLM w l = None"
  shows "validateLLM w (l\<lparr>lmTemperature := NaN, lmTopP := NaN\<rparr>) = None"
  using assms by (simp add: validateLLM_None float_le_def)

subsection \<open>Instances\<close>

definition zeroVoice :: voiceInferenceConfig where
  "zeroVoice = \<lparr>viPython = [], viModelDir = [], viVoiceFile = [], viLanguage = [], viDevice = [], viFallbackDevice = [], viCacheDir = []\<rparr>"

text \<open>What the decoder leaves of an empty document.\<close>

definition zeroConfig :: config where
  "zeroConfig = \<lparr>
     cfAudio = \<lparr>auSampleRate = 0, auChannels = 0, auSilenceThreshold = Finite 0, auSilenceDurationMS = 0, auMaxDurationS = 0, auDevice = []\<rparr>,
     cfSTT = \<lparr>stEncoder = [], stDecoder = [], stTokens = [], stLanguage = [], stTranslate = False\<rparr>,
     cfLLM = \<lparr>lmMode = [], lmServerBinary = [], lmModel = [], lmHost = [], lmPort = 0, lmContextSize = 0, lmNGPULayers = 0, lmThreads = 0,
       lmTemperature = Finite 0, lmTopP = Finite 0, lmMaxTokens = 0, lmSystemPrompt = [], lmStartupTimeoutMS = 0, lmShutdownTimeoutMS = 0,
       lmHealthIntervalMS = 0\<rparr>,
     cfTTS = \<lparr>ttModel = [], ttTokens = [], ttDataDir = [], ttSpeakerID = 0, ttLengthScale = Finite 0, ttNoiseScale = Finite 0, ttNoiseW = Finite 0\<rparr>,
     cfFilesystem = \<lparr>fcEnabled = False, fcRoot = [], fcAllowMutations = False, fcMaxReadBytes = 0, fcMaxWriteBytes = 0\<rparr>,
     cfWebSearch = \<lparr>wcProvider = [], wcAPIKey = [], wcBaseURL = []\<rparr>,
     cfAgent = \<lparr>agMode = [], agACP = \<lparr>acBinary = [], acArgs = [], acCWD = []\<rparr>\<rparr>,
     cfVoice = \<lparr>vcPython = [], vcScript = [], vcVADModel = [], vcSTT = zeroVoice, vcTTS = zeroVoice\<rparr>,
     cfLogLevel = []\<rparr>"

definition plainWorld :: world where
  "plainWorld = \<lparr>wTree = DirNode [(''m'', FileNode [] 493), (''work'', DirNode [])], wFaults = (\<lambda>_. None), wCwd = [], wLookPath = (\<lambda>_. None),
     wParse = (\<lambda>_. Inl (Message ''parse'')), wVADModel = [], wQuote = (\<lambda>s. s), wError = (\<lambda>_. Message ''stat'')\<rparr>"

definition externalLLM :: llmConfig where
  "externalLLM = (cfLLM (applyDefaults (Some (YDocument [YMapping []])) zeroConfig))\<lparr>lmMode := ''external''\<rparr>"

lemma unset: "\<not> hasYAMLPath (Some (YDocument [YMapping []])) (k # ks)"
  by (simp add: hasYAMLPath_def)

lemma externalLLM_valid: "validateLLM plainWorld externalLLM = None"
  by (simp add: validateLLM_None externalLLM_def applyDefaults_def defaultLLM_def unset zeroConfig_def ifBlank_def float_le_def trim_space_plain byte_val_def)

theorem defaults_leave_only_files_witness:
  "Validate plainWorld (applyDefaults (Some (YDocument [YMapping []])) zeroConfig) = Some (Message ''llm.model is required'')"
proof -
  have "Validate plainWorld (applyDefaults (Some (YDocument [YMapping []])) zeroConfig) = firstError
    [validateRegularFile plainWorld ''llm.model'' (lmModel (cfLLM zeroConfig)), validateExecutable plainWorld ''llm.server_binary'' (lmServerBinary (cfLLM zeroConfig)),
     validateRegularFile plainWorld ''stt.encoder'' (stEncoder (cfSTT zeroConfig)), validateRegularFile plainWorld ''stt.decoder'' (stDecoder (cfSTT zeroConfig)),
     validateRegularFile plainWorld ''stt.tokens'' (stTokens (cfSTT zeroConfig)), validateRegularFile plainWorld ''tts.model'' (ttModel (cfTTS zeroConfig)),
     validateRegularFile plainWorld ''tts.tokens'' (ttTokens (cfTTS zeroConfig)), validateDirectory plainWorld ''tts.data_dir'' (ttDataDir (cfTTS zeroConfig))]"
    by (rule defaults_leave_only_files) (simp_all add: unset zeroConfig_def)
  then show ?thesis by (simp add: validateRegularFile_def zeroConfig_def)
qed

theorem timeouts_exact_in_bounds_witness:
  "StartupTimeout externalLLM = 60000000000 \<and> StartupTimeout (externalLLM\<lparr>lmStartupTimeoutMS := 9223372036855\<rparr>) < 0"
  using timeouts_exact_in_bounds [OF externalLLM_valid]
  by (simp add: externalLLM_def applyDefaults_def defaultLLM_def unset)

theorem nan_temperature_accepted_witness:
  "validateLLM plainWorld (externalLLM\<lparr>lmTemperature := NaN, lmTopP := NaN\<rparr>) = None"
  by (rule nan_temperature_accepted [OF externalLLM_valid])

end
