(* ===== verification/Startup.thy ===== *)
theory Startup
  imports Config Conversation Wake Inference
begin

text \<open>
  How the program is put together from a configuration: the client, the registry of tools, the built-in agent, the two inference
  planes and the main function, with the parts that are opened and closed.
\<close>

section \<open>Starting the assistant (\<^verbatim>\<open>cmd/assistant\<close>)\<close>

text \<open>
  What the program builds from its configuration and in which order: the client of the model server, the registry of tools over the
  sandbox, the agent over them, the two inference workers, the audio chain, and how all of it is closed again.
  What a component's constructor answers is the model of that component where there is one, and otherwise the environment's.
\<close>

subsection \<open>The client of the model server (\<^verbatim>\<open>internal/llm/llama.go\<close>)\<close>

record clientConfig =
  ccBaseURL :: string
  ccTemperature :: float64
  ccTopP :: float64
  ccMaxTokens :: int

record llmClient =
  clBase :: url
  clTemperature :: float64
  clTopP :: float64
  clMaxTokens :: int

definition parseBaseURL :: "(string \<Rightarrow> go_error + url) \<Rightarrow> string \<Rightarrow> go_error + url" where
  "parseBaseURL parse raw0 =
     (let raw = trim_space raw0 in
      if raw = [] then Inl (Message ''URL is required'')
      else
      (case parse raw of
         Inl e \<Rightarrow> Inl (Wrapped ''parse URL'' e)
       | Inr u \<Rightarrow>
           if urlScheme u \<noteq> ''http'' \<and> urlScheme u \<noteq> ''https'' then Inl (Message ''scheme must be http or https'')
           else if urlHost u = [] then Inl (Message ''host is required'')
           else if urlUser u then Inl (Message ''userinfo is not allowed'')
           else if urlQuery u \<noteq> [] \<or> urlFragment u \<noteq> [] then Inl (Message ''query and fragment are not allowed'')
           else if urlPath u \<noteq> [] \<and> urlPath u \<noteq> ''/'' then Inl (Message ''base URL path must be empty'')
           else Inr (u\<lparr>urlPath := []\<rparr>)))"

definition NewClient :: "(string \<Rightarrow> go_error + url) \<Rightarrow> clientConfig \<Rightarrow> go_error + llmClient" where
  "NewClient parse cfg =
     (case parseBaseURL parse (ccBaseURL cfg) of
        Inl e \<Rightarrow> Inl (Wrapped ''llm client base URL'' e)
      | Inr base \<Rightarrow>
          if float_less (ccTemperature cfg) (Finite 0) \<or> float_less (Finite 2) (ccTemperature cfg)
          then Inl (Message ''llm client temperature must be between 0 and 2'')
          else if float_le (ccTopP cfg) (Finite 0) \<or> float_less (Finite 1) (ccTopP cfg)
          then Inl (Message ''llm client top_p must be greater than 0 and at most 1'')
          else if ccMaxTokens cfg \<le> 0 then Inl (Message ''llm client max_tokens must be greater than zero'')
          else Inr \<lparr>clBase = base, clTemperature = ccTemperature cfg, clTopP = ccTopP cfg, clMaxTokens = ccMaxTokens cfg\<rparr>)"

definition chatEndpoint :: "llmClient \<Rightarrow> url" where
  "chatEndpoint c = (clBase c)\<lparr>urlPath := ''/v1/chat/completions''\<rparr>"

subsection \<open>The registry of tools\<close>

text \<open>
  The state of the tools is the file tree and the rest of the world; the environment of a filesystem tool and the web tools
  are functions of the rest, which every call moves on.
\<close>

record 'w toolNeeds =
  tnRead :: "'w \<Rightarrow> readArgs toolEnv"
  tnWrite :: "'w \<Rightarrow> writeArgs toolEnv"
  tnList :: "'w \<Rightarrow> listArgs toolEnv"
  tnDelete :: "'w \<Rightarrow> deleteArgs toolEnv"
  tnStat :: "'w \<Rightarrow> pathArgs toolEnv"
  tnMkdir :: "'w \<Rightarrow> pathArgs toolEnv"
  tnSearch :: "webSearchConfig \<Rightarrow> string \<Rightarrow> 'w \<Rightarrow> toolResult \<times> 'w"
  tnFetch :: "string \<Rightarrow> 'w \<Rightarrow> toolResult \<times> 'w"
  tnNext :: "'w \<Rightarrow> 'w"
  tnDescription :: "string \<Rightarrow> string"

datatype startupError =
    StartMessage string
  | StartServer lifecycleError
  | StartClient go_error
  | StartMemory memoryError
  | StartSandbox filesystemError
  | StartRegister register_error
  | StartAgent runtimeError

definition fileTool :: "'w toolNeeds \<Rightarrow> string \<Rightarrow> ('w \<Rightarrow> string \<Rightarrow> node \<Rightarrow> toolResult \<times> node) \<Rightarrow> (node \<times> 'w) tool" where
  "fileTool needs name f =
     \<lparr>toolName = name, toolDescription = tnDescription needs name,
      toolExecute = (\<lambda>raw (t, w). let (r, t') = f w raw t in (r, (t', tnNext needs w)))\<rparr>"

definition webTool :: "'w toolNeeds \<Rightarrow> string \<Rightarrow> (string \<Rightarrow> 'w \<Rightarrow> toolResult \<times> 'w) \<Rightarrow> (node \<times> 'w) tool" where
  "webTool needs name f =
     \<lparr>toolName = name, toolDescription = tnDescription needs name,
      toolExecute = (\<lambda>raw (t, w). let (r, w') = f raw w in (r, (t, w')))\<rparr>"

text \<open>The tools in the order they are registered, over the sandbox or none.\<close>

definition candidates :: "world \<Rightarrow> 'w toolNeeds \<Rightarrow> sandbox option \<Rightarrow> webSearchConfig \<Rightarrow> (node \<times> 'w) tool list" where
  "candidates w needs sb search =
     (let cfg = \<lparr>tlRoot = [], tlMax = 0, tlSandbox = sb, tlCwd = Inr (wCwd w)\<rparr> in
      [fileTool needs ''fs_read'' (\<lambda>x. FSRead (tnRead needs x) cfg),
       fileTool needs ''fs_write'' (\<lambda>x. FSWrite (tnWrite needs x) cfg),
       fileTool needs ''fs_list'' (\<lambda>x. FSList (tnList needs x) cfg),
       fileTool needs ''fs_delete'' (\<lambda>x. FSDelete (tnDelete needs x) cfg),
       fileTool needs ''fs_stat'' (\<lambda>x. FSStat (tnStat needs x) cfg),
       fileTool needs ''fs_mkdir'' (\<lambda>x. FSMkdir (tnMkdir needs x) cfg),
       webTool needs ''web_search'' (tnSearch needs search),
       webTool needs ''web_fetch'' (tnFetch needs)])"

definition registryPolicy :: "filesystemConfig \<Rightarrow> toolPolicy" where
  "registryPolicy f =
     (if \<not> fcEnabled f then DefaultToolPolicy
      else (let p = WithAllowed DefaultToolPolicy [''fs_read'', ''fs_list'', ''fs_stat''] in
            if fcAllowMutations f then WithAllowed p [''fs_write'', ''fs_delete'', ''fs_mkdir''] else p))"

definition buildRegistry :: "world \<Rightarrow> 'w toolNeeds \<Rightarrow> config \<Rightarrow> startupError + (node \<times> 'w) registry" where
  "buildRegistry w needs c =
     (let f = cfFilesystem c;
          build = (\<lambda>sb. case registerAll (candidates w needs sb (cfWebSearch c)) (NewRegistry (Some (registryPolicy f))) of
                          Inl e \<Rightarrow> Inl (StartRegister e)
                        | Inr r \<Rightarrow> Inr r) in
      if \<not> fcEnabled f then build None
      else (case NewFilesystemSandbox (wFaults w) (wTree w) (Inr (wCwd w)) (fcRoot f) (fcMaxReadBytes f) (fcMaxWriteBytes f) of
              Inl e \<Rightarrow> Inl (StartSandbox e)
            | Inr sb \<Rightarrow> build (Some sb)))"

subsection \<open>The agent of the assistant\<close>

text \<open>The components that are opened and closed while the program starts and stops.\<close>

datatype part = SttWorker | TtsWorker | SttEngine | TtsEngine | ModelServer | AcpAgent | VadDetector | Recorder | Player

datatype startEvent = Opened part | Closed part

record flags =
  flNoTools :: bool
  flWakeEnabled :: bool
  flWakeWord :: string
  flWakeAliases :: string
  flBargeEnabled :: bool
  flMaxToolRounds :: int
  flMaxHistoryBytes :: int
  flMaxSummaryBytes :: int

text \<open>
  What the agent needs beside the configuration: the JSON text of a string, the context of the summarizer, what the model server answers,
  the observer and the clock; and the answers of starting the server and of waiting for it.
\<close>

record 'w agentNeeds =
  anTools :: "'w toolNeeds"
  anRaw :: "string \<Rightarrow> string option"
  anSummary :: "nat \<Rightarrow> go_error option"
  anModel :: "llmClient \<Rightarrow> (node \<times> 'w) generator"
  anObserver :: "roundTrace \<Rightarrow> node \<times> 'w \<Rightarrow> node \<times> 'w"
  anOutside :: "(node \<times> 'w) outside"
  anQuote :: "string \<Rightarrow> string"
  anTick :: "node \<times> 'w \<Rightarrow> node \<times> 'w"
  anStart :: "lifecycleError option"
  anReady :: "lifecycleError option"

record 'w legacyRuntime =
  lrServer :: server
  lrClient :: llmClient
  lrMemory :: manager
  lrRegistry :: "(node \<times> 'w) registry option"
  lrSession :: "(ctx_point \<Rightarrow> go_error option, manager, node \<times> 'w) session"

definition llamaServerArgs :: "llmConfig \<Rightarrow> string list" where
  "llamaServerArgs l =
     [''--model'', lmModel l, ''--host'', lmHost l, ''--port'', showInt (lmPort l), ''--ctx-size'', showInt (lmContextSize l),
      ''--n-gpu-layers'', showInt (lmNGPULayers l), ''--threads'', showInt (lmThreads l), ''--log-disable'']"

definition serverConfigOf :: "llmConfig \<Rightarrow> serverConfig" where
  "serverConfigOf l =
     \<lparr>scMode = lmMode l, scBinary = lmServerBinary l, scArgs = llamaServerArgs l, scHealthURL = BaseURL l @ ''/health'',
      scStartupTimeout = StartupTimeout l, scShutdownTimeout = ShutdownTimeout l, scHealthInterval = HealthInterval l\<rparr>"

text \<open>The parts that come after the server is ready; a failure of one of them stops the server.\<close>

definition assembleAgent :: "world \<Rightarrow> 'w agentNeeds \<Rightarrow> flags \<Rightarrow> config \<Rightarrow> server \<Rightarrow> startupError + 'w legacyRuntime" where
  "assembleAgent w needs fl c server =
     (let l = cfLLM c in
      case NewClient (wParse w) \<lparr>ccBaseURL = BaseURL l, ccTemperature = lmTemperature l, ccTopP = lmTopP l, ccMaxTokens = lmMaxTokens l\<rparr> of
        Inl e \<Rightarrow> Inl (StartClient e)
      | Inr cl \<Rightarrow>
        (case MemoryNew (anRaw needs) (flMaxHistoryBytes fl) (flMaxSummaryBytes fl) (lmSystemPrompt l) (Some (extractiveSummarize (anSummary needs))) of
           Inl e \<Rightarrow> Inl (StartMemory e)
         | Inr m \<Rightarrow>
           (case (if flNoTools fl then Inr None
                  else case buildRegistry w (anTools needs) c of Inl e \<Rightarrow> Inl e | Inr r \<Rightarrow> Inr (Some r)) of
              Inl e \<Rightarrow> Inl e
            | Inr reg \<Rightarrow>
              (case NewAgentRuntime (flMaxToolRounds fl) (Some (anModel needs cl)) reg (if reg = None then None else Some reg)
                      (Some (anObserver needs)) (anOutside needs) (anQuote needs) (anTick needs) of
                 Inl e \<Rightarrow> Inl (StartAgent e)
               | Inr agent \<Rightarrow>
                   Inr \<lparr>lrServer = server, lrClient = cl, lrMemory = m, lrRegistry = reg, lrSession = agentSession (anRaw needs) agent\<rparr>))))"

definition newLegacyAgentRuntime ::
  "world \<Rightarrow> 'w agentNeeds \<Rightarrow> flags \<Rightarrow> config \<Rightarrow> (startupError + 'w legacyRuntime) \<times> startEvent list"
where
  "newLegacyAgentRuntime w needs fl c =
     (if flMaxToolRounds fl \<le> 0 then (Inl (StartMessage ''max-tool-rounds must be greater than zero''), [])
      else if flMaxHistoryBytes fl \<le> 0 then (Inl (StartMessage ''max-history-bytes must be greater than zero''), [])
      else if flMaxSummaryBytes fl \<le> 0 then (Inl (StartMessage ''max-summary-bytes must be greater than zero''), [])
      else if flMaxHistoryBytes fl \<le> flMaxSummaryBytes fl
      then (Inl (StartMessage ''max-summary-bytes must be less than max-history-bytes''), [])
      else
      (case NewServerManager (wParse w) (serverConfigOf (cfLLM c)) of
         Inl e \<Rightarrow> (Inl (StartServer e), [])
       | Inr server \<Rightarrow>
         (case anStart needs of
            Some e \<Rightarrow> (Inl (StartServer e), [])
          | None \<Rightarrow>
            (case anReady needs of
               Some e \<Rightarrow> (Inl (StartServer e), [Opened ModelServer, Closed ModelServer])
             | None \<Rightarrow>
               (case assembleAgent w needs fl c server of
                  Inl e \<Rightarrow> (Inl e, [Opened ModelServer, Closed ModelServer])
                | Inr r \<Rightarrow> (Inr r, [Opened ModelServer]))))))"

subsection \<open>The voice plane\<close>

text \<open>The calls the program makes of components that are opened, or made, from the outside; the environment answers each.\<close>

datatype startCall =
    StartSttWorker workerConfig | SttHealth | StartTtsWorker workerConfig | TtsHealth | NewStt | NewTts | StartAcp | AcpResponder | NewVad | NewRecorder
  | NewBridge | NewResponsePlayback | NewCoordinator | NewBargeIn | RunCoordinator

type_synonym answers = "startCall \<Rightarrow> go_error option"

text \<open>A runtime that was made: the parts it has, in the order they were opened; closing it closes them in the other order.\<close>

definition closing :: "part list \<Rightarrow> startEvent list" where
  "closing parts = map Closed (rev parts)"

definition voicePython :: "string \<Rightarrow> string \<Rightarrow> string" where
  "voicePython fallback specific = (if trim_space specific \<noteq> [] then trim_space specific else trim_space fallback)"

definition sttWorkerConfig :: "voiceConfig \<Rightarrow> workerConfig" where
  "sttWorkerConfig v =
     \<lparr>wcPython = voicePython (vcPython v) (viPython (vcSTT v)), wcScript = vcScript v, wcMode = ''stt'', wcModelDir = viModelDir (vcSTT v),
      wcVoiceFile = [], wcLanguage = viLanguage (vcSTT v), wcDevice = viDevice (vcSTT v), wcFallback = viFallbackDevice (vcSTT v),
      wcCacheDir = viCacheDir (vcSTT v), wcEnv = [], wcShutdown = 2000000000\<rparr>"

definition ttsWorkerConfig :: "voiceConfig \<Rightarrow> workerConfig" where
  "ttsWorkerConfig v =
     \<lparr>wcPython = voicePython (vcPython v) (viPython (vcTTS v)), wcScript = vcScript v, wcMode = ''tts'', wcModelDir = viModelDir (vcTTS v),
      wcVoiceFile = viVoiceFile (vcTTS v), wcLanguage = viLanguage (vcTTS v), wcDevice = viDevice (vcTTS v),
      wcFallback = viFallbackDevice (vcTTS v), wcCacheDir = viCacheDir (vcTTS v), wcEnv = [], wcShutdown = 2000000000\<rparr>"

definition newVoiceGatewayInference :: "answers \<Rightarrow> voiceConfig \<Rightarrow> (go_error + part list) \<times> startEvent list" where
  "newVoiceGatewayInference ans v =
     (case ans (StartSttWorker (sttWorkerConfig v)) of
        Some e \<Rightarrow> (Inl (Wrapped ''OpenVINO STT worker'' e), [])
      | None \<Rightarrow>
        (case ans SttHealth of
           Some e \<Rightarrow> (Inl (Wrapped ''OpenVINO STT health'' e), [Opened SttWorker, Closed SttWorker])
         | None \<Rightarrow>
           (case ans (StartTtsWorker (ttsWorkerConfig v)) of
              Some e \<Rightarrow> (Inl (Wrapped ''Kokoro TTS worker'' e), [Opened SttWorker, Closed SttWorker])
            | None \<Rightarrow>
              (case ans TtsHealth of
                 Some e \<Rightarrow> (Inl (Wrapped ''Kokoro TTS health'' e), [Opened SttWorker, Opened TtsWorker, Closed TtsWorker, Closed SttWorker])
               | None \<Rightarrow> (Inr [SttWorker, TtsWorker], [Opened SttWorker, Opened TtsWorker])))))"

definition newLegacyVoiceInference :: "answers \<Rightarrow> (go_error + part list) \<times> startEvent list" where
  "newLegacyVoiceInference ans =
     (case ans NewStt of
        Some e \<Rightarrow> (Inl (Wrapped ''stt'' e), [])
      | None \<Rightarrow>
        (case ans NewTts of
           Some e \<Rightarrow> (Inl (Wrapped ''tts'' e), [Opened SttEngine, Closed SttEngine])
         | None \<Rightarrow> (Inr [SttEngine, TtsEngine], [Opened SttEngine, Opened TtsEngine])))"

definition newVoiceInferenceRuntime :: "answers \<Rightarrow> voiceConfig \<Rightarrow> string \<Rightarrow> (go_error + part list) \<times> startEvent list" where
  "newVoiceInferenceRuntime ans v mode =
     (if mode = ''voice_gateway'' then newVoiceGatewayInference ans v
      else if mode = ''legacy_native'' \<or> mode = [] then newLegacyVoiceInference ans
      else (Inl (Message ''unsupported agent mode''), []))"

subsection \<open>The response plane\<close>

definition newVoiceGatewayRuntime :: "answers \<Rightarrow> (go_error + part list) \<times> startEvent list" where
  "newVoiceGatewayRuntime ans =
     (case ans StartAcp of
        Some e \<Rightarrow> (Inl (Wrapped ''ACP runtime'' e), [])
      | None \<Rightarrow>
        (case ans AcpResponder of
           Some e \<Rightarrow> (Inl (Wrapped ''ACP responder'' e), [Opened AcpAgent, Closed AcpAgent])
         | None \<Rightarrow> (Inr [AcpAgent], [Opened AcpAgent])))"

text \<open>An error of the legacy agent, as the error it is wrapped in.\<close>

definition newResponseRuntime ::
  "answers \<Rightarrow> world \<Rightarrow> 'w agentNeeds \<Rightarrow> flags \<Rightarrow> config \<Rightarrow> (startupError \<Rightarrow> go_error) \<Rightarrow> (go_error + part list) \<times> startEvent list"
where
  "newResponseRuntime ans w needs fl c show' =
     (if agMode (cfAgent c) = ''voice_gateway'' then newVoiceGatewayRuntime ans
      else if agMode (cfAgent c) = ''legacy_native'' \<or> agMode (cfAgent c) = []
      then (case newLegacyAgentRuntime w needs fl c of
              (Inl e, es) \<Rightarrow> (Inl (show' e), es)
            | (Inr r, es) \<Rightarrow> (Inr [ModelServer], es))
      else (Inl (Message ''unsupported agent mode''), []))"

subsection \<open>The program\<close>

fun splitComma :: "string \<Rightarrow> string list" where
  "splitComma [] = [[]]"
| "splitComma (c # cs) =
     (if c = CHR '','' then [] # splitComma cs
      else case splitComma cs of [] \<Rightarrow> [[c]] | p # ps \<Rightarrow> (c # p) # ps)"

definition splitWakeAliases :: "string \<Rightarrow> string list" where
  "splitWakeAliases value =
     (if trim_space value = [] then [] else filter (\<lambda>a. a \<noteq> []) (map trim_space (splitComma value)))"

text \<open>From the recorder on: what is open before it is closed by the deferred calls, in the other order.\<close>

definition runVoice :: "answers \<Rightarrow> unicode_db \<Rightarrow> flags \<Rightarrow> go_error option \<times> startEvent list" where
  "runVoice ans db fl =
     (case ans NewBridge of
        Some e \<Rightarrow> (Some (Wrapped ''transcript bridge'' e), [])
      | None \<Rightarrow>
        (case ans NewResponsePlayback of
           Some e \<Rightarrow> (Some (Wrapped ''response playback'' e), [])
         | None \<Rightarrow>
           (let r =
              (case ans NewCoordinator of
                 Some e \<Rightarrow> Some (Wrapped ''voice coordinator'' e)
               | None \<Rightarrow>
                 (case NewPhraseDetector db (flWakeWord fl) (splitWakeAliases (flWakeAliases fl)) of
                    Inl e \<Rightarrow> Some (Wrapped ''wake detector'' e)
                  | Inr d \<Rightarrow>
                    (case (if flBargeEnabled fl then ans NewBargeIn else None) of
                       Some e \<Rightarrow> Some (Wrapped ''barge-in controller'' e)
                     | None \<Rightarrow> ans RunCoordinator)))
            in (r, [Opened Player, Closed Player]))))"

text \<open>The recorder owns the detector: closing it closes the detector too.\<close>

definition runAudio :: "answers \<Rightarrow> unicode_db \<Rightarrow> flags \<Rightarrow> go_error option \<times> startEvent list" where
  "runAudio ans db fl =
     (case ans NewVad of
        Some e \<Rightarrow> (Some (Wrapped ''vad'' e), [])
      | None \<Rightarrow>
        (case ans NewRecorder of
           Some e \<Rightarrow> (Some (Wrapped ''continuous audio recorder'' e), [Opened VadDetector, Closed VadDetector])
         | None \<Rightarrow>
           (case runVoice ans db fl of
              (r, es) \<Rightarrow> (r, [Opened VadDetector, Opened Recorder] @ es @ [Closed Recorder, Closed VadDetector]))))"

definition run ::
  "loader \<Rightarrow> string \<Rightarrow> answers \<Rightarrow> world \<Rightarrow> 'w agentNeeds \<Rightarrow> flags \<Rightarrow> unicode_db \<Rightarrow> (startupError \<Rightarrow> go_error) \<Rightarrow>
     go_error option \<times> startEvent list"
where
  "run ld cfgPath ans w needs fl db show' =
     (case Load ld cfgPath of
        Inl e \<Rightarrow> (Some (Wrapped ''config'' e), [])
      | Inr c \<Rightarrow>
        (case Config.Validate w c of
           Some e \<Rightarrow> (Some (Wrapped ''config validation'' e), [])
         | None \<Rightarrow>
           (case SileroVADConfig w c of
              Inl e \<Rightarrow> (Some (Wrapped ''vad config'' e), [])
            | Inr vad \<Rightarrow>
              (case newVoiceInferenceRuntime ans (cfVoice c) (agMode (cfAgent c)) of
                 (Inl e, es) \<Rightarrow> (Some (Wrapped ''voice inference runtime'' e), es)
               | (Inr voice, es) \<Rightarrow>
                 (case newResponseRuntime ans w needs fl c show' of
                    (Inl e, es1) \<Rightarrow> (Some (Wrapped ''response runtime'' e), es @ es1 @ closing voice)
                  | (Inr response, es1) \<Rightarrow>
                    (case runAudio ans db fl of
                       (r, es2) \<Rightarrow> (r, es @ es1 @ es2 @ closing response @ closing voice)))))))"

subsection \<open>Everything that was opened is closed\<close>

text \<open>The parts that are open after the events, the last one first; \<open>None\<close> when one is closed that is not the last opened.\<close>

fun openParts :: "startEvent list \<Rightarrow> part list \<Rightarrow> part list option" where
  "openParts [] ps = Some ps"
| "openParts (Opened p # es) ps = openParts es (p # ps)"
| "openParts (Closed p # es) ps = (case ps of q # qs \<Rightarrow> if p = q then openParts es qs else None | [] \<Rightarrow> None)"

lemma openParts_append: "openParts (es @ fs) ps = (case openParts es ps of None \<Rightarrow> None | Some qs \<Rightarrow> openParts fs qs)"
  by (induction es ps rule: openParts.induct) (auto split: list.splits)

lemma openParts_closing: "openParts (closing parts) (rev parts @ ps) = Some ps"
proof -
  have "openParts (map Closed qs) (qs @ ps) = Some ps" for qs by (induction qs) simp_all
  then show ?thesis by (simp add: closing_def)
qed

text \<open>What a constructor of a runtime does to the parts: with an error nothing stays open, otherwise what it says.\<close>

definition accounts :: "(go_error + part list) \<times> startEvent list \<Rightarrow> bool" where
  "accounts r \<longleftrightarrow> (\<forall>ps. openParts (snd r) ps = Some ((case fst r of Inl e \<Rightarrow> [] | Inr parts \<Rightarrow> rev parts) @ ps))"

lemma voice_accounts: "accounts (newVoiceInferenceRuntime ans v mode)"
  by (simp add: accounts_def newVoiceInferenceRuntime_def newVoiceGatewayInference_def newLegacyVoiceInference_def split: option.split)

lemma legacy_accounts:
  "openParts (snd (newLegacyAgentRuntime w needs fl c)) ps =
     Some ((case fst (newLegacyAgentRuntime w needs fl c) of Inl e \<Rightarrow> [] | Inr r \<Rightarrow> [ModelServer]) @ ps)"
  by (simp add: newLegacyAgentRuntime_def split: option.split sum.split)

lemma response_accounts: "accounts (newResponseRuntime ans w needs fl c show')"
  using legacy_accounts [of w needs fl c]
  by (auto simp: accounts_def newResponseRuntime_def newVoiceGatewayRuntime_def split: option.split sum.split prod.split)

lemma audio_accounts: "openParts (snd (runAudio ans db fl)) ps = Some ps"
  by (simp add: runAudio_def runVoice_def Let_def split: option.split prod.split)

text \<open>
  C20. The program closes what it opened: whatever the configuration, wherever starting fails and however the session ends, every
  worker, server, device and detector that was opened is closed, once, and in the reverse order of opening.
\<close>

theorem run_closes_what_it_opened:
  "openParts (snd (run ld cfgPath ans w needs fl db show')) [] = Some []"
proof (cases "Load ld cfgPath")
  case (Inr c)
  obtain r1 es1 r2 es2 where
      v: "newVoiceInferenceRuntime ans (cfVoice c) (agMode (cfAgent c)) = (r1, es1)" and
      n: "newResponseRuntime ans w needs fl c show' = (r2, es2)" by fastforce
  have "openParts es1 ps = Some ((case r1 of Inl e \<Rightarrow> [] | Inr parts \<Rightarrow> rev parts) @ ps)"
    "openParts es2 ps = Some ((case r2 of Inl e \<Rightarrow> [] | Inr parts \<Rightarrow> rev parts) @ ps)" for ps
    using voice_accounts [of ans "cfVoice c" "agMode (cfAgent c)"] response_accounts [of ans w needs fl c show'] v n by (simp_all add: accounts_def)
  moreover have "openParts (closing parts) (rev parts) = Some []" for parts
    using openParts_closing [of parts "[]"] by simp
  ultimately show ?thesis
    using audio_accounts [of ans db fl] openParts_closing
    by (auto simp: run_def Inr v n openParts_append split: option.split sum.split prod.split)
qed (simp add: run_def)

subsection \<open>The registry follows the configuration\<close>

lemma registerAll_names:
  "registerAll ts r = Inr r' \<Longrightarrow> registryNames r' = registryNames r @ filter (Allows (regPolicy r)) (map toolName ts)"
proof (induction ts arbitrary: r)
  case (Cons t ts)
  obtain err r1 where r1: "Register (Some t) r = (err, r1)" by fastforce
  have p: "regPolicy r1 = regPolicy r" using Register_policy [of "Some t" r] r1 by simp
  have ok: "registerAll ts r1 = Inr r'" using Cons.prems r1 by (auto split: option.splits if_splits)
  have "registryNames r1 = registryNames r @ filter (Allows (regPolicy r)) [toolName t]"
    using Cons.prems r1 by (auto simp: Register_def Let_def registryNames_def IsToolDenied_def split: if_splits)
  with Cons.IH [OF ok] p show ?case by simp
qed (simp add: registryNames_def)

lemma runDetailed_keeps:
  assumes "\<forall>tool \<in> set (regTools r). \<forall>raw s. P s \<longrightarrow> P (snd (toolExecute tool raw s))" "P s"
  shows "P (snd (runDetailed x q (Some r) call s))"
  using assms getTool_Some [of r "callName call"]
  by (auto simp: runDetailed_def runCall_def split: option.split prod.split) (metis snd_conv)

lemma RunAllDetailed_keeps:
  assumes "\<forall>tool \<in> set (regTools r). \<forall>raw s. P s \<longrightarrow> P (snd (toolExecute tool raw s))"
  shows "P s \<Longrightarrow> P (snd (RunAllDetailed x q (Some r) calls s))"
proof (induction calls arbitrary: s)
  case (Cons c cs)
  show ?case
    using runDetailed_keeps [OF assms Cons.prems, of x q c] Cons
    by (auto split: prod.split) (metis snd_conv)
qed simp

lemma readers_keep_tree:
  "fst (snd (toolExecute (fileTool needs n (\<lambda>x. FSRead (f x) cfg)) input s)) = fst s"
  "fst (snd (toolExecute (fileTool needs n (\<lambda>x. FSStat (g x) cfg)) input s)) = fst s"
  "fst (snd (toolExecute (fileTool needs n (\<lambda>x. FSList (h x) cfg)) input s)) = fst s"
  "fst (snd (toolExecute (webTool needs n k) input s)) = fst s"
  using FSRead_same FSStat_same FSList_same by (auto simp: fileTool_def webTool_def case_prod_unfold Let_def)

lemma toolNames [simp]: "toolName (fileTool needs n f) = n" "toolName (webTool needs n g) = n"
  by (simp_all add: fileTool_def webTool_def)

lemma buildRegistry_Inr:
  assumes "buildRegistry w needs c = Inr r"
  obtains sb where "registerAll (candidates w needs sb (cfWebSearch c)) (NewRegistry (Some (registryPolicy (cfFilesystem c)))) = Inr r"
  using assms by (auto simp: buildRegistry_def Let_def split: if_splits sum.splits)

definition configuredNames :: "filesystemConfig \<Rightarrow> string list" where
  "configuredNames f =
     (if \<not> fcEnabled f then []
      else if fcAllowMutations f then [''fs_read'', ''fs_write'', ''fs_list'', ''fs_delete'', ''fs_stat'', ''fs_mkdir'']
      else [''fs_read'', ''fs_list'', ''fs_stat'']) @ [''web_search'', ''web_fetch'']"

lemma registry_names_configured:
  assumes "buildRegistry w needs c = Inr r"
  shows "registryNames r = configuredNames (cfFilesystem c)"
proof -
  obtain sb where reg: "registerAll (candidates w needs sb (cfWebSearch c)) (NewRegistry (Some (registryPolicy (cfFilesystem c)))) = Inr r"
    using assms by (rule buildRegistry_Inr)
  show ?thesis
    using registerAll_names [OF reg]
    by (simp add: NewRegistry_def registryNames_def candidates_def registryPolicy_def configuredNames_def Allows_def WithAllowed_def
        DefaultToolPolicy_def NewToolPolicy_def defaultAllowedTools_def Let_def)
qed

text \<open>
  C19. The tools of the model are those the configuration allows: the registry that is built holds the reading tools only
  when the filesystem is enabled, the writing ones only when mutations are allowed as well, and the web tools always; and
  when mutations are not allowed, whatever calls the model makes, executing them leaves the whole file tree as it was.
\<close>

theorem registry_follows_config:
  assumes "buildRegistry w needs c = Inr r"
  shows "registryNames r = configuredNames (cfFilesystem c) \<and>
    (fcAllowMutations (cfFilesystem c) \<and> fcEnabled (cfFilesystem c) \<or>
     fst (snd (RunAllDetailed x q (Some r) calls (t, u))) = t)"
proof -
  obtain sb where reg: "registerAll (candidates w needs sb (cfWebSearch c)) (NewRegistry (Some (registryPolicy (cfFilesystem c)))) = Inr r"
    using assms by (rule buildRegistry_Inr)
  have names: "registryNames r = configuredNames (cfFilesystem c)"
    using assms by (rule registry_names_configured)
  have "fcAllowMutations (cfFilesystem c) \<and> fcEnabled (cfFilesystem c) \<or> fst (snd (RunAllDetailed x q (Some r) calls (t, u))) = t"
  proof (cases "fcAllowMutations (cfFilesystem c) \<and> fcEnabled (cfFilesystem c)")
    case False
    have "toolName tool \<in> set (configuredNames (cfFilesystem c))" if "tool \<in> set (regTools r)" for tool
      using that names [symmetric] by (simp add: registryNames_def)
    moreover have "set (regTools r) \<subseteq> set (candidates w needs sb (cfWebSearch c))"
      using registerAll_tools [OF reg] by (simp add: NewRegistry_def)
    ultimately have "\<forall>tool \<in> set (regTools r). \<forall>raw s. fst s = t \<longrightarrow> fst (snd (toolExecute tool raw s)) = t"
      using False by (fastforce simp: candidates_def configuredNames_def readers_keep_tree Let_def split: if_splits)
    from RunAllDetailed_keeps [OF this, of "(t, u)"] show ?thesis by simp
  qed simp
  with names show ?thesis by blast
qed

subsection \<open>A validated configuration starts\<close>

lemma validated_sandbox:
  assumes "validateFilesystem w f = None" "fcEnabled f"
  shows "\<exists>sb. NewFilesystemSandbox (wFaults w) (wTree w) (Inr (wCwd w)) (fcRoot f) (fcMaxReadBytes f) (fcMaxWriteBytes f) = Inr sb \<and>
    maxReadBytes sb = fcMaxReadBytes f \<and> maxWriteBytes sb = fcMaxWriteBytes f"
  using assms
  by (auto simp: validateFilesystem_def NewFilesystemSandbox_def Abs_def require_def split: if_splits sum.splits)

lemma registerAll_distinct:
  "distinct (map toolName ts @ registryNames r) \<Longrightarrow> \<exists>r'. registerAll ts r = Inr r'"
proof (induction ts arbitrary: r)
  case (Cons t ts)
  obtain err r1 where r1: "Register (Some t) r = (err, r1)" by fastforce
  have d: "toolName t \<notin> set (registryNames r)" "toolName t \<notin> set (map toolName ts)" "distinct (map toolName ts)"
      "distinct (registryNames r)" "set (map toolName ts) \<inter> set (registryNames r) = {}"
    using Cons.prems by simp_all
  have "getTool r (toolName t) = None"
    using d(1) unfolding getTool_def find_None_iff registryNames_def set_map by (metis imageI)
  then have "(err = None \<and> registryNames r1 = registryNames r @ [toolName t]) \<or>
      (\<exists>e. err = Some e \<and> IsToolDenied e) \<and> registryNames r1 = registryNames r"
    using r1 by (auto simp: Register_def Let_def IsToolDenied_def registryNames_def split: if_splits)
  moreover from this d have "distinct (map toolName ts @ registryNames r1)" by (auto simp del: set_map)
  ultimately show ?case using Cons.IH [of r1] r1 by auto
qed simp

lemma candidates_register:
  "\<exists>r. registerAll (candidates w needs sb s) (NewRegistry (Some (registryPolicy f))) = Inr r"
  by (rule registerAll_distinct) (simp add: candidates_def Let_def NewRegistry_def registryNames_def)

lemma validated_registry:
  assumes "validateFilesystem w (cfFilesystem c) = None"
  shows "\<exists>r. buildRegistry w needs c = Inr r"
proof -
  have build: "\<exists>r. (case registerAll (candidates w needs sb (cfWebSearch c)) (NewRegistry (Some (registryPolicy (cfFilesystem c)))) of
      Inl e \<Rightarrow> Inl (StartRegister e) | Inr r \<Rightarrow> Inr r) = Inr r" for sb
    using candidates_register [of w needs sb "cfWebSearch c" "cfFilesystem c"] by auto
  show ?thesis
    using validated_sandbox [OF assms] build by (auto simp: buildRegistry_def Let_def split: sum.split)
qed

lemma decimal_last: "decimal n \<noteq> [] \<and> last (decimal n) = char_of (48 + n mod 10)"
  by (subst decimal.simps) (simp add: decimal.simps [of n])

lemma BaseURL_plain:
  assumes "0 \<le> lmPort l"
  shows "trim_space (BaseURL l) = BaseURL l" "trim_space (BaseURL l @ ''/health'') = BaseURL l @ ''/health''" "BaseURL l \<noteq> []"
proof -
  have l: "last (showInt (lmPort l)) = char_of (48 + nat (lmPort l) mod 10)" "showInt (lmPort l) \<noteq> []"
    using assms decimal_last [of "nat (lmPort l)"] by (simp_all add: showInt_def)
  have "byte_val (char_of (48 + k mod 10)) = 48 + k mod 10" for k :: nat
    by (simp add: byte_val_def)
  then show "trim_space (BaseURL l) = BaseURL l"
    using l by (intro trim_space_plain) (simp_all add: BaseURL_def byte_val_def last_append)
  show "trim_space (BaseURL l @ ''/health'') = BaseURL l @ ''/health''" "BaseURL l \<noteq> []"
    by (simp_all add: BaseURL_def trim_space_plain byte_val_def)
qed

lemma validate_native:
  assumes "Config.Validate w c = None" "agMode (cfAgent c) = ''legacy_native''"
  shows "validateLLM w (cfLLM c) = None" "validateFilesystem w (cfFilesystem c) = None"
proof -
  have "validateAgent w (cfAgent c) = Inr ''legacy_native''"
    using assms(2) by (simp add: validateAgent_def trim_space_plain byte_val_def Let_def)
  with assms(1) show "validateLLM w (cfLLM c) = None" "validateFilesystem w (cfFilesystem c) = None"
    by (simp_all add: Config.Validate_def firstError_None split: option.splits)
qed

lemma validated_server:
  assumes "validateLLM w l = None"
    and "lmStartupTimeoutMS l \<le> 9223372036854" "lmShutdownTimeoutMS l \<le> 9223372036854" "lmHealthIntervalMS l \<le> 9223372036854"
    and "validateHealthURL (wParse w) (BaseURL l @ ''/health'') = None"
  shows "NewServerManager (wParse w) (serverConfigOf l) = Inr (newServer (serverConfigOf l))"
proof -
  have "trim_space (lmServerBinary l) \<noteq> []" if "lmMode l = ''managed''"
    using assms(1) that by (auto simp: validateLLM_None validateExecutable_def split: if_splits)
  then show ?thesis
    using assms
    by (auto simp: NewServerManager_def serverConfigOf_def Let_def validateLLM_None StartupTimeout_def ShutdownTimeout_def
        HealthInterval_def milliseconds_exact)
qed


text \<open>
  The voice plane: the interpreter that was validated is the one that is started, and the workers accept a validated
  configuration, with the devices it names.
\<close>

lemma validated_workers:
  assumes "validateVoiceGateway w v = None"
  shows "validateExecutable w ''voice.stt.python'' (wcPython (sttWorkerConfig v)) = None"
    and "validateExecutable w ''voice.tts.python'' (wcPython (ttsWorkerConfig v)) = None"
    and "\<exists>cfg. workerConfig_ok (sttWorkerConfig v) = Inr cfg \<and> wcDevice cfg = trim_space (viDevice (vcSTT v)) \<and>
      wcFallback cfg = trim_space (viFallbackDevice (vcSTT v)) \<and> wcPython cfg = wcPython (sttWorkerConfig v)"
    and "\<exists>cfg. workerConfig_ok (ttsWorkerConfig v) = Inr cfg \<and> wcDevice cfg = trim_space (viDevice (vcTTS v)) \<and>
      wcFallback cfg = trim_space (viFallbackDevice (vcTTS v)) \<and> wcPython cfg = wcPython (ttsWorkerConfig v)"
proof -
  have mode: "trim_space ''stt'' = ''stt''" "trim_space ''tts'' = ''tts''" by (simp_all add: trim_space_plain byte_val_def)
  have v: "validateRegularFile w ''voice.worker.script'' (vcScript v) = None" "validateVoiceInference w ''voice.stt'' (vcPython v) (vcSTT v) False = None"
      "validateVoiceInference w ''voice.tts'' (vcPython v) (vcTTS v) True = None"
    using assms by (simp_all add: validateVoiceGateway_def firstError_None)
  have script: "trim_space (vcScript v) \<noteq> []" using v(1) by (auto simp: validateRegularFile_def split: if_splits)
  have py: "voicePython p q = (if trim_space q = [] then trim_space p else trim_space q)" "trim_space (voicePython p q) = voicePython p q" for p q
    by (simp_all add: voicePython_def)
  have i: "validateExecutable w (n @ ''.python'') (voicePython (vcPython v) (viPython i)) = None \<and> voicePython (vcPython v) (viPython i) \<noteq> [] \<and>
      trim_space (viDevice i) \<noteq> [] \<and> trim_space (viFallbackDevice i) \<noteq> []"
    if "validateVoiceInference w n (vcPython v) i b = None" for n i b
  proof -
    have "validateExecutable w (n @ ''.python'') (voicePython (vcPython v) (viPython i)) = None" "trim_space (viDevice i) \<noteq> []"
        "trim_space (viFallbackDevice i) \<noteq> []"
      using that by (simp_all add: validateVoiceInference_def Let_def firstError_None py(1))
    moreover from this(1) have "voicePython (vcPython v) (viPython i) \<noteq> []" by (auto simp: validateExecutable_def)
    ultimately show ?thesis by blast
  qed
  show "validateExecutable w ''voice.stt.python'' (wcPython (sttWorkerConfig v)) = None"
      "validateExecutable w ''voice.tts.python'' (wcPython (ttsWorkerConfig v)) = None"
    using i [OF v(2)] i [OF v(3)] by (simp_all add: sttWorkerConfig_def ttsWorkerConfig_def)
  show "\<exists>cfg. workerConfig_ok (sttWorkerConfig v) = Inr cfg \<and> wcDevice cfg = trim_space (viDevice (vcSTT v)) \<and>
      wcFallback cfg = trim_space (viFallbackDevice (vcSTT v)) \<and> wcPython cfg = wcPython (sttWorkerConfig v)"
    using i [OF v(2)] script by (simp add: workerConfig_ok_def sttWorkerConfig_def Let_def py(2) mode)
  show "\<exists>cfg. workerConfig_ok (ttsWorkerConfig v) = Inr cfg \<and> wcDevice cfg = trim_space (viDevice (vcTTS v)) \<and>
      wcFallback cfg = trim_space (viFallbackDevice (vcTTS v)) \<and> wcPython cfg = wcPython (ttsWorkerConfig v)"
    using i [OF v(3)] script by (simp add: workerConfig_ok_def ttsWorkerConfig_def Let_def py(2) mode)
qed

text \<open>
  A mode with spaces around it is validated and then refused: validation trims the mode, the two runtimes compare it as it is
  written.
\<close>

theorem padded_mode_refused:
  assumes "validateAgent w (cfAgent c) = Inr mode" "agMode (cfAgent c) \<noteq> mode" "agMode (cfAgent c) \<noteq> []"
    and "agMode (cfAgent c) \<notin> {''legacy_native'', ''voice_gateway''}"
  shows "mode \<in> {''legacy_native'', ''voice_gateway''} \<and>
    newVoiceInferenceRuntime ans (cfVoice c) (agMode (cfAgent c)) = (Inl (Message ''unsupported agent mode''), []) \<and>
    newResponseRuntime ans w needs fl c show' = (Inl (Message ''unsupported agent mode''), [])"
  using assms by (auto simp: validateAgent_def newVoiceInferenceRuntime_def newResponseRuntime_def Let_def split: if_splits option.splits)

subsection \<open>An instance\<close>

definition plainServerURL :: url where
  "plainServerURL = \<lparr>urlScheme = ''http'', urlOpaque = [], urlHost = ''h:1'', urlHostname = ''h'', urlPort = ''1'', urlPath = [], urlQuery = [],
     urlFragment = [], urlUser = False\<rparr>"

definition startWorld :: world where
  "startWorld = plainWorld\<lparr>wParse := (\<lambda>_. Inr plainServerURL)\<rparr>"

text \<open>An external server, all model files the same one, and the filesystem tools on \<^verbatim>\<open>/work\<close> without mutations.\<close>

definition startConfig :: config where
  "startConfig = (applyDefaults (Some (YDocument [YMapping []])) zeroConfig)
     \<lparr>cfLLM := externalLLM\<lparr>lmSystemPrompt := ''p''\<rparr>,
      cfSTT := \<lparr>stEncoder = ''/m'', stDecoder = ''/m'', stTokens = ''/m'', stLanguage = ''auto'', stTranslate = False\<rparr>,
      cfTTS := \<lparr>ttModel = ''/m'', ttTokens = ''/m'', ttDataDir = ''/work'', ttSpeakerID = 0, ttLengthScale = Finite 1, ttNoiseScale = Finite 1,
        ttNoiseW = Finite 1\<rparr>,
      cfFilesystem := \<lparr>fcEnabled = True, fcRoot = ''/work'', fcAllowMutations = False, fcMaxReadBytes = 8, fcMaxWriteBytes = 8\<rparr>\<rparr>"

definition startFlags :: flags where
  "startFlags = \<lparr>flNoTools = False, flWakeEnabled = True, flWakeWord = ''x'', flWakeAliases = [], flBargeEnabled = True, flMaxToolRounds = 4,
     flMaxHistoryBytes = 170, flMaxSummaryBytes = 12\<rparr>"

definition startTools :: "unit toolNeeds" where
  "startTools = \<lparr>tnRead = (\<lambda>_. demoEnv \<lparr>raPath = [], raMaxBytes = 0\<rparr>), tnWrite = (\<lambda>_. demoWrite),
     tnList = (\<lambda>_. demoEnv \<lparr>laPath = [], laRecursive = False, laMaxItems = 0\<rparr>), tnDelete = (\<lambda>_. demoEnv \<lparr>daPath = [], daRecursive = False\<rparr>),
     tnStat = (\<lambda>_. demoEnv \<lparr>paPath = []\<rparr>), tnMkdir = (\<lambda>_. demoEnv \<lparr>paPath = []\<rparr>), tnSearch = (\<lambda>_ _ u. (textResult [], u)),
     tnFetch = (\<lambda>_ u. (textResult [], u)), tnNext = (\<lambda>u. u), tnDescription = (\<lambda>_. [])\<rparr>"

definition startNeeds :: "unit agentNeeds" where
  "startNeeds = \<lparr>anTools = startTools, anRaw = Some, anSummary = (\<lambda>_. None),
     anModel = (\<lambda>_. llamaGenerator Suc (\<lambda>_. None) (\<lambda>_ _. RequestNil)), anObserver = (\<lambda>_ s. s),
     anOutside = \<lparr>outCtxErr = (\<lambda>_. None), outNow = (\<lambda>_. 0)\<rparr>, anQuote = (\<lambda>s. s), anTick = (\<lambda>s. s), anStart = None, anReady = None\<rparr>"

lemma start_paths:
  "osStat startWorld ''/m'' = Inr (FileNode [] 493)" "osStat startWorld ''/work'' = Inr (DirNode [])"
  "EvalSymlinks (wFaults startWorld) 0 (wTree startWorld) [''work''] = Inr [''work'']"
  "Stat (wFaults startWorld) (wTree startWorld) [''work''] = Inr (DirNode [])"
  by (simp_all add: osStat_def startWorld_def plainWorld_def IsAbs_def guarded_def walk_eval kernelLinks_def maxLinks_def
      EvalSymlinks_def Stat_def follow_def Let_def)

lemma start_files:
  "validateRegularFile startWorld n ''/m'' = None" "validateDirectory startWorld n ''/work'' = None"
  by (simp_all add: validateRegularFile_def validateDirectory_def start_paths trim_space_plain byte_val_def isRegular_def isDir_def)

lemma start_valid: "Config.Validate startWorld startConfig = None"
proof -
  have plain: "trim_space ''default'' = ''default''" "trim_space ''legacy_native'' = ''legacy_native''" "trim_space ''127.0.0.1'' = ''127.0.0.1''"
      "trim_space ''/work'' = ''/work''"
    by (simp_all add: trim_space_plain byte_val_def)
  have "validateLLM startWorld (cfLLM startConfig) = None"
    by (simp add: validateLLM_None startConfig_def externalLLM_def applyDefaults_def defaultLLM_def unset zeroConfig_def ifBlank_def float_le_def plain)
  moreover have "validateFilesystem startWorld (cfFilesystem startConfig) = None"
    by (simp add: validateFilesystem_def startConfig_def plain IsAbs_def start_paths isDir_def)
  moreover have "validateAudio (cfAudio startConfig) = None"
    by (simp add: validateAudio_def firstError_None startConfig_def applyDefaults_def defaultAudio_def unset zeroConfig_def ifBlank_def plain)
  moreover have "validateAgent startWorld (cfAgent startConfig) = Inr ''legacy_native''" "validateLogLevel (cfLogLevel startConfig) = None"
      "validateWebSearch startWorld (cfWebSearch startConfig) = None"
    by (simp_all add: validateAgent_def validateLogLevel_def validateWebSearch_def startConfig_def applyDefaults_def zeroConfig_def ifBlank_def plain Let_def)
  ultimately show ?thesis
    by (simp add: Config.Validate_def firstError_None) (simp add: startConfig_def start_files float_le_def)
qed

lemma start_mode: "agMode (cfAgent startConfig) = ''legacy_native''"
  by (simp add: startConfig_def applyDefaults_def zeroConfig_def ifBlank_def)

lemma trim_padded: "trim_space '' legacy_native'' = ''legacy_native''"
proof -
  have "strip_one space_encodings '' legacy_native'' = Some ''legacy_native''"
    by (simp add: space_encodings_def byte_chr_def char_of_def bit_simps)
  then have "trim_space '' legacy_native'' = trim_space ''legacy_native''"
    by (simp add: trim_space_def trim_left.simps [of _ "'' legacy_native''"])
  then show ?thesis by (simp add: trim_space_plain byte_val_def)
qed


theorem registry_follows_config_witness:
  "\<exists>r. buildRegistry startWorld startTools startConfig = Inr r \<and> registryNames r = [''fs_read'', ''fs_list'', ''fs_stat'', ''web_search'', ''web_fetch''] \<and>
     fst (snd (RunAllDetailed \<lparr>outCtxErr = (\<lambda>_. None), outNow = (\<lambda>_. 0)\<rparr> id (Some r) [demo_call ''fs_delete'', demo_call ''fs_read''] (demoTree, ()))) = demoTree"
proof -
  obtain r where r: "buildRegistry startWorld startTools startConfig = Inr r"
    using validated_registry [OF validate_native(2) [OF start_valid start_mode]] by blast
  from registry_follows_config [OF r, of "\<lparr>outCtxErr = (\<lambda>_. None), outNow = (\<lambda>_. 0)\<rparr>" id "[demo_call ''fs_delete'', demo_call ''fs_read'']" demoTree "()"] r
  show ?thesis by (auto simp: configuredNames_def startConfig_def)
qed

theorem padded_mode_refused_witness:
  "newVoiceInferenceRuntime (\<lambda>_. None) (cfVoice startConfig) '' legacy_native'' = (Inl (Message ''unsupported agent mode''), [])"
proof -
  let ?c = "startConfig\<lparr>cfAgent := (cfAgent startConfig)\<lparr>agMode := '' legacy_native''\<rparr>\<rparr>"
  have "validateAgent startWorld (cfAgent ?c) = Inr ''legacy_native''"
    by (simp add: validateAgent_def trim_padded Let_def)
  from padded_mode_refused [OF this, where ans = "\<lambda>_. None" and needs = startNeeds and fl = startFlags and show' = "\<lambda>_. Canceled"]
  show ?thesis by simp
qed

end
