(* ===== verification/Acp.thy ===== *)
theory Acp
  imports Conversation File_Tree Complex_Main "HOL-Library.Sublist"
begin

text \<open>
  The external agent: its JSON-RPC messages, the handshake, the prompts with their cancellation, the process that is started and
  closed, and what the program says and writes.
\<close>

section \<open>The external agent (\<^verbatim>\<open>internal/acp\<close>)\<close>

text \<open>
  The client of an agent that runs as a process of its own and speaks JSON-RPC, one message to a line.  Decoding a line and
  the lower case of letters are parameters; the lines that arrive and the failures of writing are the environment's.
\<close>

subsection \<open>Messages\<close>

text \<open>What \<^verbatim>\<open>json.Unmarshal\<close> makes of a value when it may be anything: an object is a map.\<close>

datatype json =
    JNull
  | JBool bool
  | JNumber real
  | JString string
  | JArray "json list"
  | JObject "(string \<times> json) list"

type_synonym fields = "(string \<times> json) list"

definition getField :: "fields \<Rightarrow> string \<Rightarrow> json option" where
  "getField m k = map_of m k"

definition textField :: "fields \<Rightarrow> string \<Rightarrow> string" where
  "textField m k = (case getField m k of Some (JString s) \<Rightarrow> s | _ \<Rightarrow> [])"

definition objectField :: "fields \<Rightarrow> string \<Rightarrow> fields" where
  "objectField m k = (case getField m k of Some (JObject o') \<Rightarrow> o' | _ \<Rightarrow> [])"

text \<open>A number that is an integer of 64 bits.\<close>

definition numberAsInt :: "json option \<Rightarrow> int option" where
  "numberAsInt v =
     (case v of
        Some (JNumber x) \<Rightarrow> if x = of_int \<lfloor>x\<rfloor> \<and> - (2 ^ 63) \<le> x \<and> x < 2 ^ 63 then Some \<lfloor>x\<rfloor> else None
      | _ \<Rightarrow> None)"

definition sameID :: "json option \<Rightarrow> nat \<Rightarrow> bool" where
  "sameID v want = (numberAsInt v = Some (int want))"

datatype acpError =
    AcpClosed
  | AcpBusy
  | AcpVersion
  | AcpContext go_error
  | AcpCallback go_error
  | AcpFailed go_error
  | AcpWrapped string acpError

definition acpFail :: "string \<Rightarrow> acpError" where
  "acpFail s = AcpFailed (Message s)"

definition responseResult :: "fields \<Rightarrow> acpError + fields" where
  "responseResult m =
     (case getField m ''error'' of
        Some e \<Rightarrow>
          if e \<noteq> JNull then Inl (acpFail ''ACP error'')
          else (case getField m ''result'' of Some (JObject r) \<Rightarrow> Inr r | _ \<Rightarrow> Inl (acpFail ''ACP response missing result''))
      | None \<Rightarrow> (case getField m ''result'' of Some (JObject r) \<Rightarrow> Inr r | _ \<Rightarrow> Inl (acpFail ''ACP response missing result'')))"

definition voiceDelta :: "fields \<Rightarrow> string \<Rightarrow> string" where
  "voiceDelta m sessionID =
     (let params = objectField m ''params''; update = objectField params ''update''; content = objectField update ''content'' in
      if textField params ''sessionId'' \<noteq> sessionID then []
      else if textField update ''sessionUpdate'' \<noteq> ''agent_message_chunk'' then []
      else if textField content ''type'' \<noteq> ''text'' then []
      else textField content ''text'')"

fun firstReject :: "(string \<Rightarrow> string) \<Rightarrow> json list \<Rightarrow> string" where
  "firstReject lower [] = []"
| "firstReject lower (v # vs) =
     (let option' = (case v of JObject o' \<Rightarrow> o' | _ \<Rightarrow> []) in
      if prefix ''reject'' (lower (textField option' ''kind'')) then textField option' ''optionId'' else firstReject lower vs)"

definition rejectOptionID :: "(string \<Rightarrow> string) \<Rightarrow> fields \<Rightarrow> string" where
  "rejectOptionID lower m =
     firstReject lower (case getField (objectField m ''params'') ''options'' of Some (JArray vs) \<Rightarrow> vs | _ \<Rightarrow> [])"

record agentInfo =
  aiName :: string
  aiTitle :: string
  aiVersion :: string

definition parseAgentInfo :: "json option \<Rightarrow> agentInfo" where
  "parseAgentInfo v =
     (let m = (case v of Some (JObject o') \<Rightarrow> o' | _ \<Rightarrow> []) in
      \<lparr>aiName = trim_space (textField m ''name''), aiTitle = trim_space (textField m ''title''), aiVersion = trim_space (textField m ''version'')\<rparr>)"

subsection \<open>The client\<close>

text \<open>
  The messages written are requests, notifications and answers.  \<open>acIn\<close> has the lines that arrive, \<open>acEnd\<close> the error after them, if
  the stream does not just stay silent; \<open>acLate\<close> counts the cancellations that goroutines of earlier prompts have still to write.
\<close>

datatype outMessage =
    OutInitialize nat
  | OutNewSession nat string
  | OutPrompt nat string string
  | OutCancel string
  | OutPermission json "string option"

record acp =
  acCwd :: string
  acIn :: "string list"
  acEnd :: "go_error option"
  acOut :: "outMessage list"
  acFails :: "nat \<Rightarrow> go_error option"
  acClosed :: bool
  acSession :: string
  acInfo :: agentInfo
  acBusy :: bool
  acNext :: nat
  acLate :: nat

record acpLib =
  alDecode :: "string \<Rightarrow> go_error + fields"
  alLower :: "string \<Rightarrow> string"

definition noInfo :: agentInfo where
  "noInfo = \<lparr>aiName = [], aiTitle = [], aiVersion = []\<rparr>"

definition acpNewClient :: "string list \<Rightarrow> go_error option \<Rightarrow> (nat \<Rightarrow> go_error option) \<Rightarrow> string \<Rightarrow> acpError + acp" where
  "acpNewClient input ending fails cwd0 =
     (let cwd = trim_space cwd0 in
      if cwd = [] then Inl (acpFail ''ACP cwd is required'')
      else if \<not> IsAbs cwd then Inl (acpFail ''ACP cwd must be an absolute path'')
      else Inr \<lparr>acCwd = cwd, acIn = input, acEnd = ending, acOut = [], acFails = fails, acClosed = False, acSession = [], acInfo = noInfo,
                acBusy = False, acNext = 0, acLate = 0\<rparr>)"

definition acpWrite :: "outMessage \<Rightarrow> acp \<Rightarrow> acpError option \<times> acp" where
  "acpWrite msg c =
     (if acClosed c then (Some AcpClosed, c)
      else case acFails c (length (acOut c)) of
        Some e \<Rightarrow> (Some (AcpFailed (Wrapped ''write ACP'' e)), c)
      | None \<Rightarrow> (None, c\<lparr>acOut := acOut c @ [msg]\<rparr>))"

text \<open>\<open>None\<close> while no line comes and the stream does not end.\<close>

definition acpRead :: "acpLib \<Rightarrow> acp \<Rightarrow> ((acpError + fields) \<times> acp) option" where
  "acpRead lib c =
     (case acIn c of
        line # rest \<Rightarrow>
          Some (case alDecode lib line of
                  Inl e \<Rightarrow> (Inl (AcpFailed (Wrapped ''decode ACP'' e)), c\<lparr>acIn := rest\<rparr>)
                | Inr m \<Rightarrow> (Inr m, c\<lparr>acIn := rest\<rparr>))
      | [] \<Rightarrow>
          (case acEnd c of
             None \<Rightarrow> None
           | Some e \<Rightarrow> Some (Inl (if errors_is e EOF then AcpFailed EOF else AcpFailed (Wrapped ''read ACP'' e)), c)))"

definition acpRequestID :: "acp \<Rightarrow> nat \<times> acp" where
  "acpRequestID c = (Suc (acNext c), c\<lparr>acNext := Suc (acNext c)\<rparr>)"

definition rejectPermission :: "acpLib \<Rightarrow> fields \<Rightarrow> acp \<Rightarrow> acpError option \<times> acp" where
  "rejectPermission lib m c =
     (case getField m ''id'' of
        None \<Rightarrow> (None, c)
      | Some JNull \<Rightarrow> (None, c)
      | Some i \<Rightarrow>
          (let option' = rejectOptionID (alLower lib) m in
           acpWrite (OutPermission i (if option' \<noteq> [] then Some option' else None)) c))"

definition acpClose :: "acp \<Rightarrow> acp" where
  "acpClose c = c\<lparr>acClosed := True\<rparr>"

subsection \<open>The handshake\<close>

text \<open>\<open>ctx k\<close> is the answer of the context at its \<open>k\<close>-th look, \<open>n\<close> bounds the lines that are left to read.\<close>

fun readResponse :: "acpLib \<Rightarrow> nat \<Rightarrow> (nat \<Rightarrow> go_error option) \<Rightarrow> nat \<Rightarrow> nat \<Rightarrow> acp \<Rightarrow> ((acpError + fields) \<times> nat \<times> acp) option" where
  "readResponse lib i ctx k 0 c = None"
| "readResponse lib i ctx k (Suc n) c =
     (case ctx k of
        Some e \<Rightarrow> Some (Inl (AcpContext e), Suc k, c)
      | None \<Rightarrow>
        (case acpRead lib c of
           None \<Rightarrow> None
         | Some (Inl e, c1) \<Rightarrow> Some (Inl e, Suc k, c1)
         | Some (Inr m, c1) \<Rightarrow>
             if textField m ''method'' = ''session/request_permission''
             then (case rejectPermission lib m c1 of
                     (Some e, c2) \<Rightarrow> Some (Inl e, Suc k, c2)
                   | (None, c2) \<Rightarrow> readResponse lib i ctx (Suc k) n c2)
             else if sameID (getField m ''id'') i then Some (Inr m, Suc k, c1)
             else readResponse lib i ctx (Suc k) n c1))"

text \<open>One request of the handshake and its result.\<close>

definition handshake :: "acpLib \<Rightarrow> (nat \<Rightarrow> outMessage) \<Rightarrow> (nat \<Rightarrow> go_error option) \<Rightarrow> nat \<Rightarrow> acp \<Rightarrow> ((acpError + fields) \<times> nat \<times> acp) option" where
  "handshake lib request ctx k c =
     (let (i, c1) = acpRequestID c in
      case acpWrite (request i) c1 of
        (Some e, c2) \<Rightarrow> Some (Inl e, k, c2)
      | (None, c2) \<Rightarrow>
        (case readResponse lib i ctx k (Suc (length (acIn c2))) c2 of
           None \<Rightarrow> None
         | Some (Inl e, k1, c3) \<Rightarrow> Some (Inl e, k1, c3)
         | Some (Inr m, k1, c3) \<Rightarrow> Some (responseResult m, k1, c3)))"

definition closeIf :: "bool \<Rightarrow> acp \<Rightarrow> acp" where
  "closeIf b c = (if b then acpClose c else c)"

text \<open>\<open>closes k\<close>: another goroutine closes the client before the first request (0), before the second (1), before the session is kept (2).\<close>

definition Initialize :: "acpLib \<Rightarrow> (nat \<Rightarrow> go_error option) \<Rightarrow> (nat \<Rightarrow> bool) \<Rightarrow> acp \<Rightarrow> (acpError option \<times> acp) option" where
  "Initialize lib ctx closes c =
     (case ctx 0 of
        Some e \<Rightarrow> Some (Some (AcpContext e), c)
      | None \<Rightarrow>
        if acClosed c then Some (Some AcpClosed, c)
        else
        (case handshake lib OutInitialize ctx 1 (closeIf (closes 0) c) of
           None \<Rightarrow> None
         | Some (Inl e, k, c1) \<Rightarrow> Some (Some e, c1)
         | Some (Inr r, k, c1) \<Rightarrow>
             if numberAsInt (getField r ''protocolVersion'') \<noteq> Some 1 then Some (Some AcpVersion, c1)
             else
             (case handshake lib (\<lambda>i. OutNewSession i (acCwd c)) ctx k (closeIf (closes 1) c1) of
                None \<Rightarrow> None
              | Some (Inl e, k2, c2) \<Rightarrow> Some (Some e, c2)
              | Some (Inr r2, k2, c2) \<Rightarrow>
                  (let sessionID = trim_space (textField r2 ''sessionId''); c3 = closeIf (closes 2) c2 in
                   if sessionID = [] then Some (Some (acpFail ''ACP session/new returned empty sessionId''), c3)
                   else if acClosed c3 then Some (Some AcpClosed, c3)
                   else Some (None, c3\<lparr>acSession := sessionID, acInfo := parseAgentInfo (getField r ''agentInfo'')\<rparr>)))))"

subsection \<open>A prompt\<close>

record acpResult =
  arReply :: string
  arStop :: string

text \<open>
  A prompt has a goroutine that waits for its context: when that ends it sets the flag and writes a cancellation.  A prompt
  is a function of what happens while it runs: a line is read, its context ends, its goroutine sets the flag or writes, a goroutine
  that an earlier prompt left behind writes, or the client is closed.  A prompt that the moves leave waiting is \<open>None\<close>.
\<close>

datatype watcherPc = WatchWaiting | WatchFlagged | WatchDone

datatype acpMove = MvLine | MvCtxEnds go_error | MvFlag | MvCancel | MvLateCancel | MvClose

record prompt =
  ppCtx :: "go_error option"
  ppWatch :: watcherPc
  ppStreamed :: string

definition ppFlag :: "prompt \<Rightarrow> bool" where
  "ppFlag p \<longleftrightarrow> ppWatch p \<noteq> WatchWaiting"

definition ended :: "prompt \<Rightarrow> bool" where
  "ended p \<longleftrightarrow> ppFlag p \<or> ppCtx p \<noteq> None"

datatype 's lineOutcome = LineReturns "acpError + acpResult" acp 's | LineNext prompt acp 's

definition contextOr :: "prompt \<Rightarrow> acpError \<Rightarrow> acpError" where
  "contextOr p e = (case ppCtx p of Some x \<Rightarrow> AcpContext x | None \<Rightarrow> e)"

text \<open>What a message does to the prompt with the number \<open>i\<close>.\<close>

definition onMessage ::
  "acpLib \<Rightarrow> string \<Rightarrow> nat \<Rightarrow> (string \<Rightarrow> 's \<Rightarrow> go_error option \<times> 's) option \<Rightarrow> fields \<Rightarrow> prompt \<Rightarrow> acp \<Rightarrow> 's \<Rightarrow> 's lineOutcome"
where
  "onMessage lib sessionID i onDelta m p c s =
     (let method = textField m ''method'' in
      if method \<noteq> []
      then
       (if method = ''session/update''
        then
         (if ended p then LineNext p c s
          else
           (let delta = voiceDelta m sessionID in
            if delta = [] then LineNext p c s
            else
             (let p1 = p\<lparr>ppStreamed := ppStreamed p @ delta\<rparr> in
              case onDelta of
                None \<Rightarrow> LineNext p1 c s
              | Some f \<Rightarrow> (case f delta s of (Some e, s1) \<Rightarrow> LineReturns (Inl (AcpCallback e)) c s1 | (None, s1) \<Rightarrow> LineNext p1 c s1))))
        else if method = ''session/request_permission''
        then (case rejectPermission lib m c of (Some e, c1) \<Rightarrow> LineReturns (Inl e) c1 s | (None, c1) \<Rightarrow> LineNext p c1 s)
        else LineNext p c s)
      else if \<not> sameID (getField m ''id'') i then LineNext p c s
      else
       (case responseResult m of
          Inl e \<Rightarrow> LineReturns (Inl (contextOr p e)) c s
        | Inr r \<Rightarrow>
            if ended p then LineReturns (Inl (AcpContext Canceled)) c s
            else
             (let content = textField r ''content'' in
              LineReturns (Inr \<lparr>arReply = trim_space (if trim_space content = [] then ppStreamed p else content),
                arStop = textField r ''stopReason''\<rparr>) c s)))"

definition onLine ::
  "acpLib \<Rightarrow> string \<Rightarrow> nat \<Rightarrow> (string \<Rightarrow> 's \<Rightarrow> go_error option \<times> 's) option \<Rightarrow> prompt \<Rightarrow> acp \<Rightarrow> 's \<Rightarrow> 's lineOutcome option"
where
  "onLine lib sessionID i onDelta p c s =
     (case acpRead lib c of
        None \<Rightarrow> None
      | Some (Inl e, c1) \<Rightarrow> Some (LineReturns (Inl (contextOr p e)) c1 s)
      | Some (Inr m, c1) \<Rightarrow> Some (onMessage lib sessionID i onDelta m p c1 s))"

text \<open>The other moves; \<open>None\<close> for one that is not possible.\<close>

definition besides :: "string \<Rightarrow> acpMove \<Rightarrow> prompt \<Rightarrow> acp \<Rightarrow> (prompt \<times> acp) option" where
  "besides sessionID mv p c =
     (case mv of
        MvLine \<Rightarrow> None
      | MvCtxEnds e \<Rightarrow> if ppCtx p = None then Some (p\<lparr>ppCtx := Some e\<rparr>, c) else None
      | MvFlag \<Rightarrow> if ppCtx p \<noteq> None \<and> ppWatch p = WatchWaiting then Some (p\<lparr>ppWatch := WatchFlagged\<rparr>, c) else None
      | MvCancel \<Rightarrow> if ppWatch p = WatchFlagged then Some (p\<lparr>ppWatch := WatchDone\<rparr>, snd (acpWrite (OutCancel sessionID) c)) else None
      | MvLateCancel \<Rightarrow> if 0 < acLate c then Some (p, snd (acpWrite (OutCancel sessionID) (c\<lparr>acLate := acLate c - 1\<rparr>))) else None
      | MvClose \<Rightarrow> Some (p, acpClose c))"

fun promptLoop ::
  "acpLib \<Rightarrow> string \<Rightarrow> nat \<Rightarrow> (string \<Rightarrow> 's \<Rightarrow> go_error option \<times> 's) option \<Rightarrow> acpMove list \<Rightarrow> prompt \<Rightarrow> acp \<Rightarrow> 's \<Rightarrow>
     ((acpError + acpResult) \<times> prompt \<times> acp \<times> 's) option"
where
  "promptLoop lib sessionID i onDelta [] p c s = None"
| "promptLoop lib sessionID i onDelta (mv # mvs) p c s =
     (if mv = MvLine
      then (case onLine lib sessionID i onDelta p c s of
              None \<Rightarrow> None
            | Some (LineReturns r c1 s1) \<Rightarrow> Some (r, p, c1, s1)
            | Some (LineNext p1 c1 s1) \<Rightarrow> promptLoop lib sessionID i onDelta mvs p1 c1 s1)
      else (case besides sessionID mv p c of
              None \<Rightarrow> None
            | Some (p1, c1) \<Rightarrow> promptLoop lib sessionID i onDelta mvs p1 c1 s))"

text \<open>
  When a prompt returns its goroutine is told to stop; one that has set the flag still writes, and one that was waiting may see the end of
  its context instead, which is \<open>late\<close>.
\<close>

definition leaveWatcher :: "bool \<Rightarrow> prompt \<Rightarrow> acp \<Rightarrow> acp" where
  "leaveWatcher late p c =
     c\<lparr>acBusy := False,
       acLate := acLate c + (if ppWatch p = WatchFlagged \<or> (ppWatch p = WatchWaiting \<and> late) then 1 else 0)\<rparr>"

definition acpRespondStream ::
  "acpLib \<Rightarrow> go_error option \<Rightarrow> string \<Rightarrow> (string \<Rightarrow> 's \<Rightarrow> go_error option \<times> 's) option \<Rightarrow> acpMove list \<Rightarrow> bool \<Rightarrow> acp \<Rightarrow> 's \<Rightarrow>
     ((acpError + acpResult) \<times> acp \<times> 's) option"
where
  "acpRespondStream lib cerr words onDelta mvs late c s =
     (if acBusy c then Some (Inl AcpBusy, c, s)
      else if acClosed c then Some (Inl AcpClosed, c, s)
      else if acSession c = [] then Some (Inl (acpFail ''ACP client is not initialized''), c, s)
      else
      (case cerr of
         Some e \<Rightarrow> Some (Inl (AcpContext e), c, s)
       | None \<Rightarrow>
         (let (i, c1) = acpRequestID (c\<lparr>acBusy := True\<rparr>) in
          case acpWrite (OutPrompt i (acSession c) words) c1 of
            (Some e, c2) \<Rightarrow> Some (Inl e, c2\<lparr>acBusy := False\<rparr>, s)
          | (None, c2) \<Rightarrow>
            (case promptLoop lib (acSession c) i onDelta mvs \<lparr>ppCtx = None, ppWatch = WatchWaiting, ppStreamed = []\<rparr> c2 s of
               None \<Rightarrow> None
             | Some (r, p, c3, s1) \<Rightarrow> Some (r, leaveWatcher late p c3, s1)))))"

subsection \<open>The responder\<close>

definition voiceRespond ::
  "acpLib \<Rightarrow> go_error option \<Rightarrow> string \<Rightarrow> (string \<Rightarrow> 's \<Rightarrow> go_error option \<times> 's) option \<Rightarrow> acpMove list \<Rightarrow> bool \<Rightarrow> acp \<Rightarrow> 's \<Rightarrow>
     ((acpError + sessionResult) \<times> acp \<times> 's) option"
where
  "voiceRespond lib cerr words onDelta mvs late c s =
     (case acpRespondStream lib cerr words onDelta mvs late c s of
        None \<Rightarrow> None
      | Some (Inl e, c1, s1) \<Rightarrow> Some (Inl e, c1, s1)
      | Some (Inr r, c1, s1) \<Rightarrow> Some (Inr (emptyResult\<lparr>srReply := trim_space (arReply r)\<rparr>), c1, s1))"

subsection \<open>The process of the agent\<close>

record runtimeConfig =
  rcBinary :: string
  rcArgs :: "string list"
  rcCwd :: string
  rcShutdown :: duration

fun trimArgs :: "nat \<Rightarrow> string list \<Rightarrow> nat + string list" where
  "trimArgs i [] = Inr []"
| "trimArgs i (a # as) =
     (if trim_space a = [] then Inl i
      else (case trimArgs (Suc i) as of Inl j \<Rightarrow> Inl j | Inr rest \<Rightarrow> Inr (trim_space a # rest)))"

definition validateRuntimeConfig :: "(string \<Rightarrow> osError + node) \<Rightarrow> runtimeConfig \<Rightarrow> acpError + runtimeConfig" where
  "validateRuntimeConfig stat cfg =
     (let binary = trim_space (rcBinary cfg); cwd = trim_space (rcCwd cfg) in
      if binary = [] then Inl (acpFail ''ACP runtime binary is required'')
      else
      (case trimArgs 0 (rcArgs cfg) of
         Inl i \<Rightarrow> Inl (acpFail (''ACP runtime arg '' @ decimal i @ '' must not be blank''))
       | Inr args \<Rightarrow>
           if cwd = [] then Inl (acpFail ''ACP runtime cwd is required'')
           else if \<not> IsAbs cwd then Inl (acpFail ''ACP runtime cwd must be an absolute path'')
           else
           (case stat cwd of
              Inl e \<Rightarrow> Inl (AcpFailed (Wrapped ''ACP runtime cwd'' (Message [])))
            | Inr n \<Rightarrow>
                if \<not> isDir n then Inl (acpFail ''ACP runtime cwd must be a directory'')
                else Inr \<lparr>rcBinary = binary, rcArgs = args, rcCwd = cwd,
                          rcShutdown = (if rcShutdown cfg \<le> 0 then 2000000000 else rcShutdown cfg)\<rparr>)))"

text \<open>
  What is done to the child, and what it does: whether it ends in each of the two waits, and with which error, an exit status or another one.
  An error of closing or of killing that the code passes over (\<^verbatim>\<open>os.ErrClosed\<close>, \<^verbatim>\<open>os.ErrProcessDone\<close>) is \<open>None\<close>.
\<close>

datatype childEvent = ChildStarted | StdinClosed | ChildKilled | ChildReaped | StdoutClosed

datatype childExit = TimesOut | ExitsWell | ExitsStatus go_error | WaitFails go_error

record childEnv =
  ceStdinClose :: "go_error option"
  ceFirst :: childExit
  ceKill :: "go_error option"
  ceSecond :: childExit
  ceStdoutClose :: "go_error option"

definition waitForExit :: "childExit \<Rightarrow> go_error option \<times> bool" where
  "waitForExit x =
     (case x of TimesOut \<Rightarrow> (None, True) | ExitsWell \<Rightarrow> (None, False) | ExitsStatus e \<Rightarrow> (Some e, False) | WaitFails e \<Rightarrow> (Some e, False))"

definition isExpectedExitAfterKill :: "childExit \<Rightarrow> bool \<Rightarrow> bool" where
  "isExpectedExitAfterKill x killed =
     (case x of ExitsStatus e \<Rightarrow> killed | WaitFails e \<Rightarrow> False | _ \<Rightarrow> True)"

definition reaped :: "childExit \<Rightarrow> childEvent list" where
  "reaped x = (if x = TimesOut then [] else [ChildReaped])"

text \<open>\<^verbatim>\<open>Runtime.Close\<close>, the first time it is called: the errors that it joins and what is done to the child.\<close>

definition runtimeClose :: "childEnv \<Rightarrow> bool \<Rightarrow> go_error list \<times> childEvent list" where
  "runtimeClose env hasClient =
     (let closed = (case ceStdinClose env of None \<Rightarrow> [] | Some e \<Rightarrow> [Wrapped (if hasClient then ''close ACP client'' else ''close ACP stdin'') e]);
          timedOut = snd (waitForExit (ceFirst env));
          killed = (if timedOut then (case ceKill env of None \<Rightarrow> [] | Some e \<Rightarrow> [Wrapped ''kill ACP child'' e]) else []);
          final = (if timedOut then ceSecond env else ceFirst env);
          waited = (case fst (waitForExit final) of
                      Some e \<Rightarrow> if isExpectedExitAfterKill final timedOut then [] else [Wrapped ''wait ACP child'' e]
                    | None \<Rightarrow> []);
          out = (case ceStdoutClose env of None \<Rightarrow> [] | Some e \<Rightarrow> [Wrapped ''close ACP stdout'' e])
      in (closed @ killed @ waited @ out,
          [StdinClosed] @ reaped (ceFirst env) @
          (if timedOut then (if ceKill env = None then [ChildKilled] else []) @ reaped (ceSecond env) else []) @ [StdoutClosed]))"

record spawnEnv =
  spStdin :: "go_error option"
  spStdout :: "go_error option"
  spStart :: "go_error option"
  spChild :: childEnv
  spIn :: "string list"
  spEnd :: "go_error option"
  spFails :: "nat \<Rightarrow> go_error option"

definition StartRuntime ::
  "acpLib \<Rightarrow> (string \<Rightarrow> osError + node) \<Rightarrow> (nat \<Rightarrow> go_error option) \<Rightarrow> spawnEnv \<Rightarrow> runtimeConfig \<Rightarrow> ((acpError + acp) \<times> childEvent list) option"
where
  "StartRuntime lib stat ctx env cfg0 =
     (case ctx 0 of
        Some e \<Rightarrow> Some (Inl (AcpContext e), [])
      | None \<Rightarrow>
        (case validateRuntimeConfig stat cfg0 of
           Inl e \<Rightarrow> Some (Inl e, [])
         | Inr cfg \<Rightarrow>
           (case spStdin env of
              Some e \<Rightarrow> Some (Inl (AcpFailed (Wrapped ''ACP stdin pipe'' e)), [])
            | None \<Rightarrow>
              (case spStdout env of
                 Some e \<Rightarrow> Some (Inl (AcpFailed (Wrapped ''ACP stdout pipe'' e)), [StdinClosed])
               | None \<Rightarrow>
                 (case spStart env of
                    Some e \<Rightarrow> Some (Inl (AcpFailed (Wrapped ''start ACP command'' e)), [StdinClosed, StdoutClosed])
                  | None \<Rightarrow>
                    (case acpNewClient (spIn env) (spEnd env) (spFails env) (rcCwd cfg) of
                       Inl e \<Rightarrow> Some (Inl (AcpWrapped ''ACP client'' e), ChildStarted # snd (runtimeClose (spChild env) False))
                     | Inr c \<Rightarrow>
                       (case Initialize lib (\<lambda>k. ctx (Suc k)) (\<lambda>k. False) c of
                          None \<Rightarrow> None
                        | Some (Some e, c1) \<Rightarrow> Some (Inl (AcpWrapped ''initialize ACP'' e), ChildStarted # snd (runtimeClose (spChild env) True))
                        | Some (None, c1) \<Rightarrow> Some (Inr c1, [ChildStarted]))))))))"

subsection \<open>What is spoken\<close>

text \<open>A callback that keeps what it is given.\<close>

definition keep :: "string \<Rightarrow> string list \<Rightarrow> go_error option \<times> string list" where
  "keep d ds = (None, ds @ [d])"

text \<open>The messages of the lines that can be decoded, and what is said in a session among messages.\<close>

definition messages :: "acpLib \<Rightarrow> string list \<Rightarrow> fields list" where
  "messages lib lines = concat (map (\<lambda>l. case alDecode lib l of Inl e \<Rightarrow> [] | Inr m \<Rightarrow> [m]) lines)"

definition spoken :: "fields \<Rightarrow> string" where
  "spoken m = textField (objectField (objectField (objectField m ''params'') ''update'') ''content'') ''text''"

definition isChunk :: "string \<Rightarrow> fields \<Rightarrow> bool" where
  "isChunk sessionID m \<longleftrightarrow>
     textField m ''method'' = ''session/update'' \<and> textField (objectField m ''params'') ''sessionId'' = sessionID \<and>
     textField (objectField (objectField m ''params'') ''update'') ''sessionUpdate'' = ''agent_message_chunk'' \<and>
     textField (objectField (objectField (objectField m ''params'') ''update'') ''content'') ''type'' = ''text'' \<and> spoken m \<noteq> []"

definition chunksOf :: "string \<Rightarrow> fields list \<Rightarrow> string list" where
  "chunksOf sessionID ms = map spoken (filter (isChunk sessionID) ms)"

lemma chunksOf_simps [simp]:
  "chunksOf sid [] = []"
  "chunksOf sid (ms @ ns) = chunksOf sid ms @ chunksOf sid ns"
  by (simp_all add: chunksOf_def)

lemma chunksOf_Cons: "chunksOf sid (m # ms) = chunksOf sid [m] @ chunksOf sid ms"
  by (simp add: chunksOf_def)

lemma chunksOf_one: "chunksOf sid [m] = (if textField m ''method'' = ''session/update'' \<and> voiceDelta m sid \<noteq> [] then [voiceDelta m sid] else [])"
  by (simp add: chunksOf_def isChunk_def spoken_def voiceDelta_def Let_def)

lemma messages_simps [simp]:
  "messages lib [] = []"
  "messages lib (l # ls) = (case alDecode lib l of Inl e \<Rightarrow> [] | Inr m \<Rightarrow> [m]) @ messages lib ls"
  by (simp_all add: messages_def)

lemma acpWrite_keeps:
  "acpWrite msg c = (e, c') \<Longrightarrow>
     acIn c' = acIn c \<and> acEnd c' = acEnd c \<and> acSession c' = acSession c \<and> acNext c' = acNext c \<and>
     (acOut c' = acOut c \<or> acOut c' = acOut c @ [msg])"
  by (auto simp: acpWrite_def split: if_splits option.splits)

lemma rejectPermission_keeps:
  "rejectPermission lib m c = (e, c') \<Longrightarrow> acIn c' = acIn c \<and> acEnd c' = acEnd c \<and> acSession c' = acSession c \<and> acNext c' = acNext c"
  by (auto simp: rejectPermission_def Let_def split: option.splits json.splits dest: acpWrite_keeps)

lemma rejectPermission_cwd: "rejectPermission lib m c = (e, c') \<Longrightarrow> acCwd c' = acCwd c"
  by (auto simp: rejectPermission_def acpWrite_def Let_def split: if_splits option.splits json.splits)

lemma besides_keeps:
  assumes "besides sid mv p c = Some (p', c')"
  shows "acIn c' = acIn c \<and> acEnd c' = acEnd c \<and> ppStreamed p' = ppStreamed p \<and> (ended p \<longrightarrow> ended p')"
proof -
  have "acIn (snd (acpWrite msg d)) = acIn d \<and> acEnd (snd (acpWrite msg d)) = acEnd d" for msg d
    using acpWrite_keeps [of msg d] by (cases "acpWrite msg d") simp
  with assms show ?thesis
    by (cases mv) (auto simp: besides_def acpClose_def ended_def ppFlag_def split: if_splits)
qed

text \<open>The ways a message goes.\<close>

lemma onMessage_update:
  assumes "textField m ''method'' = ''session/update''"
  shows "onMessage lib sid i (Some keep) m p c ds =
    (if ended p then LineNext p c ds
     else LineNext (p\<lparr>ppStreamed := ppStreamed p @ voiceDelta m sid\<rparr>) c (ds @ chunksOf sid [m]))"
  using assms by (cases "voiceDelta m sid") (simp_all add: onMessage_def Let_def chunksOf_one keep_def)

lemma onMessage_permission:
  assumes "textField m ''method'' = ''session/request_permission''"
  shows "onMessage lib sid i f m p c s =
    (case rejectPermission lib m c of (Some e, c1) \<Rightarrow> LineReturns (Inl e) c1 s | (None, c1) \<Rightarrow> LineNext p c1 s)"
  using assms by (simp add: onMessage_def Let_def)

lemma onMessage_skip:
  assumes "textField m ''method'' \<noteq> ''session/update''" "textField m ''method'' \<noteq> ''session/request_permission''"
    "textField m ''method'' \<noteq> [] \<or> \<not> sameID (getField m ''id'') i"
  shows "onMessage lib sid i f m p c s = LineNext p c s"
  using assms by (simp add: onMessage_def Let_def)

lemma onMessage_answer:
  assumes "textField m ''method'' = []" "sameID (getField m ''id'') i"
  shows "onMessage lib sid i f m p c s =
    LineReturns
     (case responseResult m of
        Inl e \<Rightarrow> Inl (contextOr p e)
      | Inr r \<Rightarrow>
          if ended p then Inl (AcpContext Canceled)
          else Inr \<lparr>arReply = trim_space (if trim_space (textField r ''content'') = [] then ppStreamed p else textField r ''content''),
                 arStop = textField r ''stopReason''\<rparr>) c s"
  using assms by (simp add: onMessage_def Let_def split: sum.split)

lemmas onMessage_ways = onMessage_update onMessage_permission onMessage_skip onMessage_answer

lemma message_cases:
  obtains (update) "textField m ''method'' = ''session/update''"
    | (permission) "textField m ''method'' = ''session/request_permission''"
    | (skip) "textField m ''method'' \<noteq> ''session/update''" "textField m ''method'' \<noteq> ''session/request_permission''"
        "textField m ''method'' \<noteq> [] \<or> \<not> sameID (getField m ''id'') i"
    | (answer) "textField m ''method'' = []" "sameID (getField m ''id'') i"
  by blast

lemma onMessage_next:
  assumes "onMessage lib sid i (Some keep) m p c ds = LineNext p' c' ds'"
  shows "acIn c' = acIn c \<and> acEnd c' = acEnd c \<and> (ended p \<longleftrightarrow> ended p') \<and>
    ds' = ds @ (if ended p then [] else chunksOf sid [m]) \<and> ppStreamed p' = ppStreamed p @ concat (if ended p then [] else chunksOf sid [m])"
proof (cases rule: message_cases [where m = m and i = i])
  case update
  show ?thesis
    using assms by (auto simp: onMessage_update [OF update] chunksOf_one update ended_def ppFlag_def split: if_splits)
next
  case permission
  show ?thesis
    using assms by (auto simp: onMessage_permission [OF permission] chunksOf_one permission split: prod.splits option.splits dest: rejectPermission_keeps)
next
  case skip
  show ?thesis
    using assms by (simp add: onMessage_skip [OF skip] chunksOf_one skip)
next
  case answer
  show ?thesis
    using assms by (simp add: onMessage_answer [OF answer])
qed

lemma onMessage_returns:
  assumes "onMessage lib sid i (Some keep) m p c ds = LineReturns r c' ds'"
  shows "acIn c' = acIn c \<and> ds' = ds"
proof (cases rule: message_cases [where m = m and i = i])
  case update
  show ?thesis
    using assms by (auto simp: onMessage_update [OF update] split: if_splits)
next
  case permission
  show ?thesis
    using assms by (auto simp: onMessage_permission [OF permission] split: prod.splits option.splits dest: rejectPermission_keeps)
next
  case skip
  show ?thesis
    using assms by (simp add: onMessage_skip [OF skip])
next
  case answer
  show ?thesis
    using assms by (simp add: onMessage_answer [OF answer])
qed

lemma onMessage_answers:
  assumes "onMessage lib sid i (Some keep) m p c ds = LineReturns (Inr x) c' ds'"
  shows "\<not> ended p \<and> textField m ''method'' = [] \<and> sameID (getField m ''id'') i \<and>
    (\<exists>q. responseResult m = Inr q \<and> arStop x = textField q ''stopReason'' \<and>
       arReply x = trim_space (if trim_space (textField q ''content'') = [] then ppStreamed p else textField q ''content''))"
proof (cases rule: message_cases [where m = m and i = i])
  case update
  show ?thesis
    using assms by (auto simp: onMessage_update [OF update] split: if_splits)
next
  case permission
  show ?thesis
    using assms by (auto simp: onMessage_permission [OF permission] split: prod.splits option.splits)
next
  case skip
  show ?thesis
    using assms by (simp add: onMessage_skip [OF skip])
next
  case answer
  show ?thesis
    using assms unfolding onMessage_answer [OF answer]
    by (cases "responseResult m") (auto simp only: answer lineOutcome.inject sum.case sum.inject sum.distinct acpResult.simps refl simp_thms ex_simps split: if_splits)
qed

lemma onLine_cases:
  assumes "onLine lib sid i f p c s = Some out"
  obtains (empty) e where "acIn c = []" "out = LineReturns (Inl e) c s"
    | (bad) line rest e e' where "acIn c = line # rest" "alDecode lib line = Inl e" "out = LineReturns (Inl e') (c\<lparr>acIn := rest\<rparr>) s"
    | (good) line rest m where "acIn c = line # rest" "alDecode lib line = Inr m" "out = onMessage lib sid i f m p (c\<lparr>acIn := rest\<rparr>) s"
proof (cases "acIn c")
  case Nil
  with assms show thesis by (auto simp: onLine_def acpRead_def intro: empty split: option.splits)
next
  case (Cons line rest)
  with assms show thesis
    by (cases "alDecode lib line") (auto simp: onLine_def acpRead_def intro: good bad)
qed

lemma promptLoop_rule [consumes 1, case_names other further return]:
  assumes "promptLoop lib sid i f mvs p c s = Some (r, p', c', s')"
    and "\<And>mv p c s p1 c1. besides sid mv p c = Some (p1, c1) \<Longrightarrow> P p1 c1 s \<Longrightarrow> P p c s"
    and "\<And>p c s p1 c1 s1. onLine lib sid i f p c s = Some (LineNext p1 c1 s1) \<Longrightarrow> P p1 c1 s1 \<Longrightarrow> P p c s"
    and "\<And>c s. onLine lib sid i f p' c s = Some (LineReturns r c' s') \<Longrightarrow> P p' c s"
  shows "P p c s"
  using assms(1)
proof (induction mvs arbitrary: p c s)
  case (Cons mv mvs)
  then show ?case
    by (auto split: if_splits option.splits lineOutcome.splits intro: assms(2-4))
qed simp

lemma onLine_further:
  assumes "onLine lib sid i (Some keep) p c ds = Some (LineNext p1 c1 ds1)"
  obtains line m where "acIn c = line # acIn c1" "alDecode lib line = Inr m" "ended p1 \<longleftrightarrow> ended p"
    "ds1 = ds @ (if ended p then [] else chunksOf sid [m])" "ppStreamed p1 = ppStreamed p @ concat (if ended p then [] else chunksOf sid [m])"
  using assms
proof (cases rule: onLine_cases)
  case (good line rest m)
  from onMessage_next [OF good(3) [symmetric]] good(1,2) that show thesis by simp
qed simp_all

lemma onLine_return:
  assumes "onLine lib sid i (Some keep) p c ds = Some (LineReturns r c1 ds1)"
  shows "ds1 = ds \<and> (\<exists>lines. acIn c = lines @ acIn c1)"
  using assms
proof (cases rule: onLine_cases)
  case (good line rest m)
  from onMessage_returns [OF good(3) [symmetric]] good(1) show ?thesis by simp
qed auto

lemma onLine_answer:
  assumes "onLine lib sid i (Some keep) p c ds = Some (LineReturns (Inr x) c1 ds1)"
  obtains line m q where "acIn c = line # acIn c1" "alDecode lib line = Inr m" "ds1 = ds" "\<not> ended p" "textField m ''method'' = []"
    "sameID (getField m ''id'') i" "responseResult m = Inr q" "arStop x = textField q ''stopReason''"
    "arReply x = trim_space (if trim_space (textField q ''content'') = [] then ppStreamed p else textField q ''content'')"
  using assms
proof (cases rule: onLine_cases)
  case (good line rest m)
  from onMessage_returns [OF good(3) [symmetric]] onMessage_answers [OF good(3) [symmetric]] good(1,2) that show thesis by auto
qed simp_all

lemma promptLoop_prefix:
  assumes "promptLoop lib sid i (Some keep) mvs p c ds = Some (r, p', c', ds')"
  shows "\<exists>lines qs. acIn c = lines @ acIn c' \<and> ds' = ds @ qs \<and> prefix qs (if ended p then [] else chunksOf sid (messages lib lines))"
  using assms
proof (induction rule: promptLoop_rule)
  case (other mv p c s p1 c1)
  from other(2) obtain lines qs where "acIn c1 = lines @ acIn c'" "ds' = s @ qs"
    "prefix qs (if ended p1 then [] else chunksOf sid (messages lib lines))"
    by blast
  with besides_keeps [OF other(1)] show ?case
    by (intro exI [of _ lines] exI [of _ qs]) (cases "ended p"; cases "ended p1"; simp)
next
  case (further p c s p1 c1 s1)
  from further(1) obtain line m where m: "acIn c = line # acIn c1" "alDecode lib line = Inr m" "ended p1 \<longleftrightarrow> ended p"
    "s1 = s @ (if ended p then [] else chunksOf sid [m])"
    by (rule onLine_further)
  from further(2) obtain lines qs where q: "acIn c1 = lines @ acIn c'" "ds' = s1 @ qs"
    "prefix qs (if ended p1 then [] else chunksOf sid (messages lib lines))" by blast
  show ?case
    by (intro exI [of _ "line # lines"] exI [of _ "(if ended p then [] else chunksOf sid [m]) @ qs"])
      (cases "ended p"; use m q in \<open>simp add: chunksOf_Cons [of sid m "messages lib lines"]\<close>)
next
  case (return c s)
  from onLine_return [OF return] show ?case by auto
qed

lemma promptLoop_answer:
  assumes "promptLoop lib sid i (Some keep) mvs p c ds = Some (Inr x, p', c', ds')"
  shows "\<not> ended p \<and> (\<exists>lines line m q. acIn c = lines @ line # acIn c' \<and> ds' = ds @ chunksOf sid (messages lib lines) \<and>
    alDecode lib line = Inr m \<and> textField m ''method'' = [] \<and> sameID (getField m ''id'') i \<and> responseResult m = Inr q \<and>
    arStop x = textField q ''stopReason'' \<and>
    arReply x = trim_space (if trim_space (textField q ''content'') = [] then ppStreamed p @ concat (chunksOf sid (messages lib lines))
                            else textField q ''content''))"
  using assms
proof (induction rule: promptLoop_rule)
  case (other mv p c s p1 c1)
  from besides_keeps [OF other(1)] other(2) show ?case by metis
next
  case (further p c s p1 c1 s1)
  from further(1) obtain line m where m: "acIn c = line # acIn c1" "alDecode lib line = Inr m" "ended p1 \<longleftrightarrow> ended p"
    "s1 = s @ (if ended p then [] else chunksOf sid [m])" "ppStreamed p1 = ppStreamed p @ concat (if ended p then [] else chunksOf sid [m])"
    by (rule onLine_further)
  from further(2) obtain lines line' m' q where q: "\<not> ended p1" "acIn c1 = lines @ line' # acIn c'" "ds' = s1 @ chunksOf sid (messages lib lines)"
    "alDecode lib line' = Inr m'" "textField m' ''method'' = []" "sameID (getField m' ''id'') i" "responseResult m' = Inr q"
    "arStop x = textField q ''stopReason''"
    "arReply x = trim_space (if trim_space (textField q ''content'') = [] then ppStreamed p1 @ concat (chunksOf sid (messages lib lines))
                            else textField q ''content'')"
    by blast
  have p: "\<not> ended p" and cs: "chunksOf sid (messages lib (line # lines)) = chunksOf sid [m] @ chunksOf sid (messages lib lines)"
    using m(2,3) q(1) by (simp_all add: chunksOf_Cons [of sid m "messages lib lines"])
  show ?case
    by (rule conjI [OF p], rule exI [of _ "line # lines"], rule exI [of _ line'], rule exI [of _ m'], rule exI [of _ q], unfold cs)
      (use p m q in \<open>simp del: messages_simps\<close>)
next
  case (return c s)
  from return show ?case
  proof (rule onLine_answer)
    fix line m q
    assume a: "acIn c = line # acIn c'" "alDecode lib line = Inr m" "ds' = s" "\<not> ended p'" "textField m ''method'' = []"
      "sameID (getField m ''id'') i" "responseResult m = Inr q" "arStop x = textField q ''stopReason''"
      "arReply x = trim_space (if trim_space (textField q ''content'') = [] then ppStreamed p' else textField q ''content'')"
    show ?thesis
      by (rule conjI [OF a(4)], rule exI [of _ "[]"], rule exI [of _ line], rule exI [of _ m], rule exI [of _ q]) (simp add: a)
  qed
qed

subsection \<open>What is written\<close>

definition permissionOptions :: "fields \<Rightarrow> json list" where
  "permissionOptions m = (case getField (objectField m ''params'') ''options'' of Some (JArray vs) \<Rightarrow> vs | _ \<Rightarrow> [])"

definition optionFields :: "json \<Rightarrow> fields" where
  "optionFields v = (case v of JObject o' \<Rightarrow> o' | _ \<Rightarrow> [])"

text \<open>
  An answer to a request for permission that grants nothing: it picks no option, or one that the request of that id offers
  as a way to reject.
\<close>

definition grantsNothing :: "acpLib \<Rightarrow> string list \<Rightarrow> outMessage \<Rightarrow> bool" where
  "grantsNothing lib lines msg =
     (case msg of
        OutPermission i (Some o') \<Rightarrow>
          (\<exists>m\<in>set (messages lib lines). getField m ''id'' = Some i \<and>
             (\<exists>v\<in>set (permissionOptions m). prefix ''reject'' (alLower lib (textField (optionFields v) ''kind'')) \<and>
                textField (optionFields v) ''optionId'' = o'))
      | _ \<Rightarrow> True)"

definition proceeds :: "acpLib \<Rightarrow> acp \<Rightarrow> acp \<Rightarrow> bool" where
  "proceeds lib c c' \<longleftrightarrow>
     (\<exists>lines out. acIn c = lines @ acIn c' \<and> acOut c' = acOut c @ out \<and> (\<forall>msg\<in>set out. grantsNothing lib lines msg))"

lemma messages_append [simp]: "messages lib (ls @ ks) = messages lib ls @ messages lib ks"
  by (simp add: messages_def)

lemma grantsNothing_more: "grantsNothing lib ls msg \<or> grantsNothing lib ks msg \<Longrightarrow> grantsNothing lib (ls @ ks) msg"
  by (auto simp: grantsNothing_def split: outMessage.splits option.splits)

lemma proceeds_refl [simp, intro]: "proceeds lib c c"
  by (auto simp: proceeds_def)

lemma proceeds_same: "acIn c' = acIn c \<Longrightarrow> acOut c' = acOut c \<Longrightarrow> proceeds lib c c'"
  by (auto simp: proceeds_def)

lemma proceeds_trans [trans]:
  assumes "proceeds lib c d" "proceeds lib d e"
  shows "proceeds lib c e"
proof -
  from assms obtain ls out ks out' where "acIn c = ls @ acIn d" "acOut d = acOut c @ out" "\<forall>msg\<in>set out. grantsNothing lib ls msg"
    "acIn d = ks @ acIn e" "acOut e = acOut d @ out'" "\<forall>msg\<in>set out'. grantsNothing lib ks msg"
    unfolding proceeds_def by blast
  then show ?thesis
    unfolding proceeds_def
    by (intro exI [of _ "ls @ ks"] exI [of _ "out @ out'"]) (auto intro: grantsNothing_more)
qed

lemma proceeds_write:
  assumes "acpWrite msg c = (e, c')" "grantsNothing lib [] msg"
  shows "proceeds lib c c'"
proof -
  from acpWrite_keeps [OF assms(1)] have "acIn c' = acIn c" "acOut c' = acOut c \<or> acOut c' = acOut c @ [msg]"
    by simp_all
  with assms(2) show ?thesis
    unfolding proceeds_def by (elim disjE) (auto intro!: exI [of _ "[]"])
qed

lemma grantsNothing_simps [simp]:
  "grantsNothing lib ls (OutInitialize n)" "grantsNothing lib ls (OutNewSession n w)" "grantsNothing lib ls (OutPrompt n w v)"
  "grantsNothing lib ls (OutCancel w)" "grantsNothing lib ls (OutPermission i None)"
  by (simp_all add: grantsNothing_def)

lemma firstReject_rejects:
  "firstReject lower vs \<noteq> [] \<Longrightarrow>
     \<exists>v\<in>set vs. prefix ''reject'' (lower (textField (optionFields v) ''kind'')) \<and> textField (optionFields v) ''optionId'' = firstReject lower vs"
  by (induction vs) (auto simp: Let_def optionFields_def split: if_splits)

lemma rejectPermission_proceeds:
  assumes "rejectPermission lib m c = (e, c')" "acIn b = line # acIn c" "alDecode lib line = Inr m" "acOut c = acOut b"
  shows "proceeds lib b c'"
proof (cases "acOut c' = acOut c")
  case True
  with rejectPermission_keeps [OF assms(1)] assms(2,4) show ?thesis
    unfolding proceeds_def by (auto intro!: exI [of _ "[line]"])
next
  case False
  define o' where "o' = firstReject (alLower lib) (permissionOptions m)"
  have o': "rejectOptionID (alLower lib) m = o'" by (simp add: rejectOptionID_def permissionOptions_def o'_def)
  from False assms(1) obtain i where i: "getField m ''id'' = Some i"
    and w: "acpWrite (OutPermission i (if o' \<noteq> [] then Some o' else None)) c = (e, c')"
    by (auto simp: rejectPermission_def o' Let_def split: option.splits json.splits)
  have "grantsNothing lib [line] (OutPermission i (if o' \<noteq> [] then Some o' else None))"
    using firstReject_rejects [of "alLower lib" "permissionOptions m"] i assms(3) by (simp add: grantsNothing_def o'_def)
  with False acpWrite_keeps [OF w] assms(2,4) show ?thesis
    unfolding proceeds_def by (intro exI [of _ "[line]"] exI [of _ "[OutPermission i (if o' \<noteq> [] then Some o' else None)]"]) simp
qed

fun clientOf :: "'s lineOutcome \<Rightarrow> acp" where
  "clientOf (LineReturns r c s) = c"
| "clientOf (LineNext p c s) = c"

lemma onMessage_client: "clientOf (onMessage lib sid i f m p c s) \<in> {c, snd (rejectPermission lib m c)}"
proof (cases rule: message_cases [where m = m and i = i])
  case update
  then show ?thesis by (simp add: onMessage_def Let_def split: option.split prod.split)
next
  case permission
  then show ?thesis by (simp add: onMessage_permission split: option.split prod.split)
next
  case skip
  then show ?thesis by (simp add: onMessage_skip)
next
  case answer
  then show ?thesis by (simp add: onMessage_answer)
qed

lemma onLine_proceeds:
  assumes "onLine lib sid i f p c s = Some out"
  shows "proceeds lib c (clientOf out)"
  using assms
proof (cases rule: onLine_cases)
  case (bad line rest e e')
  then show ?thesis by (auto simp: proceeds_def intro!: exI [of _ "[line]"])
next
  case (good line rest m)
  have "proceeds lib c (snd (rejectPermission lib m (c\<lparr>acIn := rest\<rparr>)))"
    by (rule rejectPermission_proceeds [of lib m "c\<lparr>acIn := rest\<rparr>" "fst (rejectPermission lib m (c\<lparr>acIn := rest\<rparr>))" _ c line])
      (use good in simp_all)
  moreover have "proceeds lib c (c\<lparr>acIn := rest\<rparr>)"
    using good(1) by (auto simp: proceeds_def intro!: exI [of _ "[line]"])
  ultimately show ?thesis
    using onMessage_client [of lib sid i f m p "c\<lparr>acIn := rest\<rparr>" s] good(3) by auto
qed simp

lemma besides_proceeds:
  assumes "besides sid mv p c = Some (p', c')"
  shows "proceeds lib c c'"
proof -
  have w: "proceeds lib d (snd (acpWrite (OutCancel sid) d))" for d
    by (rule proceeds_write [of "OutCancel sid" d "fst (acpWrite (OutCancel sid) d)"]) simp_all
  have "proceeds lib c (c\<lparr>acLate := n\<rparr>)" for n
    by (rule proceeds_same) simp_all
  from proceeds_trans [OF this w] assms w show ?thesis
    by (cases mv) (auto simp: besides_def acpClose_def intro: proceeds_same split: if_splits)
qed

lemma promptLoop_proceeds:
  assumes "promptLoop lib sid i f mvs p c s = Some (r, p', c', s')"
  shows "proceeds lib c c'"
  using assms
proof (induction rule: promptLoop_rule)
  case (other mv p c s p1 c1)
  from besides_proceeds [OF other(1)] other(2) show ?case by (rule proceeds_trans)
next
  case (further p c s p1 c1 s1)
  from onLine_proceeds [OF further(1)] further(2) show ?case by (auto intro: proceeds_trans)
next
  case (return c s)
  from onLine_proceeds [OF return] show ?case by simp
qed

lemma readResponse_proceeds:
  assumes "readResponse lib i ctx k n c = Some (r, k', c')"
  shows "proceeds lib c c'"
  using assms
proof (induction lib i ctx k n c rule: readResponse.induct)
  case (2 lib i ctx k n c)
  show ?case
  proof (cases "ctx k \<noteq> None \<or> acIn c = []")
    case True
    with 2(3) show ?thesis by (auto simp: acpRead_def split: option.splits)
  next
    case False
    then obtain line rest where l: "acIn c = line # rest" and k: "ctx k = None" by (cases "acIn c") auto
    have r: "proceeds lib c (c\<lparr>acIn := rest\<rparr>)" using l by (auto simp: proceeds_def intro!: exI [of _ "[line]"])
    show ?thesis
    proof (cases "alDecode lib line")
      case (Inl e)
      with 2(3) l k r show ?thesis by (simp add: acpRead_def)
    next
      case (Inr m)
      obtain e d where p: "rejectPermission lib m (c\<lparr>acIn := rest\<rparr>) = (e, d)" by fastforce
      have "proceeds lib c d" using rejectPermission_proceeds [OF p _ Inr] l by simp
      with 2 l k r Inr p show ?thesis
        by (auto simp: acpRead_def split: if_splits option.splits intro: proceeds_trans)
    qed
  qed
qed simp

lemma handshake_proceeds:
  assumes "handshake lib request ctx k c = Some (r, k', c')" "\<And>n. grantsNothing lib [] (request n)"
  shows "proceeds lib c c'"
proof -
  obtain e d where w: "acpWrite (request (Suc (acNext c))) (c\<lparr>acNext := Suc (acNext c)\<rparr>) = (e, d)" by fastforce
  have "proceeds lib c (c\<lparr>acNext := Suc (acNext c)\<rparr>)" by (rule proceeds_same) simp_all
  also have "proceeds lib \<dots> d" using w assms(2) by (rule proceeds_write)
  also have "proceeds lib d c'"
    using assms(1) w by (cases e) (auto simp: handshake_def acpRequestID_def simp del: readResponse.simps
        split: option.splits sum.splits prod.splits dest: readResponse_proceeds)
  finally show ?thesis .
qed

lemma acpWrite_out: "acpWrite msg c = (None, c') \<Longrightarrow> c' = c\<lparr>acOut := acOut c @ [msg]\<rparr> \<and> \<not> acClosed c"
  by (auto simp: acpWrite_def split: if_splits option.splits)

lemma respondStream_proceeds:
  assumes "acpRespondStream lib cerr words f mvs late c s = Some (r, c', s')"
  shows "proceeds lib c c'"
proof -
  define c1 where "c1 = c\<lparr>acBusy := True, acNext := Suc (acNext c)\<rparr>"
  obtain e d where w: "acpWrite (OutPrompt (Suc (acNext c)) (acSession c) words) c1 = (e, d)" by fastforce
  have "proceeds lib c c1" by (rule proceeds_same) (simp_all add: c1_def)
  also have "proceeds lib c1 d" using w by (rule proceeds_write) simp
  finally have d: "proceeds lib c d" .
  have same: "proceeds lib x (x\<lparr>acBusy := False\<rparr>)" "proceeds lib x (leaveWatcher late q x)" for x q
    by (rule proceeds_same; simp add: leaveWatcher_def)+
  from assms d w show ?thesis
    by (cases e)
      (auto simp: acpRespondStream_def acpRequestID_def c1_def split: if_splits option.splits
         dest: promptLoop_proceeds intro: proceeds_trans same)
qed

lemma closeIf_proceeds [intro]: "proceeds lib c (closeIf b c)"
  by (rule proceeds_same) (simp_all add: closeIf_def acpClose_def)

lemma initialize_proceeds:
  assumes "Initialize lib ctx closes c = Some (r, c')"
  shows "proceeds lib c c'"
proof -
  have h0: "proceeds lib c d" if "handshake lib OutInitialize ctx k (closeIf b c) = Some (x, k', d)" for x k k' b d
    using proceeds_trans [OF closeIf_proceeds handshake_proceeds [OF that]] by simp
  have h1: "proceeds lib d d'" if "handshake lib (\<lambda>i. OutNewSession i cwd) ctx k (closeIf b d) = Some (x, k', d')" for x cwd k k' b d d'
    using proceeds_trans [OF closeIf_proceeds handshake_proceeds [OF that]] by simp
  have h2: "proceeds lib x (closeIf b x\<lparr>acSession := t, acInfo := n\<rparr>)" for x b t n
    by (rule proceeds_same) (simp_all add: closeIf_def acpClose_def)
  from assms show ?thesis
    by (auto simp: Initialize_def Let_def split: if_splits option.splits sum.splits prod.splits
        dest!: h0 h1 intro: proceeds_trans h2 closeIf_proceeds)
qed

lemma readResponse_answer:
  assumes "readResponse lib i ctx k n c = Some (Inr m, k', c')"
  shows "(\<exists>lines line. acIn c = lines @ line # acIn c' \<and> alDecode lib line = Inr m) \<and> sameID (getField m ''id'') i \<and>
    acNext c' = acNext c \<and> acCwd c' = acCwd c"
  using assms
proof (induction lib i ctx k n c rule: readResponse.induct)
  case (2 lib i ctx k n c)
  show ?case
  proof (cases "ctx k \<noteq> None \<or> acIn c = []")
    case True
    with 2(3) show ?thesis by (auto simp: acpRead_def split: option.splits)
  next
    case False
    then obtain line rest where l: "acIn c = line # rest" and k: "ctx k = None" by (cases "acIn c") auto
    show ?thesis
    proof (cases "alDecode lib line")
      case (Inl e)
      with 2(3) l k show ?thesis by (simp add: acpRead_def)
    next
      case (Inr m')
      obtain e d where p: "rejectPermission lib m' (c\<lparr>acIn := rest\<rparr>) = (e, d)" by fastforce
      have d: "acIn d = rest" "acNext d = acNext c" "acCwd d = acCwd c"
        using rejectPermission_keeps [OF p] rejectPermission_cwd [OF p] by simp_all
      have more: "(\<exists>lines line. acIn c = lines @ line # acIn c' \<and> alDecode lib line = Inr m)"
        if "\<exists>lines line. rest = lines @ line # acIn c' \<and> alDecode lib line = Inr m"
        using that l by (metis append_Cons)
      show ?thesis
      proof (cases "textField m' ''method'' = ''session/request_permission''")
        case True
        with 2(3) l k Inr p have "e = None" and n: "readResponse lib i ctx (Suc k) n d = Some (Inr m, k', c')"
          by (auto simp: acpRead_def split: option.splits)
        with 2(1) l k Inr p True d more show ?thesis by (auto simp: acpRead_def)
      next
        case other: False
        show ?thesis
        proof (cases "sameID (getField m' ''id'') i")
          case True
          with other 2(3) l k Inr show ?thesis
            by (auto simp: acpRead_def intro!: exI [of _ "[]"] exI [of _ line])
        next
          case False
          with other 2(3) l k Inr have "readResponse lib i ctx (Suc k) n (c\<lparr>acIn := rest\<rparr>) = Some (Inr m, k', c')"
            by (simp add: acpRead_def)
          with 2(2) l k Inr other False more show ?thesis by (auto simp: acpRead_def)
        qed
      qed
    qed
  qed
qed simp

text \<open>A request of the handshake that is answered.\<close>

definition answered :: "acpLib \<Rightarrow> nat \<Rightarrow> fields \<Rightarrow> string list \<Rightarrow> string list \<Rightarrow> bool" where
  "answered lib i r before after \<longleftrightarrow>
     (\<exists>lines line m. before = lines @ line # after \<and> alDecode lib line = Inr m \<and> sameID (getField m ''id'') i \<and> responseResult m = Inr r)"

lemma handshake_answered:
  assumes "handshake lib request ctx k c = Some (Inr r, k', c')"
  shows "answered lib (Suc (acNext c)) r (acIn c) (acIn c') \<and> acNext c' = Suc (acNext c) \<and> acCwd c' = acCwd c \<and>
    (\<exists>out. acOut c' = acOut c @ request (Suc (acNext c)) # out) \<and> \<not> acClosed c"
proof -
  define i where "i = Suc (acNext c)"
  obtain e d where w: "acpWrite (request i) (c\<lparr>acNext := i\<rparr>) = (e, d)" by fastforce
  from assms w have "e = None" by (auto simp: handshake_def acpRequestID_def i_def split: option.splits)
  with assms w obtain m where m: "readResponse lib i ctx k (Suc (length (acIn d))) d = Some (Inr m, k', c')" "responseResult m = Inr r"
    by (auto simp: handshake_def acpRequestID_def i_def [symmetric] simp del: readResponse.simps split: option.splits sum.splits prod.splits)
  from acpWrite_out w \<open>e = None\<close> have d: "d = c\<lparr>acNext := i, acOut := acOut c @ [request i]\<rparr>" "\<not> acClosed c"
    by fastforce+
  from readResponse_proceeds [OF m(1)] obtain out where "acOut c' = acOut d @ out" by (auto simp: proceeds_def)
  with readResponse_answer [OF m(1)] d m(2) show ?thesis
    by (auto simp: answered_def i_def)
qed

lemma initialize_ready:
  assumes "Initialize lib ctx closes c = Some (None, c')"
  shows "acSession c' \<noteq> [] \<and> acCwd c' = acCwd c"
proof -
  have same: "acCwd (closeIf b x) = acCwd x" for b x by (simp add: closeIf_def acpClose_def)
  from assms obtain r k1 c1 r2 k2 c2 where h: "handshake lib OutInitialize ctx 1 (closeIf (closes 0) c) = Some (Inr r, k1, c1)"
      "handshake lib (\<lambda>i. OutNewSession i (acCwd c)) ctx k1 (closeIf (closes 1) c1) = Some (Inr r2, k2, c2)"
    and s: "trim_space (textField r2 ''sessionId'') \<noteq> []"
      "c' = closeIf (closes 2) c2\<lparr>acSession := trim_space (textField r2 ''sessionId''), acInfo := parseAgentInfo (getField r ''agentInfo'')\<rparr>"
    by (auto simp: Initialize_def Let_def split: option.splits sum.splits prod.splits if_splits)
  from handshake_answered [OF h(1)] handshake_answered [OF h(2)] s show ?thesis by (simp add: same)
qed

lemma runtimeClose_closes: "StdinClosed \<in> set (snd (runtimeClose ch b))" "StdoutClosed \<in> set (snd (runtimeClose ch b))"
  by (simp_all add: runtimeClose_def Let_def)

lemma runtimeClose_kills: "ChildKilled \<in> set (snd (runtimeClose ch b)) \<Longrightarrow> ceFirst ch = TimesOut"
  by (auto simp: runtimeClose_def Let_def reaped_def waitForExit_def split: childExit.splits if_splits)

lemma runtimeClose_reaps: "ChildReaped \<notin> set (snd (runtimeClose ch b)) \<Longrightarrow> ceFirst ch = TimesOut \<and> ceSecond ch = TimesOut"
  by (auto simp: runtimeClose_def Let_def reaped_def waitForExit_def split: childExit.splits if_splits)

subsection \<open>The properties of the agent's client\<close>

definition chunkMessage :: "string \<Rightarrow> string \<Rightarrow> fields" where
  "chunkMessage sid words =
     [(''method'', JString ''session/update''),
      (''params'', JObject
        [(''sessionId'', JString sid),
         (''update'', JObject
           [(''sessionUpdate'', JString ''agent_message_chunk''),
            (''content'', JObject [(''type'', JString ''text''), (''text'', JString words)])])])]"

text \<open>An agent of six lines.\<close>

definition agentLib :: acpLib where
  "agentLib = \<lparr>alDecode = (\<lambda>l.
       if l = ''c'' then Inr (chunkMessage ''s'' ''hi'')
       else if l = ''x'' then Inr (chunkMessage ''t'' ''no'')
       else if l = ''p'' then Inr
         [(''id'', JString ''q''), (''method'', JString ''session/request_permission''),
          (''params'', JObject [(''options'', JArray
             [JObject [(''kind'', JString ''allow_once''), (''optionId'', JString ''yes'')],
              JObject [(''kind'', JString ''reject_once''), (''optionId'', JString ''never'')]])])]
       else if l = ''v'' then Inr
         [(''id'', JNumber 1), (''result'', JObject [(''protocolVersion'', JNumber 1), (''agentInfo'', JObject [(''name'', JString ''demo'')])])]
       else if l = ''n'' then Inr [(''id'', JNumber 2), (''result'', JObject [(''sessionId'', JString ''s'')])]
       else if l = ''a'' then Inr [(''id'', JNumber 1), (''result'', JObject [(''stopReason'', JString ''end_turn'')])]
       else if l = ''b'' then Inr [(''id'', JNumber 2), (''result'', JObject [(''stopReason'', JString ''end_turn'')])]
       else Inl (Message ''syntax'')),
     alLower = (\<lambda>w. w)\<rparr>"

definition agentClient :: "string list \<Rightarrow> string \<Rightarrow> acp" where
  "agentClient input sid =
     \<lparr>acCwd = ''/w'', acIn = input, acEnd = None, acOut = [], acFails = (\<lambda>n. None), acClosed = False, acSession = sid, acInfo = noInfo,
      acBusy = False, acNext = 0, acLate = 0\<rparr>"

lemmas agent_simps = agentLib_def agentClient_def chunkMessage_def acpRequestID_def acpWrite_def acpRead_def onLine_def onMessage_def
  rejectPermission_def rejectOptionID_def responseResult_def voiceDelta_def sameID_def numberAsInt_def getField_def textField_def
  objectField_def contextOr_def ended_def ppFlag_def keep_def besides_def leaveWatcher_def Let_def

text \<open>C28.  What the user hears of an agent is what the agent says in his session, in its order.\<close>

theorem acp_speaks_its_session:
  assumes "voiceRespond lib cerr words (Some keep) mvs late c [] = Some (r, c', ds)"
  shows "(\<exists>lines. acIn c = lines @ acIn c' \<and> prefix ds (chunksOf (acSession c) (messages lib lines))) \<and>
    (\<forall>x. r = Inr x \<longrightarrow>
      (\<exists>lines line m q. acIn c = lines @ line # acIn c' \<and> ds = chunksOf (acSession c) (messages lib lines) \<and>
         alDecode lib line = Inr m \<and> textField m ''method'' = [] \<and> sameID (getField m ''id'') (Suc (acNext c)) \<and> responseResult m = Inr q \<and>
         srReply x = trim_space (if trim_space (textField q ''content'') = [] then concat ds else textField q ''content'')))"
proof -
  define p0 where "p0 = \<lparr>ppCtx = None, ppWatch = WatchWaiting, ppStreamed = []\<rparr>"
  obtain e d where w: "acpWrite (OutPrompt (Suc (acNext c)) (acSession c) words) (c\<lparr>acBusy := True, acNext := Suc (acNext c)\<rparr>) = (e, d)"
    by fastforce
  from acpWrite_keeps [OF w] have d: "acIn d = acIn c" by simp
  show ?thesis
  proof (cases "acBusy c \<or> acClosed c \<or> acSession c = [] \<or> cerr \<noteq> None \<or> e \<noteq> None")
    case True
    with assms w d show ?thesis
      by (auto simp: voiceRespond_def acpRespondStream_def acpRequestID_def split: if_splits option.splits)
  next
    case False
    with assms w obtain r1 p c1 where l: "promptLoop lib (acSession c) (Suc (acNext c)) (Some keep) mvs p0 d [] = Some (r1, p, c1, ds)"
      and c': "acIn c' = acIn c1" and r: "\<And>x. r = Inr x \<Longrightarrow> \<exists>y. r1 = Inr y \<and> srReply x = trim_space (arReply y)"
      by (auto simp: voiceRespond_def acpRespondStream_def acpRequestID_def leaveWatcher_def p0_def [symmetric] split: option.splits sum.splits)
    have p0: "\<not> ended p0" "ppStreamed p0 = []" by (simp_all add: p0_def ended_def ppFlag_def)
    have "\<exists>lines line m q. acIn c = lines @ line # acIn c' \<and> ds = chunksOf (acSession c) (messages lib lines) \<and>
         alDecode lib line = Inr m \<and> textField m ''method'' = [] \<and> sameID (getField m ''id'') (Suc (acNext c)) \<and> responseResult m = Inr q \<and>
         srReply x = trim_space (if trim_space (textField q ''content'') = [] then concat ds else textField q ''content'')" if "r = Inr x" for x
    proof -
      from r [OF that] obtain y where y: "r1 = Inr y" "srReply x = trim_space (arReply y)" by blast
      from promptLoop_answer [OF l [unfolded y(1)]] y(2) d c' p0 show ?thesis by auto
    qed
    with promptLoop_prefix [OF l] p0 d c' show ?thesis by auto
  qed
qed

lemma acp_speaks_its_session_witness:
  "\<exists>r c'. voiceRespond agentLib None ''w'' (Some keep) [MvLine, MvLine, MvLine] False (agentClient [''x'', ''c'', ''a''] ''s'') [] = Some (Inr r, c', [''hi'']) \<and>
    srReply r = ''hi'' \<and>
    (\<exists>lines. acIn (agentClient [''x'', ''c'', ''a''] ''s'') = lines @ acIn c' \<and> prefix [''hi''] (chunksOf ''s'' (messages agentLib lines)))"
proof -
  have "\<exists>r c'. voiceRespond agentLib None ''w'' (Some keep) [MvLine, MvLine, MvLine] False (agentClient [''x'', ''c'', ''a''] ''s'') [] =
      Some (Inr r, c', [''hi'']) \<and> srReply r = ''hi''"
    by (simp add: voiceRespond_def acpRespondStream_def agent_simps trim_space_plain byte_val_def)
  moreover have "acSession (agentClient [''x'', ''c'', ''a''] ''s'') = ''s''"
    by (simp add: agentClient_def)
  ultimately show ?thesis
    using acp_speaks_its_session by metis
qed

text \<open>C27.  The program never grants an agent's request for permission.\<close>

theorem acp_grants_nothing:
  assumes "acpRespondStream lib cerr words f mvs late c s = Some (r, c', s') \<or> Initialize lib ctx closes c = Some (e, c')"
  shows "\<exists>lines out. acIn c = lines @ acIn c' \<and> acOut c' = acOut c @ out \<and> (\<forall>msg\<in>set out. grantsNothing lib lines msg)"
proof -
  from assms have "proceeds lib c c'"
    by (elim disjE) (rule respondStream_proceeds initialize_proceeds, assumption)+
  then show ?thesis by (simp add: proceeds_def)
qed

lemma acp_grants_nothing_witness:
  "\<exists>r c' s'. acpRespondStream agentLib None ''w'' (Some keep) [MvLine, MvLine] False (agentClient [''p'', ''a''] ''s'') [] = Some (r, c', s') \<and>
    acOut c' = [OutPrompt 1 ''s'' ''w'', OutPermission (JString ''q'') (Some ''never'')] \<and>
    (\<exists>lines out. acIn (agentClient [''p'', ''a''] ''s'') = lines @ acIn c' \<and> acOut c' = acOut (agentClient [''p'', ''a''] ''s'') @ out \<and>
       (\<forall>msg\<in>set out. grantsNothing agentLib lines msg))"
proof -
  have "\<exists>r c' s'. acpRespondStream agentLib None ''w'' (Some keep) [MvLine, MvLine] False (agentClient [''p'', ''a''] ''s'') [] = Some (r, c', s') \<and>
    acOut c' = [OutPrompt 1 ''s'' ''w'', OutPermission (JString ''q'') (Some ''never'')]"
    by (simp add: acpRespondStream_def agent_simps trim_space_plain byte_val_def)
  then show ?thesis
    using acp_grants_nothing by metis
qed

text \<open> A client is ready only with an agent of version one that has opened a session for it.\<close>

theorem acp_session_established:
  assumes "Initialize lib ctx closes c = Some (None, c')"
  shows "\<not> acClosed c' \<and> acSession c' \<noteq> [] \<and>
    (\<exists>r r2 between. answered lib (acNext c + 1) r (acIn c) between \<and> answered lib (acNext c + 2) r2 between (acIn c') \<and>
       numberAsInt (getField r ''protocolVersion'') = Some 1 \<and> acSession c' = trim_space (textField r2 ''sessionId'') \<and>
       acInfo c' = parseAgentInfo (getField r ''agentInfo'')) \<and>
    (\<exists>out1 out2. acOut c' = acOut c @ OutInitialize (acNext c + 1) # out1 @ OutNewSession (acNext c + 2) (acCwd c) # out2)"
proof -
  have keepIf: "acIn (closeIf b x) = acIn x" "acNext (closeIf b x) = acNext x" "acCwd (closeIf b x) = acCwd x" "acOut (closeIf b x) = acOut x" for b x
    by (simp_all add: closeIf_def acpClose_def)
  from assms obtain r k1 c1 where h1: "handshake lib OutInitialize ctx 1 (closeIf (closes 0) c) = Some (Inr r, k1, c1)"
    and v: "numberAsInt (getField r ''protocolVersion'') = Some 1"
    by (auto simp: Initialize_def split: option.splits sum.splits prod.splits if_splits)
  with assms obtain r2 k2 c2 where h2: "handshake lib (\<lambda>i. OutNewSession i (acCwd c)) ctx k1 (closeIf (closes 1) c1) = Some (Inr r2, k2, c2)"
    by (auto simp: Initialize_def split: option.splits sum.splits prod.splits if_splits)
  from assms h1 v h2 have s: "trim_space (textField r2 ''sessionId'') \<noteq> []" "\<not> acClosed (closeIf (closes 2) c2)"
    "c' = closeIf (closes 2) c2\<lparr>acSession := trim_space (textField r2 ''sessionId''), acInfo := parseAgentInfo (getField r ''agentInfo'')\<rparr>"
    by (auto simp: Initialize_def Let_def split: option.splits if_splits)
  from handshake_answered [OF h1] obtain out1 where a1: "acOut c1 = acOut c @ OutInitialize (acNext c + 1) # out1"
    "answered lib (acNext c + 1) r (acIn c) (acIn c1)" "acNext c1 = acNext c + 1"
    by (auto simp: keepIf)
  from handshake_answered [OF h2] a1(1,3) obtain out2 where a2:
    "acOut c2 = acOut c @ OutInitialize (acNext c + 1) # out1 @ OutNewSession (acNext c + 2) (acCwd c) # out2"
    "answered lib (acNext c + 2) r2 (acIn c1) (acIn c2)"
    by (auto simp: keepIf)
  from a1 a2 s v show ?thesis
    by (intro conjI exI [of _ out1] exI [of _ out2] exI [of _ r] exI [of _ r2] exI [of _ "acIn c1"]) (simp_all add: keepIf)
qed

lemma acp_session_established_witness:
  "\<exists>c'. Initialize agentLib (\<lambda>k. None) (\<lambda>k. False) (agentClient [''c'', ''v'', ''p'', ''n''] []) = Some (None, c') \<and>
    acSession c' = ''s'' \<and> \<not> acClosed c'"
proof -
  have "\<exists>c'. Initialize agentLib (\<lambda>k. None) (\<lambda>k. False) (agentClient [''c'', ''v'', ''p'', ''n''] []) = Some (None, c') \<and> acSession c' = ''s''"
    by (simp add: Initialize_def handshake_def closeIf_def parseAgentInfo_def agent_simps trim_space_plain byte_val_def)
  then show ?thesis
    using acp_session_established by metis
qed


definition demoSpawn :: "string list \<Rightarrow> spawnEnv" where
  "demoSpawn input = \<lparr>spStdin = None, spStdout = None, spStart = None,
     spChild = \<lparr>ceStdinClose = None, ceFirst = TimesOut, ceKill = None, ceSecond = ExitsStatus (Message ''killed''), ceStdoutClose = None\<rparr>,
     spIn = input, spEnd = Some EOF, spFails = (\<lambda>n. None)\<rparr>"

definition demoRuntime :: runtimeConfig where
  "demoRuntime = \<lparr>rcBinary = ''/bin/agent'', rcArgs = [''-q''], rcCwd = ''/w'', rcShutdown = 0\<rparr>"


text \<open>An agent that neither ends nor dies is left behind, and closing reports no error.\<close>

lemma unreaped_agent_is_not_reported:
  "runtimeClose \<lparr>ceStdinClose = None, ceFirst = TimesOut, ceKill = None, ceSecond = TimesOut, ceStdoutClose = None\<rparr> True =
     ([], [StdinClosed, ChildKilled, StdoutClosed])"
  by (simp add: runtimeClose_def waitForExit_def isExpectedExitAfterKill_def reaped_def)

text \<open>A prompt whose callback fails leaves the rest of its answer to be read as part of the next one.\<close>

lemma unread_chunk_reaches_next_prompt:
  "\<exists>c1 c2 r.
     acpRespondStream agentLib None ''one'' (Some (\<lambda>d s. (Some (Message ''full''), s))) [MvLine] False (agentClient [''c'', ''c'', ''a'', ''b''] ''s'') ()
       = Some (Inl (AcpCallback (Message ''full'')), c1, ()) \<and>
     acpRespondStream agentLib None ''two'' (Some keep) [MvLine, MvLine, MvLine] False c1 [] = Some (Inr r, c2, [''hi'']) \<and> arReply r = ''hi''"
  by (simp add: acpRespondStream_def agent_simps trim_space_plain byte_val_def)

text \<open>The cancellation of a prompt can be written after the next prompt of the same session.\<close>

lemma late_cancel_follows_next_prompt:
  "\<exists>c1 c2 r.
     acpRespondStream agentLib None ''one'' (Some keep) [MvCtxEnds Canceled, MvFlag, MvLine] False (agentClient [''a'', ''b''] ''s'') []
       = Some (Inl (AcpContext Canceled), c1, []) \<and>
     acpRespondStream agentLib None ''two'' (Some keep) [MvLateCancel, MvLine] False c1 [] = Some (Inr r, c2, []) \<and>
     acOut c2 = [OutPrompt 1 ''s'' ''one'', OutPrompt 2 ''s'' ''two'', OutCancel ''s'']"
  by (simp add: acpRespondStream_def agent_simps trim_space_plain byte_val_def)

lemma onLine_silent: "onLine lib sid i f p c s = Some out \<Longrightarrow> acIn c = [] \<Longrightarrow> acEnd c \<noteq> None"
  by (auto simp: onLine_def acpRead_def split: option.splits)

text \<open>A prompt to an agent that falls silent does not return, whatever else happens: its context may end, or the client be closed.\<close>

lemma silent_agent_blocks_prompt:
  assumes "acIn c = []" "acEnd c = None" "acFails c (length (acOut c)) = None" "\<not> acBusy c" "\<not> acClosed c" "acSession c \<noteq> []"
  shows "acpRespondStream lib None words f mvs late c s = None"
proof -
  have "promptLoop lib sid i f mvs p d s \<noteq> Some out" if "acIn d = []" "acEnd d = None" for sid i mvs p d out
  proof
    assume "promptLoop lib sid i f mvs p d s = Some out"
    then have "promptLoop lib sid i f mvs p d s = Some (fst out, fst (snd out), fst (snd (snd out)), snd (snd (snd out)))" by simp
    then have "acIn d = [] \<longrightarrow> acEnd d = None \<longrightarrow> False"
      by (induction rule: promptLoop_rule) (auto dest: besides_keeps onLine_silent)
    with that show False by simp
  qed
  with assms show ?thesis
    by (auto simp: acpRespondStream_def acpRequestID_def acpWrite_def split: option.splits)
qed

text \<open>
  A line that ends the prompt \<open>i\<close>: one that cannot be decoded, or its answer.  With such a line, or an end of the stream, reading the
  lines is enough for a prompt to return.
\<close>

definition endsPrompt :: "acpLib \<Rightarrow> nat \<Rightarrow> string \<Rightarrow> bool" where
  "endsPrompt lib i line \<longleftrightarrow>
     (case alDecode lib line of Inl e \<Rightarrow> True | Inr m \<Rightarrow> textField m ''method'' = [] \<and> sameID (getField m ''id'') i)"

lemma onLine_line:
  assumes "acIn c = line # rest"
  obtains out where "onLine lib sid i f p c s = Some out" "\<And>p1 c1 s1. out = LineNext p1 c1 s1 \<Longrightarrow> acIn c1 = rest \<and> acEnd c1 = acEnd c \<and> \<not> endsPrompt lib i line"
proof (cases "alDecode lib line")
  case (Inl e)
  with assms that show thesis by (simp add: onLine_def acpRead_def)
next
  case (Inr m)
  define out where "out = onMessage lib sid i f m p (c\<lparr>acIn := rest\<rparr>) s"
  from Inr assms have o: "onLine lib sid i f p c s = Some out" by (simp add: onLine_def acpRead_def out_def)
  have "acIn (clientOf out) = rest \<and> acEnd (clientOf out) = acEnd c"
    using onMessage_client [of lib sid i f m p "c\<lparr>acIn := rest\<rparr>" s]
      rejectPermission_keeps [of lib m "c\<lparr>acIn := rest\<rparr>" "fst (rejectPermission lib m (c\<lparr>acIn := rest\<rparr>))" "snd (rejectPermission lib m (c\<lparr>acIn := rest\<rparr>))"]
    by (auto simp: out_def)
  moreover have "\<not> endsPrompt lib i line" if "out = LineNext p1 c1 s1" for p1 c1 s1
    using that onMessage_answer [of m i lib sid f p "c\<lparr>acIn := rest\<rparr>" s] by (auto simp: out_def endsPrompt_def Inr)
  ultimately show thesis using that o by fastforce
qed

lemma promptLoop_lines:
  "acIn c = ls \<Longrightarrow> acEnd c \<noteq> None \<or> (\<exists>line\<in>set ls. endsPrompt lib i line) \<Longrightarrow>
   \<exists>n \<le> Suc (length ls). promptLoop lib sid i f (replicate n MvLine) p c s \<noteq> None"
proof (induction ls arbitrary: p c s)
  case Nil
  then obtain e where "acEnd c = Some e" by auto
  with Nil(1) have "promptLoop lib sid i f (replicate 1 MvLine) p c s \<noteq> None"
    by (simp add: onLine_def acpRead_def)
  then show ?case by (intro exI [of _ 1]) simp
next
  case (Cons line rest)
  obtain out where o: "onLine lib sid i f p c s = Some out"
    and n: "\<And>p1 c1 s1. out = LineNext p1 c1 s1 \<Longrightarrow> acIn c1 = rest \<and> acEnd c1 = acEnd c \<and> \<not> endsPrompt lib i line"
    by (rule onLine_line [OF Cons.prems(1), of lib sid i f p s]) (rule that)
  show ?case
  proof (cases out)
    case (LineReturns r c1 s1)
    with o have "promptLoop lib sid i f (replicate 1 MvLine) p c s \<noteq> None" by simp
    then show ?thesis by (intro exI [of _ 1]) simp
  next
    case (LineNext p1 c1 s1)
    from n [OF this] have c1: "acIn c1 = rest" "acEnd c1 = acEnd c" "\<not> endsPrompt lib i line" by simp_all
    from Cons.prems(2) c1(2,3) have "acEnd c1 \<noteq> None \<or> (\<exists>line\<in>set rest. endsPrompt lib i line)" by simp
    from Cons.IH [OF c1(1) this] obtain k where k: "k \<le> Suc (length rest)" "promptLoop lib sid i f (replicate k MvLine) p1 c1 s1 \<noteq> None"
      by blast
    from o LineNext have "promptLoop lib sid i f (replicate (Suc k) MvLine) p c s = promptLoop lib sid i f (replicate k MvLine) p1 c1 s1"
      by simp
    with k show ?thesis by (intro exI [of _ "Suc k"]) (simp only: length_Cons Suc_le_mono simp_thms not_False_eq_True)
  qed
qed



end
