(* ===== verification/Engines.thy ===== *)
theory Engines
  imports Config Vad
begin

text \<open>
  The speech engines that run inside the program itself and the calibration tool.  The sherpa-onnx binding is a parameter: an
  engine of any type, what a decode of a stream gives, and what a synthesis gives.
\<close>

section \<open>Speech to text in the process (\<^verbatim>\<open>internal/stt\<close>)\<close>

subsection \<open>The filter of a transcript\<close>

definition maxNonVerbalMarkerRunes :: nat where "maxNonVerbalMarkerRunes = 64"

definition runesOf :: "string \<Rightarrow> rune list" where
  "runesOf s = map snd (go_range s)"

definition isNonVerbalMarker :: "string \<Rightarrow> bool" where
  "isNonVerbalMarker s =
     (if rune_count s < 2 \<or> maxNonVerbalMarkerRunes < rune_count s then False
      else
       (let runes = runesOf s in
        if hd runes = byte_val CHR ''['' then last runes = byte_val CHR '']''
        else if hd runes = byte_val CHR ''('' then last runes = byte_val CHR '')''
        else False))"

definition filterTranscript :: "string \<Rightarrow> string" where
  "filterTranscript s = (let t = trim_space s in if t = [] \<or> isNonVerbalMarker t then [] else t)"

lemma filterTranscript_idem [simp]: "filterTranscript (filterTranscript s) = filterTranscript s"
  by (simp add: filterTranscript_def Let_def)

lemma filterTranscript_result:
  "filterTranscript s = [] \<or> (filterTranscript s = trim_space s \<and> \<not> isNonVerbalMarker (filterTranscript s))"
  by (simp add: filterTranscript_def Let_def)

text \<open>A marker is given back as nothing, however it is padded.\<close>

lemma filterTranscript_blank: "trim_space s = [] \<Longrightarrow> filterTranscript s = []"
  by (simp add: filterTranscript_def)

text \<open>Only the ends of a text are looked at: a sentence that stands between two remarks is dropped with them.\<close>

lemma sentence_between_remarks_dropped: "filterTranscript ''(si) enciende la luz (ya)'' = []"
  by (simp add: filterTranscript_def isNonVerbalMarker_def maxNonVerbalMarkerRunes_def runesOf_def rune_count_def go_range_def
      go_range_from_Cons decode_rune_ascii byte_val_def trim_space_plain Let_def)

subsection \<open>The transcriber\<close>

record recognizerConfig =
  rzSampleRate :: int
  rzFeatureDim :: int
  rzEncoder :: string
  rzDecoder :: string
  rzTokens :: string
  rzTailPaddings :: int
  rzLanguage :: string
  rzTask :: string
  rzNumThreads :: int
  rzProvider :: string

definition recognizerFor :: "sttConfig \<Rightarrow> int \<Rightarrow> recognizerConfig" where
  "recognizerFor cfg rate =
     \<lparr>rzSampleRate = rate, rzFeatureDim = 80, rzEncoder = stEncoder cfg, rzDecoder = stDecoder cfg, rzTokens = stTokens cfg,
      rzTailPaddings = -1,
      rzLanguage = (if stLanguage cfg \<noteq> [] \<and> stLanguage cfg \<noteq> ''auto'' then stLanguage cfg else []),
      rzTask = (if stTranslate cfg then ''translate'' else ''transcribe''),
      rzNumThreads = 4, rzProvider = ''cpu''\<rparr>"

record 'r transcriber =
  trRecognizer :: "'r option"
  trSampleRate :: int

definition NewTranscriber :: "(recognizerConfig \<Rightarrow> 'r option) \<Rightarrow> sttConfig \<Rightarrow> int \<Rightarrow> go_error + 'r transcriber" where
  "NewTranscriber sherpaNew cfg rate =
     (case sherpaNew (recognizerFor cfg rate) of
        None \<Rightarrow> Inl (Message ''sherpa recognizer: nil'')
      | Some r \<Rightarrow> Inr \<lparr>trRecognizer = Some r, trSampleRate = rate\<rparr>)"

text \<open>What is done with the binding.\<close>

datatype 'r engineCall = DeleteRecognizer 'r | NewStream 'r | DecodeStream 'r "real list" | DeleteStream 'r

definition closeTranscriber :: "'r transcriber \<Rightarrow> 'r transcriber \<times> 'r engineCall list" where
  "closeTranscriber t =
     (case trRecognizer t of
        None \<Rightarrow> (t, [])
      | Some r \<Rightarrow> (t\<lparr>trRecognizer := None\<rparr>, [DeleteRecognizer r]))"

record 'r sherpaStt =
  ssStream :: "'r \<Rightarrow> bool"
  ssText :: "'r \<Rightarrow> int \<Rightarrow> real list \<Rightarrow> string"

text \<open>\<open>ctx k\<close> is the \<open>k\<close>-th look at the context; \<open>t\<close> is the transcriber once its lock is held, which a \<^verbatim>\<open>Close\<close> may have emptied.\<close>

definition TranscribeBuffer ::
  "'r sherpaStt \<Rightarrow> (nat \<Rightarrow> go_error option) \<Rightarrow> buffer \<Rightarrow> 'r transcriber \<Rightarrow> (go_error + string) \<times> 'r engineCall list"
where
  "TranscribeBuffer lib ctx b t =
     (case ctx 0 of
        Some e \<Rightarrow> (Inl e, [])
      | None \<Rightarrow>
        if Empty b then (Inr [], [])
        else
        (case Validate b of
           Some e \<Rightarrow> (Inl e, [])
         | None \<Rightarrow>
           if SampleRate b \<noteq> trSampleRate t then (Inl (Message ''unexpected sample rate''), [])
           else
           (case trRecognizer t of
              None \<Rightarrow> (Inl (Message ''transcriber is not initialized''), [])
            | Some r \<Rightarrow>
              (case ctx 1 of
                 Some e \<Rightarrow> (Inl e, [])
               | None \<Rightarrow>
                 if \<not> ssStream lib r then (Inl (Message ''sherpa stream: nil''), [])
                 else
                  ((case ctx 2 of
                      Some e \<Rightarrow> Inl e
                    | None \<Rightarrow> Inr (filterTranscript (ssText lib r (SampleRate b) (Samples b)))),
                   [NewStream r, DecodeStream r (Samples b), DeleteStream r])))))"

text \<open>Every decode runs on a stream of the live recognizer that is deleted after it, and only on a valid buffer of the model's rate.\<close>

lemma transcribe_calls:
  assumes "TranscribeBuffer lib ctx b t = (r, calls)"
  shows "calls = [] \<or>
    (\<exists>e. trRecognizer t = Some e \<and> calls = [NewStream e, DecodeStream e (Samples b), DeleteStream e] \<and>
       Samples b \<noteq> [] \<and> Validate b = None \<and> SampleRate b = trSampleRate t)"
  using assms by (auto simp: TranscribeBuffer_def Empty_def split: if_splits option.splits)

lemma transcribe_text:
  assumes "TranscribeBuffer lib ctx b t = (Inr x, calls)"
  shows "filterTranscript x = x \<and> ctx 0 = None \<and> (x \<noteq> [] \<longrightarrow> ctx 1 = None \<and> ctx 2 = None)"
  using assms by (auto simp: TranscribeBuffer_def filterTranscript_blank split: if_splits option.splits)

lemma closed_transcriber_refuses:
  assumes "TranscribeBuffer lib ctx b (fst (closeTranscriber t)) = (Inr x, calls)"
  shows "x = [] \<and> calls = []"
  using assms by (auto simp: TranscribeBuffer_def closeTranscriber_def split: if_splits option.splits)

lemma closeTranscriber_once: "snd (closeTranscriber (fst (closeTranscriber t))) = []"
  by (simp add: closeTranscriber_def split: option.split)

section \<open>Text to speech in the process (\<^verbatim>\<open>internal/tts\<close>)\<close>

record vitsConfig =
  vzModel :: string
  vzTokens :: string
  vzDataDir :: string
  vzNoiseScale :: float64
  vzNoiseScaleW :: float64
  vzLengthScale :: float64
  vzNumThreads :: int
  vzProvider :: string

definition vitsFor :: "ttsConfig \<Rightarrow> vitsConfig" where
  "vitsFor cfg =
     \<lparr>vzModel = ttModel cfg, vzTokens = ttTokens cfg, vzDataDir = ttDataDir cfg, vzNoiseScale = ttNoiseScale cfg, vzNoiseScaleW = ttNoiseW cfg,
      vzLengthScale = ttLengthScale cfg, vzNumThreads = 4, vzProvider = ''cpu''\<rparr>"

record 'r synthesizer =
  syCfg :: ttsConfig
  syEngine :: "'r option"

definition NewSynthesizer :: "(vitsConfig \<Rightarrow> 'r option) \<Rightarrow> ttsConfig \<Rightarrow> go_error + 'r synthesizer" where
  "NewSynthesizer sherpaNew cfg =
     (case sherpaNew (vitsFor cfg) of
        None \<Rightarrow> Inl (Message ''sherpa tts: nil'')
      | Some r \<Rightarrow> Inr \<lparr>syCfg = cfg, syEngine = Some r\<rparr>)"

definition closeSynthesizer :: "'r synthesizer \<Rightarrow> 'r synthesizer \<times> 'r list" where
  "closeSynthesizer s = (case syEngine s of None \<Rightarrow> (s, []) | Some r \<Rightarrow> (s\<lparr>syEngine := None\<rparr>, [r]))"

text \<open>The samples and the rate of one generation, if there is one: of the engine, the speaker and the text.\<close>

type_synonym 'r generate = "'r \<Rightarrow> int \<Rightarrow> string \<Rightarrow> (real list \<times> int) option"

definition Synthesise :: "'r generate \<Rightarrow> 'r \<Rightarrow> string \<Rightarrow> 'r synthesizer \<Rightarrow> go_error + real list \<times> int" where
  "Synthesise gen r words s =
     (case gen r (ttSpeakerID (syCfg s)) words of
        None \<Rightarrow> Inl (Message ''sherpa tts: nil generated audio'')
      | Some g \<Rightarrow> Inr g)"

definition SynthesizeText :: "'r generate \<Rightarrow> (nat \<Rightarrow> go_error option) \<Rightarrow> string \<Rightarrow> 'r synthesizer \<Rightarrow> go_error + buffer" where
  "SynthesizeText gen ctx words0 s =
     (case syEngine s of
        None \<Rightarrow> Inl (Message ''synthesizer is not initialized'')
      | Some r \<Rightarrow>
        (case ctx 0 of
           Some e \<Rightarrow> Inl e
         | None \<Rightarrow>
           (let words = trim_space words0 in
            if words = [] then Inr no_buffer
            else
            (case Synthesise gen r words s of
               Inl e \<Rightarrow> Inl e
             | Inr (samples, rate) \<Rightarrow>
               (case ctx 1 of
                  Some e \<Rightarrow> Inl e
                | None \<Rightarrow> Inr \<lparr>Samples = samples, SampleRate = rate, Channels = 1\<rparr>)))))"

text \<open>What is synthesized is mono, and can be played whenever the engine gives a rate.\<close>

lemma synthesized_buffer:
  assumes "SynthesizeText gen ctx words s = Inr b"
  shows "if trim_space words = [] then b = no_buffer
    else Channels b = 1 \<and> (\<exists>r. syEngine s = Some r \<and> gen r (ttSpeakerID (syCfg s)) (trim_space words) = Some (Samples b, SampleRate b)) \<and>
      (0 < SampleRate b \<longrightarrow> Validate b = None)"
  using assms by (auto simp: SynthesizeText_def Synthesise_def Validate_def Let_def split: option.splits sum.splits if_splits)

lemma closed_synthesizer_refuses: "\<exists>e. SynthesizeText gen ctx words (fst (closeSynthesizer s)) = Inl e"
  by (simp add: SynthesizeText_def closeSynthesizer_def split: option.split)

section \<open>The calibration tool (\<^verbatim>\<open>cmd/calibrate\<close>)\<close>

text \<open>The bytes that \<^verbatim>\<open>arecord\<close> gave, or how it failed; what is printed is the threshold.\<close>

definition calibrateArgs :: "(int \<Rightarrow> string) \<Rightarrow> string \<Rightarrow> int \<Rightarrow> int \<Rightarrow> string list" where
  "calibrateArgs itoa device rate duration =
     [''-D'', device, ''-f'', ''S16_LE'', ''-r'', itoa rate, ''-c'', ''1'', ''-d'', itoa duration, ''-t'', ''raw'', ''-q'', ''-'']"

definition calibrate :: "go_error + 8 word list \<Rightarrow> int \<Rightarrow> go_error + real" where
  "calibrate recorded rate =
     (case recorded of
        Inl e \<Rightarrow> Inl e
      | Inr raw \<Rightarrow>
          (let samples = pcmToFloat32 raw in
           if length samples = 0 then Inl (Message ''no audio captured'')
           else Inr (SuggestedThreshold (MeasureNoise samples (rate * 80 div 1000)))))"

text \<open>What is printed for the configuration, with the threshold to four places.\<close>

definition calibrateReport :: "(real \<Rightarrow> string) \<Rightarrow> real \<Rightarrow> string list" where
  "calibrateReport places4 t =
     [''# Paste into config.yaml '' @ [CHR 0xE2, CHR 0x86, CHR 0x92] @ '' audio section:'', ''audio:'', ''  silence_threshold: '' @ places4 t,
      ''  silence_duration_ms: 1500  # increase to 1800 for deliberate/slow speech'']"

lemma calibrate_floor: "calibrate recorded rate = Inr t \<Longrightarrow> 5 / 1000 \<le> t"
  by (auto simp: calibrate_def SuggestedThreshold_def Let_def split: sum.splits if_splits)

text \<open>A recording that is shorter than a chunk is measured as silence.\<close>

lemma short_recording_is_silence:
  "calibrate (Inr [0, 127, 0, 127]) 16000 = Inr (5 / 1000)"
  by (simp add: calibrate_def MeasureNoise_def SuggestedThreshold_def pcmToFloat32_def)

end
