(* ===== verification/Gateway.thy ===== *)
theory Gateway
  imports Startup Acp
begin

text \<open>
  The voice gateway: the agent process of Acp started with the settings that Config validated, as the response runtime of Startup.
\<close>

section \<open>Starting the external agent (\<^verbatim>\<open>cmd/assistant/voice_gateway_runtime.go\<close>)\<close>

definition gatewayRuntimeConfig :: "agentConfig \<Rightarrow> runtimeConfig" where
  "gatewayRuntimeConfig a =
     \<lparr>rcBinary = acBinary (agACP a), rcArgs = acArgs (agACP a), rcCwd = acCWD (agACP a), rcShutdown = 5000000000\<rparr>"

text \<open>What starting the agent answers to the construction of the response runtime; \<open>shown\<close> makes the error a general one.\<close>

definition gatewayAnswers :: "(acpError \<Rightarrow> go_error) \<Rightarrow> (acpError + acp) \<Rightarrow> answers \<Rightarrow> answers" where
  "gatewayAnswers shown r ans = ans(StartAcp := (case r of Inl e \<Rightarrow> Some (shown e) | Inr c \<Rightarrow> None), AcpResponder := None)"

lemma trimArgs_blank: "blankArg i as = None \<Longrightarrow> trimArgs j as = Inr (map trim_space as)"
  by (induction as arbitrary: i j) (auto split: if_splits)

lemma validated_runtime_config:
  assumes "validateAgent w a = Inr ''voice_gateway''"
  shows "validateRuntimeConfig (osStat w) (gatewayRuntimeConfig a) =
    Inr \<lparr>rcBinary = trim_space (acBinary (agACP a)), rcArgs = map trim_space (acArgs (agACP a)), rcCwd = trim_space (acCWD (agACP a)),
         rcShutdown = 5000000000\<rparr> \<and> IsAbs (trim_space (acCWD (agACP a))) \<and> trim_space (acCWD (agACP a)) \<noteq> []"
proof -
  from assms have b: "validateExecutable w ''agent.acp.binary'' (acBinary (agACP a)) = None" "blankArg 0 (acArgs (agACP a)) = None"
    and c: "trim_space (acCWD (agACP a)) \<noteq> []" "IsAbs (trim_space (acCWD (agACP a)))"
      "validateDirectory w ''agent.acp.cwd'' (trim_space (acCWD (agACP a))) = None"
    by (auto simp: validateAgent_def Let_def split: if_splits option.splits)
  from b(1) have "trim_space (acBinary (agACP a)) \<noteq> []" by (simp add: validateExecutable_def split: if_splits)
  moreover from c(1,3) obtain n where "osStat w (trim_space (acCWD (agACP a))) = Inr n" "isDir n"
    by (auto simp: validateDirectory_def require_def split: if_splits sum.splits)
  ultimately show ?thesis
    using trimArgs_blank [OF b(2), of 0] c(1,2) by (simp add: validateRuntimeConfig_def gatewayRuntimeConfig_def)
qed

text \<open>
  C26. A validated gateway starts: with settings that passed validation the only things that can keep the agent from starting are a context that
  has ended, its pipes, the start of its process and the handshake with it; once these succeed there is a client with a session,
  and the response runtime of the program is open.
\<close>

theorem validated_gateway_starts:
  assumes "validateAgent w (cfAgent c) = Inr ''voice_gateway''"
    and "StartRuntime lib (osStat w) ctx env (gatewayRuntimeConfig (cfAgent c)) = Some (r, evs)"
    and "ctx 0 = None" "spStdin env = None" "spStdout env = None" "spStart env = None"
  shows "(case r of
      Inl e \<Rightarrow> (\<exists>x. e = AcpWrapped ''initialize ACP'' x) \<and> newVoiceGatewayRuntime (gatewayAnswers shown r ans) = (Inl (Wrapped ''ACP runtime'' (shown e)), [])
    | Inr client \<Rightarrow> acSession client \<noteq> [] \<and> acCwd client = trim_space (acCWD (agACP (cfAgent c))) \<and>
        newVoiceGatewayRuntime (gatewayAnswers shown r ans) = (Inr [AcpAgent], [Opened AcpAgent]))"
proof -
  define cl where "cl = \<lparr>acCwd = trim_space (acCWD (agACP (cfAgent c))), acIn = spIn env, acEnd = spEnd env, acOut = [], acFails = spFails env,
    acClosed = False, acSession = [], acInfo = noInfo, acBusy = False, acNext = 0, acLate = 0\<rparr>"
  from validated_runtime_config [OF assms(1)]
  have n: "acpNewClient (spIn env) (spEnd env) (spFails env) (trim_space (acCWD (agACP (cfAgent c)))) = Inr cl"
    and v: "validateRuntimeConfig (osStat w) (gatewayRuntimeConfig (cfAgent c)) =
      Inr \<lparr>rcBinary = trim_space (acBinary (agACP (cfAgent c))), rcArgs = map trim_space (acArgs (agACP (cfAgent c))),
         rcCwd = trim_space (acCWD (agACP (cfAgent c))), rcShutdown = 5000000000\<rparr>"
    by (simp_all add: acpNewClient_def cl_def)
  from assms(2-6) n v obtain err c1 where i: "Initialize lib (\<lambda>k. ctx (Suc k)) (\<lambda>k. False) cl = Some (err, c1)"
    and r: "r = (case err of Some e \<Rightarrow> Inl (AcpWrapped ''initialize ACP'' e) | None \<Rightarrow> Inr c1)"
    by (auto simp: StartRuntime_def split: option.splits)
  show ?thesis
  proof (cases err)
    case (Some e)
    with r show ?thesis by (simp add: newVoiceGatewayRuntime_def gatewayAnswers_def)
  next
    case None
    with i have "acSession c1 \<noteq> []" "acCwd c1 = acCwd cl"
      using initialize_ready by blast+
    with r None show ?thesis by (simp add: newVoiceGatewayRuntime_def gatewayAnswers_def cl_def)
  qed
qed

definition demoGateway :: config where
  "demoGateway = startConfig\<lparr>cfAgent := \<lparr>agMode = ''voice_gateway'', agACP = \<lparr>acBinary = ''/m'', acArgs = [''acp''], acCWD = ''/work''\<rparr>\<rparr>\<rparr>"

lemma validated_gateway_starts_witness:
  "\<exists>client. StartRuntime agentLib (osStat startWorld) (\<lambda>k. None) (demoSpawn [''v'', ''n'']) (gatewayRuntimeConfig (cfAgent demoGateway)) =
      Some (Inr client, [ChildStarted]) \<and> acCwd client = ''/work'' \<and>
    newVoiceGatewayRuntime (gatewayAnswers (\<lambda>e. EOF) (Inr client) (\<lambda>c. None)) = (Inr [AcpAgent], [Opened AcpAgent])"
proof -
  have v: "validateAgent startWorld (cfAgent demoGateway) = Inr ''voice_gateway''"
    by (simp add: validateAgent_def validateExecutable_def validateDirectory_def require_def demoGateway_def start_paths
        executableFile_def isDir_def isRegular_def IsAbs_def trim_space_plain byte_val_def Let_def)
  from validated_runtime_config [OF v]
  have "\<exists>client. StartRuntime agentLib (osStat startWorld) (\<lambda>k. None) (demoSpawn [''v'', ''n'']) (gatewayRuntimeConfig (cfAgent demoGateway)) =
      Some (Inr client, [ChildStarted])"
    by (simp add: StartRuntime_def demoSpawn_def demoGateway_def acpNewClient_def Initialize_def handshake_def closeIf_def
        parseAgentInfo_def agent_simps trim_space_plain byte_val_def IsAbs_def)
  then obtain client where c: "StartRuntime agentLib (osStat startWorld) (\<lambda>k. None) (demoSpawn [''v'', ''n'']) (gatewayRuntimeConfig (cfAgent demoGateway)) =
      Some (Inr client, [ChildStarted])" ..
  from validated_gateway_starts [OF v c, of "\<lambda>e. EOF" "\<lambda>c. None"] c show ?thesis
    by (auto simp: demoSpawn_def demoGateway_def trim_space_plain byte_val_def)
qed

end
