(* ===== verification/Utterances.thy ===== *)
theory Utterances
  imports Capture_System Engines
begin

text \<open>
  From the microphone to the transcriber: the utterances of Capture_System as the engine of Engines takes them.
\<close>

section \<open>The type of an utterance\<close>

text \<open>
  C25. What the microphone hands on has the type that the rest of the program is written for: every utterance is a valid mono
  buffer of 16-bit samples within one, the in-process transcriber of the same rate refuses it only for its context, a
  closed engine or a missing stream.
\<close>

theorem utterances_well_typed:
  assumes "silero_capture_reaches bo b rate channels options s"
    and "u \<in> set (received (recd s)) \<union> set (utterances (recd s))"
    and "trRecognizer t = Some e" "trSampleRate t = rate" "ssStream lib e" "\<forall>k. ctx k = None"
  shows "Audio_Format.Validate u = None \<and> (\<forall>x\<in>set (Samples u). pcmSample x) \<and>
    (\<exists>text' calls. TranscribeBuffer lib ctx u t = (Inr text', calls))"
proof -
  from utterance_typed [OF assms(1,2)] have v: "Audio_Format.Validate u = None" "\<forall>x\<in>set (Samples u). pcmSample x" by simp_all
  have "SampleRate u = rate"
    using silero_reachable [OF assms(1)] assms(2) by (auto simp: all_utterances_ok_def utterance_ok_def)
  with v assms(3-6) show ?thesis
    by (auto simp: TranscribeBuffer_def)
qed

lemma utterances_well_typed_witness:
  "Audio_Format.Validate demo_utterance = None \<and> list_all pcmSample (Samples demo_utterance) \<and>
    (\<exists>text' calls. TranscribeBuffer \<lparr>ssStream = (\<lambda>_::unit. True), ssText = (\<lambda>_ _ _. ''hola'')\<rparr> (\<lambda>_. None) demo_utterance
       \<lparr>trRecognizer = Some (), trSampleRate = 4\<rparr> = (Inr text', calls))"
proof -
  have "demo_utterance \<in> set (received (recd demo_s6)) \<union> set (utterances (recd demo_s6))"
    by (simp add: demo_s6_def)
  then show ?thesis
    unfolding list_all_iff by (intro utterances_well_typed [OF demo_reaches]) simp_all
qed

end
