(* ===== verification/Message_Store.thy ===== *)
theory Message_Store
  imports Llm_Client
begin

text \<open>
  The histories in memory as Go has them: slices that point into cells which other slices may share.  The copies the packages make
  of a history (\<^verbatim>\<open>cloneMessages\<close> and what it calls) are shown to give back the same messages in cells of their own, which is
  why the other theories can have a history as a value.
\<close>

section \<open>Histories in memory\<close>

text \<open>
  A slice is a cell and a length; a slice of length zero, nil or not, points nowhere that matters.  Strings are values in Go.
  Cells with a number of \<open>stNext\<close> or more are free.
\<close>

type_synonym slice = "nat \<times> nat"

record storedCall =
  scID :: string
  scType :: string
  scName :: string
  scArguments :: slice

record storedMessage =
  smRole :: string
  smContent :: string
  smCalls :: slice
  smCallID :: string

record gstore =
  stBytes :: "nat \<Rightarrow> string"
  stCalls :: "nat \<Rightarrow> storedCall list"
  stMessages :: "nat \<Rightarrow> storedMessage list"
  stTurns :: "nat \<Rightarrow> slice list"
  stNext :: nat

definition nilSlice :: slice where
  "nilSlice = (0, 0)"

definition bytesOf :: "gstore \<Rightarrow> slice \<Rightarrow> string" where
  "bytesOf st s = take (snd s) (stBytes st (fst s))"

definition callsOf :: "gstore \<Rightarrow> slice \<Rightarrow> storedCall list" where
  "callsOf st s = take (snd s) (stCalls st (fst s))"

definition messagesOf :: "gstore \<Rightarrow> slice \<Rightarrow> storedMessage list" where
  "messagesOf st s = take (snd s) (stMessages st (fst s))"

definition turnsOf :: "gstore \<Rightarrow> slice \<Rightarrow> slice list" where
  "turnsOf st s = take (snd s) (stTurns st (fst s))"

lemmas slice_defs = bytesOf_def callsOf_def messagesOf_def turnsOf_def

text \<open>The values that are read.\<close>

definition readCall :: "gstore \<Rightarrow> storedCall \<Rightarrow> toolCall" where
  "readCall st c = \<lparr>callID = scID c, callType = scType c, callName = scName c, callArguments = bytesOf st (scArguments c)\<rparr>"

definition readMessage :: "gstore \<Rightarrow> storedMessage \<Rightarrow> message" where
  "readMessage st m =
     \<lparr>msgRole = smRole m, msgContent = smContent m, msgToolCalls = map (readCall st) (callsOf st (smCalls m)), msgToolCallID = smCallID m\<rparr>"

definition readMessages :: "gstore \<Rightarrow> slice \<Rightarrow> message list" where
  "readMessages st s = map (readMessage st) (messagesOf st s)"

definition readTurns :: "gstore \<Rightarrow> slice \<Rightarrow> message list list" where
  "readTurns st s = map (readMessages st) (turnsOf st s)"

subsection \<open>The copies\<close>

definition newBytes :: "string \<Rightarrow> gstore \<Rightarrow> slice \<times> gstore" where
  "newBytes x st = ((stNext st, length x), st\<lparr>stBytes := (stBytes st)(stNext st := x), stNext := Suc (stNext st)\<rparr>)"

definition newCalls :: "storedCall list \<Rightarrow> gstore \<Rightarrow> slice \<times> gstore" where
  "newCalls x st = ((stNext st, length x), st\<lparr>stCalls := (stCalls st)(stNext st := x), stNext := Suc (stNext st)\<rparr>)"

definition newMessages :: "storedMessage list \<Rightarrow> gstore \<Rightarrow> slice \<times> gstore" where
  "newMessages x st = ((stNext st, length x), st\<lparr>stMessages := (stMessages st)(stNext st := x), stNext := Suc (stNext st)\<rparr>)"

definition newTurns :: "slice list \<Rightarrow> gstore \<Rightarrow> slice \<times> gstore" where
  "newTurns x st = ((stNext st, length x), st\<lparr>stTurns := (stTurns st)(stNext st := x), stNext := Suc (stNext st)\<rparr>)"

text \<open>The loop over a slice; its body may allocate.\<close>

fun forEach :: "('a \<Rightarrow> gstore \<Rightarrow> 'b \<times> gstore) \<Rightarrow> 'a list \<Rightarrow> gstore \<Rightarrow> 'b list \<times> gstore" where
  "forEach f [] st = ([], st)"
| "forEach f (x # xs) st =
     (let (y, st1) = f x st; (ys, st2) = forEach f xs st1 in (y # ys, st2))"

text \<open>The arguments of a call are copied when there are any; otherwise the slice stays as it is.\<close>

definition cloneCall :: "storedCall \<Rightarrow> gstore \<Rightarrow> storedCall \<times> gstore" where
  "cloneCall c st =
     (if 0 < snd (scArguments c)
      then (let (s, st1) = newBytes (bytesOf st (scArguments c)) st in (c\<lparr>scArguments := s\<rparr>, st1))
      else (c, st))"

definition cloneToolCalls :: "slice \<Rightarrow> gstore \<Rightarrow> slice \<times> gstore" where
  "cloneToolCalls calls st =
     (if snd calls = 0 then (nilSlice, st)
      else (let (cloned, st1) = forEach cloneCall (callsOf st calls) st in newCalls cloned st1))"

definition cloneMessage :: "storedMessage \<Rightarrow> gstore \<Rightarrow> storedMessage \<times> gstore" where
  "cloneMessage m st = (let (calls, st1) = cloneToolCalls (smCalls m) st in (m\<lparr>smCalls := calls\<rparr>, st1))"

definition cloneMessages :: "slice \<Rightarrow> gstore \<Rightarrow> slice \<times> gstore" where
  "cloneMessages ms st =
     (if snd ms = 0 then (nilSlice, st)
      else (let (cloned, st1) = forEach cloneMessage (messagesOf st ms) st in newMessages cloned st1))"

definition cloneTurns :: "slice \<Rightarrow> gstore \<Rightarrow> slice \<times> gstore" where
  "cloneTurns turns st =
     (if snd turns = 0 then (nilSlice, st)
      else (let (cloned, st1) = forEach cloneMessages (turnsOf st turns) st in newTurns cloned st1))"

text \<open>The other packages have the copy of a message inside the loop.\<close>

definition sessionCloneMessages :: "slice \<Rightarrow> gstore \<Rightarrow> slice \<times> gstore" where
  "sessionCloneMessages ms st =
     (if snd ms = 0 then (nilSlice, st)
      else
       (let (cloned, st1) =
            forEach (\<lambda>m st. let (calls, st1) = cloneToolCalls (smCalls m) st in (m\<lparr>smCalls := calls\<rparr>, st1)) (messagesOf st ms) st
        in newMessages cloned st1))"

definition runtimeCloneMessages :: "slice \<Rightarrow> gstore \<Rightarrow> slice \<times> gstore" where
  "runtimeCloneMessages = sessionCloneMessages"

lemma package_copies_agree: "sessionCloneMessages = cloneMessages" "runtimeCloneMessages = cloneMessages"
  by (simp_all add: fun_eq_iff runtimeCloneMessages_def sessionCloneMessages_def cloneMessages_def cloneMessage_def [abs_def])

subsection \<open>Where a history lies\<close>

text \<open>The cells that matter to a value are among those that satisfy \<open>P\<close>.\<close>

definition liesIn :: "(nat \<Rightarrow> bool) \<Rightarrow> slice \<Rightarrow> bool" where
  "liesIn P s \<longleftrightarrow> (0 < snd s \<longrightarrow> P (fst s))"

definition callIn :: "(nat \<Rightarrow> bool) \<Rightarrow> storedCall \<Rightarrow> bool" where
  "callIn P c \<longleftrightarrow> liesIn P (scArguments c)"

definition messageIn :: "(nat \<Rightarrow> bool) \<Rightarrow> gstore \<Rightarrow> storedMessage \<Rightarrow> bool" where
  "messageIn P st m \<longleftrightarrow> liesIn P (smCalls m) \<and> (\<forall>c\<in>set (callsOf st (smCalls m)). callIn P c)"

definition messagesIn :: "(nat \<Rightarrow> bool) \<Rightarrow> gstore \<Rightarrow> slice \<Rightarrow> bool" where
  "messagesIn P st s \<longleftrightarrow> liesIn P s \<and> (\<forall>m\<in>set (messagesOf st s). messageIn P st m)"

definition turnsIn :: "(nat \<Rightarrow> bool) \<Rightarrow> gstore \<Rightarrow> slice \<Rightarrow> bool" where
  "turnsIn P st s \<longleftrightarrow> liesIn P s \<and> (\<forall>t\<in>set (turnsOf st s). messagesIn P st t)"

lemmas lies_defs = liesIn_def callIn_def messageIn_def messagesIn_def turnsIn_def

text \<open>Two stores with the same contents of those cells.\<close>

definition sameOn :: "(nat \<Rightarrow> bool) \<Rightarrow> gstore \<Rightarrow> gstore \<Rightarrow> bool" where
  "sameOn P st st' \<longleftrightarrow>
     (\<forall>a. P a \<longrightarrow> stBytes st' a = stBytes st a \<and> stCalls st' a = stCalls st a \<and> stMessages st' a = stMessages st a \<and> stTurns st' a = stTurns st a)"

lemma sameOn_refl [simp]: "sameOn P st st"
  by (simp add: sameOn_def)

lemma sameOn_trans: "sameOn P st st1 \<Longrightarrow> sameOn P st1 st2 \<Longrightarrow> sameOn P st st2"
  by (simp add: sameOn_def)

lemma sameOn_mono: "sameOn P st st' \<Longrightarrow> (\<And>a. Q a \<Longrightarrow> P a) \<Longrightarrow> sameOn Q st st'"
  by (simp add: sameOn_def)

lemma sameOn_slices:
  assumes "sameOn P st st'" "liesIn P s"
  shows "bytesOf st' s = bytesOf st s" "callsOf st' s = callsOf st s" "messagesOf st' s = messagesOf st s" "turnsOf st' s = turnsOf st s"
  using assms by (cases "snd s"; simp add: slice_defs liesIn_def sameOn_def)+

lemma readCall_same: "sameOn P st st' \<Longrightarrow> callIn P c \<Longrightarrow> readCall st' c = readCall st c"
  by (simp add: readCall_def callIn_def sameOn_slices)

lemma readMessage_same: "sameOn P st st' \<Longrightarrow> messageIn P st m \<Longrightarrow> readMessage st' m = readMessage st m \<and> messageIn P st' m"
  by (auto simp: readMessage_def messageIn_def sameOn_slices intro!: readCall_same)

lemma readMessages_same:
  assumes "sameOn P st st'" "messagesIn P st s"
  shows "readMessages st' s = readMessages st s \<and> messagesIn P st' s"
proof -
  from assms(2) have l: "liesIn P s" and m: "\<forall>m\<in>set (messagesOf st s). messageIn P st m" by (simp_all add: messagesIn_def)
  from m readMessage_same [OF assms(1)] show ?thesis
    by (auto simp: readMessages_def messagesIn_def sameOn_slices(3) [OF assms(1) l] l)
qed

lemma readTurns_same:
  assumes "sameOn P st st'" "turnsIn P st s"
  shows "readTurns st' s = readTurns st s \<and> turnsIn P st' s"
proof -
  from assms(2) have l: "liesIn P s" and t: "\<forall>t\<in>set (turnsOf st s). messagesIn P st t" by (simp_all add: turnsIn_def)
  from t readMessages_same [OF assms(1)] show ?thesis
    by (auto simp: readTurns_def turnsIn_def sameOn_slices(4) [OF assms(1) l] l)
qed

subsection \<open>What copying does\<close>

text \<open>
  A copy from \<open>st\<close> to \<open>st'\<close> leaves every allocated cell as it was; what it makes lies in the cells allocated meanwhile.
\<close>

definition grows :: "gstore \<Rightarrow> gstore \<Rightarrow> bool" where
  "grows st st' \<longleftrightarrow> stNext st \<le> stNext st' \<and> sameOn (\<lambda>a. a < stNext st) st st'"

definition between :: "gstore \<Rightarrow> gstore \<Rightarrow> nat \<Rightarrow> bool" where
  "between st st' a \<longleftrightarrow> stNext st \<le> a \<and> a < stNext st'"

lemma grows_refl [simp]: "grows st st"
  by (simp add: grows_def)

lemma grows_trans: "grows st st1 \<Longrightarrow> grows st1 st2 \<Longrightarrow> grows st st2"
  unfolding grows_def sameOn_def by force

lemma new_grows:
  "grows st (snd (newBytes x st))" "grows st (snd (newCalls y st))" "grows st (snd (newMessages z st))" "grows st (snd (newTurns w st))"
  by (simp_all add: newBytes_def newCalls_def newMessages_def newTurns_def grows_def sameOn_def)

lemma liesIn_mono: "liesIn P s \<Longrightarrow> (\<And>a. P a \<Longrightarrow> Q a) \<Longrightarrow> liesIn Q s"
  by (simp add: liesIn_def)

lemma in_mono:
  assumes "\<And>a. P a \<Longrightarrow> Q a"
  shows "callIn P c \<Longrightarrow> callIn Q c" "messageIn P st m \<Longrightarrow> messageIn Q st m" "messagesIn P st s \<Longrightarrow> messagesIn Q st s"
  using assms by (auto simp: lies_defs)

text \<open>What the copy of a kind of value has to give: \<open>inn\<close> says where the value lies, \<open>rd\<close> what it reads as.\<close>

definition copies ::
  "((nat \<Rightarrow> bool) \<Rightarrow> gstore \<Rightarrow> 'a \<Rightarrow> bool) \<Rightarrow> (gstore \<Rightarrow> 'a \<Rightarrow> 'v) \<Rightarrow> ('a \<Rightarrow> gstore \<Rightarrow> 'a \<times> gstore) \<Rightarrow> bool"
where
  "copies inn rd f \<longleftrightarrow>
     (\<forall>x st y st'. f x st = (y, st') \<longrightarrow> inn (\<lambda>a. a < stNext st) st x \<longrightarrow>
        grows st st' \<and> rd st' y = rd st x \<and> inn (between st st') st' y)"

definition stable :: "((nat \<Rightarrow> bool) \<Rightarrow> gstore \<Rightarrow> 'a \<Rightarrow> bool) \<Rightarrow> (gstore \<Rightarrow> 'a \<Rightarrow> 'v) \<Rightarrow> bool" where
  "stable inn rd \<longleftrightarrow>
     (\<forall>P Q st st' x. sameOn P st st' \<longrightarrow> inn P st x \<longrightarrow> (\<forall>a. P a \<longrightarrow> Q a) \<longrightarrow> rd st' x = rd st x \<and> inn Q st' x)"

lemma copiesD: "copies inn rd f \<Longrightarrow> f x st = (y, st') \<Longrightarrow> inn (\<lambda>a. a < stNext st) st x \<Longrightarrow>
    grows st st' \<and> rd st' y = rd st x \<and> inn (between st st') st' y"
  by (simp add: copies_def)

lemma stableD: "stable inn rd \<Longrightarrow> sameOn P st st' \<Longrightarrow> inn P st x \<Longrightarrow> (\<And>a. P a \<Longrightarrow> Q a) \<Longrightarrow> rd st' x = rd st x \<and> inn Q st' x"
  unfolding stable_def by blast

lemma stable_kinds:
  "stable (\<lambda>P st. callIn P) readCall" "stable messageIn readMessage" "stable messagesIn readMessages"
proof -
  show "stable (\<lambda>P st. callIn P) readCall"
    unfolding stable_def by (meson readCall_same in_mono(1))
  show "stable messageIn readMessage"
    unfolding stable_def by (meson readMessage_same in_mono(2))
  show "stable messagesIn readMessages"
    unfolding stable_def by (meson readMessages_same in_mono(3))
qed

lemma copy_stays:
  assumes "stable inn rd" "grows st st1" "grows st1 st'" "inn (between st st1) st1 y"
  shows "rd st' y = rd st1 y \<and> inn (between st st') st' y"
proof (rule stableD [OF assms(1) _ assms(4)])
  show "sameOn (between st st1) st1 st'" using assms(3) by (simp add: grows_def between_def sameOn_def)
  show "between st st' a" if "between st st1 a" for a using assms(3) that by (simp add: grows_def between_def)
qed

text \<open>A loop of copies copies every element.\<close>

lemma forEach_copies:
  assumes f: "copies inn rd f" and s: "stable inn rd"
    and "forEach f xs st = (ys, st')" "\<forall>x\<in>set xs. inn (\<lambda>a. a < stNext st) st x"
  shows "grows st st' \<and> map (rd st') ys = map (rd st) xs \<and> (\<forall>y\<in>set ys. inn (between st st') st' y)"
  using assms(3,4)
proof (induction xs arbitrary: st ys)
  case (Cons x xs)
  from Cons.prems(1) obtain y st1 zs where y: "f x st = (y, st1)" and zs: "forEach f xs st1 = (zs, st')" and ys: "ys = y # zs"
    by (auto split: prod.splits)
  from copiesD [OF f y] Cons.prems(2) have c: "grows st st1" "rd st1 y = rd st x" "inn (between st st1) st1 y" by simp_all
  have old: "rd st1 z = rd st z \<and> inn (\<lambda>a. a < stNext st1) st1 z" if "z \<in> set xs" for z
  proof (rule stableD [OF s])
    show "sameOn (\<lambda>a. a < stNext st) st st1" using c(1) by (simp add: grows_def)
    show "inn (\<lambda>a. a < stNext st) st z" using Cons.prems(2) that by simp
    show "a < stNext st1" if "a < stNext st" for a using c(1) that by (simp add: grows_def)
  qed
  with Cons.IH [OF zs] have r: "grows st1 st'" "map (rd st') zs = map (rd st1) xs" "\<forall>y\<in>set zs. inn (between st1 st') st' y"
    by simp_all
  from copy_stays [OF s c(1) r(1) c(3)] have "rd st' y = rd st1 y \<and> inn (between st st') st' y" .
  moreover have "inn (between st st') st' z" if z: "z \<in> set zs" for z
  proof -
    have "inn (between st1 st') st' z" using r(3) z by simp
    then show ?thesis
      by (rule stableD [OF s sameOn_refl, THEN conjunct2]) (use c(1) in \<open>simp add: between_def grows_def\<close>)
  qed
  moreover have "map (rd st1) xs = map (rd st) xs" using old by simp
  ultimately show ?case
    using ys c(2) r(2) grows_trans [OF c(1) r(1)] by simp
qed simp

lemma cloneCall_copies: "copies (\<lambda>P st. callIn P) readCall cloneCall"
  unfolding copies_def
  by (auto simp: cloneCall_def newBytes_def readCall_def callIn_def liesIn_def slice_defs between_def grows_def sameOn_def min_def split: if_splits)

lemma cloneToolCalls_copies:
  assumes "cloneToolCalls s st = (s', st')" "liesIn (\<lambda>a. a < stNext st) s" "\<forall>c\<in>set (callsOf st s). callIn (\<lambda>a. a < stNext st) c"
  shows "grows st st' \<and> map (readCall st') (callsOf st' s') = map (readCall st) (callsOf st s) \<and>
    liesIn (between st st') s' \<and> (\<forall>c\<in>set (callsOf st' s'). callIn (between st st') c)"
proof (cases "snd s = 0")
  case True
  with assms(1) show ?thesis by (auto simp: cloneToolCalls_def nilSlice_def callsOf_def liesIn_def)
next
  case False
  then obtain ys st1 where l: "forEach cloneCall (callsOf st s) st = (ys, st1)" and n: "newCalls ys st1 = (s', st')"
    using assms(1) by (auto simp: cloneToolCalls_def split: prod.splits)
  from forEach_copies [OF cloneCall_copies stable_kinds(1) l] assms(3)
  have c: "grows st st1" "map (readCall st1) ys = map (readCall st) (callsOf st s)" "\<forall>y\<in>set ys. callIn (between st st1) y" by simp_all
  from n have s': "callsOf st' s' = ys" "s' = (stNext st1, length ys)" "stNext st' = Suc (stNext st1)" and g: "grows st1 st'"
    using new_grows(2) [of st1 ys] by (auto simp: newCalls_def callsOf_def)
  have "readCall st' y = readCall st1 y \<and> callIn (between st st') y" if "y \<in> set ys" for y
    using copy_stays [OF stable_kinds(1) c(1) g, of y] c(3) that by simp
  with c(1,2) s' grows_trans [OF c(1) g] show ?thesis
    by (auto simp: liesIn_def between_def grows_def cong: map_cong)
qed

lemma cloneMessage_copies: "copies messageIn readMessage cloneMessage"
  unfolding copies_def
proof (intro allI impI)
  fix m st m' st'
  assume a: "cloneMessage m st = (m', st')" "messageIn (\<lambda>a. a < stNext st) st m"
  then obtain s where s: "cloneToolCalls (smCalls m) st = (s, st')" "m' = m\<lparr>smCalls := s\<rparr>"
    by (auto simp: cloneMessage_def split: prod.splits)
  from cloneToolCalls_copies [OF s(1)] a(2) s(2) show "grows st st' \<and> readMessage st' m' = readMessage st m \<and> messageIn (between st st') st' m'"
    by (simp add: messageIn_def readMessage_def)
qed

text \<open>The two copies of slices of stored values have the same shape.\<close>

lemma cloneMessages_copies: "copies messagesIn readMessages cloneMessages"
  unfolding copies_def
proof (intro allI impI)
  fix s st s' st'
  assume a: "cloneMessages s st = (s', st')" "messagesIn (\<lambda>a. a < stNext st) st s"
  show "grows st st' \<and> readMessages st' s' = readMessages st s \<and> messagesIn (between st st') st' s'"
  proof (cases "snd s = 0")
    case True
    with a(1) show ?thesis by (auto simp: cloneMessages_def nilSlice_def readMessages_def messagesIn_def messagesOf_def liesIn_def)
  next
    case False
    then obtain ys st1 where l: "forEach cloneMessage (messagesOf st s) st = (ys, st1)" and n: "newMessages ys st1 = (s', st')"
      using a(1) by (auto simp: cloneMessages_def split: prod.splits)
    from forEach_copies [OF cloneMessage_copies stable_kinds(2) l] a(2)
    have c: "grows st st1" "map (readMessage st1) ys = map (readMessage st) (messagesOf st s)" "\<forall>y\<in>set ys. messageIn (between st st1) st1 y"
      by (simp_all add: messagesIn_def)
    from n have s': "messagesOf st' s' = ys" "s' = (stNext st1, length ys)" "stNext st' = Suc (stNext st1)" and g: "grows st1 st'"
      using new_grows(3) [of st1 ys] by (auto simp: newMessages_def messagesOf_def)
    have "readMessage st' y = readMessage st1 y \<and> messageIn (between st st') st' y" if "y \<in> set ys" for y
      using copy_stays [OF stable_kinds(2) c(1) g, of y] c(3) that by simp
    with c(1,2) s' grows_trans [OF c(1) g] show ?thesis
      by (auto simp: readMessages_def messagesIn_def liesIn_def between_def grows_def cong: map_cong)
  qed
qed

lemma cloneTurns_copies: "copies turnsIn readTurns cloneTurns"
  unfolding copies_def
proof (intro allI impI)
  fix s st s' st'
  assume a: "cloneTurns s st = (s', st')" "turnsIn (\<lambda>a. a < stNext st) st s"
  show "grows st st' \<and> readTurns st' s' = readTurns st s \<and> turnsIn (between st st') st' s'"
  proof (cases "snd s = 0")
    case True
    with a(1) show ?thesis by (auto simp: cloneTurns_def nilSlice_def readTurns_def turnsIn_def turnsOf_def liesIn_def)
  next
    case False
    then obtain ys st1 where l: "forEach cloneMessages (turnsOf st s) st = (ys, st1)" and n: "newTurns ys st1 = (s', st')"
      using a(1) by (auto simp: cloneTurns_def split: prod.splits)
    from forEach_copies [OF cloneMessages_copies stable_kinds(3) l] a(2)
    have c: "grows st st1" "map (readMessages st1) ys = map (readMessages st) (turnsOf st s)" "\<forall>y\<in>set ys. messagesIn (between st st1) st1 y"
      by (simp_all add: turnsIn_def)
    from n have s': "turnsOf st' s' = ys" "s' = (stNext st1, length ys)" "stNext st' = Suc (stNext st1)" and g: "grows st1 st'"
      using new_grows(4) [of st1 ys] by (auto simp: newTurns_def turnsOf_def)
    have "readMessages st' y = readMessages st1 y \<and> messagesIn (between st st') st' y" if "y \<in> set ys" for y
      using copy_stays [OF stable_kinds(3) c(1) g, of y] c(3) that by simp
    with c(1,2) s' grows_trans [OF c(1) g] show ?thesis
      by (auto simp: readTurns_def turnsIn_def liesIn_def between_def grows_def cong: map_cong)
  qed
qed

subsection \<open>The copy is private\<close>

text \<open>
  C24. A copied history reads as the original did and shares no cell with it: whatever is written afterwards to the cells of the
  original, or to any but those the copy was given, the copy stays as it was, and writing to the copy leaves the original.
\<close>

theorem cloned_history_is_private:
  assumes "cloneMessages ms st = (copy', st')" "messagesIn (\<lambda>a. a < stNext st) st ms"
  shows "readMessages st' copy' = readMessages st ms \<and> readMessages st' ms = readMessages st ms \<and>
    (\<forall>st2. sameOn (\<lambda>a. stNext st \<le> a \<and> a < stNext st') st' st2 \<longrightarrow> readMessages st2 copy' = readMessages st ms) \<and>
    (\<forall>st2. sameOn (\<lambda>a. a < stNext st) st' st2 \<longrightarrow> readMessages st2 ms = readMessages st ms)"
proof -
  from copiesD [OF cloneMessages_copies assms] have c: "sameOn (\<lambda>a. a < stNext st) st st'" "readMessages st' copy' = readMessages st ms"
    "messagesIn (\<lambda>a. stNext st \<le> a \<and> a < stNext st') st' copy'"
    by (simp_all add: grows_def between_def [abs_def])
  from readMessages_same [OF c(1) assms(2)] have o: "readMessages st' ms = readMessages st ms" "messagesIn (\<lambda>a. a < stNext st) st' ms"
    by simp_all
  from readMessages_same [OF _ c(3)] readMessages_same [OF _ o(2)] c(2) o(1) show ?thesis by auto
qed

lemma cloned_turns_are_private:
  assumes "cloneTurns ts st = (copy', st')" "turnsIn (\<lambda>a. a < stNext st) st ts"
    and "sameOn (\<lambda>a. stNext st \<le> a \<and> a < stNext st') st' st2"
  shows "readTurns st2 copy' = readTurns st ts"
proof -
  from copiesD [OF cloneTurns_copies assms(1,2)] have "readTurns st' copy' = readTurns st ts"
    "turnsIn (\<lambda>a. stNext st \<le> a \<and> a < stNext st') st' copy'"
    by (simp_all add: between_def [abs_def])
  with readTurns_same [OF assms(3)] show ?thesis by simp
qed

definition demoStore :: gstore where
  "demoStore = \<lparr>stBytes = (\<lambda>a. if a = 0 then ''{}'' else []),
     stCalls = (\<lambda>a. if a = 1 then [\<lparr>scID = ''c'', scType = ''function'', scName = ''fs_read'', scArguments = (0, 2)\<rparr>] else []),
     stMessages = (\<lambda>a. if a = 2 then [\<lparr>smRole = ''assistant'', smContent = [], smCalls = (1, 1), smCallID = []\<rparr>] else []),
     stTurns = (\<lambda>a. []), stNext = 3\<rparr>"

lemmas demo_store_simps = demoStore_def cloneMessages_def cloneMessage_def cloneToolCalls_def cloneCall_def newBytes_def newCalls_def
  newMessages_def slice_defs lies_defs readMessages_def readMessage_def readCall_def

text \<open>Writing over the arguments of the original afterwards.\<close>

lemma cloned_history_is_private_witness:
  "\<exists>copy' st'. cloneMessages (2, 1) demoStore = (copy', st') \<and>
    readMessages (st'\<lparr>stBytes := (stBytes st')(0 := ''XX'')\<rparr>) copy' = readMessages demoStore (2, 1) \<and>
    readMessages (st'\<lparr>stBytes := (stBytes st')(0 := ''XX'')\<rparr>) (2, 1) \<noteq> readMessages demoStore (2, 1)"
proof -
  obtain copy' st' where c: "cloneMessages (2, 1) demoStore = (copy', st')" by fastforce
  have "messagesIn (\<lambda>a. a < stNext demoStore) demoStore (2, 1)"
    by (simp add: demo_store_simps)
  from cloned_history_is_private [OF c this]
  have "readMessages (st'\<lparr>stBytes := (stBytes st')(0 := ''XX'')\<rparr>) copy' = readMessages demoStore (2, 1)"
    by (simp add: sameOn_def demoStore_def)
  moreover from c have "readMessages (st'\<lparr>stBytes := (stBytes st')(0 := ''XX'')\<rparr>) (2, 1) \<noteq> readMessages demoStore (2, 1)"
    by (auto simp: demo_store_simps)
  ultimately show ?thesis using c by blast
qed

end
