(* ===== verification/Error_Values.thy ===== *)
theory Error_Values
  imports Prelude Go_Text
begin

text \<open>
  The error types of the packages: their texts, their unwrap chains and the tests \<^verbatim>\<open>IsErrorCode\<close> with \<^verbatim>\<open>errors.As\<close>.  The other
  theories compare errors by their codes; here is what the callers of the packages see of them.
\<close>

section \<open>Error values\<close>

text \<open>
  A struct of one of the packages; a code is a string.  An error is a plain one, one of \<^verbatim>\<open>fmt.Errorf\<close> with \<^verbatim>\<open>%w\<close>, a joined one
  or such a struct with the error in its \<^verbatim>\<open>Err\<close> field, if it has one.
\<close>

datatype typedError =
    AppError (teCode: string) (teRecoverable: bool)
  | ConversationError (teCode: string)
  | MemoryError (teCode: string)
  | RuntimeError (teCode: string) (teRound: nat)
  | LifecycleError (teCode: string) (teOp: string)
  | HTTPError (teCode: string) (teURL: string) (teStatus: nat)
  | FilesystemError (teCode: string) (tePath: string)

datatype goErr =
    Plain string
  | Formatted string goErr
  | Joined "goErr list"
  | Typed typedError "goErr option"

fun joinLines :: "string \<Rightarrow> string list \<Rightarrow> string" where
  "joinLines sep [] = []"
| "joinLines sep [x] = x"
| "joinLines sep (x # y # xs) = x @ sep @ joinLines sep (y # xs)"

subsection \<open>The texts\<close>

text \<open>The text of the inner error, if there is one; \<open>quote\<close> is \<^verbatim>\<open>%q\<close> and \<open>itoa\<close> \<^verbatim>\<open>%d\<close>.\<close>

definition withCause :: "string \<Rightarrow> string option \<Rightarrow> string" where
  "withCause text' cause = (case cause of None \<Rightarrow> text' | Some t \<Rightarrow> text' @ '': '' @ t)"

definition appErrorText :: "string \<Rightarrow> string option \<Rightarrow> string" where
  "appErrorText code cause = withCause (''application '' @ code) cause"

definition conversationErrorText :: "string \<Rightarrow> string option \<Rightarrow> string" where
  "conversationErrorText code cause = withCause (''conversation '' @ code) cause"

definition memoryErrorText :: "string \<Rightarrow> string option \<Rightarrow> string" where
  "memoryErrorText code cause = withCause (''memory '' @ code) cause"

definition runtimeErrorText :: "(nat \<Rightarrow> string) \<Rightarrow> string \<Rightarrow> nat \<Rightarrow> string option \<Rightarrow> string" where
  "runtimeErrorText itoa code n cause = withCause (''agent runtime '' @ code @ '' at round '' @ itoa n) cause"

definition lifecycleErrorText :: "string \<Rightarrow> string \<Rightarrow> string option \<Rightarrow> string" where
  "lifecycleErrorText code op cause = withCause (''llama-server '' @ op @ '': '' @ code) cause"

definition httpErrorText :: "(nat \<Rightarrow> string) \<Rightarrow> string \<Rightarrow> string \<Rightarrow> nat \<Rightarrow> string option \<Rightarrow> string" where
  "httpErrorText itoa code url status cause =
     (let parts = [code];
          parts = (if url \<noteq> [] then parts @ [url] else parts);
          parts = (if status \<noteq> 0 then parts @ [''status='' @ itoa status] else parts);
          parts = (case cause of None \<Rightarrow> parts | Some t \<Rightarrow> parts @ [t])
      in joinLines '': '' parts)"

definition filesystemErrorText :: "(string \<Rightarrow> string) \<Rightarrow> string \<Rightarrow> string \<Rightarrow> string option \<Rightarrow> string" where
  "filesystemErrorText quote code p cause = withCause (''filesystem '' @ code @ '' for '' @ quote p) cause"

fun errorText :: "(nat \<Rightarrow> string) \<Rightarrow> (string \<Rightarrow> string) \<Rightarrow> goErr \<Rightarrow> string" where
  "errorText itoa quote (Plain s) = s"
| "errorText itoa quote (Formatted s e) = s @ '': '' @ errorText itoa quote e"
| "errorText itoa quote (Joined es) = joinLines [CHR 0x0A] (map (errorText itoa quote) es)"
| "errorText itoa quote (Typed t e) =
     (let cause = map_option (errorText itoa quote) e in
      case t of
        AppError code r \<Rightarrow> appErrorText code cause
      | ConversationError code \<Rightarrow> conversationErrorText code cause
      | MemoryError code \<Rightarrow> memoryErrorText code cause
      | RuntimeError code n \<Rightarrow> runtimeErrorText itoa code n cause
      | LifecycleError code op \<Rightarrow> lifecycleErrorText code op cause
      | HTTPError code url status \<Rightarrow> httpErrorText itoa code url status cause
      | FilesystemError code p \<Rightarrow> filesystemErrorText quote code p cause)"

subsection \<open>Unwrapping\<close>

text \<open>\<^verbatim>\<open>Unwrap\<close>, which gives one error, or for a joined one several.\<close>

fun unwrap :: "goErr \<Rightarrow> goErr list" where
  "unwrap (Plain s) = []"
| "unwrap (Formatted s e) = [e]"
| "unwrap (Joined es) = es"
| "unwrap (Typed t e) = (case e of None \<Rightarrow> [] | Some x \<Rightarrow> [x])"

text \<open>\<^verbatim>\<open>errors.As\<close>: the error itself, or what is found in the first of the unwrapped ones that has it.\<close>

function errorsAs :: "(typedError \<Rightarrow> bool) \<Rightarrow> goErr \<Rightarrow> typedError option" and
  errorsAsAny :: "(typedError \<Rightarrow> bool) \<Rightarrow> goErr list \<Rightarrow> typedError option" where
  "errorsAs isType e =
     (case e of
        Typed t cause \<Rightarrow> if isType t then Some t else errorsAsAny isType (unwrap e)
      | _ \<Rightarrow> errorsAsAny isType (unwrap e))"
| "errorsAsAny isType [] = None"
| "errorsAsAny isType (e # es) = (case errorsAs isType e of Some t \<Rightarrow> Some t | None \<Rightarrow> errorsAsAny isType es)"
  by pat_completeness auto
termination
proof (relation "measure (\<lambda>x. case x of Inl (p, e) \<Rightarrow> 2 * size e + 1 | Inr (p, es) \<Rightarrow> 2 * size_list size es)")
qed (auto split: option.splits)

subsection \<open>The tests of the packages\<close>

definition IsAppErrorCode :: "goErr \<Rightarrow> string \<Rightarrow> bool" where
  "IsAppErrorCode e code = (case errorsAs is_AppError e of Some t \<Rightarrow> teCode t = code | None \<Rightarrow> False)"

definition IsConversationErrorCode :: "goErr \<Rightarrow> string \<Rightarrow> bool" where
  "IsConversationErrorCode e code = (case errorsAs is_ConversationError e of Some t \<Rightarrow> teCode t = code | None \<Rightarrow> False)"

definition IsMemoryErrorCode :: "goErr \<Rightarrow> string \<Rightarrow> bool" where
  "IsMemoryErrorCode e code = (case errorsAs is_MemoryError e of Some t \<Rightarrow> teCode t = code | None \<Rightarrow> False)"

definition IsRuntimeErrorCode :: "goErr \<Rightarrow> string \<Rightarrow> bool" where
  "IsRuntimeErrorCode e code = (case errorsAs is_RuntimeError e of Some t \<Rightarrow> teCode t = code | None \<Rightarrow> False)"

definition IsLifecycleErrorCode :: "goErr \<Rightarrow> string \<Rightarrow> bool" where
  "IsLifecycleErrorCode e code = (case errorsAs is_LifecycleError e of Some t \<Rightarrow> teCode t = code | None \<Rightarrow> False)"

definition IsHTTPErrorCode :: "goErr \<Rightarrow> string \<Rightarrow> bool" where
  "IsHTTPErrorCode e code = (case errorsAs is_HTTPError e of Some t \<Rightarrow> teCode t = code | None \<Rightarrow> False)"

definition IsFilesystemErrorCode :: "goErr \<Rightarrow> string \<Rightarrow> bool" where
  "IsFilesystemErrorCode e code = (case errorsAs is_FilesystemError e of Some t \<Rightarrow> teCode t = code | None \<Rightarrow> False)"

text \<open>A managed server that did not get ready is stopped; an error of stopping is joined to the one of getting ready.\<close>

definition cleanupReadinessFailure :: "string \<Rightarrow> goErr option \<Rightarrow> goErr \<Rightarrow> goErr" where
  "cleanupReadinessFailure mode stopErr readinessErr =
     (if mode = ''external'' then readinessErr
      else (case stopErr of None \<Rightarrow> readinessErr | Some e \<Rightarrow> Joined [readinessErr, e]))"

subsection \<open>The first error of its kind\<close>

text \<open>The structs in an error, in the order in which they are met.\<close>

fun typedIn :: "goErr \<Rightarrow> typedError list" where
  "typedIn (Plain s) = []"
| "typedIn (Formatted s e) = typedIn e"
| "typedIn (Joined es) = concat (map typedIn es)"
| "typedIn (Typed t e) = t # (case e of None \<Rightarrow> [] | Some x \<Rightarrow> typedIn x)"

lemma errorsAs_first:
  "errorsAs p e = find p (typedIn e)"
  "errorsAsAny p es = find p (concat (map typedIn es))"
proof (induction p e and p es rule: errorsAs_errorsAsAny.induct)
  case (1 p e)
  then show ?case
    by (cases e) (auto split: option.splits)
qed (simp_all add: find_append split: option.split)

text \<open>
  The code of an error is that of its first struct of the package, in the order of unwrapping: the tests of the seven packages
  are exactly the search for it.
\<close>

theorem error_code_is_of_first:
  "(IsAppErrorCode e code \<longleftrightarrow> map_option teCode (find is_AppError (typedIn e)) = Some code) \<and>
   (IsConversationErrorCode e code \<longleftrightarrow> map_option teCode (find is_ConversationError (typedIn e)) = Some code) \<and>
   (IsMemoryErrorCode e code \<longleftrightarrow> map_option teCode (find is_MemoryError (typedIn e)) = Some code) \<and>
   (IsRuntimeErrorCode e code \<longleftrightarrow> map_option teCode (find is_RuntimeError (typedIn e)) = Some code) \<and>
   (IsLifecycleErrorCode e code \<longleftrightarrow> map_option teCode (find is_LifecycleError (typedIn e)) = Some code) \<and>
   (IsHTTPErrorCode e code \<longleftrightarrow> map_option teCode (find is_HTTPError (typedIn e)) = Some code) \<and>
   (IsFilesystemErrorCode e code \<longleftrightarrow> map_option teCode (find is_FilesystemError (typedIn e)) = Some code)"
  by (simp add: IsAppErrorCode_def IsConversationErrorCode_def IsMemoryErrorCode_def IsRuntimeErrorCode_def IsLifecycleErrorCode_def
      IsHTTPErrorCode_def IsFilesystemErrorCode_def errorsAs_first del: errorsAs.simps split: option.split)

lemmas code_tests = IsAppErrorCode_def IsConversationErrorCode_def IsMemoryErrorCode_def IsRuntimeErrorCode_def IsLifecycleErrorCode_def
  IsHTTPErrorCode_def IsFilesystemErrorCode_def

lemma error_code_unique: "IsAppErrorCode e code \<Longrightarrow> IsAppErrorCode e code' \<Longrightarrow> code = code'"
  by (simp add: IsAppErrorCode_def del: errorsAs.simps split: option.splits)

lemma wrapping_keeps_code:
  "IsAppErrorCode (Formatted s e) = IsAppErrorCode e" "IsLifecycleErrorCode (Formatted s e) = IsLifecycleErrorCode e"
  "IsRuntimeErrorCode (Typed (ConversationError c) (Some e)) = IsRuntimeErrorCode e"
  by (simp_all add: fun_eq_iff code_tests errorsAs_first del: errorsAs.simps)

text \<open>The error of stopping is hidden behind the one of getting ready.\<close>

lemma joined_shutdown_failure_hidden:
  "\<not> IsLifecycleErrorCode
      (cleanupReadinessFailure ''managed'' (Some (Typed (LifecycleError ''shutdown_failed'' ''stop'') x))
        (Typed (LifecycleError ''startup_timeout'' ''wait-ready'') y)) ''shutdown_failed''"
  by (simp add: IsLifecycleErrorCode_def errorsAs_first cleanupReadinessFailure_def del: errorsAs.simps)

subsection \<open>No cause is lost in the text\<close>

lemma joinLines_infix: "x \<in> set xs \<Longrightarrow> \<exists>a b. joinLines sep xs = a @ x @ b"
proof (induction sep xs rule: joinLines.induct)
  case (3 sep x' y xs)
  show ?case
  proof (cases "x = x'")
    case True
    then show ?thesis by (auto intro: exI [of _ "[]"])
  next
    case False
    with 3 obtain a b where "joinLines sep (y # xs) = a @ x @ b" by auto
    then show ?thesis by (auto intro: exI [of _ "x' @ sep @ a"])
  qed
qed (auto intro: exI [of _ "[]"])

lemma withCause_infix: "\<exists>a b. withCause s (Some t) = a @ t @ b"
  by (rule exI [of _ "s @ '': ''"], rule exI [of _ "[]"]) (simp add: withCause_def)

lemma httpErrorText_infix: "\<exists>a b. httpErrorText itoa code url status (Some t) = a @ t @ b"
proof -
  have "\<exists>parts. httpErrorText itoa code url status (Some t) = joinLines '': '' (parts @ [t])"
    unfolding httpErrorText_def Let_def option.case by blast
  then show ?thesis using joinLines_infix [of t] by (metis in_set_conv_decomp)
qed

lemma unwrap_infix:
  assumes "e' \<in> set (unwrap e)"
  shows "\<exists>a b. errorText itoa quote e = a @ errorText itoa quote e' @ b"
proof (cases e)
  case (Formatted s x)
  show ?thesis by (rule exI [of _ "s @ '': ''"], rule exI [of _ "[]"]) (use Formatted assms in simp)
next
  case (Joined es)
  with assms show ?thesis by (auto intro!: joinLines_infix)
next
  case (Typed t c)
  with assms obtain x where "c = Some x" "e' = x" by (auto split: option.splits)
  with Typed show ?thesis
    by (cases t)
      (simp_all add: withCause_infix httpErrorText_infix appErrorText_def conversationErrorText_def memoryErrorText_def
        runtimeErrorText_def lifecycleErrorText_def filesystemErrorText_def)
qed (use assms in simp)

text \<open>
  Whatever an error wraps or joins, however deep, its text is shown as it is in the text of the error.
\<close>

theorem causes_are_shown:
  assumes "(\<lambda>e e'. e' \<in> set (unwrap e))\<^sup>*\<^sup>* e e'"
  shows "\<exists>a b. errorText itoa quote e = a @ errorText itoa quote e' @ b"
  using assms
proof (induction rule: converse_rtranclp_induct)
  case base
  show ?case by (intro exI [of _ "[]"]) simp
next
  case (step x y)
  from unwrap_infix [OF step(1)] obtain a b where "errorText itoa quote x = a @ errorText itoa quote y @ b" by blast
  with step.IH show ?case by (metis append.assoc)
qed

lemma causes_are_shown_witness:
  "\<exists>a b. errorText (\<lambda>n. ''2'') (\<lambda>s. s) (Typed (ConversationError ''agent_failed'') (Some (Typed (RuntimeError ''model_error'' 2) (Some (Plain ''refused'')))))
     = a @ ''refused'' @ b"
proof -
  have "(\<lambda>e e'. e' \<in> set (unwrap e))\<^sup>*\<^sup>*
      (Typed (ConversationError ''agent_failed'') (Some (Typed (RuntimeError ''model_error'' 2) (Some (Plain ''refused''))))) (Plain ''refused'')"
    by (rule converse_rtranclp_into_rtranclp [OF _ r_into_rtranclp, of _ _ "Typed (RuntimeError ''model_error'' 2) (Some (Plain ''refused''))"]) simp_all
  from causes_are_shown [OF this] show ?thesis by simp
qed

end
