(* ===== verification/Microphone.thy ===== *)
theory Microphone
  imports Prelude
begin

text \<open>
  The process of the microphone that the continuous recorder owns: how it is started, read and stopped.
\<close>

section \<open>The microphone process (\<^verbatim>\<open>internal/audio/continuous_capture.go\<close>)\<close>

text \<open>What is done, in its order.\<close>

datatype micCall = PipeOpened | PipeClosed | MicStarted | MicKilled | MicReaped

definition captureArgs :: "(int \<Rightarrow> string) \<Rightarrow> string \<Rightarrow> int \<Rightarrow> int \<Rightarrow> string list" where
  "captureArgs itoa device rate channels =
     [''-D'', device, ''-f'', ''S16_LE'', ''-r'', itoa rate, ''-c'', itoa channels, ''-t'', ''raw'', ''--buffer-size=2048'', ''-q'', ''-'']"

record micProcess =
  mpStopped :: bool
  mpStopErr :: "go_error option"
  mpCalls :: "micCall list"

text \<open>The errors of the pipe and of starting; the calls made are given also when it fails.\<close>

definition startCapture :: "go_error option \<Rightarrow> go_error option \<Rightarrow> (go_error \<times> micCall list) + micProcess" where
  "startCapture pipe start =
     (case pipe of
        Some e \<Rightarrow> Inl (Wrapped ''arecord pipe'' e, [])
      | None \<Rightarrow>
        (case start of
           Some e \<Rightarrow> Inl (Wrapped ''arecord start'' e, [PipeOpened, PipeClosed])
         | None \<Rightarrow> Inr \<lparr>mpStopped = False, mpStopErr = None, mpCalls = [PipeOpened, MicStarted]\<rparr>))"

text \<open>Reading gives what the pipe gives, for a process and a pipe that are not nil.\<close>

definition micRead :: "micProcess option \<Rightarrow> go_error + string \<Rightarrow> go_error + string" where
  "micRead p stream = (case p of None \<Rightarrow> Inl EOF | Some x \<Rightarrow> stream)"

datatype killAnswer = KillSent | AlreadyDone | KillFails go_error

text \<open>\<open>ends\<close>: the process ends, so that its waiter answers; otherwise \<^verbatim>\<open>Stop\<close> does not return.\<close>

definition micStop :: "killAnswer \<Rightarrow> bool \<Rightarrow> micProcess \<Rightarrow> (go_error option \<times> micProcess) option" where
  "micStop kill ends p =
     (if mpStopped p then Some (mpStopErr p, p)
      else
       (let err = (case kill of KillFails e \<Rightarrow> Some e | _ \<Rightarrow> None);
            calls = mpCalls p @ [PipeClosed] @ (if kill = KillSent then [MicKilled] else [])
        in if \<not> ends then None
           else Some (err, \<lparr>mpStopped = True, mpStopErr = err, mpCalls = calls @ [MicReaped]\<rparr>)))"

fun micStops :: "(killAnswer \<times> bool) list \<Rightarrow> micProcess \<Rightarrow> (go_error option list \<times> micProcess) option" where
  "micStops [] p = Some ([], p)"
| "micStops ((k, b) # ks) p =
     (case micStop k b p of
        None \<Rightarrow> None
      | Some (e, p1) \<Rightarrow> (case micStops ks p1 of None \<Rightarrow> None | Some (es, p2) \<Rightarrow> Some (e # es, p2)))"

lemma micStops_stopped: "mpStopped p \<Longrightarrow> micStops ks p = Some (replicate (length ks) (mpStopErr p), p)"
  by (induction ks) (auto simp: micStop_def)

text \<open>However often it is stopped, a microphone is closed and reaped once, and every call gives the error of the first.\<close>

lemma microphone_stopped_once:
  assumes "startCapture pipe start = Inr p" "micStops ((k, b) # ks) p = Some (es, p')"
  shows "mpCalls p' = [PipeOpened, MicStarted, PipeClosed] @ (if k = KillSent then [MicKilled] else []) @ [MicReaped] \<and>
    es = replicate (Suc (length ks)) (mpStopErr p')"
  using assms by (auto simp: startCapture_def micStop_def Let_def micStops_stopped split: option.splits if_splits)

text \<open>A microphone that fails to start leaves no pipe open.\<close>

lemma failed_start_closes_pipe:
  "startCapture pipe start = Inl (e, calls) \<Longrightarrow> filter (\<lambda>c. c = PipeOpened) calls = [] \<or> last calls = PipeClosed"
  by (auto simp: startCapture_def split: option.splits)

end
