(* ===== verification/Presentation.thy ===== *)
theory Presentation
  imports Observers Application Agent_Runtime
begin

text \<open>
  What the program shows and logs, and the construction of the coordinator: the console view, the program around \<^verbatim>\<open>run\<close>, the
  entries of the agent's rounds, the snapshot of its counters.
\<close>

section \<open>The console and the logs\<close>

subsection \<open>The console view (\<^verbatim>\<open>cmd/assistant/presentation.go\<close>, \<^verbatim>\<open>internal/console/status.go\<close>)\<close>

definition newStatusPrinter :: "bool \<Rightarrow> statusPrinter" where
  "newStatusPrinter present = \<lparr>writer = present, lastStatus = [], written = []\<rparr>"

record consoleView =
  cvOut :: "string option"

text \<open>The symbols before the text are bytes of UTF-8.\<close>

definition userSymbol :: string where
  "userSymbol = [CHR 0xF0, CHR 0x9F, CHR 0x91, CHR 0xA4]"

definition assistantSymbol :: string where
  "assistantSymbol = [CHR 0xF0, CHR 0x9F, CHR 0xA4, CHR 0x96]"

definition viewUser :: "string \<Rightarrow> consoleView \<Rightarrow> consoleView" where
  "viewUser t v =
     (case cvOut v of
        None \<Rightarrow> v
      | Some out \<Rightarrow> v\<lparr>cvOut := Some (out @ [CHR 0x0A] @ userSymbol @ ''  '' @ t @ [CHR 0x0A])\<rparr>)"

definition viewAssistant :: "string \<Rightarrow> consoleView \<Rightarrow> consoleView" where
  "viewAssistant t v =
     (case cvOut v of None \<Rightarrow> v | Some out \<Rightarrow> v\<lparr>cvOut := Some (out @ assistantSymbol @ ''  '' @ t @ [CHR 0x0A])\<rparr>)"

text \<open>The status lines: no two neighbours are the same, and none is empty.\<close>

lemma status_lines_change:
  assumes "p = fold setStatus ss (newStatusPrinter present)"
  shows "(\<forall>i. Suc i < length (written p) \<longrightarrow> written p ! i \<noteq> written p ! Suc i) \<and> [] \<notin> set (written p) \<and>
    lastStatus p = (if written p = [] then [] else last (written p))"
  using assms
proof (induction ss arbitrary: p rule: rev_induct)
  case Nil
  then show ?case by (simp add: newStatusPrinter_def)
next
  case (snoc s ss)
  define q where "q = fold setStatus ss (newStatusPrinter present)"
  from snoc.IH [OF q_def] have q: "\<forall>i. Suc i < length (written q) \<longrightarrow> written q ! i \<noteq> written q ! Suc i" "[] \<notin> set (written q)"
    "lastStatus q = (if written q = [] then [] else last (written q))" by simp_all
  have p: "p = setStatus s q" using snoc.prems by (simp add: q_def)
  show ?case
  proof (cases "\<not> writer q \<or> s = [] \<or> s = lastStatus q")
    case True
    with p q show ?thesis by (simp add: setStatus_def)
  next
    case False
    then have w: "written p = written q @ [s]" "lastStatus p = s" using p by (simp_all add: setStatus_def)
    have "written p ! i \<noteq> written p ! Suc i" if i: "Suc i < length (written p)" for i
    proof (cases "Suc i < length (written q)")
      case True
      with q(1) w show ?thesis by (simp add: nth_append)
    next
      case l: False
      with i w have "i = length (written q) - 1" "written q \<noteq> []" by auto
      then have "written p ! i = last (written q)" "written p ! Suc i = s" "written q \<noteq> []"
        using w by (simp_all add: nth_append last_conv_nth)
      with False q(3) show ?thesis by auto
    qed
    with w q(2) False show ?thesis by auto
  qed
qed

subsection \<open>The program (\<^verbatim>\<open>cmd/assistant/main.go\<close>)\<close>

datatype logLevel = LevelDebug | LevelInfo | LevelWarn | LevelError

definition setupLogger :: "string \<Rightarrow> logLevel" where
  "setupLogger lvl =
     (if lvl = ''debug'' then LevelDebug
      else if lvl = ''warn'' then LevelWarn
      else if lvl = ''error'' then LevelError
      else LevelInfo)"

text \<open>What is printed, whether \<^verbatim>\<open>run\<close> is called, and the exit status.\<close>

definition mainProgram :: "bool \<Rightarrow> string \<Rightarrow> go_error option \<Rightarrow> string list \<times> bool \<times> nat" where
  "mainProgram version buildVersion result =
     (if version then ([''assistant v'' @ buildVersion], False, 0)
      else ([], True, case result of Some e \<Rightarrow> 1 | None \<Rightarrow> 0))"

subsection \<open>The coordinator's dependencies (\<^verbatim>\<open>internal/application/coordinator.go\<close>)\<close>

definition NewCoordinator :: "'s dependencies \<Rightarrow> appError + 's dependencies" where
  "NewCoordinator d =
     (if depInput d = None then Inl (invalidApplication ''voice input is nil'')
      else if depTranscriber d = None then Inl (invalidApplication ''transcriber is nil'')
      else if depResponder d = None then Inl (invalidApplication ''responder is nil'')
      else if depSynthesizer d = None then Inl (invalidApplication ''synthesizer is nil'')
      else if depPlayer d = None then Inl (invalidApplication ''player is nil'')
      else
       (let d1 = (if depObserver d = None then d\<lparr>depObserver := Some (\<lambda>_ s. s, None)\<rparr> else d)
        in Inr (if depView d1 = None then d1\<lparr>depView := Some (\<lambda>_ s. s, \<lambda>_ s. s)\<rparr> else d1)))"

text \<open>The coordinator and the sequential application ask for the same, and complete what is missing in the same way.\<close>

lemma coordinator_asks_as_application:
  "(case NewCoordinator d of Inl e \<Rightarrow> NewApplication ctxe clk d = Inl e | Inr d' \<Rightarrow> NewApplication ctxe clk d' = NewApplication ctxe clk d \<and>
     (\<exists>a. NewApplication ctxe clk d = Inr a))"
  by (cases "depInput d"; cases "depTranscriber d"; cases "depResponder d"; cases "depSynthesizer d"; cases "depPlayer d";
      cases "depObserver d"; cases "depView d") (simp_all add: NewCoordinator_def NewApplication_def Let_def split: prod.split)

section \<open>The log of the agent (\<^verbatim>\<open>internal/orchestrator/observability.go\<close>)\<close>

text \<open>Entries at debug level; durations are in milliseconds.\<close>

datatype agentLog =
    RoundEntry nat int int nat "stopReason option" string
  | ToolEntry nat string string bool "executionErrorCode option" int

definition milliseconds :: "duration \<Rightarrow> int" where
  "milliseconds d = go_quot d 1000000"

definition slogOnRound :: "roundTrace \<Rightarrow> agentLog list \<Rightarrow> agentLog list" where
  "slogOnRound rd entries =
     entries @ [RoundEntry (rdNumber rd) (milliseconds (rdModelDuration rd)) (milliseconds (rdDuration rd)) (length (rdTools rd)) (rdStop rd) (rdError rd)] @
     map (\<lambda>t. ToolEntry (rdNumber rd) (ttTool t) (ttCallID t) (ttSuccess t) (ttErrorCode t) (milliseconds (ttDuration t))) (rdTools rd)"

fun isToolEntry :: "agentLog \<Rightarrow> bool" where
  "isToolEntry (ToolEntry n t c b e d) = True"
| "isToolEntry (RoundEntry n m d t s e) = False"

text \<open>The log and the counters agree on how many rounds and tools there were.\<close>

lemma log_agrees_with_metrics:
  "length (filter (\<lambda>e. \<not> isToolEntry e) (fold slogOnRound rds entries)) = length (filter (\<lambda>e. \<not> isToolEntry e) entries) + length rds \<and>
   length (filter isToolEntry (fold slogOnRound rds entries)) = length (filter isToolEntry entries) + length (concat (map rdTools rds))"
proof (induction rds arbitrary: entries)
  case (Cons rd rds)
  have "filter isToolEntry (map (\<lambda>t. ToolEntry (rdNumber rd) (ttTool t) (ttCallID t) (ttSuccess t) (ttErrorCode t) (milliseconds (ttDuration t))) ts) =
      map (\<lambda>t. ToolEntry (rdNumber rd) (ttTool t) (ttCallID t) (ttSuccess t) (ttErrorCode t) (milliseconds (ttDuration t))) ts" for ts
    by (induction ts) simp_all
  moreover have "filter (\<lambda>e. \<not> isToolEntry e) (map (\<lambda>t. ToolEntry (rdNumber rd) (ttTool t) (ttCallID t) (ttSuccess t) (ttErrorCode t) (milliseconds (ttDuration t))) ts) = []" for ts
    by (induction ts) simp_all
  ultimately show ?case using Cons.IH [of "slogOnRound rd entries"] by (simp add: slogOnRound_def)
qed simp

end
