(* ===== verification/Server_Process.thy ===== *)
theory Server_Process
  imports Server_Manager
begin

text \<open>
  The process of the model server as the manager of Server_Manager is given it outside of tests, and the wait with a bound.
\<close>

section \<open>The server's process (\<^verbatim>\<open>internal/llm/server_manager.go\<close>)\<close>

text \<open>What ends a wait first.\<close>

datatype waitAnswer = ChannelClosed | WaitCancelled | WaitElapsed

definition waitChannel :: "waitAnswer \<Rightarrow> bool" where
  "waitChannel answer = (case answer of ChannelClosed \<Rightarrow> True | WaitCancelled \<Rightarrow> False | WaitElapsed \<Rightarrow> False)"

datatype osCall = OsStart string "string list" | OsWait | OsSignal | OsKill

text \<open>\<open>epRuns\<close>: the command has a process, which it has from a start that succeeded.\<close>

record execProcess =
  epBinary :: string
  epArgs :: "string list"
  epRuns :: bool
  epCalls :: "osCall list"

definition execNew :: "string \<Rightarrow> string list \<Rightarrow> execProcess" where
  "execNew binary args = \<lparr>epBinary = binary, epArgs = args, epRuns = False, epCalls = []\<rparr>"

definition execStart :: "go_error option \<Rightarrow> execProcess \<Rightarrow> go_error option \<times> execProcess" where
  "execStart answer p = (answer, p\<lparr>epRuns := (epRuns p \<or> answer = None), epCalls := epCalls p @ [OsStart (epBinary p) (epArgs p)]\<rparr>)"

definition execWait :: "go_error option \<Rightarrow> execProcess \<Rightarrow> go_error option \<times> execProcess" where
  "execWait answer p = (answer, p\<lparr>epCalls := epCalls p @ [OsWait]\<rparr>)"

definition execSignal :: "go_error option \<Rightarrow> execProcess \<Rightarrow> go_error option \<times> execProcess" where
  "execSignal answer p =
     (if \<not> epRuns p then (Some (Message ''process has not started''), p)
      else (answer, p\<lparr>epCalls := epCalls p @ [OsSignal]\<rparr>))"

definition execKill :: "go_error option \<Rightarrow> execProcess \<Rightarrow> go_error option \<times> execProcess" where
  "execKill answer p =
     (if \<not> epRuns p then (Some (Message ''process has not started''), p)
      else (answer, p\<lparr>epCalls := epCalls p @ [OsKill]\<rparr>))"

lemmas exec_defs = execStart_def execWait_def execSignal_def execKill_def

text \<open>Any use of a process: what is asked and what the system answers.\<close>

datatype execUse = UseStart "go_error option" | UseWait "go_error option" | UseSignal "go_error option" | UseKill "go_error option"

fun execUses :: "execUse list \<Rightarrow> execProcess \<Rightarrow> execProcess" where
  "execUses [] p = p"
| "execUses (UseStart a # us) p = execUses us (snd (execStart a p))"
| "execUses (UseWait a # us) p = execUses us (snd (execWait a p))"
| "execUses (UseSignal a # us) p = execUses us (snd (execSignal a p))"
| "execUses (UseKill a # us) p = execUses us (snd (execKill a p))"

text \<open>Signals only go to a process there is: however it is used, a start comes before every signal and kill.\<close>

lemma execUses_started:
  "(set (epCalls p) \<inter> {OsSignal, OsKill} \<noteq> {} \<or> epRuns p \<longrightarrow> OsStart b as \<in> set (epCalls p)) \<Longrightarrow> epBinary p = b \<Longrightarrow> epArgs p = as \<Longrightarrow>
   (set (epCalls (execUses us p)) \<inter> {OsSignal, OsKill} \<noteq> {} \<or> epRuns (execUses us p) \<longrightarrow> OsStart b as \<in> set (epCalls (execUses us p)))"
proof (induction us p rule: execUses.induct)
  case (1 p)
  then show ?case by simp
next
  case (2 a us p)
  show ?case unfolding execUses.simps by (rule 2(1)) (use 2(2-) in \<open>auto simp: exec_defs\<close>)
next
  case (3 a us p)
  show ?case unfolding execUses.simps by (rule 3(1)) (use 3(2-) in \<open>auto simp: exec_defs\<close>)
next
  case (4 a us p)
  show ?case unfolding execUses.simps by (rule 4(1)) (use 4(2-) in \<open>auto simp: exec_defs\<close>)
next
  case (5 a us p)
  show ?case unfolding execUses.simps by (rule 5(1)) (use 5(2-) in \<open>auto simp: exec_defs\<close>)
qed

lemma only_started_processes_signalled:
  "OsSignal \<in> set (epCalls (execUses us (execNew b as))) \<or> OsKill \<in> set (epCalls (execUses us (execNew b as))) \<Longrightarrow>
   OsStart b as \<in> set (epCalls (execUses us (execNew b as)))"
  using execUses_started [of "execNew b as" b as us] by (auto simp: execNew_def)

text \<open>The client of the health probe: the given one, or one whose requests end after five seconds.\<close>

definition NewHTTPHealthProbe :: "'c option \<Rightarrow> (duration \<Rightarrow> 'c) \<Rightarrow> 'c" where
  "NewHTTPHealthProbe client bounded = (case client of Some c \<Rightarrow> c | None \<Rightarrow> bounded 5000000000)"

end
