(* ===== verification/Spec2Isabelle.thy ===== *)
theory Spec2Isabelle
  imports Prelude Sentence_Buffer Wake Playback Turn_Calls Application Capture_System Capture_Once Barge_In Transcript_Bridge
    Observers Conversation Sandbox Server_Manager Inference Web_Tools Startup Acp Engines
    Gateway Utterances Message_Store Error_Values Microphone Presentation Server_Process
begin

text \<open>
  A voice assistant in Go: it records the microphone, finds the utterances, transcribes them, asks a language
  model with tools for an answer, speaks it, and can be interrupted while it speaks.  This library models the parts that
  decide what the assistant does, as they are written under \<^verbatim>\<open>src/\<close>, and proves what makes them correct.

  \<^bold>\<open>The turn.\<close>  Turn_Recorder has the states, error values and the trace of a turn (\<^verbatim>\<open>internal/application/application.go\<close>,
  \<^verbatim>\<open>interrupt.go\<close>).  Workers has the requests, channels and worker goroutines of the coordinator, Coordinator its \<^verbatim>\<open>Run\<close> and \<^verbatim>\<open>RunTurn\<close>
  with the buffered and the streaming response (\<^verbatim>\<open>coordinator.go\<close>, \<^verbatim>\<open>wake.go\<close>), Turn_Calls what a turn asks of its dependencies, and
  Application the sequential \<^verbatim>\<open>Application\<close> (\<^verbatim>\<open>application.go\<close>).  A turn is a function of a \<^emph>\<open>schedule\<close>: the list of the moves of the
  environment (a result arrives, a worker runs, the context ends, an interruption comes, time passes).  A turn whose schedule is used up
  before it returns has the value \<open>None\<close>; a theorem about the result of a turn speaks of the schedules on which it
  returns, and \<open>coordinator_refines_pipeline\<close> shows that with a prompt environment it does.  The states a
  turn shows are in pipeline order and end in one that fits its error; the responder is called only for a command the
  wake gate accepted; the sequential application and the coordinator implement the same abstract \<open>pipeline\<close>.
  Sentence_Buffer cuts a streamed answer into phrases (\<^verbatim>\<open>sentence_buffer.go\<close>), Wake finds the wake phrase and decides on an
  explicit stop (\<^verbatim>\<open>internal/wake/detector.go\<close>, \<^verbatim>\<open>internal/barge/policy.go\<close>), Barge_In turns recorded candidates into
  interruptions (\<^verbatim>\<open>barge_in.go\<close>, \<^verbatim>\<open>timed_input.go\<close>), Transcript_Bridge is the step relation of the preview and the final
  transcript (\<^verbatim>\<open>transcript.go\<close>), and Observers what \<^verbatim>\<open>cmd/assistant\<close> attaches to the events.

  \<^bold>\<open>Audio.\<close>  Audio_Format has buffers, PCM conversion and the pre-roll (\<^verbatim>\<open>internal/audio/buffer.go\<close>, \<^verbatim>\<open>preroll.go\<close>), Vad the voice
  activity detectors (\<^verbatim>\<open>internal/vad\<close>), behind the locale \<open>vad_detector\<close>.  Capture has the operations of the continuous recorder and
  Capture_System the interleaving of its reader, its consumers, the gate and \<^verbatim>\<open>Close\<close> (\<^verbatim>\<open>continuous_capture.go\<close>);
  Capture_Once the one-shot recording and the rearm guard (\<^verbatim>\<open>capture.go\<close>, \<^verbatim>\<open>rearm.go\<close>); Playback the player process
  (\<^verbatim>\<open>playback.go\<close>, \<^verbatim>\<open>response_playback.go\<close>, \<^verbatim>\<open>continuous_playback_guard.go\<close>).  Utterances are gapless stretches of what was heard while the
  assistant was silent, queues stay bounded and account for what they drop, processes are accounted for.

  \<^bold>\<open>The agent.\<close>  Tools has the tool policy, registry and executor (\<^verbatim>\<open>internal/tools/tool.go\<close>, \<^verbatim>\<open>policy.go\<close>, \<^verbatim>\<open>executor.go\<close>),
  Llm_Client the client of the model server with its stream parser (\<^verbatim>\<open>internal/llm/llama.go\<close>), Memory the conversation memory
  and its byte budget (\<^verbatim>\<open>internal/memory\<close>), Agent_Runtime the loop of model and tool rounds (\<^verbatim>\<open>internal/orchestrator\<close>) and
  Conversation the session that prepares the memory, runs the agent and commits (\<^verbatim>\<open>internal/conversation/session.go\<close>).  The
  locale \<open>bounded_memory\<close> is what the session relies on and \<open>model_contract\<close> what the runtime relies on; both are
  interpreted on the code's own memory and client.  File_Tree has the file system the tools work on, with symbolic links, and
  Sandbox the sandbox and the six filesystem tools (\<^verbatim>\<open>internal/tools/filesystem.go\<close>).

  \<^bold>\<open>The network and the processes.\<close>  Web_Client is the HTTP client of the web tools with its policy on URLs and addresses
  (\<^verbatim>\<open>internal/tools/safe_http.go\<close>): whatever DNS and redirects say, only addresses the policy lets through are dialled, for IPv4 the policy is
  exactly a block list, responses are bounded.  Web_Tools has the two web tools and the HTML stripping (\<^verbatim>\<open>websearch.go\<close>).
  Server_Manager is the life cycle of the model server as steps of its goroutines (\<^verbatim>\<open>internal/llm/server_manager.go\<close>), Inference the
  worker process for speech and its framed protocol (\<^verbatim>\<open>internal/inference\<close>): one process each, answers that belong to their
  requests, nothing left running after a stop.

  \<^bold>\<open>Starting.\<close>  Config has loading, defaults and validation of the configuration (\<^verbatim>\<open>internal/config\<close>), Startup the parts of \<^verbatim>\<open>cmd/assistant\<close>
  that build the program from it: a validated configuration passes every constructor of the built-in agent, the registry
  holds the tools the configuration allows, and whatever fails, what was opened is closed in the reverse order.

  \<^bold>\<open>Shared theories.\<close>  Prelude has errors, contexts and generic lemmas, Go_Text the strings of Go as bytes, UTF-8 and the functions of
  \<^verbatim>\<open>strings\<close> and \<^verbatim>\<open>unicode\<close> the program uses.

  \<^bold>\<open>Conventions.\<close>  A struct is a record, an error a value of \<open>go_error\<close> or of the package's own error type, a fallible function
  returns a sum or an option, a panic is the constructor \<open>Panic\<close>.  Go's \<^verbatim>\<open>int\<close> is \<open>int\<close>: the modelled code counts
  nothing that comes near 64 bits but the durations of the configuration, whose products wrap as written.  Samples are reals, so rounding of \<^verbatim>\<open>float32\<close> is not modelled; PCM samples are words of 16 bits.  Clocks,
  random choices of \<^verbatim>\<open>select\<close>, processes, the network, the decoder and the synthesizer are arguments.  Code that is
  not in the repository is a parameter with its documented behaviour as named hypotheses: the Unicode tables (\<open>unicode_db\<close>), the JSON decoder,
  the transport of HTTP, the Silero backend, the faults of the operating system.

  \<^bold>\<open>Bounds.\<close>  Loops that end by their data are recursive functions.  The agent loop runs at most one round more than \<^verbatim>\<open>maxToolRounds\<close>, by
  which its termination is proved.  Paths are walked through at most 255 links as in \<^verbatim>\<open>path/filepath\<close>, and 40 in the
  kernel.  Loops that wait for the environment consume its moves.

  \<^bold>\<open>Other engines.\<close>  Acp has the external agent of the voice gateway (\<^verbatim>\<open>internal/acp\<close>): a prompt is a function of the moves made while
  it runs (a line is read, its context ends, its goroutine or one left behind by an earlier prompt writes, the client is closed), and \<open>None\<close> when
  they leave it waiting: \<open>answered_prompt_returns\<close> shows that an answer ends it, \<open>silent_agent_blocks_prompt\<close> that an agent that says
  nothing does not.  What is spoken is what the agent says
  in the session, no permission is ever granted, and a failed start leaves no process.  Gateway starts it with the settings Config
  validated, as the response runtime of Startup.  Engines has the speech engines in the process and the calibration
  (\<^verbatim>\<open>internal/stt\<close>, \<^verbatim>\<open>internal/tts\<close>, \<^verbatim>\<open>cmd/calibrate\<close>), and Utterances shows that what the microphone hands on has their type.

  \<^bold>\<open>Around the components.\<close>  Message_Store has the histories as slices over cells and the copies the packages make of them, which justifies
  that all other theories have a history as a value.  Error_Values has the texts and the code tests of the seven error types.
  Microphone has the process of \<^verbatim>\<open>arecord\<close> that the continuous recorder owns, Server_Process the one of the model server, Presentation the console view, the logs and the construction
  of the coordinator.

  \<^bold>\<open>Not modelled.\<close>  Command-line flags, logging, the text of the console and the JSON schemas of the tools are glue and data.
  The sherpa binding, the worker scripts in other languages, models, tests and vendored code are outside.
\<close>

section \<open>Properties across components\<close>

text \<open>
  C12. The microphone gate follows the turn: when the observers of the assistant are given the events of any turn
  of the coordinator, the recorder is suppressed after an event exactly when that event says the
  assistant speaks, and after the turn, however it ended, capture is open again.
\<close>

theorem capture_gate_follows_turn:
  fixes k :: "'d desk"
  assumes "runTurn c turn w = Some ((res, err), w')" "evs = events (trec w')"
  shows "(\<forall>n. 0 < n \<and> n \<le> length evs \<longrightarrow>
      (suppressed (deskRecorder (fold mainOnEvent (take n evs) k)) \<longleftrightarrow> evState (evs ! (n - 1)) = state.StateSpeaking)) \<and>
    \<not> suppressed (deskRecorder (fold mainOnEvent evs k))"
proof -
  obtain mid f where m: "States (Trace res) = StateIdle # mid @ [f]" "sorted_wrt (<) (map rank mid)" "exit_ok f err"
      "evs = map (\<lambda>s. \<lparr>evTurn = turn, evState = s\<rparr>) (States (Trace res))"
    using runTurn_ends [OF assms(1)] assms(2) by auto
  have path: "map evState evs = StateIdle # mid @ [f]"
    using m(1,4) by (simp add: comp_def)
  from desk_gate.closed_on_path [OF path m(2) exit_opens_gate [OF m(3)]] desk_gate.open_after_path [OF path exit_opens_gate [OF m(3)]]
  show ?thesis by blast
qed

theorem capture_gate_follows_turn_witness:
  "\<exists>res w. runTurn demo_coordinator 1 (demo_world demo_turn) = Some ((res, None), w) \<and>
     (\<forall>k :: unit desk. \<not> suppressed (deskRecorder (fold mainOnEvent (events (trec w)) k)))"
proof -
  obtain res w where r: "runTurn demo_coordinator 1 (demo_world demo_turn) = Some ((res, None), w)"
    using demo_turn_runs by blast
  from capture_gate_follows_turn [OF r refl] r show ?thesis by blast
qed

end
